(* ===== verification/Prelude.thy ===== *)
theory Prelude
  imports Main "HOL-Library.Word" "HOL-Library.List_Lexorder" "HOL-Library.AList"
    "HOL-Library.Product_Lexorder" "HOL-Library.Code_Target_Nat"
begin

text \<open>
  Shared vocabulary of the development: the machine integers of the Rust sources, the three-valued
  \<open>std::cmp::Ordering\<close>, the loop shapes that occur in several components (an early-exit count, a
  sorted and deduplicated vector) and the lemmas about them.
\<close>

section \<open>Machine integers and byte strings\<close>

type_synonym u8 = "8 word"
type_synonym u32 = "32 word"
type_synonym u64 = "64 word"

text \<open>XDR opaque data (values, hashes, public keys) is a byte vector; Rust compares byte vectors
  lexicographically, which is the order of \<open>HOL-Library.List_Lexorder\<close>.\<close>

type_synonym bytes = "u8 list"

definition u32_max :: u32 where
  "u32_max = 4294967295"

definition usize_max :: nat where
  "usize_max = 18446744073709551615"

text \<open>\<open>usize::saturating_add\<close> on a 64-bit target.\<close>

definition usize_saturating_add :: "nat \<Rightarrow> nat \<Rightarrow> nat" where
  "usize_saturating_add a b = min (a + b) usize_max"

text \<open>\<open>u32::saturating_add\<close> and \<open>u32::saturating_sub\<close>.\<close>

definition u32_saturating_add :: "u32 \<Rightarrow> u32 \<Rightarrow> u32" where
  "u32_saturating_add a b = (if unat a + unat b < 2 ^ 32 then a + b else u32_max)"

definition u32_saturating_sub :: "u32 \<Rightarrow> u32 \<Rightarrow> u32" where
  "u32_saturating_sub a b = (if b \<le> a then a - b else 0)"

lemma u32_le_max [simp]: "(x :: u32) \<le> u32_max"
  using unsigned_less [of x, where ?'a = nat] by (simp add: u32_max_def word_le_nat_alt)

lemma unat_u32_bound: "unat (x :: u32) < 4294967296"
  using unsigned_less [of x, where ?'a = nat] by simp

lemma unat_u32_saturating_sub: "unat (u32_saturating_sub a b) = unat a - unat b"
  by (simp add: u32_saturating_sub_def word_le_nat_alt unat_sub)

section \<open>Fallible computations\<close>

text \<open>Sequencing of computations that may fail (\<open>Inl\<close> is the failure), as \<open>?\<close> and unwinding do.\<close>

definition bindE :: "'e + 'a \<Rightarrow> ('a \<Rightarrow> 'e + 'b) \<Rightarrow> 'e + 'b" where
  "bindE m f = (case m of Inl e \<Rightarrow> Inl e | Inr x \<Rightarrow> f x)"

lemma bindE_simps [simp]:
  "bindE (Inl e) f = Inl e"
  "bindE (Inr x) f = f x"
  by (simp_all add: bindE_def)

lemma bindE_Inr_iff: "bindE m f = Inr y \<longleftrightarrow> (\<exists>x. m = Inr x \<and> f x = Inr y)"
  by (cases m) auto

lemma bindE_Inl_iff: "bindE m f = Inl e \<longleftrightarrow> m = Inl e \<or> (\<exists>x. m = Inr x \<and> f x = Inl e)"
  by (cases m) auto

lemma bindE_InrE [elim!]:
  assumes "bindE m f = Inr y"
  obtains x where "m = Inr x" "f x = Inr y"
  using assms by (auto simp: bindE_Inr_iff)

text \<open>The shape of a computation that has been evaluated to success.\<close>

lemma Inr_TrueI: "\<not> isl x \<Longrightarrow> fst (projr x) \<Longrightarrow> x = Inr (True, snd (projr x))"
  by (cases x) auto

section \<open>Orderings\<close>

datatype ordering = Less | Equal | Greater

definition cmp :: "'a :: linorder \<Rightarrow> 'a \<Rightarrow> ordering" where
  "cmp a b = (if a < b then Less else if a = b then Equal else Greater)"

lemma cmp_simps [simp]:
  "cmp a b = Less \<longleftrightarrow> a < b"
  "cmp a b = Equal \<longleftrightarrow> a = b"
  "cmp a b = Greater \<longleftrightarrow> b < a"
  "cmp a a = Equal"
  by (auto simp: cmp_def)

text \<open>\<open>Ordering::reverse\<close> and \<open>Ordering::then_with\<close>.\<close>

fun rev_ord :: "ordering \<Rightarrow> ordering" where
  "rev_ord Less = Greater"
| "rev_ord Equal = Equal"
| "rev_ord Greater = Less"

fun then_ord :: "ordering \<Rightarrow> ordering \<Rightarrow> ordering" where
  "then_ord Equal r = r"
| "then_ord q r = q"

lemma then_ord_eq [simp]:
  "then_ord q r = Equal \<longleftrightarrow> q = Equal \<and> r = Equal"
  "then_ord q r = Less \<longleftrightarrow> q = Less \<or> q = Equal \<and> r = Less"
  "then_ord q r = Greater \<longleftrightarrow> q = Greater \<or> q = Equal \<and> r = Greater"
  by (cases q; simp)+

lemma rev_ord_then_ord: "rev_ord (then_ord q r) = then_ord (rev_ord q) (rev_ord r)"
  by (cases q) simp_all

lemma rev_ord_cmp: "rev_ord (cmp a b) = cmp b a"
  by (auto simp: cmp_def)

text \<open>
  The loop \<open>for (x, y) in a.iter().zip(b) { let o = f(x, y); if o != Equal { return o; } }\<close>, and
  that loop followed by the comparison of the lengths.
\<close>

fun zip_cmp :: "('a \<Rightarrow> 'a \<Rightarrow> ordering) \<Rightarrow> 'a list \<Rightarrow> 'a list \<Rightarrow> ordering" where
  "zip_cmp f (x # xs) (y # ys) = (if f x y \<noteq> Equal then f x y else zip_cmp f xs ys)"
| "zip_cmp f _ _ = Equal"

definition seq_cmp :: "('a \<Rightarrow> 'a \<Rightarrow> ordering) \<Rightarrow> 'a list \<Rightarrow> 'a list \<Rightarrow> ordering" where
  "seq_cmp f xs ys = then_ord (zip_cmp f xs ys) (cmp (length xs) (length ys))"

lemma seq_cmp_simps [simp]:
  "seq_cmp f [] [] = Equal"
  "seq_cmp f [] (y # ys) = Less"
  "seq_cmp f (x # xs) [] = Greater"
  "seq_cmp f (x # xs) (y # ys) = then_ord (f x y) (seq_cmp f xs ys)"
  by (cases "f x y"; simp add: seq_cmp_def cmp_def)+

lemma seq_cmp_cong [fundef_cong]:
  assumes "xs = xs'" "ys = ys'" "\<And>x y. x \<in> set xs' \<Longrightarrow> y \<in> set ys' \<Longrightarrow> f x y = g x y"
  shows "seq_cmp f xs ys = seq_cmp g xs' ys'"
proof -
  have "zip_cmp f xs' ys' = zip_cmp g xs' ys'"
    using assms(3) by (induction g xs' ys' rule: zip_cmp.induct) auto
  with assms(1,2) show ?thesis by (simp add: seq_cmp_def)
qed

lemma seq_cmp_Equal:
  "(\<And>x y. x \<in> set xs \<Longrightarrow> f x y = Equal \<longleftrightarrow> x = y) \<Longrightarrow> seq_cmp f xs ys = Equal \<longleftrightarrow> xs = ys"
proof (induction xs arbitrary: ys)
  case Nil
  then show ?case by (cases ys) auto
next
  case (Cons x xs)
  then show ?case by (cases ys) auto
qed

lemma seq_cmp_rev:
  "(\<And>x y. x \<in> set xs \<Longrightarrow> rev_ord (f x y) = f y x) \<Longrightarrow> rev_ord (seq_cmp f xs ys) = seq_cmp f ys xs"
proof (induction xs arbitrary: ys)
  case Nil
  then show ?case by (cases ys) auto
next
  case (Cons x xs)
  then show ?case by (cases ys) (auto simp: rev_ord_then_ord)
qed

lemma seq_cmp_trans:
  assumes eq: "\<And>y z. f y z = Equal \<longleftrightarrow> y = z"
    and tr: "\<And>x y z. x \<in> set xs \<Longrightarrow> f x y = Less \<Longrightarrow> f y z = Less \<Longrightarrow> f x z = Less"
    and "seq_cmp f xs ys = Less" "seq_cmp f ys zs = Less"
  shows "seq_cmp f xs zs = Less"
  using tr assms(3,4)
proof (induction xs arbitrary: ys zs)
  case Nil
  then show ?case by (cases ys; cases zs) auto
next
  case (Cons x xs)
  from Cons.prems(2,3) obtain y ys' z zs' where [simp]: "ys = y # ys'" "zs = z # zs'"
    by (cases ys; cases zs) auto
  from Cons.prems(2) consider "f x y = Less" | "x = y" "seq_cmp f xs ys' = Less"
    by (auto simp: eq)
  then show ?case
  proof cases
    case 1
    with Cons.prems(3) Cons.prems(1) [of x y z] show ?thesis by (auto simp: eq)
  next
    case 2
    with Cons.prems(3) consider "f x z = Less" | "x = z" "seq_cmp f ys' zs' = Less"
      by (auto simp: eq)
    then show ?thesis
    proof cases
      case 2
      have "seq_cmp f xs zs' = Less"
        using Cons.IH [OF _ \<open>seq_cmp f xs ys' = Less\<close> 2(2)] Cons.prems(1)
        by (meson list.set_intros(2))
      with \<open>x = z\<close> show ?thesis by (simp add: eq)
    qed simp
  qed
qed

section \<open>Counting loops\<close>

text \<open>
  The loop \<open>for x in xs { if p(x) { count += 1; if count >= t { return true; } } }\<close>: \<open>None\<close> is
  the early return, \<open>Some c\<close> the count with which the loop ends.
\<close>

fun count_until :: "nat \<Rightarrow> ('a \<Rightarrow> bool) \<Rightarrow> nat \<Rightarrow> 'a list \<Rightarrow> nat option" where
  "count_until t p c [] = Some c"
| "count_until t p c (x # xs) =
     (if p x
      then (if c + 1 \<ge> t then None else count_until t p (c + 1) xs)
      else count_until t p c xs)"

lemma count_until_cong [fundef_cong]:
  assumes "t = t'" "c = c'" "xs = ys" "\<And>x. x \<in> set ys \<Longrightarrow> p x = q x"
  shows "count_until t p c xs = count_until t' q c' ys"
proof -
  have "count_until t p c ys = count_until t q c ys"
    using assms(4) by (induction ys arbitrary: c) auto
  then show ?thesis using assms(1-3) by simp
qed

abbreviation count_if :: "('a \<Rightarrow> bool) \<Rightarrow> 'a list \<Rightarrow> nat" where
  "count_if p xs \<equiv> length (filter p xs)"

text \<open>The early exit changes nothing but the running time.\<close>

lemma count_until_spec:
  "c < t \<Longrightarrow> count_until t p c xs =
     (if c + count_if p xs \<ge> t then None else Some (c + count_if p xs))"
  by (induction xs arbitrary: c) auto

lemma count_if_mono:
  "(\<And>x. x \<in> set xs \<Longrightarrow> p x \<Longrightarrow> q x) \<Longrightarrow> count_if p xs \<le> count_if q xs"
  by (induction xs) auto

lemma count_if_compl: "count_if p xs + count_if (\<lambda>x. \<not> p x) xs = length xs"
  by (induction xs) auto

lemma count_if_cong:
  "(\<And>x. x \<in> set xs \<Longrightarrow> p x = q x) \<Longrightarrow> count_if p xs = count_if q xs"
  by (induction xs) auto

section \<open>Sorted, deduplicated vectors\<close>

text \<open>
  \<open>v.sort(); v.dedup()\<close> and the iteration order of a \<open>BTreeSet\<close> are both the strictly increasing
  list of the elements.
\<close>

abbreviation sorted_dedup :: "'a :: linorder list \<Rightarrow> 'a list" where
  "sorted_dedup xs \<equiv> remdups_adj (sort xs)"

lemma sort_key_eq_Nil [simp]: "sort_key f xs = [] \<longleftrightarrow> xs = []"
  by (metis length_0_conv length_sort)

lemma distinct_iff_sorted_adj: "sorted xs \<Longrightarrow> distinct xs \<longleftrightarrow> distinct_adj xs"
proof (induction xs)
  case (Cons x xs)
  then show ?case by (cases xs) auto
qed simp

lemma set_sorted_dedup [simp]: "set (sorted_dedup xs) = set xs"
  by simp

lemma sorted_dedup_sorted [simp]: "sorted (sorted_dedup xs)"
  by simp

lemma sorted_dedup_distinct [simp]: "distinct (sorted_dedup xs)"
  using distinct_adj_remdups_adj [of "sort xs"]
  by (simp add: distinct_iff_sorted_adj)

lemma sorted_dedup_Nil [simp]: "sorted_dedup xs = [] \<longleftrightarrow> xs = []"
  by (metis set_empty set_sorted_dedup)

end
