(* ===== verification/Quorum.thy ===== *)
theory Quorum
  imports Prelude
begin

text \<open>
  Quorum sets (\<open>crates/scp/src/quorum.rs\<close>): slice satisfaction, the quorum test by iterative
  pruning, v-blocking sets, the sanity checker, the closest v-blocking set and normalisation.
\<close>

section \<open>The data\<close>

text \<open>A node is its 32-byte ed25519 key; \<open>node_id_cmp\<close> compares the key bytes.\<close>

type_synonym node_id = bytes

datatype scp_quorum_set =
  ScpQuorumSet (threshold: u32) (validators: "node_id list") (inner_sets: "scp_quorum_set list")

definition MAXIMUM_QUORUM_NESTING_LEVEL :: nat where
  "MAXIMUM_QUORUM_NESTING_LEVEL = 4"

definition MAXIMUM_QUORUM_NODES :: nat where
  "MAXIMUM_QUORUM_NODES = 1000"

section \<open>Slices, quorums and blocking sets\<close>

fun is_quorum_slice :: "scp_quorum_set \<Rightarrow> node_id set \<Rightarrow> bool" where
  "is_quorum_slice (ScpQuorumSet th vs inner) nodes =
     (let t = unat th in
      if t = 0 then False
      else case count_until t (\<lambda>v. v \<in> nodes) 0 vs of
        None \<Rightarrow> True
      | Some c \<Rightarrow>
          (case count_until t (\<lambda>i. is_quorum_slice i nodes) c inner of
             None \<Rightarrow> True
           | Some c' \<Rightarrow> c' \<ge> t))"

text \<open>
  One round of the pruning loop of \<open>is_quorum\<close>: \<open>remaining.retain(\<dots>)\<close> against the set that the
  round started from. The vector \<open>remaining\<close> enumerates the caller's hash set.
\<close>

definition prune_round :: "(node_id \<Rightarrow> scp_quorum_set option) \<Rightarrow> node_id list \<Rightarrow> node_id list" where
  "prune_round get_quorum_set remaining =
     filter (\<lambda>n. case get_quorum_set n of
                   Some qs \<Rightarrow> is_quorum_slice qs (set remaining)
                 | None \<Rightarrow> False) remaining"

lemma length_prune_round: "length (prune_round g xs) \<le> length xs"
  by (simp add: prune_round_def)

function prune_loop :: "(node_id \<Rightarrow> scp_quorum_set option) \<Rightarrow> node_id list \<Rightarrow> node_id list" where
  "prune_loop g remaining =
     (let remaining' = prune_round g remaining in
      if length remaining' = length remaining then remaining' else prune_loop g remaining')"
  by pat_completeness auto
termination
proof (relation "measure (\<lambda>(g, xs). length xs)")
  fix g :: "node_id \<Rightarrow> scp_quorum_set option" and xs ys
  assume "ys = prune_round g xs" "length ys \<noteq> length xs"
  then show "((g, ys), g, xs) \<in> measure (\<lambda>(g, xs). length xs)"
    using length_prune_round [of g xs] by simp
qed simp

declare prune_loop.simps [simp del]

definition is_quorum ::
  "scp_quorum_set \<Rightarrow> node_id list \<Rightarrow> (node_id \<Rightarrow> scp_quorum_set option) \<Rightarrow> bool" where
  "is_quorum quorum_set nodes get_quorum_set =
     is_quorum_slice quorum_set (set (prune_loop get_quorum_set nodes))"

fun is_v_blocking :: "scp_quorum_set \<Rightarrow> node_id set \<Rightarrow> bool" where
  "is_v_blocking (ScpQuorumSet th vs inner) nodes =
     (let total = length vs + length inner; t = unat th in
      if t = 0 then False
      else
        let blocking_threshold = (total - t) + 1 in
        length (filter (\<lambda>v. v \<in> nodes) vs) + length (filter (\<lambda>i. is_v_blocking i nodes) inner)
          \<ge> blocking_threshold)"

section \<open>Sanity\<close>

datatype sanity_error =
  NestingLevelExceeded
| ThresholdNotPositive
| ThresholdExceedsTotal
| ThresholdBelowVBlocking
| DuplicateNode
| NodeCountOutOfRange

record sanity_checker =
  known_nodes :: "node_id set"
  sc_count :: nat

text \<open>\<open>for node in validators { if !known_nodes.insert(node) { return Err(..) } }\<close>\<close>

fun insert_known :: "node_id list \<Rightarrow> sanity_checker \<Rightarrow> sanity_error + sanity_checker" where
  "insert_known [] c = Inr c"
| "insert_known (n # ns) c =
     (if n \<in> known_nodes c then Inl DuplicateNode
      else insert_known ns (c\<lparr>known_nodes := insert n (known_nodes c)\<rparr>))"

fun check_sanity :: "bool \<Rightarrow> scp_quorum_set \<Rightarrow> nat \<Rightarrow> sanity_checker \<Rightarrow> sanity_error + sanity_checker"
  and check_sanity_all ::
    "bool \<Rightarrow> scp_quorum_set list \<Rightarrow> nat \<Rightarrow> sanity_checker \<Rightarrow> sanity_error + sanity_checker" where
  "check_sanity extra_checks (ScpQuorumSet th vs inner) depth c =
     (if depth > MAXIMUM_QUORUM_NESTING_LEVEL then Inl NestingLevelExceeded
      else if th < 1 then Inl ThresholdNotPositive
      else
        let total = length vs + length inner in
        if unat th > total then Inl ThresholdExceedsTotal
        else
          let v_blocking_size = (total - unat th) + 1 in
          if extra_checks \<and> unat th < v_blocking_size then Inl ThresholdBelowVBlocking
          else
            case insert_known vs (c\<lparr>sc_count := usize_saturating_add (sc_count c) (length vs)\<rparr>) of
              Inl e \<Rightarrow> Inl e
            | Inr c' \<Rightarrow> check_sanity_all extra_checks inner (depth + 1) c')"
| "check_sanity_all extra_checks [] depth c = Inr c"
| "check_sanity_all extra_checks (q # qs) depth c =
     (case check_sanity extra_checks q depth c of
        Inl e \<Rightarrow> Inl e
      | Inr c' \<Rightarrow> check_sanity_all extra_checks qs depth c')"

definition is_quorum_set_sane :: "scp_quorum_set \<Rightarrow> bool \<Rightarrow> sanity_error + unit" where
  "is_quorum_set_sane quorum_set extra_checks =
     (case check_sanity extra_checks quorum_set 0 \<lparr>known_nodes = {}, sc_count = 0\<rparr> of
        Inl e \<Rightarrow> Inl e
      | Inr c \<Rightarrow>
          if sc_count c < 1 \<or> sc_count c > MAXIMUM_QUORUM_NODES then Inl NodeCountOutOfRange
          else Inr ())"

fun is_valid_quorum_set :: "scp_quorum_set \<Rightarrow> bool" where
  "is_valid_quorum_set (ScpQuorumSet th vs inner) =
     (if unat th > length vs + length inner then False
      else list_all is_valid_quorum_set inner)"

section \<open>Nodes of a quorum set, simple sets\<close>

text \<open>The nodes in the order \<open>collect_nodes\<close> visits them.\<close>

fun collect_nodes :: "scp_quorum_set \<Rightarrow> node_id list" where
  "collect_nodes (ScpQuorumSet th vs inner) = vs @ concat (map collect_nodes inner)"

definition get_all_nodes :: "scp_quorum_set \<Rightarrow> node_id set" where
  "get_all_nodes quorum_set = set (collect_nodes quorum_set)"

definition simple_quorum_set :: "u32 \<Rightarrow> node_id list \<Rightarrow> scp_quorum_set" where
  "simple_quorum_set th vs = ScpQuorumSet th vs []"

definition singleton_quorum_set :: "node_id \<Rightarrow> scp_quorum_set" where
  "singleton_quorum_set n = simple_quorum_set 1 [n]"

section \<open>The closest v-blocking set\<close>

text \<open>
  The loop over the validators: \<open>None\<close> is the early \<open>return Vec::new()\<close>, otherwise the collected
  \<open>res\<close> and what is left of \<open>left_till_block\<close>.
\<close>

fun fcvb_validators ::
  "node_id set \<Rightarrow> node_id option \<Rightarrow> node_id list \<Rightarrow> int \<Rightarrow> node_id list \<Rightarrow> (node_id list \<times> int) option" where
  "fcvb_validators nodes excluded [] left res = Some (res, left)"
| "fcvb_validators nodes excluded (v # vs) left res =
     (if excluded = Some v then fcvb_validators nodes excluded vs left res
      else if v \<in> nodes then fcvb_validators nodes excluded vs left (res @ [v])
      else if left - 1 = 0 then None
      else fcvb_validators nodes excluded vs (left - 1) res)"

text \<open>The loop over the results for the inner sets, which pushes \<open>(v.len(), index, v)\<close>.\<close>

fun fcvb_inner ::
  "nat \<Rightarrow> node_id list list \<Rightarrow> int \<Rightarrow> (nat \<times> nat \<times> node_id list) list
    \<Rightarrow> ((nat \<times> nat \<times> node_id list) list \<times> int) option" where
  "fcvb_inner idx [] left acc = Some (acc, left)"
| "fcvb_inner idx (v # vs) left acc =
     (if v = []
      then (if left - 1 = 0 then None else fcvb_inner (idx + 1) vs (left - 1) acc)
      else fcvb_inner (idx + 1) vs left (acc @ [(length v, idx, v)]))"

text \<open>The final \<open>while\<close> loop over the sorted internals.\<close>

fun fcvb_extend :: "(nat \<times> nat \<times> node_id list) list \<Rightarrow> int \<Rightarrow> node_id list \<Rightarrow> node_id list" where
  "fcvb_extend [] left res = res"
| "fcvb_extend (x # xs) left res =
     (if left \<noteq> 0 then fcvb_extend xs (left - 1) (res @ snd (snd x)) else res)"

fun find_closest_v_blocking :: "scp_quorum_set \<Rightarrow> node_id set \<Rightarrow> node_id option \<Rightarrow> node_id list" where
  "find_closest_v_blocking (ScpQuorumSet th vs inner) nodes excluded =
     (let left0 = 1 + int (length vs) + int (length inner) - int (unat th) in
      if left0 \<le> 0 then []
      else case fcvb_validators nodes excluded vs left0 [] of
        None \<Rightarrow> []
      | Some (res, left1) \<Rightarrow>
          (case fcvb_inner 0 (map (\<lambda>i. find_closest_v_blocking i nodes excluded) inner) left1 [] of
             None \<Rightarrow> []
           | Some (internals, left2) \<Rightarrow>
               let res' = (if length res > nat left2 then take (nat left2) res else res);
                   left3 = left2 - int (length res')
               in fcvb_extend (sort_key (\<lambda>x. (fst x, fst (snd x))) internals) left3 res'))"

section \<open>Normalisation\<close>

definition node_id_cmp :: "node_id \<Rightarrow> node_id \<Rightarrow> ordering" where
  "node_id_cmp a b = cmp a b"

fun quorum_set_cmp :: "scp_quorum_set \<Rightarrow> scp_quorum_set \<Rightarrow> ordering" where
  "quorum_set_cmp (ScpQuorumSet ta va ia) (ScpQuorumSet tb vb ib) =
     then_ord (seq_cmp node_id_cmp va vb)
       (then_ord (seq_cmp quorum_set_cmp ia ib) (cmp ta tb))"

lemma quorum_set_cmp_Equal: "quorum_set_cmp a b = Equal \<longleftrightarrow> a = b"
proof (induction a arbitrary: b)
  case (ScpQuorumSet ta va ia)
  then show ?case
    by (cases b) (auto simp: seq_cmp_Equal node_id_cmp_def)
qed

lemma quorum_set_cmp_rev: "rev_ord (quorum_set_cmp a b) = quorum_set_cmp b a"
proof (induction a arbitrary: b)
  case (ScpQuorumSet ta va ia)
  then show ?case
    by (cases b) (simp add: seq_cmp_rev node_id_cmp_def rev_ord_cmp rev_ord_then_ord)
qed

lemma quorum_set_cmp_trans:
  "quorum_set_cmp a b = Less \<Longrightarrow> quorum_set_cmp b c = Less \<Longrightarrow> quorum_set_cmp a c = Less"
proof (induction a arbitrary: b c)
  case (ScpQuorumSet ta va ia)
  obtain tb vb ib tc vc ic where
    [simp]: "b = ScpQuorumSet tb vb ib" "c = ScpQuorumSet tc vc ic"
    by (metis scp_quorum_set.exhaust)
  have v: "seq_cmp node_id_cmp x y = Equal \<longleftrightarrow> x = y" for x y
    by (rule seq_cmp_Equal) (simp add: node_id_cmp_def)
  have vt: "seq_cmp node_id_cmp x y = Less \<Longrightarrow> seq_cmp node_id_cmp y z = Less \<Longrightarrow>
      seq_cmp node_id_cmp x z = Less" for x y z
    by (rule seq_cmp_trans [where ys = y]) (auto simp: node_id_cmp_def)
  have i: "seq_cmp quorum_set_cmp x y = Equal \<longleftrightarrow> x = y" for x y
    by (rule seq_cmp_Equal) (simp add: quorum_set_cmp_Equal)
  have it: "seq_cmp quorum_set_cmp ia ib = Less \<Longrightarrow> seq_cmp quorum_set_cmp ib ic = Less \<Longrightarrow>
      seq_cmp quorum_set_cmp ia ic = Less"
    by (rule seq_cmp_trans [where ys = ib]) (auto simp: quorum_set_cmp_Equal dest: ScpQuorumSet.IH)
  show ?case
    using ScpQuorumSet.prems by (auto simp: v i dest: vt it)
qed

text \<open>\<open>quorum_set_cmp\<close> is a total order, so the library's \<open>sort\<close> is the stable sort by it.\<close>

instantiation scp_quorum_set :: linorder
begin

definition less_eq_scp_quorum_set :: "scp_quorum_set \<Rightarrow> scp_quorum_set \<Rightarrow> bool" where
  "less_eq_scp_quorum_set a b \<longleftrightarrow> quorum_set_cmp a b \<noteq> Greater"

definition less_scp_quorum_set :: "scp_quorum_set \<Rightarrow> scp_quorum_set \<Rightarrow> bool" where
  "less_scp_quorum_set a b \<longleftrightarrow> quorum_set_cmp a b = Less"

instance
proof
  fix a b c :: scp_quorum_set
  show "(a < b) = (a \<le> b \<and> \<not> b \<le> a)"
    unfolding less_eq_scp_quorum_set_def less_scp_quorum_set_def quorum_set_cmp_rev [of a b, symmetric]
    by (cases "quorum_set_cmp a b") auto
  show "a \<le> a"
    using quorum_set_cmp_Equal [of a a] by (simp add: less_eq_scp_quorum_set_def)
  show "a \<le> c" if "a \<le> b" "b \<le> c"
    using that quorum_set_cmp_trans [of a b c] quorum_set_cmp_Equal
    unfolding less_eq_scp_quorum_set_def by (metis ordering.exhaust ordering.distinct(4))
  show "a = b" if "a \<le> b" "b \<le> a"
    using that quorum_set_cmp_Equal [of a b] quorum_set_cmp_rev [of a b, symmetric]
    unfolding less_eq_scp_quorum_set_def by (cases "quorum_set_cmp a b") auto
  show "a \<le> b \<or> b \<le> a"
    using quorum_set_cmp_rev [of a b, symmetric]
    unfolding less_eq_scp_quorum_set_def by (cases "quorum_set_cmp a b") auto
qed

end

lemma cmp_quorum_set: "quorum_set_cmp a b = cmp a b"
  using quorum_set_cmp_Equal [of a b]
  by (cases "quorum_set_cmp a b") (auto simp: cmp_def less_scp_quorum_set_def)

fun normalize_quorum_set_reorder :: "scp_quorum_set \<Rightarrow> scp_quorum_set" where
  "normalize_quorum_set_reorder (ScpQuorumSet th vs inner) =
     ScpQuorumSet th (sort vs) (sort (map normalize_quorum_set_reorder inner))"

definition is_singleton_set :: "scp_quorum_set \<Rightarrow> bool" where
  "is_singleton_set q \<longleftrightarrow> threshold q = 1 \<and> length (validators q) = 1 \<and> inner_sets q = []"

text \<open>\<open>if let Some(id) = id_to_remove { \<dots> }\<close>: the retained validators and the new threshold.\<close>

definition remove_validator :: "node_id option \<Rightarrow> u32 \<Rightarrow> node_id list \<Rightarrow> u32 \<times> node_id list" where
  "remove_validator id_to_remove th vs =
     (case id_to_remove of
        None \<Rightarrow> (th, vs)
      | Some i \<Rightarrow>
          let vs' = filter (\<lambda>n. n \<noteq> i) vs; removed_count = length vs - length vs'
          in (u32_saturating_sub th (of_nat removed_count), vs'))"

text \<open>The last step: a 1-of-1 set that only wraps an inner set is replaced by it.\<close>

definition collapse_single :: "scp_quorum_set \<Rightarrow> scp_quorum_set" where
  "collapse_single q =
     (if threshold q = 1 \<and> validators q = [] \<and> length (inner_sets q) = 1
      then inner_sets q ! 0 else q)"

fun normalize_quorum_set_simplify :: "scp_quorum_set \<Rightarrow> node_id option \<Rightarrow> scp_quorum_set"
  and simplify_inner ::
    "scp_quorum_set list \<Rightarrow> node_id option \<Rightarrow> node_id list \<Rightarrow> scp_quorum_set list \<times> node_id list" where
  "normalize_quorum_set_simplify (ScpQuorumSet th vs inner) id_to_remove =
     (let (th', merged) = remove_validator id_to_remove th vs;
          (inner', merged') = simplify_inner inner id_to_remove merged
      in collapse_single (ScpQuorumSet th' merged' inner'))"
| "simplify_inner [] id_to_remove merged = ([], merged)"
| "simplify_inner (q # qs) id_to_remove merged =
     (let q' = normalize_quorum_set_simplify q id_to_remove in
      if is_singleton_set q'
      then simplify_inner qs id_to_remove (merged @ [validators q' ! 0])
      else let (r, m) = simplify_inner qs id_to_remove merged in (q' # r, m))"

definition normalize_quorum_set_with_remove :: "scp_quorum_set \<Rightarrow> node_id option \<Rightarrow> scp_quorum_set" where
  "normalize_quorum_set_with_remove q id_to_remove =
     normalize_quorum_set_reorder (normalize_quorum_set_simplify q id_to_remove)"

definition normalize_quorum_set :: "scp_quorum_set \<Rightarrow> scp_quorum_set" where
  "normalize_quorum_set q = normalize_quorum_set_with_remove q None"

end
