(* ===== verification/Statements.thy ===== *)
theory Statements
  imports Quorum "HOL-Library.Option_ord"
begin

text \<open>
  SCP ballots, statements and envelopes, and the comparisons on them: the ballot order and
  compatibility (end of \<open>crates/scp/src/ballot/statements.rs\<close>), the freshness of statements
  (\<open>crates/scp/src/compare.rs\<close>), the values and quorum-set hash a statement carries, and the
  validation levels of \<open>crates/scp/src/driver.rs\<close>.
\<close>

section \<open>Ballots\<close>

type_synonym scp_value = bytes
type_synonym hash256 = bytes

datatype scp_ballot = ScpBallot (counter: u32) (bvalue: scp_value)

definition ballot_compare :: "scp_ballot \<Rightarrow> scp_ballot \<Rightarrow> ordering" where
  "ballot_compare a b =
     (case cmp (counter a) (counter b) of
        Equal \<Rightarrow> cmp (bvalue a) (bvalue b)
      | other \<Rightarrow> other)"

instantiation scp_ballot :: linorder
begin

definition less_eq_scp_ballot :: "scp_ballot \<Rightarrow> scp_ballot \<Rightarrow> bool" where
  "less_eq_scp_ballot a b \<longleftrightarrow> ballot_compare a b \<noteq> Greater"

definition less_scp_ballot :: "scp_ballot \<Rightarrow> scp_ballot \<Rightarrow> bool" where
  "less_scp_ballot a b \<longleftrightarrow> ballot_compare a b = Less"

instance
proof
  fix a b c :: scp_ballot
  show "(a < b) = (a \<le> b \<and> \<not> b \<le> a)"
    by (auto simp: less_eq_scp_ballot_def less_scp_ballot_def ballot_compare_def cmp_def
        split: ordering.splits if_splits)
  show "a \<le> a"
    by (simp add: less_eq_scp_ballot_def ballot_compare_def)
  show "a \<le> c" if "a \<le> b" "b \<le> c"
    using that by (auto simp: less_eq_scp_ballot_def ballot_compare_def cmp_def
        split: ordering.splits if_splits)
  show "a = b" if "a \<le> b" "b \<le> a"
    using that by (auto simp: less_eq_scp_ballot_def ballot_compare_def cmp_def
        split: ordering.splits if_splits intro: scp_ballot.expand)
  show "a \<le> b \<or> b \<le> a"
    by (auto simp: less_eq_scp_ballot_def ballot_compare_def cmp_def
        split: ordering.splits if_splits)
qed

end

text \<open>The comparison of the code is the comparison of the order: counter first, then value.\<close>

lemma ballot_compare_cmp [simp]: "ballot_compare a b = cmp a b"
proof -
  have "ballot_compare a b = Equal \<longleftrightarrow> a = b"
    by (auto simp: ballot_compare_def split: ordering.splits intro: scp_ballot.expand)
  then show ?thesis
    by (cases "ballot_compare a b") (auto simp: cmp_def less_scp_ballot_def)
qed

lemma ballot_less_iff:
  "a < b \<longleftrightarrow> counter a < counter b \<or> counter a = counter b \<and> bvalue a < bvalue b"
  by (auto simp: less_scp_ballot_def ballot_compare_def split: ordering.splits simp del: ballot_compare_cmp)

lemma ballot_le_iff:
  "a \<le> b \<longleftrightarrow> counter a < counter b \<or> counter a = counter b \<and> bvalue a \<le> bvalue b"
  by (auto simp: le_less ballot_less_iff intro: scp_ballot.expand)

definition cmp_opt_ballot :: "scp_ballot option \<Rightarrow> scp_ballot option \<Rightarrow> ordering" where
  "cmp_opt_ballot a b =
     (case (a, b) of
        (None, None) \<Rightarrow> Equal
      | (None, Some _) \<Rightarrow> Less
      | (Some _, None) \<Rightarrow> Greater
      | (Some x, Some y) \<Rightarrow> ballot_compare x y)"

lemma cmp_opt_ballot_cmp [simp]: "cmp_opt_ballot a b = cmp a b"
  by (auto simp: cmp_opt_ballot_def cmp_def split: option.splits)

definition ballot_compatible :: "scp_ballot \<Rightarrow> scp_ballot \<Rightarrow> bool" where
  "ballot_compatible a b \<longleftrightarrow> bvalue a = bvalue b"

definition are_ballots_less_and_compatible :: "scp_ballot \<Rightarrow> scp_ballot \<Rightarrow> bool" where
  "are_ballots_less_and_compatible a b \<longleftrightarrow> ballot_compare a b \<noteq> Greater \<and> ballot_compatible a b"

definition are_ballots_less_and_incompatible :: "scp_ballot \<Rightarrow> scp_ballot \<Rightarrow> bool" where
  "are_ballots_less_and_incompatible a b \<longleftrightarrow> ballot_compare a b \<noteq> Greater \<and> \<not> ballot_compatible a b"

lemma less_and_compatible_iff:
  "are_ballots_less_and_compatible a b \<longleftrightarrow> a \<le> b \<and> bvalue a = bvalue b"
  "are_ballots_less_and_incompatible a b \<longleftrightarrow> a \<le> b \<and> bvalue a \<noteq> bvalue b"
  by (auto simp: are_ballots_less_and_compatible_def are_ballots_less_and_incompatible_def
      ballot_compatible_def)

lemma less_and_compatible_counter:
  "are_ballots_less_and_compatible a b \<longleftrightarrow> counter a \<le> counter b \<and> bvalue a = bvalue b"
  by (auto simp: less_and_compatible_iff ballot_le_iff)

section \<open>Statements and envelopes\<close>

record scp_nomination =
  nom_quorum_set_hash :: hash256
  votes :: "scp_value list"
  accepted :: "scp_value list"

record scp_prepare =
  prep_quorum_set_hash :: hash256
  prep_ballot :: scp_ballot
  prep_prepared :: "scp_ballot option"
  prep_prepared_prime :: "scp_ballot option"
  prep_n_c :: u32
  prep_n_h :: u32

record scp_confirm =
  conf_ballot :: scp_ballot
  conf_n_prepared :: u32
  conf_n_commit :: u32
  conf_n_h :: u32
  conf_quorum_set_hash :: hash256

record scp_externalize =
  ext_commit :: scp_ballot
  ext_n_h :: u32
  ext_commit_quorum_set_hash :: hash256

datatype scp_pledges =
  Prepare scp_prepare
| Confirm scp_confirm
| Externalize scp_externalize
| Nominate scp_nomination

record scp_statement =
  st_node_id :: node_id
  st_slot_index :: u64
  st_pledges :: scp_pledges

record scp_envelope =
  env_statement :: scp_statement
  env_signature :: bytes

section \<open>Freshness\<close>

datatype ballot_phase = PhasePrepare | PhaseConfirm | PhaseExternalize

fun ballot_summary_of :: "scp_pledges \<Rightarrow> (ballot_phase \<times> u32) option" where
  "ballot_summary_of (Prepare p) = Some (PhasePrepare, counter (prep_ballot p))"
| "ballot_summary_of (Confirm c) = Some (PhaseConfirm, counter (conf_ballot c))"
| "ballot_summary_of (Externalize e) = Some (PhaseExternalize, counter (ext_commit e))"
| "ballot_summary_of (Nominate _) = None"

definition is_newer_prepare :: "scp_prepare \<Rightarrow> scp_prepare \<Rightarrow> bool" where
  "is_newer_prepare old new =
     (case ballot_compare (prep_ballot old) (prep_ballot new) of
        Less \<Rightarrow> True
      | Greater \<Rightarrow> False
      | Equal \<Rightarrow>
          (case cmp_opt_ballot (prep_prepared old) (prep_prepared new) of
             Less \<Rightarrow> True
           | Greater \<Rightarrow> False
           | Equal \<Rightarrow>
               (case cmp_opt_ballot (prep_prepared_prime old) (prep_prepared_prime new) of
                  Less \<Rightarrow> True
                | Greater \<Rightarrow> False
                | Equal \<Rightarrow> prep_n_h new > prep_n_h old)))"

definition is_newer_confirm :: "scp_confirm \<Rightarrow> scp_confirm \<Rightarrow> bool" where
  "is_newer_confirm old new =
     (case ballot_compare (conf_ballot old) (conf_ballot new) of
        Less \<Rightarrow> True
      | Greater \<Rightarrow> False
      | Equal \<Rightarrow>
          (case cmp (conf_n_prepared new) (conf_n_prepared old) of
             Greater \<Rightarrow> True
           | Less \<Rightarrow> False
           | Equal \<Rightarrow> conf_n_h new > conf_n_h old))"

definition is_newer_nominate :: "scp_nomination \<Rightarrow> scp_nomination \<Rightarrow> bool" where
  "is_newer_nominate old new =
     (let old_votes = set (votes old); old_accepted = set (accepted old);
          new_votes = set (votes new); new_accepted = set (accepted new) in
      if \<not> old_votes \<subseteq> new_votes \<or> \<not> old_accepted \<subseteq> new_accepted then False
      else card new_votes > card old_votes \<or> card new_accepted > card old_accepted)"

fun ballot_rank :: "scp_pledges \<Rightarrow> nat" where
  "ballot_rank (Prepare _) = 0"
| "ballot_rank (Confirm _) = 1"
| "ballot_rank (Externalize _) = 2"
| "ballot_rank (Nominate _) = 0"

definition is_newer_ballot_st :: "scp_statement \<Rightarrow> scp_statement \<Rightarrow> bool" where
  "is_newer_ballot_st old_st new_st =
     (let old_rank = ballot_rank (st_pledges old_st); new_rank = ballot_rank (st_pledges new_st) in
      if old_rank \<noteq> new_rank then old_rank < new_rank
      else case (st_pledges old_st, st_pledges new_st) of
        (Prepare old, Prepare new) \<Rightarrow> is_newer_prepare old new
      | (Confirm old, Confirm new) \<Rightarrow> is_newer_confirm old new
      | (Externalize _, Externalize _) \<Rightarrow> False
      | _ \<Rightarrow> False)"

fun is_nomination :: "scp_pledges \<Rightarrow> bool" where
  "is_nomination (Nominate _) = True"
| "is_nomination _ = False"

definition is_newer_nomination_or_ballot_st :: "scp_statement \<Rightarrow> scp_statement \<Rightarrow> bool" where
  "is_newer_nomination_or_ballot_st old_st new_st =
     (if st_node_id old_st \<noteq> st_node_id new_st \<or> st_slot_index old_st \<noteq> st_slot_index new_st then False
      else if is_nomination (st_pledges old_st) \<noteq> is_nomination (st_pledges new_st) then False
      else case (st_pledges old_st, st_pledges new_st) of
        (Nominate old, Nominate new) \<Rightarrow> is_newer_nominate old new
      | _ \<Rightarrow> is_newer_ballot_st old_st new_st)"

section \<open>What a statement carries\<close>

fun get_working_ballot :: "scp_pledges \<Rightarrow> scp_ballot option" where
  "get_working_ballot (Prepare p) = Some (prep_ballot p)"
| "get_working_ballot (Confirm c) = Some (ScpBallot (conf_n_commit c) (bvalue (conf_ballot c)))"
| "get_working_ballot (Externalize e) = Some (ScpBallot u32_max (bvalue (ext_commit e)))"
| "get_working_ballot (Nominate _) = None"

fun get_companion_quorum_set_hash :: "scp_pledges \<Rightarrow> hash256 option" where
  "get_companion_quorum_set_hash (Prepare p) = Some (prep_quorum_set_hash p)"
| "get_companion_quorum_set_hash (Confirm c) = Some (conf_quorum_set_hash c)"
| "get_companion_quorum_set_hash (Externalize e) = Some (ext_commit_quorum_set_hash e)"
| "get_companion_quorum_set_hash (Nominate _) = None"

definition option_values :: "scp_ballot option \<Rightarrow> scp_value list" where
  "option_values b = (case b of Some x \<Rightarrow> [bvalue x] | None \<Rightarrow> [])"

fun get_statement_values :: "scp_pledges \<Rightarrow> scp_value list" where
  "get_statement_values (Nominate n) = sorted_dedup (votes n @ accepted n)"
| "get_statement_values (Prepare p) =
     sorted_dedup ((if counter (prep_ballot p) \<noteq> 0 then [bvalue (prep_ballot p)] else [])
       @ option_values (prep_prepared p) @ option_values (prep_prepared_prime p))"
| "get_statement_values (Confirm c) = sorted_dedup [bvalue (conf_ballot c)]"
| "get_statement_values (Externalize e) = sorted_dedup [bvalue (ext_commit e)]"

section \<open>Validation levels\<close>

datatype validation_level = Invalid | MaybeValid | MaybeValidDeferred | FullyValidated

definition clears_fully_validated :: "validation_level \<Rightarrow> bool" where
  "clears_fully_validated l \<longleftrightarrow> l = MaybeValid \<or> l = MaybeValidDeferred"

definition min_validation_level :: "validation_level \<Rightarrow> validation_level \<Rightarrow> validation_level" where
  "min_validation_level l r =
     (if l = Invalid \<or> r = Invalid then Invalid
      else if l = MaybeValid \<or> r = MaybeValid then MaybeValid
      else if l = MaybeValidDeferred \<or> r = MaybeValidDeferred then MaybeValidDeferred
      else FullyValidated)"

end
