(* ===== verification/Ballot.thy ===== *)
theory Ballot
  imports Statements
begin

text \<open>
  The state of the ballot protocol and its statement-level operations
  (\<open>crates/scp/src/ballot/mod.rs\<close> and \<open>ballot/statements.rs\<close>): sanity and validation of
  statements, quorum-set resolution, prepare candidates, federated accept and ratify, and the
  protocol's own invariant check.

  The driver's queries are the fields of a record of functions; its notifications and timer
  commands are appended to the field \<open>events\<close> of the state, in the order of the calls.
  \<open>debug_assert!\<close> and logging are no-ops, as in a release build.
\<close>

section \<open>Driver, context and state\<close>

record scp_driver =
  drv_validate_value :: "u64 \<Rightarrow> scp_value \<Rightarrow> bool \<Rightarrow> validation_level"
  drv_get_quorum_set :: "node_id \<Rightarrow> scp_quorum_set option"
  drv_get_quorum_set_by_hash :: "hash256 \<Rightarrow> scp_quorum_set option"
  drv_hash_quorum_set :: "scp_quorum_set \<Rightarrow> hash256"
  drv_sign :: "scp_statement \<Rightarrow> bytes"
  drv_compute_timeout :: "u32 \<Rightarrow> bool \<Rightarrow> nat"
  drv_combine_candidates :: "u64 \<Rightarrow> scp_value list \<Rightarrow> scp_value option"
  drv_extract_valid_value :: "u64 \<Rightarrow> scp_value \<Rightarrow> scp_value option"
  drv_compute_hash_node :: "u64 \<Rightarrow> scp_value \<Rightarrow> bool \<Rightarrow> u32 \<Rightarrow> node_id \<Rightarrow> u64"
  drv_compute_value_hash :: "u64 \<Rightarrow> scp_value \<Rightarrow> u32 \<Rightarrow> scp_value \<Rightarrow> u64"
  drv_get_node_weight :: "node_id \<Rightarrow> scp_quorum_set \<Rightarrow> bool \<Rightarrow> u64"
  drv_has_upgrades :: "scp_value \<Rightarrow> bool"
  drv_strip_all_upgrades :: "scp_value \<Rightarrow> scp_value option"
  drv_upgrade_timeout_limit :: u32
  drv_verify_envelope :: "scp_envelope \<Rightarrow> bool"

record slot_context =
  local_node_id :: node_id
  local_quorum_set :: scp_quorum_set
  driver :: scp_driver
  slot_index :: u64

datatype scp_timer_type = NominationTimer | BallotTimer

datatype driver_event =
  EmitEnvelope scp_envelope
| BallotDidPrepare u64 scp_ballot
| BallotDidConfirm u64 scp_ballot
| BallotDidHearFromQuorum u64 scp_ballot
| AcceptedCommit u64 scp_ballot
| StartedBallotProtocol u64 scp_ballot
| ValueExternalized u64 scp_value
| SetupTimer u64 scp_timer_type nat
| StopTimer u64 scp_timer_type
| NominatingValue u64 scp_value
| UpdatedCandidateValue u64 scp_value
| TimerExpiredNotice u64 scp_timer_type

record ballot_protocol =
  current_ballot :: "scp_ballot option"
  prepared :: "scp_ballot option"
  prepared_prime :: "scp_ballot option"
  high_ballot :: "scp_ballot option"
  commit :: "scp_ballot option"
  phase :: ballot_phase
  latest_envelopes :: "(node_id \<times> scp_envelope) list"
  value_override :: "scp_value option"
  composite_candidate :: "scp_value option"
  heard_from_quorum :: bool
  current_message_level :: u32
  last_envelope :: "scp_envelope option"
  last_envelope_emit :: "scp_envelope option"
  fully_validated :: bool
  needs_stop_nomination :: bool
  needs_clear_slot_validation :: bool
  timer_exp_count :: u32
  events :: "driver_event list"

definition new_ballot_protocol :: ballot_protocol where
  "new_ballot_protocol =
     \<lparr>current_ballot = None, prepared = None, prepared_prime = None, high_ballot = None,
      commit = None, phase = PhasePrepare, latest_envelopes = [], value_override = None,
      composite_candidate = None, heard_from_quorum = False, current_message_level = 0,
      last_envelope = None, last_envelope_emit = None, fully_validated = True,
      needs_stop_nomination = False, needs_clear_slot_validation = False, timer_exp_count = 0,
      events = []\<rparr>"

definition notify :: "driver_event \<Rightarrow> ballot_protocol \<Rightarrow> ballot_protocol" where
  "notify e s = s\<lparr>events := events s @ [e]\<rparr>"

definition MAX_PROTOCOL_TRANSITIONS :: u32 where
  "MAX_PROTOCOL_TRANSITIONS = 50"

datatype envelope_state = EnvInvalid | EnvValid | EnvValidNew

section \<open>Accessors\<close>

definition current_ballot_counter :: "ballot_protocol \<Rightarrow> u32 option" where
  "current_ballot_counter s = map_option counter (current_ballot s)"

definition is_externalized :: "ballot_protocol \<Rightarrow> bool" where
  "is_externalized s \<longleftrightarrow> phase s = PhaseExternalize"

definition set_composite_candidate :: "scp_value option \<Rightarrow> ballot_protocol \<Rightarrow> ballot_protocol" where
  "set_composite_candidate v s = s\<lparr>composite_candidate := v\<rparr>"

definition take_needs_stop_nomination :: "ballot_protocol \<Rightarrow> bool \<times> ballot_protocol" where
  "take_needs_stop_nomination s = (needs_stop_nomination s, s\<lparr>needs_stop_nomination := False\<rparr>)"

definition take_needs_clear_slot_validation :: "ballot_protocol \<Rightarrow> bool \<times> ballot_protocol" where
  "take_needs_clear_slot_validation s =
     (needs_clear_slot_validation s, s\<lparr>needs_clear_slot_validation := False\<rparr>)"

definition set_fully_validated :: "bool \<Rightarrow> ballot_protocol \<Rightarrow> ballot_protocol" where
  "set_fully_validated b s = s\<lparr>fully_validated := b\<rparr>"

definition get_externalized_value :: "ballot_protocol \<Rightarrow> scp_value option" where
  "get_externalized_value s =
     (if phase s = PhaseExternalize then map_option bvalue (current_ballot s) else None)"

definition force_externalize :: "scp_value \<Rightarrow> ballot_protocol \<Rightarrow> ballot_protocol" where
  "force_externalize v s =
     (let ballot = ScpBallot u32_max v in
      s\<lparr>commit := Some ballot, high_ballot := Some ballot, current_ballot := Some ballot,
        phase := PhaseExternalize\<rparr>)"

definition get_externalizing_state :: "node_id \<Rightarrow> bool \<Rightarrow> ballot_protocol \<Rightarrow> scp_envelope list" where
  "get_externalizing_state local fv s =
     (if phase s \<noteq> PhaseExternalize then []
      else case commit s of
        None \<Rightarrow> []
      | Some c \<Rightarrow>
          map snd (filter (\<lambda>(n, env).
            if n \<noteq> local
            then (case get_working_ballot (st_pledges (env_statement env)) of
                    Some working \<Rightarrow> ballot_compatible working c
                  | None \<Rightarrow> False)
            else fv) (latest_envelopes s)))"

definition stored_ballot_summary :: "node_id \<Rightarrow> ballot_protocol \<Rightarrow> (ballot_phase \<times> u32) option" where
  "stored_ballot_summary n s =
     (case map_of (latest_envelopes s) n of
        None \<Rightarrow> None
      | Some env \<Rightarrow> ballot_summary_of (st_pledges (env_statement env)))"

datatype quorum_info_node_state = Missing | Nominating | Preparing | Confirming | Externalized

fun node_state_from_pledges :: "scp_pledges \<Rightarrow> quorum_info_node_state" where
  "node_state_from_pledges (Nominate _) = Nominating"
| "node_state_from_pledges (Prepare _) = Preparing"
| "node_state_from_pledges (Confirm _) = Confirming"
| "node_state_from_pledges (Externalize _) = Externalized"

definition get_node_state :: "node_id \<Rightarrow> ballot_protocol \<Rightarrow> quorum_info_node_state" where
  "get_node_state n s =
     (case map_of (latest_envelopes s) n of
        Some env \<Rightarrow> node_state_from_pledges (st_pledges (env_statement env))
      | None \<Rightarrow> Missing)"

datatype reporting_node_state = RNoInfo | RAgree | RDelayed | RDisagree | RMissing

definition NUM_TIMEOUTS_THRESHOLD_FOR_REPORTING :: u32 where
  "NUM_TIMEOUTS_THRESHOLD_FOR_REPORTING = 2"

fun is_confirm_or_externalize :: "scp_pledges \<Rightarrow> bool" where
  "is_confirm_or_externalize (Confirm _) = True"
| "is_confirm_or_externalize (Externalize _) = True"
| "is_confirm_or_externalize _ = False"

definition get_reporting_state ::
  "node_id \<Rightarrow> node_id \<Rightarrow> bool \<Rightarrow> ballot_protocol \<Rightarrow> reporting_node_state" where
  "get_reporting_state n local self_already_moved_on s =
     (if n = local then RAgree
      else case map_of (latest_envelopes s) n of
        None \<Rightarrow>
          (if timer_exp_count s \<ge> NUM_TIMEOUTS_THRESHOLD_FOR_REPORTING \<or> self_already_moved_on
           then RMissing else RNoInfo)
      | Some env \<Rightarrow>
          (case last_envelope_emit s of
             None \<Rightarrow> RAgree
           | Some last_emit \<Rightarrow>
               let pl = st_pledges (env_statement env);
                   externalized = (case pl of Externalize _ \<Rightarrow> True | _ \<Rightarrow> False);
                   confirmed_commit = (case pl of Confirm c \<Rightarrow> counter (conf_ballot c) = u32_max | _ \<Rightarrow> False);
                   state0 = (if phase s = PhaseExternalize \<and> (\<not> externalized \<or> \<not> confirmed_commit)
                               \<and> self_already_moved_on then RDelayed else RAgree);
                   self_accepted_confirm = (phase s = PhaseConfirm \<or> phase s = PhaseExternalize)
               in if self_accepted_confirm \<and> is_confirm_or_externalize pl
                  then (case (get_working_ballot pl, get_working_ballot (st_pledges (env_statement last_emit))) of
                          (Some other_b, Some self_b) \<Rightarrow>
                            (if \<not> ballot_compatible other_b self_b then RDisagree else state0)
                        | _ \<Rightarrow> state0)
                  else state0))"

section \<open>The protocol's invariant check\<close>

datatype invariant_error =
  RequiresCurrentBallot ballot_phase
| RequiresPrepared ballot_phase
| RequiresCommit ballot_phase
| RequiresHighBallot ballot_phase
| CurrentCounterZero
| PreparedPrimeOrder
| HighWithoutCurrent
| HighCurrentOrder
| CommitWithoutHigh
| CommitWithoutCurrent
| CommitHighOrder

definition check_phase :: "ballot_protocol \<Rightarrow> invariant_error + unit" where
  "check_phase s =
     (case phase s of
        PhasePrepare \<Rightarrow> Inr ()
      | ph \<Rightarrow>
          if current_ballot s = None then Inl (RequiresCurrentBallot ph)
          else if prepared s = None then Inl (RequiresPrepared ph)
          else if commit s = None then Inl (RequiresCommit ph)
          else if high_ballot s = None then Inl (RequiresHighBallot ph)
          else Inr ())"

definition check_current :: "ballot_protocol \<Rightarrow> invariant_error + unit" where
  "check_current s =
     (case current_ballot s of
        Some cb \<Rightarrow> if counter cb = 0 then Inl CurrentCounterZero else Inr ()
      | None \<Rightarrow> Inr ())"

definition check_prepared_prime :: "ballot_protocol \<Rightarrow> invariant_error + unit" where
  "check_prepared_prime s =
     (case (prepared s, prepared_prime s) of
        (Some p, Some p') \<Rightarrow>
          if \<not> are_ballots_less_and_incompatible p' p then Inl PreparedPrimeOrder else Inr ()
      | _ \<Rightarrow> Inr ())"

definition check_high :: "ballot_protocol \<Rightarrow> invariant_error + unit" where
  "check_high s =
     (case high_ballot s of
        None \<Rightarrow> Inr ()
      | Some h \<Rightarrow>
          (case current_ballot s of
             None \<Rightarrow> Inl HighWithoutCurrent
           | Some cb \<Rightarrow> if \<not> are_ballots_less_and_compatible h cb then Inl HighCurrentOrder else Inr ()))"

definition check_commit :: "ballot_protocol \<Rightarrow> invariant_error + unit" where
  "check_commit s =
     (case commit s of
        None \<Rightarrow> Inr ()
      | Some c \<Rightarrow>
          (case high_ballot s of
             None \<Rightarrow> Inl CommitWithoutHigh
           | Some h \<Rightarrow>
               (case current_ballot s of
                  None \<Rightarrow> Inl CommitWithoutCurrent
                | Some cb \<Rightarrow>
                    if \<not> are_ballots_less_and_compatible c h then Inl CommitHighOrder
                    else if \<not> are_ballots_less_and_compatible h cb then Inl HighCurrentOrder
                    else Inr ())))"

definition check_invariants :: "ballot_protocol \<Rightarrow> invariant_error + unit" where
  "check_invariants s =
     (case check_phase s of
        Inl e \<Rightarrow> Inl e
      | Inr _ \<Rightarrow>
          (case check_current s of
             Inl e \<Rightarrow> Inl e
           | Inr _ \<Rightarrow>
               (case check_prepared_prime s of
                  Inl e \<Rightarrow> Inl e
                | Inr _ \<Rightarrow>
                    (case check_high s of
                       Inl e \<Rightarrow> Inl e
                     | Inr _ \<Rightarrow> check_commit s))))"

section \<open>Statements\<close>

definition is_newer_statement :: "node_id \<Rightarrow> scp_statement \<Rightarrow> ballot_protocol \<Rightarrow> bool" where
  "is_newer_statement n st s =
     (case map_of (latest_envelopes s) n of
        None \<Rightarrow> True
      | Some existing \<Rightarrow> is_newer_ballot_st (env_statement existing) st)"

definition is_stale_ballot_statement :: "scp_statement \<Rightarrow> ballot_protocol \<Rightarrow> bool" where
  "is_stale_ballot_statement st s =
     (if is_nomination (st_pledges st) then True
      else \<not> is_newer_statement (st_node_id st) st s)"

definition resolve_quorum_set ::
  "slot_context \<Rightarrow> hash256 \<Rightarrow> node_id \<Rightarrow> scp_quorum_set option" where
  "resolve_quorum_set ctx provided n =
     (let d = driver ctx in
      if n = local_node_id ctx \<and> drv_hash_quorum_set d (local_quorum_set ctx) = provided
      then Some (local_quorum_set ctx)
      else case drv_get_quorum_set_by_hash d provided of
        Some q \<Rightarrow> Some q
      | None \<Rightarrow>
          (case drv_get_quorum_set d n of
             None \<Rightarrow> None
           | Some q \<Rightarrow> if drv_hash_quorum_set d q = provided then Some q else None))"

definition statement_quorum_set :: "slot_context \<Rightarrow> scp_statement \<Rightarrow> scp_quorum_set option" where
  "statement_quorum_set ctx st =
     (case st_pledges st of
        Externalize _ \<Rightarrow> Some (simple_quorum_set 1 [st_node_id st])
      | Prepare p \<Rightarrow> resolve_quorum_set ctx (prep_quorum_set_hash p) (st_node_id st)
      | Confirm c \<Rightarrow> resolve_quorum_set ctx (conf_quorum_set_hash c) (st_node_id st)
      | Nominate _ \<Rightarrow> None)"

definition prepare_sane :: "bool \<Rightarrow> scp_prepare \<Rightarrow> bool" where
  "prepare_sane is_self p =
     (if \<not> is_self \<and> counter (prep_ballot p) = 0 then False
      else if (case (prep_prepared_prime p, prep_prepared p) of
                 (Some p', Some pr) \<Rightarrow> ballot_compare p' pr \<noteq> Less \<or> ballot_compatible p' pr
               | _ \<Rightarrow> False) then False
      else if prep_n_h p \<noteq> 0 \<and>
              (case prep_prepared p of Some pr \<Rightarrow> prep_n_h p > counter pr | None \<Rightarrow> True) then False
      else if prep_n_c p \<noteq> 0 \<and>
              (prep_n_h p = 0 \<or> counter (prep_ballot p) < prep_n_h p \<or> prep_n_h p < prep_n_c p) then False
      else True)"

definition is_statement_sane :: "slot_context \<Rightarrow> scp_statement \<Rightarrow> bool" where
  "is_statement_sane ctx st =
     (case statement_quorum_set ctx st of
        None \<Rightarrow> False
      | Some q \<Rightarrow>
          if is_quorum_set_sane q False \<noteq> Inr () then False
          else case st_pledges st of
            Prepare p \<Rightarrow> prepare_sane (st_node_id st = local_node_id ctx) p
          | Confirm c \<Rightarrow>
              (if counter (conf_ballot c) = 0 then False
               else if conf_n_h c > counter (conf_ballot c) then False
               else if conf_n_commit c > conf_n_h c then False
               else True)
          | Externalize e \<Rightarrow>
              (if counter (ext_commit e) = 0 then False
               else if ext_n_h e < counter (ext_commit e) then False
               else True)
          | Nominate _ \<Rightarrow> False)"

text \<open>The loop over the values stops at the first \<open>Invalid\<close>.\<close>

fun validate_values_loop ::
  "(scp_value \<Rightarrow> validation_level) \<Rightarrow> scp_value list \<Rightarrow> validation_level \<Rightarrow> validation_level" where
  "validate_values_loop f [] level = level"
| "validate_values_loop f (v # vs) level =
     (let level' = min_validation_level level (f v) in
      if level' = Invalid then level' else validate_values_loop f vs level')"

definition validate_statement_values :: "slot_context \<Rightarrow> scp_statement \<Rightarrow> validation_level" where
  "validate_statement_values ctx st =
     (let vs = get_statement_values (st_pledges st) in
      if vs = [] then Invalid
      else validate_values_loop (\<lambda>v. drv_validate_value (driver ctx) (slot_index ctx) v False) vs FullyValidated)"

fun statement_value_matches_commit :: "scp_ballot option \<Rightarrow> scp_pledges \<Rightarrow> bool" where
  "statement_value_matches_commit None _ = False"
| "statement_value_matches_commit (Some c) (Prepare p) = (bvalue c = bvalue (prep_ballot p))"
| "statement_value_matches_commit (Some c) (Confirm cf) = (bvalue c = bvalue (conf_ballot cf))"
| "statement_value_matches_commit (Some c) (Externalize e) = (bvalue c = bvalue (ext_commit e))"
| "statement_value_matches_commit (Some c) (Nominate _) = False"

section \<open>Candidates\<close>

fun collect_hint_ballots :: "scp_pledges \<Rightarrow> scp_ballot list" where
  "collect_hint_ballots (Prepare p) =
     [prep_ballot p]
     @ (case prep_prepared p of Some b \<Rightarrow> [b] | None \<Rightarrow> [])
     @ (case prep_prepared_prime p of Some b \<Rightarrow> [b] | None \<Rightarrow> [])"
| "collect_hint_ballots (Confirm c) =
     [ScpBallot (conf_n_prepared c) (bvalue (conf_ballot c)), ScpBallot u32_max (bvalue (conf_ballot c))]"
| "collect_hint_ballots (Externalize e) = [ScpBallot u32_max (bvalue (ext_commit e))]"
| "collect_hint_ballots (Nominate _) = []"

text \<open>The ballots that one envelope contributes below one top vote, in the order of the pushes.\<close>

fun candidates_below :: "scp_ballot \<Rightarrow> scp_pledges \<Rightarrow> scp_ballot list" where
  "candidates_below top_vote (Prepare p) =
     (if are_ballots_less_and_compatible (prep_ballot p) top_vote then [prep_ballot p] else [])
     @ (case prep_prepared p of
          Some b \<Rightarrow> if are_ballots_less_and_compatible b top_vote then [b] else []
        | None \<Rightarrow> [])
     @ (case prep_prepared_prime p of
          Some b \<Rightarrow> if are_ballots_less_and_compatible b top_vote then [b] else []
        | None \<Rightarrow> [])"
| "candidates_below top_vote (Confirm c) =
     (if ballot_compatible top_vote (conf_ballot c)
      then [top_vote] @ (if conf_n_prepared c < counter top_vote
                    then [ScpBallot (conf_n_prepared c) (bvalue top_vote)] else [])
      else [])"
| "candidates_below top_vote (Externalize e) =
     (if ballot_compatible top_vote (ext_commit e) then [top_vote] else [])"
| "candidates_below top_vote (Nominate _) = []"

text \<open>\<open>seen.insert(key)\<close>: the key (counter and XDR bytes of the value) determines the ballot.\<close>

definition push_candidate :: "scp_ballot \<Rightarrow> scp_ballot list \<Rightarrow> scp_ballot list" where
  "push_candidate b cs = (if b \<in> set cs then cs else cs @ [b])"

definition get_prepare_candidates :: "ballot_protocol \<Rightarrow> scp_statement \<Rightarrow> scp_ballot list" where
  "get_prepare_candidates s hint =
     (let hint_ballots = sort (collect_hint_ballots (st_pledges hint));
          pushes = concat (map (\<lambda>top_vote. concat (map (\<lambda>(n, env).
                     candidates_below top_vote (st_pledges (env_statement env))) (latest_envelopes s)))
                   (rev hint_ballots))
      in sort (fold push_candidate pushes []))"

section \<open>Votes\<close>

fun commit_predicate :: "scp_ballot \<Rightarrow> u32 \<times> u32 \<Rightarrow> scp_pledges \<Rightarrow> bool" where
  "commit_predicate b (lo, hi) (Confirm c) =
     (if ballot_compatible b (conf_ballot c) then conf_n_commit c \<le> lo \<and> hi \<le> conf_n_h c else False)"
| "commit_predicate b (lo, hi) (Externalize e) =
     (if ballot_compatible b (ext_commit e) then counter (ext_commit e) \<le> lo else False)"
| "commit_predicate b (lo, hi) _ = False"

fun statement_ballot_counter :: "scp_pledges \<Rightarrow> u32" where
  "statement_ballot_counter (Prepare p) = counter (prep_ballot p)"
| "statement_ballot_counter (Confirm c) = counter (conf_ballot c)"
| "statement_ballot_counter (Externalize _) = u32_max"
| "statement_ballot_counter (Nominate _) = 0"

fun statement_votes_for_ballot :: "scp_ballot \<Rightarrow> scp_pledges \<Rightarrow> bool" where
  "statement_votes_for_ballot b (Prepare p) = are_ballots_less_and_compatible b (prep_ballot p)"
| "statement_votes_for_ballot b (Confirm c) = ballot_compatible b (conf_ballot c)"
| "statement_votes_for_ballot b (Externalize e) = ballot_compatible b (ext_commit e)"
| "statement_votes_for_ballot b (Nominate _) = False"

fun statement_votes_commit :: "scp_ballot \<Rightarrow> u32 \<times> u32 \<Rightarrow> scp_pledges \<Rightarrow> bool" where
  "statement_votes_commit b (lo, hi) (Prepare p) =
     (if ballot_compatible b (prep_ballot p) \<and> prep_n_c p \<noteq> 0
      then prep_n_c p \<le> lo \<and> hi \<le> prep_n_h p else False)"
| "statement_votes_commit b (lo, hi) (Confirm c) =
     (ballot_compatible b (conf_ballot c) \<and> conf_n_commit c \<le> lo)"
| "statement_votes_commit b (lo, hi) (Externalize e) =
     (ballot_compatible b (ext_commit e) \<and> counter (ext_commit e) \<le> lo)"
| "statement_votes_commit b (lo, hi) (Nominate _) = False"

fun has_prepared_ballot :: "scp_ballot \<Rightarrow> scp_pledges \<Rightarrow> bool" where
  "has_prepared_ballot b (Prepare p) =
     ((case prep_prepared p of Some x \<Rightarrow> are_ballots_less_and_compatible b x | None \<Rightarrow> False) \<or>
      (case prep_prepared_prime p of Some x \<Rightarrow> are_ballots_less_and_compatible b x | None \<Rightarrow> False))"
| "has_prepared_ballot b (Confirm c) =
     are_ballots_less_and_compatible b (ScpBallot (conf_n_prepared c) (bvalue (conf_ballot c)))"
| "has_prepared_ballot b (Externalize e) = ballot_compatible b (ext_commit e)"
| "has_prepared_ballot b (Nominate _) = False"

section \<open>Federated voting over the latest envelopes\<close>

text \<open>The nodes whose latest statement satisfies a predicate.\<close>

definition nodes_where :: "(scp_statement \<Rightarrow> bool) \<Rightarrow> ballot_protocol \<Rightarrow> node_id list" where
  "nodes_where p s = map fst (filter (\<lambda>(n, env). p (env_statement env)) (latest_envelopes s))"

definition has_vblocking_subset_strictly_ahead_of :: "slot_context \<Rightarrow> u32 \<Rightarrow> ballot_protocol \<Rightarrow> bool" where
  "has_vblocking_subset_strictly_ahead_of ctx n s =
     is_v_blocking (local_quorum_set ctx)
       (set (nodes_where (\<lambda>st. statement_ballot_counter (st_pledges st) > n) s))"

definition statement_quorum_set_map ::
  "slot_context \<Rightarrow> ballot_protocol \<Rightarrow> (node_id \<times> scp_quorum_set) list" where
  "statement_quorum_set_map ctx s =
     (let m = List.map_filter (\<lambda>(n, env). map_option (Pair n) (statement_quorum_set ctx (env_statement env)))
                (latest_envelopes s)
      in if local_node_id ctx \<in> fst ` set m then m
         else AList.update (local_node_id ctx) (local_quorum_set ctx) m)"

definition federated_accept ::
  "slot_context \<Rightarrow> (scp_statement \<Rightarrow> bool) \<Rightarrow> (scp_statement \<Rightarrow> bool) \<Rightarrow> ballot_protocol \<Rightarrow> bool" where
  "federated_accept ctx voted acc s =
     (let accepted_nodes = nodes_where acc s;
          supporters = nodes_where (\<lambda>st. acc st \<or> voted st) s
      in if is_v_blocking (local_quorum_set ctx) (set accepted_nodes) then True
         else is_quorum (local_quorum_set ctx) supporters (map_of (statement_quorum_set_map ctx s)))"

definition federated_ratify :: "slot_context \<Rightarrow> (scp_statement \<Rightarrow> bool) \<Rightarrow> ballot_protocol \<Rightarrow> bool" where
  "federated_ratify ctx voted s =
     is_quorum (local_quorum_set ctx) (nodes_where voted s) (map_of (statement_quorum_set_map ctx s))"

fun counts_for_counter :: "u32 \<Rightarrow> scp_pledges \<Rightarrow> bool" where
  "counts_for_counter n (Prepare p) = (n \<le> counter (prep_ballot p))"
| "counts_for_counter n (Confirm _) = True"
| "counts_for_counter n (Externalize _) = True"
| "counts_for_counter n (Nominate _) = False"

definition check_heard_from_quorum :: "slot_context \<Rightarrow> ballot_protocol \<Rightarrow> ballot_protocol" where
  "check_heard_from_quorum ctx s =
     (case current_ballot s of
        None \<Rightarrow> s
      | Some current \<Rightarrow>
          let included = filter (\<lambda>(n, env). counts_for_counter (counter current) (st_pledges (env_statement env)))
                           (latest_envelopes s);
              quorum_sets = List.map_filter
                (\<lambda>(n, env). map_option (Pair n) (statement_quorum_set ctx (env_statement env))) included
          in if is_quorum (local_quorum_set ctx) (map fst included) (map_of quorum_sets)
             then
               let s1 = s\<lparr>heard_from_quorum := True\<rparr>;
                   s2 = (if \<not> heard_from_quorum s
                         then
                           let s1' = notify (BallotDidHearFromQuorum (slot_index ctx) current) s1
                           in if phase s \<noteq> PhaseExternalize
                              then notify (SetupTimer (slot_index ctx) BallotTimer
                                     (drv_compute_timeout (driver ctx) (counter current) False)) s1'
                              else s1'
                         else s1)
               in if phase s = PhaseExternalize
                  then notify (StopTimer (slot_index ctx) BallotTimer) s2 else s2
             else notify (StopTimer (slot_index ctx) BallotTimer) (s\<lparr>heard_from_quorum := False\<rparr>))"

end
