(* ===== verification/Ballot_Machine.thy ===== *)
theory Ballot_Machine
  imports Ballot
begin

text \<open>
  The transitions of the ballot protocol (\<open>crates/scp/src/ballot/state_machine.rs\<close>,
  \<open>ballot/envelope.rs\<close> and the entry points of \<open>ballot/mod.rs\<close>).

  In the source \<open>emit_current_state\<close> and \<open>advance_slot\<close> call each other through the \<open>set_*\<close>
  functions. Here every function that emits takes the emission it calls as its argument \<open>emit\<close>,
  and \<open>emit_current_state\<close> ties the knot by recursion on the number of nested emissions that remain;
  \<open>emit_fuel\<close> of them always suffice, because \<open>advance_slot\<close> panics on its fiftieth nested call.
\<close>

datatype fault =
  TransitionLimit    \<comment> \<open>\<open>panic!("maximum number of transitions reached in advanceSlot")\<close>\<close>
| UnwrapNone         \<comment> \<open>\<open>Option::unwrap\<close> on \<open>None\<close>\<close>
| BumpLoopStuck      \<comment> \<open>the bump loop of \<open>advance_slot\<close> makes no progress\<close>
| OutOfFuel          \<comment> \<open>the model's recursion bound is used up\<close>

type_synonym emitter = "ballot_protocol \<Rightarrow> fault + ballot_protocol"

section \<open>Moving the current ballot\<close>

definition bump_to_ballot ::
  "slot_context \<Rightarrow> scp_ballot \<Rightarrow> bool \<Rightarrow> ballot_protocol \<Rightarrow> bool \<times> ballot_protocol" where
  "bump_to_ballot ctx ballot check s =
     (if check \<and> (case current_ballot s of
                     Some cur \<Rightarrow> ballot_compare ballot cur \<noteq> Greater
                   | None \<Rightarrow> False)
      then (False, s)
      else
        let got_bumped = (case current_ballot s of
                            None \<Rightarrow> True
                          | Some cur \<Rightarrow> counter cur \<noteq> counter ballot);
            s1 = (if current_ballot s = None
                  then notify (StartedBallotProtocol (slot_index ctx) ballot) s else s);
            s2 = s1\<lparr>current_ballot := Some ballot\<rparr>;
            s3 = (case high_ballot s2 of
                    Some high \<Rightarrow>
                      if \<not> ballot_compatible ballot high
                      then s2\<lparr>high_ballot := None, commit := None\<rparr> else s2
                  | None \<Rightarrow> s2);
            s4 = (if got_bumped then s3\<lparr>heard_from_quorum := False\<rparr> else s3)
        in (True, s4))"

definition update_current_if_needed ::
  "slot_context \<Rightarrow> scp_ballot \<Rightarrow> ballot_protocol \<Rightarrow> bool \<times> ballot_protocol" where
  "update_current_if_needed ctx ballot s =
     (if (case current_ballot s of Some b \<Rightarrow> ballot_compare b ballot = Less | None \<Rightarrow> True)
      then bump_to_ballot ctx ballot True s
      else (False, s))"

definition update_current_value ::
  "slot_context \<Rightarrow> scp_ballot \<Rightarrow> ballot_protocol \<Rightarrow> bool \<times> ballot_protocol" where
  "update_current_value ctx ballot s =
     (if phase s \<noteq> PhasePrepare \<and> phase s \<noteq> PhaseConfirm then (False, s)
      else case current_ballot s of
        None \<Rightarrow> (True, snd (bump_to_ballot ctx ballot True s))
      | Some cur \<Rightarrow>
          if (case commit s of Some c \<Rightarrow> \<not> ballot_compatible c ballot | None \<Rightarrow> False) then (False, s)
          else if ballot_compare cur ballot = Less then bump_to_ballot ctx ballot True s
          else (False, s))"

definition bump_state ::
  "emitter \<Rightarrow> slot_context \<Rightarrow> scp_value \<Rightarrow> u32 \<Rightarrow> ballot_protocol \<Rightarrow> fault + (bool \<times> ballot_protocol)" where
  "bump_state emit ctx v n s =
     (if phase s \<noteq> PhasePrepare \<and> phase s \<noteq> PhaseConfirm then Inr (False, s)
      else
        let effective_value = (case value_override s of Some ov \<Rightarrow> ov | None \<Rightarrow> v);
            ballot = ScpBallot n effective_value;
            (updated, s1) = update_current_value ctx ballot s
        in if updated
           then bindE (emit s1) (\<lambda>s2. Inr (True, check_heard_from_quorum ctx s2))
           else Inr (False, s1))"

definition abandon_ballot ::
  "emitter \<Rightarrow> slot_context \<Rightarrow> u32 \<Rightarrow> ballot_protocol \<Rightarrow> fault + (bool \<times> ballot_protocol)" where
  "abandon_ballot emit ctx n s =
     (let v = (case composite_candidate s of
                 Some c \<Rightarrow> if c \<noteq> [] then Some c else map_option bvalue (current_ballot s)
               | None \<Rightarrow> map_option bvalue (current_ballot s))
      in case v of
           None \<Rightarrow> Inr (False, s)
         | Some x \<Rightarrow>
             if n = 0
             then bump_state emit ctx x (case current_ballot s of Some b \<Rightarrow> counter b + 1 | None \<Rightarrow> 1) s
             else bump_state emit ctx x n s)"

section \<open>Accepting and confirming prepared\<close>

definition set_prepared ::
  "slot_context \<Rightarrow> scp_ballot \<Rightarrow> ballot_protocol \<Rightarrow> bool \<times> ballot_protocol" where
  "set_prepared ctx ballot s =
     (case prepared s of
        Some cur \<Rightarrow>
          (case ballot_compare cur ballot of
             Less \<Rightarrow>
               let s1 = (if \<not> ballot_compatible cur ballot then s\<lparr>prepared_prime := Some cur\<rparr> else s);
                   s2 = notify (BallotDidPrepare (slot_index ctx) ballot) s1
               in (True, s2\<lparr>prepared := Some ballot\<rparr>)
           | Greater \<Rightarrow>
               let should_update_prime =
                     (case prepared_prime s of
                        None \<Rightarrow> True
                      | Some p' \<Rightarrow> ballot_compare p' ballot = Less \<and> \<not> ballot_compatible cur ballot)
               in if should_update_prime
                  then (True, (notify (BallotDidPrepare (slot_index ctx) ballot) s)\<lparr>prepared_prime := Some ballot\<rparr>)
                  else (False, s)
           | Equal \<Rightarrow> (False, s))
      | None \<Rightarrow> (True, (notify (BallotDidPrepare (slot_index ctx) ballot) s)\<lparr>prepared := Some ballot\<rparr>))"

definition opt_less_and_incompatible :: "scp_ballot \<Rightarrow> scp_ballot option \<Rightarrow> bool" where
  "opt_less_and_incompatible b p =
     (case p of Some x \<Rightarrow> are_ballots_less_and_incompatible b x | None \<Rightarrow> False)"

definition set_accept_prepared ::
  "emitter \<Rightarrow> slot_context \<Rightarrow> scp_ballot \<Rightarrow> ballot_protocol \<Rightarrow> fault + (bool \<times> ballot_protocol)" where
  "set_accept_prepared emit ctx ballot s =
     (let (did_work, s1) = set_prepared ctx ballot s;
          finish = (\<lambda>w t. if w then bindE (emit t) (\<lambda>t'. Inr (True, t')) else Inr (False, t))
      in if commit s1 \<noteq> None
         then (case high_ballot s1 of
                 None \<Rightarrow> Inr (did_work, s1)
               | Some high \<Rightarrow>
                   if opt_less_and_incompatible high (prepared s1) \<or>
                      opt_less_and_incompatible high (prepared_prime s1)
                   then finish True (s1\<lparr>commit := None\<rparr>)
                   else finish did_work s1)
         else finish did_work s1)"

text \<open>The \<open>continue\<close>s of the loop of \<open>attempt_accept_prepared\<close>.\<close>

definition skip_candidate :: "ballot_protocol \<Rightarrow> scp_ballot \<Rightarrow> bool" where
  "skip_candidate s ballot \<longleftrightarrow>
     (phase s = PhaseConfirm \<and>
       (case prepared s of Some p \<Rightarrow> \<not> are_ballots_less_and_compatible p ballot | None \<Rightarrow> False)) \<or>
     (case prepared_prime s of Some p' \<Rightarrow> ballot_compare ballot p' \<noteq> Greater | None \<Rightarrow> False) \<or>
     (case prepared s of Some p \<Rightarrow> are_ballots_less_and_compatible ballot p | None \<Rightarrow> False)"

fun accept_prepared_loop ::
  "emitter \<Rightarrow> slot_context \<Rightarrow> scp_ballot list \<Rightarrow> ballot_protocol \<Rightarrow> fault + (bool \<times> ballot_protocol)" where
  "accept_prepared_loop emit ctx [] s = Inr (False, s)"
| "accept_prepared_loop emit ctx (b # bs) s =
     (if skip_candidate s b then accept_prepared_loop emit ctx bs s
      else if federated_accept ctx (\<lambda>st. statement_votes_for_ballot b (st_pledges st))
                (\<lambda>st. has_prepared_ballot b (st_pledges st)) s
      then bindE (set_accept_prepared emit ctx b s)
             (\<lambda>(w, s'). if w then Inr (True, s') else accept_prepared_loop emit ctx bs s')
      else accept_prepared_loop emit ctx bs s)"

definition attempt_accept_prepared ::
  "emitter \<Rightarrow> slot_context \<Rightarrow> scp_statement \<Rightarrow> ballot_protocol \<Rightarrow> fault + (bool \<times> ballot_protocol)" where
  "attempt_accept_prepared emit ctx hint s =
     (if phase s \<noteq> PhasePrepare \<and> phase s \<noteq> PhaseConfirm then Inr (False, s)
      else accept_prepared_loop emit ctx (rev (get_prepare_candidates s hint)) s)"

text \<open>\<open>candidates.iter().enumerate().rev()\<close>, as a list of index and ballot.\<close>

fun highest_confirmed_loop ::
  "slot_context \<Rightarrow> ballot_protocol \<Rightarrow> (nat \<times> scp_ballot) list \<Rightarrow> (scp_ballot \<times> nat) option" where
  "highest_confirmed_loop ctx s [] = None"
| "highest_confirmed_loop ctx s ((idx, b) # rest) =
     (if (case high_ballot s of Some h \<Rightarrow> ballot_compare h b \<noteq> Less | None \<Rightarrow> False) then None
      else if federated_ratify ctx (\<lambda>st. has_prepared_ballot b (st_pledges st)) s then Some (b, idx)
      else highest_confirmed_loop ctx s rest)"

definition find_highest_confirmed_prepared ::
  "slot_context \<Rightarrow> scp_ballot list \<Rightarrow> ballot_protocol \<Rightarrow> (scp_ballot \<times> nat) option" where
  "find_highest_confirmed_prepared ctx cands s = highest_confirmed_loop ctx s (rev (enumerate 0 cands))"

fun lowest_commit_loop ::
  "slot_context \<Rightarrow> ballot_protocol \<Rightarrow> scp_ballot \<Rightarrow> scp_ballot \<Rightarrow> scp_ballot list \<Rightarrow> scp_ballot \<Rightarrow> scp_ballot" where
  "lowest_commit_loop ctx s cur new_h [] new_c = new_c"
| "lowest_commit_loop ctx s cur new_h (b # bs) new_c =
     (if ballot_compare b cur = Less then new_c
      else if \<not> are_ballots_less_and_compatible b new_h then lowest_commit_loop ctx s cur new_h bs new_c
      else if federated_ratify ctx (\<lambda>st. has_prepared_ballot b (st_pledges st)) s
      then lowest_commit_loop ctx s cur new_h bs b
      else new_c)"

definition find_lowest_commit_ballot ::
  "slot_context \<Rightarrow> scp_ballot list \<Rightarrow> scp_ballot \<Rightarrow> nat \<Rightarrow> ballot_protocol \<Rightarrow> scp_ballot" where
  "find_lowest_commit_ballot ctx cands new_h new_h_index s =
     (let new_c = ScpBallot 0 (bvalue new_h);
          cur = (case current_ballot s of Some b \<Rightarrow> b | None \<Rightarrow> ScpBallot 0 (bvalue new_h));
          can_set_commit = (commit s = None \<and>
            \<not> opt_less_and_incompatible new_h (prepared s) \<and>
            \<not> opt_less_and_incompatible new_h (prepared_prime s))
      in if can_set_commit
         then lowest_commit_loop ctx s cur new_h (rev (take (new_h_index + 1) cands)) new_c
         else new_c)"

definition set_confirm_prepared ::
  "emitter \<Rightarrow> slot_context \<Rightarrow> scp_ballot \<Rightarrow> scp_ballot \<Rightarrow> ballot_protocol
    \<Rightarrow> fault + (bool \<times> ballot_protocol)" where
  "set_confirm_prepared emit ctx new_c new_h s =
     (let s1 = s\<lparr>value_override := Some (bvalue new_h)\<rparr>;
          (did_work, s2) =
            (if (case current_ballot s1 of Some b \<Rightarrow> ballot_compatible b new_h | None \<Rightarrow> True)
             then
               let (w1, t1) =
                     (if (case high_ballot s1 of Some b \<Rightarrow> ballot_compare new_h b = Greater | None \<Rightarrow> True)
                      then (True, s1\<lparr>high_ballot := Some new_h\<rparr>) else (False, s1));
                   (w2, t2) =
                     (if counter new_c \<noteq> 0 \<and> commit t1 = None
                      then (True, t1\<lparr>commit := Some new_c\<rparr>) else (w1, t1))
               in (w2, if w2 then notify (BallotDidConfirm (slot_index ctx) new_h) t2 else t2)
             else (False, s1));
          (updated, s3) = update_current_if_needed ctx new_h s2;
          did_work' = (updated \<or> did_work)
      in if did_work' then bindE (emit s3) (\<lambda>s4. Inr (True, s4)) else Inr (False, s3))"

definition attempt_confirm_prepared ::
  "emitter \<Rightarrow> slot_context \<Rightarrow> scp_statement \<Rightarrow> ballot_protocol \<Rightarrow> fault + (bool \<times> ballot_protocol)" where
  "attempt_confirm_prepared emit ctx hint s =
     (if phase s \<noteq> PhasePrepare then Inr (False, s)
      else if prepared s = None then Inr (False, s)
      else
        let cands = get_prepare_candidates s hint in
        case find_highest_confirmed_prepared ctx cands s of
          None \<Rightarrow> Inr (False, s)
        | Some (new_h, new_h_index) \<Rightarrow>
            set_confirm_prepared emit ctx (find_lowest_commit_ballot ctx cands new_h new_h_index s) new_h s)"

section \<open>Accepting and confirming commit\<close>

fun hint_ballot_for_commit :: "scp_pledges \<Rightarrow> scp_ballot option" where
  "hint_ballot_for_commit (Prepare p) =
     (if prep_n_c p \<noteq> 0 then Some (ScpBallot (prep_n_h p) (bvalue (prep_ballot p))) else None)"
| "hint_ballot_for_commit (Confirm c) = Some (ScpBallot (conf_n_h c) (bvalue (conf_ballot c)))"
| "hint_ballot_for_commit (Externalize e) = Some (ScpBallot (ext_n_h e) (bvalue (ext_commit e)))"
| "hint_ballot_for_commit (Nominate _) = None"

fun commit_boundaries_of :: "scp_ballot \<Rightarrow> scp_pledges \<Rightarrow> u32 list" where
  "commit_boundaries_of b (Prepare p) =
     (if ballot_compatible b (prep_ballot p) \<and> prep_n_c p \<noteq> 0 then [prep_n_c p, prep_n_h p] else [])"
| "commit_boundaries_of b (Confirm c) =
     (if ballot_compatible b (conf_ballot c) then [conf_n_commit c, conf_n_h c] else [])"
| "commit_boundaries_of b (Externalize e) =
     (if ballot_compatible b (ext_commit e) then [counter (ext_commit e), ext_n_h e, u32_max] else [])"
| "commit_boundaries_of b (Nominate _) = []"

text \<open>The \<open>BTreeSet\<close> of boundaries, in ascending order.\<close>

definition get_commit_boundaries_from_statements :: "scp_ballot \<Rightarrow> ballot_protocol \<Rightarrow> u32 list" where
  "get_commit_boundaries_from_statements b s =
     sorted_dedup (concat (map (\<lambda>(n, env). commit_boundaries_of b (st_pledges (env_statement env)))
       (latest_envelopes s)))"

text \<open>The loop body over \<open>boundaries.iter().rev()\<close>, with its \<open>continue\<close> and \<open>break\<close>.\<close>

fun extend_interval_loop :: "(u32 \<times> u32 \<Rightarrow> bool) \<Rightarrow> u32 list \<Rightarrow> u32 \<times> u32 \<Rightarrow> u32 \<times> u32" where
  "extend_interval_loop pred [] candidate = candidate"
| "extend_interval_loop pred (b # bs) candidate =
     (if fst candidate \<noteq> 0 \<and> b > snd candidate then extend_interval_loop pred bs candidate
      else
        let cur = (if fst candidate = 0 then (b, b) else (b, snd candidate)) in
        if pred cur then extend_interval_loop pred bs cur
        else if fst candidate \<noteq> 0 then candidate
        else extend_interval_loop pred bs candidate)"

definition find_extended_interval :: "u32 \<times> u32 \<Rightarrow> u32 list \<Rightarrow> (u32 \<times> u32 \<Rightarrow> bool) \<Rightarrow> u32 \<times> u32" where
  "find_extended_interval init boundaries pred = extend_interval_loop pred (rev boundaries) init"

definition set_accept_commit ::
  "emitter \<Rightarrow> slot_context \<Rightarrow> scp_ballot \<Rightarrow> scp_ballot \<Rightarrow> ballot_protocol
    \<Rightarrow> fault + (bool \<times> ballot_protocol)" where
  "set_accept_commit emit ctx c h s =
     (let s1 = s\<lparr>value_override := Some (bvalue h)\<rparr>;
          (w1, s2) =
            (if (case high_ballot s1 of Some b \<Rightarrow> ballot_compare b h \<noteq> Equal | None \<Rightarrow> True) \<or>
                (case commit s1 of Some b \<Rightarrow> ballot_compare b c \<noteq> Equal | None \<Rightarrow> True)
             then (True, s1\<lparr>commit := Some c, high_ballot := Some h\<rparr>) else (False, s1));
          (w2, s3) =
            (if phase s2 = PhasePrepare
             then
               let t1 = s2\<lparr>phase := PhaseConfirm\<rparr>;
                   t2 = (case current_ballot t1 of
                           Some cur \<Rightarrow>
                             if \<not> are_ballots_less_and_compatible h cur
                             then snd (bump_to_ballot ctx h False t1) else t1
                         | None \<Rightarrow> t1)
               in (True, t2\<lparr>prepared_prime := None\<rparr>)
             else (w1, s2))
      in if w2
         then
           let s4 = snd (update_current_if_needed ctx h s3);
               s5 = notify (AcceptedCommit (slot_index ctx) h) s4
           in bindE (emit s5) (\<lambda>s6. Inr (True, s6))
         else Inr (False, s3))"

definition attempt_accept_commit ::
  "emitter \<Rightarrow> slot_context \<Rightarrow> scp_statement \<Rightarrow> ballot_protocol \<Rightarrow> fault + (bool \<times> ballot_protocol)" where
  "attempt_accept_commit emit ctx hint s =
     (if phase s \<noteq> PhasePrepare \<and> phase s \<noteq> PhaseConfirm then Inr (False, s)
      else case hint_ballot_for_commit (st_pledges hint) of
        None \<Rightarrow> Inr (False, s)
      | Some ballot \<Rightarrow>
          if phase s = PhaseConfirm \<and>
             (case high_ballot s of Some high \<Rightarrow> \<not> ballot_compatible ballot high | None \<Rightarrow> False)
          then Inr (False, s)
          else
            let boundaries = get_commit_boundaries_from_statements ballot s in
            if boundaries = [] then Inr (False, s)
            else
              let candidate = find_extended_interval (0, 0) boundaries (\<lambda>interval.
                    federated_accept ctx (\<lambda>st. statement_votes_commit ballot interval (st_pledges st))
                      (\<lambda>st. commit_predicate ballot interval (st_pledges st)) s)
              in if fst candidate = 0 then Inr (False, s)
                 else if phase s \<noteq> PhaseConfirm \<or>
                         snd candidate > (case high_ballot s of Some b \<Rightarrow> counter b | None \<Rightarrow> 0)
                 then set_accept_commit emit ctx (ScpBallot (fst candidate) (bvalue ballot))
                        (ScpBallot (snd candidate) (bvalue ballot)) s
                 else Inr (False, s))"

definition set_confirm_commit ::
  "emitter \<Rightarrow> slot_context \<Rightarrow> scp_ballot \<Rightarrow> scp_ballot \<Rightarrow> ballot_protocol
    \<Rightarrow> fault + (bool \<times> ballot_protocol)" where
  "set_confirm_commit emit ctx c h s =
     (let s1 = snd (update_current_if_needed ctx h s);
          s2 = s1\<lparr>commit := Some c, high_ballot := Some h, phase := PhaseExternalize\<rparr>
      in bindE (emit s2) (\<lambda>s3.
           let s4 = s3\<lparr>needs_stop_nomination := True\<rparr> in
           case commit s4 of
             None \<Rightarrow> Inl UnwrapNone
           | Some cm \<Rightarrow> Inr (True, notify (ValueExternalized (slot_index ctx) (bvalue cm)) s4)))"

fun is_prepare :: "scp_pledges \<Rightarrow> bool" where
  "is_prepare (Prepare _) = True"
| "is_prepare _ = False"

definition attempt_confirm_commit ::
  "emitter \<Rightarrow> slot_context \<Rightarrow> scp_statement \<Rightarrow> ballot_protocol \<Rightarrow> fault + (bool \<times> ballot_protocol)" where
  "attempt_confirm_commit emit ctx hint s =
     (if phase s \<noteq> PhaseConfirm then Inr (False, s)
      else case (high_ballot s, commit s) of
        (Some high, Some cm) \<Rightarrow>
          if is_prepare (st_pledges hint) then Inr (False, s)
          else (case hint_ballot_for_commit (st_pledges hint) of
            None \<Rightarrow> Inr (False, s)
          | Some ballot \<Rightarrow>
              if \<not> ballot_compatible ballot cm then Inr (False, s)
              else
                let boundaries = get_commit_boundaries_from_statements ballot s;
                    candidate = find_extended_interval (0, 0) boundaries (\<lambda>interval.
                      federated_ratify ctx (\<lambda>st. commit_predicate ballot interval (st_pledges st)) s)
                in if fst candidate = 0 then Inr (False, s)
                   else set_confirm_commit emit ctx (ScpBallot (fst candidate) (bvalue ballot))
                          (ScpBallot (snd candidate) (bvalue ballot)) s)
      | _ \<Rightarrow> Inr (False, s))"

section \<open>Bumping to a v-blocking set\<close>

definition local_counter :: "ballot_protocol \<Rightarrow> u32" where
  "local_counter s = (case current_ballot s of Some b \<Rightarrow> counter b | None \<Rightarrow> 0)"

fun bump_counters_loop ::
  "emitter \<Rightarrow> slot_context \<Rightarrow> u32 list \<Rightarrow> ballot_protocol \<Rightarrow> fault + (bool \<times> ballot_protocol)" where
  "bump_counters_loop emit ctx [] s = Inr (False, s)"
| "bump_counters_loop emit ctx (n # ns) s =
     (if \<not> has_vblocking_subset_strictly_ahead_of ctx n s then abandon_ballot emit ctx n s
      else bump_counters_loop emit ctx ns s)"

definition attempt_bump ::
  "emitter \<Rightarrow> slot_context \<Rightarrow> ballot_protocol \<Rightarrow> fault + (bool \<times> ballot_protocol)" where
  "attempt_bump emit ctx s =
     (if phase s \<noteq> PhasePrepare \<and> phase s \<noteq> PhaseConfirm then Inr (False, s)
      else if \<not> has_vblocking_subset_strictly_ahead_of ctx (local_counter s) s then Inr (False, s)
      else
        let counters = sorted_dedup (filter (\<lambda>n. n > local_counter s)
              (map (\<lambda>(n, env). statement_ballot_counter (st_pledges (env_statement env))) (latest_envelopes s)))
        in bump_counters_loop emit ctx counters s)"

fun phase_rank :: "ballot_phase \<Rightarrow> nat" where
  "phase_rank PhasePrepare = 0"
| "phase_rank PhaseConfirm = 1"
| "phase_rank PhaseExternalize = 2"

text \<open>
  \<open>loop { let bumped = self.attempt_bump(ctx); did_work = bumped || did_work; if !bumped { break; } }\<close>.
  A successful bump moves to a later phase or raises the current counter, which bounds the loop; the
  fault \<open>BumpLoopStuck\<close> stands for an iteration that does neither, and never occurs.
\<close>

function bump_loop ::
  "emitter \<Rightarrow> slot_context \<Rightarrow> bool \<Rightarrow> ballot_protocol \<Rightarrow> fault + (bool \<times> ballot_protocol)" where
  "bump_loop emit ctx did_work s =
     (case attempt_bump emit ctx s of
        Inl f \<Rightarrow> Inl f
      | Inr (bumped, s') \<Rightarrow>
          if \<not> bumped then Inr (did_work, s')
          else if phase_rank (phase s) < phase_rank (phase s') \<or>
                  phase s = phase s' \<and> local_counter s < local_counter s'
          then bump_loop emit ctx True s'
          else Inl BumpLoopStuck)"
  by pat_completeness auto
termination
proof (relation "measures [\<lambda>(emit, ctx, w, s). 2 - phase_rank (phase s),
    \<lambda>(emit, ctx, w, s). 2 ^ 32 - unat (local_counter s)]", goal_cases)
  case (2 emit ctx did_work s x bumped s')
  have "phase_rank (phase s') \<le> 2" by (cases "phase s'") simp_all
  moreover have "unat (local_counter s') < 2 ^ 32" using unat_u32_bound by simp
  ultimately show ?case using 2 by (auto simp: word_less_nat_alt)
qed simp

declare bump_loop.simps [simp del]

section \<open>Emission and advancing\<close>

definition send_latest_envelope :: "ballot_protocol \<Rightarrow> ballot_protocol" where
  "send_latest_envelope s =
     (if current_message_level s \<noteq> 0 then s
      else if \<not> fully_validated s then s
      else case last_envelope s of
        None \<Rightarrow> s
      | Some env \<Rightarrow>
          if last_envelope_emit s = Some env then s
          else notify (EmitEnvelope env) (s\<lparr>last_envelope_emit := Some env\<rparr>))"

definition create_signed_envelope :: "slot_context \<Rightarrow> scp_pledges \<Rightarrow> scp_statement \<times> scp_envelope" where
  "create_signed_envelope ctx pl =
     (let st = \<lparr>st_node_id = local_node_id ctx, st_slot_index = slot_index ctx, st_pledges = pl\<rparr>
      in (st, \<lparr>env_statement = st, env_signature = drv_sign (driver ctx) st\<rparr>))"

definition opt_counter :: "scp_ballot option \<Rightarrow> u32" where
  "opt_counter b = (case b of Some x \<Rightarrow> counter x | None \<Rightarrow> 0)"

definition emit_prepare :: "slot_context \<Rightarrow> ballot_protocol \<Rightarrow> (scp_statement \<times> scp_envelope \<times> bool) option" where
  "emit_prepare ctx s =
     (let can_emit = (current_ballot s \<noteq> None);
          ballot = (case current_ballot s of Some b \<Rightarrow> b | None \<Rightarrow> ScpBallot 0 []);
          prep = \<lparr>prep_quorum_set_hash = drv_hash_quorum_set (driver ctx) (local_quorum_set ctx),
                  prep_ballot = ballot, prep_prepared = prepared s,
                  prep_prepared_prime = prepared_prime s,
                  prep_n_c = opt_counter (commit s), prep_n_h = opt_counter (high_ballot s)\<rparr>;
          (st, env) = create_signed_envelope ctx (Prepare prep)
      in Some (st, env, can_emit))"

definition emit_confirm :: "slot_context \<Rightarrow> ballot_protocol \<Rightarrow> (scp_statement \<times> scp_envelope \<times> bool) option" where
  "emit_confirm ctx s =
     (case current_ballot s of
        None \<Rightarrow> None
      | Some ballot \<Rightarrow>
          let conf = \<lparr>conf_ballot = ballot, conf_n_prepared = opt_counter (prepared s),
                      conf_n_commit = opt_counter (commit s), conf_n_h = opt_counter (high_ballot s),
                      conf_quorum_set_hash = drv_hash_quorum_set (driver ctx) (local_quorum_set ctx)\<rparr>;
              (st, env) = create_signed_envelope ctx (Confirm conf)
          in Some (st, env, True))"

definition emit_externalize ::
  "slot_context \<Rightarrow> ballot_protocol \<Rightarrow> (scp_statement \<times> scp_envelope \<times> bool) option" where
  "emit_externalize ctx s =
     (case commit s of
        None \<Rightarrow> None
      | Some c \<Rightarrow>
          let ext = \<lparr>ext_commit = c, ext_n_h = opt_counter (high_ballot s),
                     ext_commit_quorum_set_hash = drv_hash_quorum_set (driver ctx) (local_quorum_set ctx)\<rparr>;
              (st, env) = create_signed_envelope ctx (Externalize ext)
          in Some (st, env, True))"

definition emit_statement :: "slot_context \<Rightarrow> ballot_protocol \<Rightarrow> (scp_statement \<times> scp_envelope \<times> bool) option" where
  "emit_statement ctx s =
     (case phase s of
        PhasePrepare \<Rightarrow> emit_prepare ctx s
      | PhaseConfirm \<Rightarrow> emit_confirm ctx s
      | PhaseExternalize \<Rightarrow> emit_externalize ctx s)"

text \<open>Recording the local envelope: \<open>latest_envelopes.insert(..)\<close> and, if it can be emitted, \<open>last_envelope\<close>.\<close>

definition record_self :: "slot_context \<Rightarrow> scp_envelope \<Rightarrow> bool \<Rightarrow> ballot_protocol \<Rightarrow> ballot_protocol" where
  "record_self ctx env can_emit s =
     (let s1 = s\<lparr>latest_envelopes := AList.update (local_node_id ctx) env (latest_envelopes s)\<rparr>
      in if can_emit then s1\<lparr>last_envelope := Some env\<rparr> else s1)"

definition emit_step ::
  "(scp_statement \<Rightarrow> ballot_protocol \<Rightarrow> fault + (envelope_state \<times> ballot_protocol))
    \<Rightarrow> slot_context \<Rightarrow> ballot_protocol \<Rightarrow> fault + ballot_protocol" where
  "emit_step advance ctx s =
     (case emit_statement ctx s of
        None \<Rightarrow> Inr s
      | Some (st, env, can_emit) \<Rightarrow>
          if \<not> is_statement_sane ctx st then Inr s
          else if \<not> is_newer_statement (local_node_id ctx) st s then Inr s
          else
            let validation = validate_statement_values ctx st in
            if validation = Invalid then Inr s
            else if phase s \<noteq> PhaseExternalize
            then
              let s1 = (if clears_fully_validated validation
                        then s\<lparr>fully_validated := False, needs_clear_slot_validation := True\<rparr> else s);
                  s2 = record_self ctx env can_emit s1
              in bindE (advance st s2) (\<lambda>(r, s3). Inr (send_latest_envelope s3))
            else if \<not> statement_value_matches_commit (commit s) (st_pledges st) then Inr s
            else Inr (send_latest_envelope (record_self ctx env can_emit s)))"

definition advance_slot ::
  "emitter \<Rightarrow> slot_context \<Rightarrow> scp_statement \<Rightarrow> ballot_protocol \<Rightarrow> fault + (envelope_state \<times> ballot_protocol)" where
  "advance_slot emit ctx hint s =
     (let s0 = s\<lparr>current_message_level := u32_saturating_add (current_message_level s) 1\<rparr> in
      if current_message_level s0 \<ge> MAX_PROTOCOL_TRANSITIONS then Inl TransitionLimit
      else
        bindE (attempt_accept_prepared emit ctx hint s0) (\<lambda>(w1, s1).
        bindE (attempt_confirm_prepared emit ctx hint s1) (\<lambda>(w2, s2).
        bindE (attempt_accept_commit emit ctx hint s2) (\<lambda>(w3, s3).
        bindE (attempt_confirm_commit emit ctx hint s3) (\<lambda>(w4, s4).
        let did_work = (w4 \<or> w3 \<or> w2 \<or> w1) in
        bindE (if current_message_level s4 = 1
               then bindE (bump_loop emit ctx did_work s4)
                      (\<lambda>(w5, s5). Inr (w5, check_heard_from_quorum ctx s5))
               else Inr (did_work, s4)) (\<lambda>(w, s6).
        let s7 = s6\<lparr>current_message_level := u32_saturating_sub (current_message_level s6) 1\<rparr>
        in if w then Inr (EnvValidNew, send_latest_envelope s7) else Inr (EnvValid, s7)))))))"

primrec emit_current_state :: "nat \<Rightarrow> slot_context \<Rightarrow> emitter" where
  "emit_current_state 0 ctx = (\<lambda>s. Inl OutOfFuel)"
| "emit_current_state (Suc n) ctx = emit_step (advance_slot (emit_current_state n ctx) ctx) ctx"

definition emit_fuel :: nat where
  "emit_fuel = 50"

abbreviation emit_now :: "slot_context \<Rightarrow> emitter" where
  "emit_now ctx \<equiv> emit_current_state emit_fuel ctx"

section \<open>Entry points\<close>

definition bump ::
  "slot_context \<Rightarrow> scp_value \<Rightarrow> bool \<Rightarrow> ballot_protocol \<Rightarrow> fault + (bool \<times> ballot_protocol)" where
  "bump ctx v force s =
     (if \<not> force \<and> current_ballot s \<noteq> None then Inr (False, s)
      else bump_state (emit_now ctx) ctx v
             (case current_ballot s of Some cur \<Rightarrow> counter cur + 1 | None \<Rightarrow> 1) s)"

definition bump_timeout ::
  "slot_context \<Rightarrow> scp_value option \<Rightarrow> ballot_protocol \<Rightarrow> fault + (bool \<times> ballot_protocol)" where
  "bump_timeout ctx composite s =
     abandon_ballot (emit_now ctx) ctx 0
       (s\<lparr>timer_exp_count := u32_saturating_add (timer_exp_count s) 1, composite_candidate := composite\<rparr>)"

definition process_envelope ::
  "slot_context \<Rightarrow> scp_envelope \<Rightarrow> validation_level \<Rightarrow> ballot_protocol
    \<Rightarrow> fault + (envelope_state \<times> ballot_protocol)" where
  "process_envelope ctx env validation s =
     (let st = env_statement env; n = st_node_id st in
      if is_nomination (st_pledges st) then Inr (EnvInvalid, s)
      else if \<not> is_newer_statement n st s then Inr (EnvInvalid, s)
      else if phase s = PhaseExternalize
      then (if statement_value_matches_commit (commit s) (st_pledges st)
            then Inr (EnvValid, s\<lparr>latest_envelopes := AList.update n env (latest_envelopes s)\<rparr>)
            else Inr (EnvInvalid, s))
      else
        let s1 = (if clears_fully_validated validation then s\<lparr>fully_validated := False\<rparr> else s);
            s2 = s1\<lparr>latest_envelopes := AList.update n env (latest_envelopes s1)\<rparr>
        in advance_slot (emit_now ctx) ctx st s2)"

text \<open>Crash recovery.\<close>

definition restore_pledges :: "slot_context \<Rightarrow> scp_pledges \<Rightarrow> ballot_protocol \<Rightarrow> ballot_protocol" where
  "restore_pledges ctx pl s =
     (case pl of
        Prepare p \<Rightarrow>
          let v = bvalue (prep_ballot p);
              s1 = snd (bump_to_ballot ctx (prep_ballot p) True s);
              s2 = s1\<lparr>prepared := prep_prepared p, prepared_prime := prep_prepared_prime p\<rparr>;
              s3 = (if prep_n_c p \<noteq> 0 then s2\<lparr>commit := Some (ScpBallot (prep_n_c p) v)\<rparr> else s2);
              s4 = (if prep_n_h p \<noteq> 0 then s3\<lparr>high_ballot := Some (ScpBallot (prep_n_h p) v)\<rparr> else s3)
          in s4\<lparr>phase := PhasePrepare\<rparr>
      | Confirm c \<Rightarrow>
          let v = bvalue (conf_ballot c);
              s1 = snd (bump_to_ballot ctx (conf_ballot c) True s)
          in s1\<lparr>prepared := Some (ScpBallot (conf_n_prepared c) v), prepared_prime := None,
                commit := Some (ScpBallot (conf_n_commit c) v),
                high_ballot := Some (ScpBallot (conf_n_h c) v), phase := PhaseConfirm\<rparr>
      | Externalize e \<Rightarrow>
          let v = bvalue (ext_commit e);
              s1 = s\<lparr>commit := Some (ext_commit e), high_ballot := Some (ScpBallot (ext_n_h e) v)\<rparr>;
              s2 = snd (bump_to_ballot ctx (ScpBallot u32_max v) True s1)
          in s2\<lparr>prepared := Some (ScpBallot u32_max v), phase := PhaseExternalize\<rparr>
      | Nominate _ \<Rightarrow> s)"

datatype restore_error = AlreadyStarted | NonBallotStatement

definition set_state_from_envelope ::
  "slot_context \<Rightarrow> scp_envelope \<Rightarrow> ballot_protocol \<Rightarrow> restore_error + ballot_protocol" where
  "set_state_from_envelope ctx env s =
     (let st = env_statement env in
      if current_ballot s \<noteq> None then Inl AlreadyStarted
      else if is_nomination (st_pledges st) then Inl NonBallotStatement
      else
        let s1 = restore_pledges ctx (st_pledges st) s
        in Inr (s1\<lparr>latest_envelopes := AList.update (st_node_id st) env (latest_envelopes s1),
                   last_envelope := Some env, last_envelope_emit := Some env\<rparr>))"

section \<open>A node that is its own quorum\<close>

text \<open>
  A context to run the machine on: one node whose quorum set is itself, a driver that finds every
  value valid. Bumping it with a value takes it from the initial state to externalisation, through
  nested emissions.
\<close>

definition solo_driver :: scp_driver where
  "solo_driver =
     \<lparr>drv_validate_value = (\<lambda>_ _ _. FullyValidated), drv_get_quorum_set = (\<lambda>_. None),
      drv_get_quorum_set_by_hash = (\<lambda>_. None), drv_hash_quorum_set = (\<lambda>_. [7]), drv_sign = (\<lambda>_. []),
      drv_compute_timeout = (\<lambda>_ _. 1000), drv_combine_candidates = (\<lambda>_ vs. Some (last vs)),
      drv_extract_valid_value = (\<lambda>_ _. None), drv_compute_hash_node = (\<lambda>_ _ _ _ _. 1),
      drv_compute_value_hash = (\<lambda>_ _ _ _. 1), drv_get_node_weight = (\<lambda>_ _ _. 1),
      drv_has_upgrades = (\<lambda>_. False), drv_strip_all_upgrades = (\<lambda>_. None),
      drv_upgrade_timeout_limit = 5, drv_verify_envelope = (\<lambda>_. True)\<rparr>"

definition solo_context :: slot_context where
  "solo_context =
     \<lparr>local_node_id = [1], local_quorum_set = simple_quorum_set 1 [[1]], driver = solo_driver, slot_index = 7\<rparr>"

definition solo_externalized :: ballot_protocol where
  "solo_externalized = snd (projr (bump solo_context [5] False new_ballot_protocol))"

lemma solo_bump: "bump solo_context [5] False new_ballot_protocol = Inr (True, solo_externalized)"
  unfolding solo_externalized_def by (rule Inr_TrueI) code_simp+

lemma solo_value: "get_externalized_value solo_externalized = Some [5]"
  by code_simp

end
