(* ===== verification/Nomination.thy ===== *)
theory Nomination
  imports Ballot_Machine
begin

text \<open>
  The nomination protocol (\<open>crates/scp/src/nomination.rs\<close>) and the node weights of
  \<open>crates/scp/src/driver.rs\<close>: voting, acceptance and ratification of values, round leaders, the
  recursive self-emission, and restoring from an envelope.

  The prefix \<open>np_\<close> marks the fields of \<open>NominationProtocol\<close>. The \<open>BTreeSet\<close>s \<open>candidates\<close> and
  \<open>round_leaders\<close> are their strictly increasing lists of elements. Self-emission calls itself after
  every promotion and has no bound of its own in the source: it is a partial function whose value
  \<open>None\<close> is "does not return".
\<close>

section \<open>Node weights\<close>

definition u64_max :: u64 where
  "u64_max = 18446744073709551615"

text \<open>\<open>numerator.div_ceil(denominator) as u64\<close> over \<open>u128\<close>: the product of two 64-bit numbers fits,
  and the cast keeps the low 64 bits.\<close>

definition compute_weight :: "u64 \<Rightarrow> u64 \<Rightarrow> u64 \<Rightarrow> u64" where
  "compute_weight m entries thr =
     (if thr = 0 \<or> entries = 0 then 0
      else
        let numerator = unat m * unat thr; denominator = unat entries
        in word_of_nat ((numerator + denominator - 1) div denominator))"

fun base_get_node_weight :: "node_id \<Rightarrow> scp_quorum_set \<Rightarrow> bool \<Rightarrow> u64"
  and inner_weight :: "node_id \<Rightarrow> scp_quorum_set list \<Rightarrow> bool \<Rightarrow> u64 \<Rightarrow> u64 \<Rightarrow> u64" where
  "base_get_node_weight n (ScpQuorumSet th vs inner) is_local_node =
     (if is_local_node then u64_max
      else
        let entries = word_of_nat (length vs + length inner); thr = ucast th in
        if thr = 0 \<or> entries = 0 then 0
        else if n \<in> set vs then compute_weight u64_max entries thr
        else inner_weight n inner is_local_node entries thr)"
| "inner_weight n [] is_local_node entries thr = 0"
| "inner_weight n (q # qs) is_local_node entries thr =
     (let leaf_w = base_get_node_weight n q is_local_node in
      if leaf_w > 0 then compute_weight leaf_w entries thr
      else inner_weight n qs is_local_node entries thr)"

section \<open>State\<close>

record nomination_protocol =
  np_round :: u32
  np_votes :: "scp_value list"
  np_accepted :: "scp_value list"
  np_candidates :: "scp_value list"
  np_started :: bool
  np_stopped :: bool
  np_latest_composite :: "scp_value option"
  np_previous_value :: "scp_value option"
  np_timer_exp_count :: u32
  np_latest_nominations :: "(node_id \<times> scp_envelope) list"
  np_round_leaders :: "node_id list"
  np_last_envelope :: "scp_envelope option"
  np_last_envelope_emit :: "scp_envelope option"
  np_fully_validated :: bool
  np_events :: "driver_event list"

definition new_nomination_protocol :: nomination_protocol where
  "new_nomination_protocol =
     \<lparr>np_round = 0, np_votes = [], np_accepted = [], np_candidates = [], np_started = False,
      np_stopped = False, np_latest_composite = None, np_previous_value = None,
      np_timer_exp_count = 0, np_latest_nominations = [], np_round_leaders = [],
      np_last_envelope = None, np_last_envelope_emit = None, np_fully_validated = True,
      np_events = []\<rparr>"

definition np_notify :: "driver_event \<Rightarrow> nomination_protocol \<Rightarrow> nomination_protocol" where
  "np_notify e s = s\<lparr>np_events := np_events s @ [e]\<rparr>"

datatype nomination_fault = LeaderLoopStuck | EmissionDiverges

section \<open>Accessors\<close>

definition set_fully_validated :: "bool \<Rightarrow> nomination_protocol \<Rightarrow> nomination_protocol" where
  "set_fully_validated b s = s\<lparr>np_fully_validated := b\<rparr>"

definition emit_deferred :: "nomination_protocol \<Rightarrow> nomination_protocol" where
  "emit_deferred s =
     (if \<not> np_fully_validated s then s
      else case np_last_envelope s of
        None \<Rightarrow> s
      | Some env \<Rightarrow>
          if np_last_envelope_emit s \<noteq> Some env
          then np_notify (EmitEnvelope env) (s\<lparr>np_last_envelope_emit := Some env\<rparr>)
          else s)"

definition get_node_state :: "node_id \<Rightarrow> nomination_protocol \<Rightarrow> quorum_info_node_state" where
  "get_node_state n s =
     (if map_of (np_latest_nominations s) n \<noteq> None then Nominating else Missing)"

fun nominated :: "scp_pledges \<Rightarrow> scp_nomination option" where
  "nominated (Nominate nom) = Some nom"
| "nominated _ = None"

definition get_reporting_state ::
  "node_id \<Rightarrow> node_id \<Rightarrow> bool \<Rightarrow> nomination_protocol \<Rightarrow> reporting_node_state" where
  "get_reporting_state n local self_already_moved_on s =
     (if n = local then RAgree
      else
        let enough_time = (np_timer_exp_count s \<ge> NUM_TIMEOUTS_THRESHOLD_FOR_REPORTING \<or> self_already_moved_on)
        in case map_of (np_latest_nominations s) n of
             None \<Rightarrow> if enough_time then RMissing else RNoInfo
           | Some other_env \<Rightarrow>
               (if enough_time
                then (case np_last_envelope s of
                        None \<Rightarrow> RAgree
                      | Some last_env \<Rightarrow>
                          (case nominated (st_pledges (env_statement other_env)) of
                             None \<Rightarrow> RAgree
                           | Some other \<Rightarrow>
                               (case nominated (st_pledges (env_statement last_env)) of
                                  None \<Rightarrow> RAgree
                                | Some mine \<Rightarrow>
                                    if list_all (\<lambda>v. v \<in> set (accepted mine)) (accepted other)
                                    then (if length (accepted other) \<noteq> length (accepted mine)
                                          then RDelayed else RAgree)
                                    else RDisagree)))
                else RAgree))"

section \<open>Values\<close>

definition insert_unique :: "scp_value list \<Rightarrow> scp_value \<Rightarrow> bool \<times> scp_value list" where
  "insert_unique values v = (if v \<in> set values then (False, values) else (True, values @ [v]))"

definition sorted_values :: "scp_value list \<Rightarrow> scp_value list" where
  "sorted_values values = sorted_dedup values"

definition is_sorted_unique :: "scp_value list \<Rightarrow> bool" where
  "is_sorted_unique values \<longleftrightarrow> list_all (\<lambda>(a, b). a < b) (zip values (tl values))"

definition is_sane_statement :: "scp_nomination \<Rightarrow> bool" where
  "is_sane_statement nom \<longleftrightarrow>
     (if votes nom = [] \<and> accepted nom = [] then False
      else is_sorted_unique (votes nom) \<and> is_sorted_unique (accepted nom))"

definition is_newer_nomination :: "scp_nomination \<Rightarrow> scp_nomination \<Rightarrow> bool" where
  "is_newer_nomination old new =
     (let old_votes = set (votes old); old_accepted = set (accepted old);
          new_votes = set (votes new); new_accepted = set (accepted new);
          votes_grew = (old_votes \<subseteq> new_votes \<and> card old_votes < card new_votes);
          accepted_grew = (old_accepted \<subseteq> new_accepted \<and> card old_accepted < card new_accepted)
      in (old_votes \<subseteq> new_votes \<and> old_accepted \<subseteq> new_accepted) \<and> (votes_grew \<or> accepted_grew))"

definition is_newer_nomination_internal ::
  "node_id \<Rightarrow> scp_nomination \<Rightarrow> nomination_protocol \<Rightarrow> bool" where
  "is_newer_nomination_internal n nom s =
     (case map_of (np_latest_nominations s) n of
        None \<Rightarrow> True
      | Some existing \<Rightarrow>
          (case nominated (st_pledges (env_statement existing)) of
             Some existing_nom \<Rightarrow> is_newer_nomination existing_nom nom
           | None \<Rightarrow> True))"

definition is_newer_statement :: "node_id \<Rightarrow> scp_statement \<Rightarrow> nomination_protocol \<Rightarrow> bool" where
  "is_newer_statement n st s =
     (case nominated (st_pledges st) of
        None \<Rightarrow> False
      | Some nom \<Rightarrow> is_newer_nomination_internal n nom s)"

definition record_local_nomination ::
  "node_id \<Rightarrow> scp_statement \<Rightarrow> scp_envelope \<Rightarrow> nomination_protocol \<Rightarrow> bool \<times> nomination_protocol" where
  "record_local_nomination local st env s =
     (case nominated (st_pledges st) of
        None \<Rightarrow> (False, s)
      | Some nom \<Rightarrow>
          if \<not> is_newer_nomination_internal local nom s then (False, s)
          else (True, s\<lparr>np_latest_nominations := AList.update local env (np_latest_nominations s)\<rparr>))"

section \<open>Federated voting on values\<close>

text \<open>The nodes whose stored nomination has the value in the given field.\<close>

definition get_nodes_with_value ::
  "scp_value \<Rightarrow> (scp_nomination \<Rightarrow> scp_value list) \<Rightarrow> nomination_protocol \<Rightarrow> node_id list" where
  "get_nodes_with_value v field s =
     map fst (filter (\<lambda>(n, env). case nominated (st_pledges (env_statement env)) of
                                   Some nom \<Rightarrow> v \<in> set (field nom)
                                 | None \<Rightarrow> False) (np_latest_nominations s))"

definition nomination_quorum_set_map ::
  "slot_context \<Rightarrow> nomination_protocol \<Rightarrow> (node_id \<times> scp_quorum_set) list" where
  "nomination_quorum_set_map ctx s =
     (let d = driver ctx;
          resolve = (\<lambda>(n, env). case nominated (st_pledges (env_statement env)) of
            None \<Rightarrow> None
          | Some nom \<Rightarrow>
              (case drv_get_quorum_set_by_hash d (nom_quorum_set_hash nom) of
                 Some qs \<Rightarrow> Some (n, qs)
               | None \<Rightarrow>
                   (case drv_get_quorum_set d n of
                      Some qs \<Rightarrow> if drv_hash_quorum_set d qs = nom_quorum_set_hash nom
                                 then Some (n, qs) else None
                    | None \<Rightarrow> None)));
          m = List.map_filter resolve (np_latest_nominations s)
      in if map_of m (local_node_id ctx) = None
         then AList.update (local_node_id ctx) (local_quorum_set ctx) m else m)"

text \<open>\<open>voters.union(&acceptors)\<close>: a set, listed without repetition.\<close>

definition should_accept_value :: "slot_context \<Rightarrow> scp_value \<Rightarrow> nomination_protocol \<Rightarrow> bool" where
  "should_accept_value ctx v s =
     (let voters = get_nodes_with_value v votes s;
          acceptors = get_nodes_with_value v accepted s;
          supporters = remdups (voters @ acceptors);
          qsets = nomination_quorum_set_map ctx s
      in is_v_blocking (local_quorum_set ctx) (set acceptors) \<or>
         is_quorum (local_quorum_set ctx) supporters (map_of qsets))"

definition should_ratify_value :: "slot_context \<Rightarrow> scp_value \<Rightarrow> nomination_protocol \<Rightarrow> bool" where
  "should_ratify_value ctx v s =
     is_quorum (local_quorum_set ctx) (get_nodes_with_value v accepted s)
       (map_of (nomination_quorum_set_map ctx s))"

definition validate_nominated :: "slot_context \<Rightarrow> scp_value \<Rightarrow> validation_level" where
  "validate_nominated ctx v = drv_validate_value (driver ctx) (slot_index ctx) v True"

abbreviation extract_nominated :: "slot_context \<Rightarrow> scp_value \<Rightarrow> scp_value option" where
  "extract_nominated ctx v \<equiv> drv_extract_valid_value (driver ctx) (slot_index ctx) v"

text \<open>One iteration of each of the two loops of \<open>attempt_promote\<close>.\<close>

definition promote_vote ::
  "slot_context \<Rightarrow> scp_value \<Rightarrow> bool \<times> nomination_protocol \<Rightarrow> bool \<times> nomination_protocol" where
  "promote_vote ctx v = (\<lambda>(modified, s).
     if v \<in> set (np_accepted s) then (modified, s)
     else if \<not> should_accept_value ctx v s then (modified, s)
     else if validate_nominated ctx v = FullyValidated
     then
       let (inserted, acc) = insert_unique (np_accepted s) v in
       if inserted
       then (True, s\<lparr>np_accepted := acc, np_votes := snd (insert_unique (np_votes s) v)\<rparr>)
       else (modified, s)
     else case extract_nominated ctx v of
       None \<Rightarrow> (modified, s)
     | Some extracted \<Rightarrow>
         let (inserted, vs) = insert_unique (np_votes s) extracted in
         if inserted then (True, s\<lparr>np_votes := vs\<rparr>) else (modified, s))"

definition promote_accepted ::
  "slot_context \<Rightarrow> scp_value \<Rightarrow> bool \<times> nomination_protocol \<Rightarrow> bool \<times> nomination_protocol" where
  "promote_accepted ctx v = (\<lambda>(new_candidates, s).
     if v \<in> set (np_candidates s) then (new_candidates, s)
     else if should_ratify_value ctx v s
     then (True, np_notify (StopTimer (slot_index ctx) NominationTimer)
                   (s\<lparr>np_candidates := insort_insert v (np_candidates s)\<rparr>))
     else (new_candidates, s))"

definition attempt_promote ::
  "slot_context \<Rightarrow> scp_value list \<Rightarrow> nomination_protocol \<Rightarrow> bool \<times> bool \<times> nomination_protocol" where
  "attempt_promote ctx votes_to_check s =
     (let (modified, s1) = fold (promote_vote ctx) votes_to_check (False, s);
          (new_candidates, s2) = fold (promote_accepted ctx) (np_accepted s1) (False, s1)
      in (modified, new_candidates, s2))"

definition update_composite :: "slot_context \<Rightarrow> nomination_protocol \<Rightarrow> nomination_protocol" where
  "update_composite ctx s =
     (if np_candidates s = [] then s
      else case drv_combine_candidates (driver ctx) (slot_index ctx) (np_candidates s) of
        None \<Rightarrow> s
      | Some composite \<Rightarrow>
          if np_latest_composite s \<noteq> Some composite
          then (np_notify (UpdatedCandidateValue (slot_index ctx) composite) s)
                 \<lparr>np_latest_composite := Some composite\<rparr>
          else s)"

section \<open>Emission\<close>

definition own_nomination :: "slot_context \<Rightarrow> nomination_protocol \<Rightarrow> scp_nomination" where
  "own_nomination ctx s =
     \<lparr>nom_quorum_set_hash = drv_hash_quorum_set (driver ctx) (local_quorum_set ctx),
      votes = sorted_values (np_votes s), accepted = sorted_values (np_accepted s)\<rparr>"

text \<open>Step 3 of \<open>emit_nomination\<close>: announce the envelope unless a nested call announced a newer one.\<close>

definition announce :: "scp_nomination \<Rightarrow> scp_envelope \<Rightarrow> nomination_protocol \<Rightarrow> nomination_protocol" where
  "announce nom env s =
     (let is_newer =
            (case np_last_envelope s of
               None \<Rightarrow> True
             | Some prev_env \<Rightarrow>
                 (case nominated (st_pledges (env_statement prev_env)) of
                    Some last_nom \<Rightarrow> is_newer_nomination last_nom nom
                  | None \<Rightarrow> True))
      in if is_newer
         then
           let s1 = s\<lparr>np_last_envelope := Some env\<rparr> in
           if np_fully_validated s1 \<and> np_last_envelope_emit s1 \<noteq> Some env
           then np_notify (EmitEnvelope env) (s1\<lparr>np_last_envelope_emit := Some env\<rparr>)
           else s1
         else s)"

partial_function (option) emit_nomination ::
  "slot_context \<Rightarrow> nomination_protocol \<Rightarrow> nomination_protocol option" where
  "emit_nomination ctx s =
     (let nom = own_nomination ctx s;
          (st, env) = create_signed_envelope ctx (Nominate nom)
      in if \<not> is_newer_nomination_internal (local_node_id ctx) nom s then Some s
         else if \<not> is_sane_statement nom then Some s
         else
           let (recorded, s1) = record_local_nomination (local_node_id ctx) st env s in
           if \<not> recorded then Some s
           else
             Option.bind
               (if np_started s1
                then
                  let (modified, new_candidates, s2) = attempt_promote ctx (votes nom) s1 in
                  Option.bind (if modified then emit_nomination ctx s2 else Some s2)
                    (\<lambda>s3. Some (if new_candidates then update_composite ctx s3 else s3))
                else Some s1)
               (\<lambda>s4. Some (announce nom env s4)))"

declare emit_nomination.simps [code]

definition emitted :: "nomination_protocol option \<Rightarrow> nomination_fault + nomination_protocol" where
  "emitted r = (case r of None \<Rightarrow> Inl EmissionDiverges | Some s \<Rightarrow> Inr s)"

section \<open>Leaders\<close>

definition hash_value :: "slot_context \<Rightarrow> scp_value \<Rightarrow> nomination_protocol \<Rightarrow> u64" where
  "hash_value ctx v s =
     (let prev = (case np_previous_value s of Some p \<Rightarrow> p | None \<Rightarrow> v)
      in drv_compute_value_hash (driver ctx) (slot_index ctx) prev (np_round s) v)"

text \<open>The closure \<open>consider_value\<close>, over \<open>found_valid\<close> and \<open>best\<close>.\<close>

definition consider_value ::
  "slot_context \<Rightarrow> nomination_protocol \<Rightarrow> scp_value
    \<Rightarrow> bool \<times> (u64 \<times> scp_value) option \<Rightarrow> bool \<times> (u64 \<times> scp_value) option" where
  "consider_value ctx s v = (\<lambda>(found_valid, best).
     case (if validate_nominated ctx v = FullyValidated then Some v else extract_nominated ctx v) of
       None \<Rightarrow> (found_valid, best)
     | Some candidate \<Rightarrow>
         if candidate \<in> set (np_votes s) then (True, best)
         else
           let h = hash_value ctx candidate s in
           case best of
             None \<Rightarrow> (True, Some (h, candidate))
           | Some (best_hash, b) \<Rightarrow>
               if h \<ge> best_hash then (True, Some (h, candidate)) else (True, Some (best_hash, b)))"

definition get_new_value_from_nomination ::
  "slot_context \<Rightarrow> scp_nomination \<Rightarrow> nomination_protocol \<Rightarrow> scp_value option" where
  "get_new_value_from_nomination ctx nom s =
     (let (found_valid, best) = fold (consider_value ctx s) (accepted nom) (False, None);
          (found_valid', best') =
            (if \<not> found_valid then fold (consider_value ctx s) (votes nom) (found_valid, best)
             else (found_valid, best))
      in map_option snd best')"

definition get_node_priority ::
  "slot_context \<Rightarrow> scp_quorum_set \<Rightarrow> scp_value \<Rightarrow> node_id \<Rightarrow> nomination_protocol \<Rightarrow> u64" where
  "get_node_priority ctx qs prev n s =
     (let weight = drv_get_node_weight (driver ctx) n qs (n = local_node_id ctx) in
      if weight = 0 then 0
      else if drv_compute_hash_node (driver ctx) (slot_index ctx) prev False (np_round s) n \<le> weight
      then drv_compute_hash_node (driver ctx) (slot_index ctx) prev True (np_round s) n
      else 0)"

fun for_all_nodes :: "scp_quorum_set \<Rightarrow> (node_id \<Rightarrow> 'a \<Rightarrow> 'a) \<Rightarrow> 'a \<Rightarrow> 'a" where
  "for_all_nodes (ScpQuorumSet th vs inner) f a =
     fold (\<lambda>q. for_all_nodes q f) inner (fold f vs a)"

definition max_leader_count :: "slot_context \<Rightarrow> scp_quorum_set \<Rightarrow> nat" where
  "max_leader_count ctx qs =
     for_all_nodes qs (\<lambda>n c. if drv_get_node_weight (driver ctx) n qs False > 0 then c + 1 else c)
       (if drv_get_node_weight (driver ctx) (local_node_id ctx) qs True > 0 then 1 else 0)"

definition consider_leader ::
  "(node_id \<Rightarrow> u64) \<Rightarrow> node_id \<Rightarrow> u64 \<times> node_id set \<Rightarrow> u64 \<times> node_id set" where
  "consider_leader priority n = (\<lambda>(top_priority, new_leaders).
     let p = priority n;
         (top', leaders') = (if p > top_priority then (p, {}) else (top_priority, new_leaders))
     in if p = top' \<and> p > 0 then (top', insert n leaders') else (top', leaders'))"

definition new_round_leaders ::
  "slot_context \<Rightarrow> scp_quorum_set \<Rightarrow> scp_value \<Rightarrow> nomination_protocol \<Rightarrow> node_id set" where
  "new_round_leaders ctx qs prev s =
     (let priority = (\<lambda>n. get_node_priority ctx qs prev n s);
          (top_priority, leaders) =
            for_all_nodes qs (consider_leader priority)
              (priority (local_node_id ctx), {local_node_id ctx})
      in if top_priority = 0 then {} else leaders)"

text \<open>The \<open>while\<close> loop; the first argument is \<open>iterations_remaining\<close>, whose reaching zero panics.\<close>

fun leader_loop ::
  "slot_context \<Rightarrow> scp_quorum_set \<Rightarrow> scp_value \<Rightarrow> nat \<Rightarrow> nat \<Rightarrow> nomination_protocol
    \<Rightarrow> nomination_fault + nomination_protocol" where
  "leader_loop ctx qs prev max_leaders 0 s = Inl LeaderLoopStuck"
| "leader_loop ctx qs prev max_leaders (Suc n) s =
     (if length (np_round_leaders s) < max_leaders
      then
        let leaders' = sorted_list_of_set (set (np_round_leaders s) \<union> new_round_leaders ctx qs prev s) in
        if length leaders' \<noteq> length (np_round_leaders s)
        then Inr (s\<lparr>np_round_leaders := leaders'\<rparr>)
        else leader_loop ctx qs prev max_leaders n
               (s\<lparr>np_round_leaders := leaders', np_round := u32_saturating_add (np_round s) 1\<rparr>)
      else Inr s)"

definition leader_iterations :: nat where
  "leader_iterations = 1000"

definition update_round_leaders ::
  "slot_context \<Rightarrow> scp_value \<Rightarrow> nomination_protocol \<Rightarrow> nomination_fault + nomination_protocol" where
  "update_round_leaders ctx prev s =
     (let normalized_qs = normalize_quorum_set_with_remove (local_quorum_set ctx) (Some (local_node_id ctx))
      in leader_loop ctx normalized_qs prev (max_leader_count ctx normalized_qs) leader_iterations s)"

section \<open>Nominating\<close>

definition vote_for :: "slot_context \<Rightarrow> scp_value \<Rightarrow> nomination_protocol \<Rightarrow> bool \<times> nomination_protocol" where
  "vote_for ctx v s =
     (let (inserted, vs) = insert_unique (np_votes s) v in
      if inserted then (True, np_notify (NominatingValue (slot_index ctx) v) (s\<lparr>np_votes := vs\<rparr>))
      else (False, s))"

definition adopt_from_leader ::
  "slot_context \<Rightarrow> node_id \<Rightarrow> bool \<times> nomination_protocol \<Rightarrow> bool \<times> nomination_protocol" where
  "adopt_from_leader ctx leader = (\<lambda>(updated, s).
     case map_of (np_latest_nominations s) leader of
       None \<Rightarrow> (updated, s)
     | Some env \<Rightarrow>
         (case nominated (st_pledges (env_statement env)) of
            None \<Rightarrow> (updated, s)
          | Some nom \<Rightarrow>
              (case get_new_value_from_nomination ctx nom s of
                 None \<Rightarrow> (updated, s)
               | Some new_vote \<Rightarrow>
                   let (inserted, s') = vote_for ctx new_vote s in (updated \<or> inserted, s'))))"

definition adopt_leader_values :: "slot_context \<Rightarrow> nomination_protocol \<Rightarrow> bool \<times> nomination_protocol" where
  "adopt_leader_values ctx s = fold (adopt_from_leader ctx) (np_round_leaders s) (False, s)"

definition vote_as_leader ::
  "slot_context \<Rightarrow> scp_value \<Rightarrow> nomination_protocol \<Rightarrow> bool \<times> nomination_protocol" where
  "vote_as_leader ctx v s =
     (if local_node_id ctx \<notin> set (np_round_leaders s) then (False, s)
      else
        let d = driver ctx;
            over_limit = (np_timer_exp_count s \<ge> drv_upgrade_timeout_limit d);
            all_upgrades = list_all (drv_has_upgrades d) (np_votes s);
            vote_value = (if over_limit \<and> all_upgrades
                          then (case drv_strip_all_upgrades d v of Some stripped \<Rightarrow> stripped | None \<Rightarrow> v)
                          else v);
            should_vote = (np_votes s = [] \<or> over_limit \<and> all_upgrades)
        in if should_vote \<and> validate_nominated ctx vote_value \<noteq> Invalid
           then vote_for ctx vote_value s
           else (False, s))"

text \<open>The part of \<open>nominate\<close> after the leader election.\<close>

definition vote_round ::
  "slot_context \<Rightarrow> scp_value \<Rightarrow> nomination_protocol \<Rightarrow> nomination_fault + (bool \<times> nomination_protocol)" where
  "vote_round ctx v s =
     (let (adopted, s1) = adopt_leader_values ctx s;
          (voted, s2) = vote_as_leader ctx v s1;
          updated = (voted \<or> adopted)
      in bindE (if updated then emitted (emit_nomination ctx s2) else Inr s2) (\<lambda>s3. Inr (updated, s3)))"

definition nominate ::
  "slot_context \<Rightarrow> scp_value \<Rightarrow> scp_value \<Rightarrow> bool \<Rightarrow> nomination_protocol
    \<Rightarrow> nomination_fault + (bool \<times> nomination_protocol)" where
  "nominate ctx v prev timedout s =
     (if np_stopped s then Inr (False, s)
      else if np_candidates s \<noteq> [] then Inr (False, s)
      else
        let s1 = (if timedout
                  then s\<lparr>np_timer_exp_count := u32_saturating_add (np_timer_exp_count s) 1\<rparr> else s)
        in if timedout \<and> \<not> np_started s1 then Inr (False, s1)
           else
             bindE
               (update_round_leaders ctx prev
                  (s1\<lparr>np_started := True, np_previous_value := Some prev,
                      np_round := u32_saturating_add (np_round s1) 1\<rparr>))
               (vote_round ctx v))"

text \<open>The round leader's vote: taken only while there is no candidate.\<close>

definition take_leader_vote ::
  "slot_context \<Rightarrow> node_id \<Rightarrow> scp_nomination \<Rightarrow> nomination_protocol \<Rightarrow> bool \<times> nomination_protocol" where
  "take_leader_vote ctx n nom s =
     (if np_candidates s = [] \<and> n \<in> set (np_round_leaders s)
      then (case get_new_value_from_nomination ctx nom s of
              Some new_vote \<Rightarrow> vote_for ctx new_vote s
            | None \<Rightarrow> (False, s))
      else (False, s))"

text \<open>The part of \<open>process_envelope\<close> under \<open>if self.started\<close>.\<close>

definition process_stored ::
  "slot_context \<Rightarrow> node_id \<Rightarrow> scp_nomination \<Rightarrow> nomination_protocol
    \<Rightarrow> nomination_fault + (envelope_state \<times> nomination_protocol)" where
  "process_stored ctx n nom s =
     (let (promoted, new_candidates, s1) = attempt_promote ctx (votes nom) s;
          (adopted, s2) = take_leader_vote ctx n nom s1;
          modified = (promoted \<or> adopted)
      in bindE (if modified then emitted (emit_nomination ctx s2) else Inr s2)
           (\<lambda>s3. let s4 = (if new_candidates then update_composite ctx s3 else s3)
                 in Inr (if modified \<or> new_candidates then EnvValidNew else EnvValid, s4)))"

definition process_envelope ::
  "slot_context \<Rightarrow> scp_envelope \<Rightarrow> nomination_protocol
    \<Rightarrow> nomination_fault + (envelope_state \<times> nomination_protocol)" where
  "process_envelope ctx env s =
     (let n = st_node_id (env_statement env) in
      case nominated (st_pledges (env_statement env)) of
        None \<Rightarrow> Inr (EnvInvalid, s)
      | Some nom \<Rightarrow>
          if \<not> is_newer_nomination_internal n nom s then Inr (EnvInvalid, s)
          else if \<not> is_sane_statement nom then Inr (EnvInvalid, s)
          else
            let s1 = s\<lparr>np_latest_nominations := AList.update n env (np_latest_nominations s)\<rparr> in
            if np_started s1 then process_stored ctx n nom s1 else Inr (EnvValid, s1))"

definition stop :: "nomination_protocol \<Rightarrow> nomination_protocol" where
  "stop s = s\<lparr>np_stopped := True, np_started := False\<rparr>"

definition set_state_from_envelope ::
  "scp_envelope \<Rightarrow> nomination_protocol \<Rightarrow> bool \<times> nomination_protocol" where
  "set_state_from_envelope env s =
     (if np_started s then (False, s)
      else case nominated (st_pledges (env_statement env)) of
        None \<Rightarrow> (False, s)
      | Some nom \<Rightarrow>
          (True, s\<lparr>np_votes := votes nom, np_accepted := accepted nom,
                   np_latest_nominations :=
                     AList.update (st_node_id (env_statement env)) env (np_latest_nominations s),
                   np_last_envelope := Some env\<rparr>))"

end
