(* ===== verification/Nomination_Steps.thy ===== *)
theory Nomination_Steps
  imports Nomination
begin

text \<open>
  The nomination protocol as a step relation: voting for a value, accepting it, ratifying it,
  combining the candidates, storing a nomination, announcing one's own, and bookkeeping of rounds,
  leaders and timers. The operations of the code are sequences of these steps.
\<close>

section \<open>The steps\<close>

definition own_envelope :: "slot_context \<Rightarrow> scp_nomination \<Rightarrow> scp_envelope" where
  "own_envelope ctx nom = snd (create_signed_envelope ctx (Nominate nom))"

abbreviation nomination_of :: "scp_envelope \<Rightarrow> scp_nomination option" where
  "nomination_of env \<equiv> nominated (st_pledges (env_statement env))"

lemma nomination_of_own [simp]:
  "nomination_of (own_envelope ctx nom) = Some nom"
  "st_node_id (env_statement (own_envelope ctx nom)) = local_node_id ctx"
  "st_slot_index (env_statement (own_envelope ctx nom)) = slot_index ctx"
  by (simp_all add: own_envelope_def create_signed_envelope_def Let_def)

text \<open>A value this node may vote for: one the driver does not reject, or one it extracted itself.\<close>

definition votable :: "slot_context \<Rightarrow> scp_value \<Rightarrow> bool" where
  "votable ctx v \<longleftrightarrow> validate_nominated ctx v \<noteq> Invalid \<or> (\<exists>w. extract_nominated ctx w = Some v)"

definition store_nomination :: "node_id \<Rightarrow> scp_envelope \<Rightarrow> nomination_protocol \<Rightarrow> nomination_protocol" where
  "store_nomination n env s = s\<lparr>np_latest_nominations := AList.update n env (np_latest_nominations s)\<rparr>"

definition accept_value :: "scp_value \<Rightarrow> nomination_protocol \<Rightarrow> nomination_protocol" where
  "accept_value v s =
     s\<lparr>np_accepted := np_accepted s @ [v], np_votes := snd (insert_unique (np_votes s) v)\<rparr>"

definition ratify_value :: "slot_context \<Rightarrow> scp_value \<Rightarrow> nomination_protocol \<Rightarrow> nomination_protocol" where
  "ratify_value ctx v s = np_notify (StopTimer (slot_index ctx) NominationTimer)
     (s\<lparr>np_candidates := insort_insert v (np_candidates s)\<rparr>)"

definition cast_vote :: "scp_value \<Rightarrow> nomination_protocol \<Rightarrow> nomination_protocol" where
  "cast_vote v s = s\<lparr>np_votes := np_votes s @ [v]\<rparr>"

inductive nom_step :: "slot_context \<Rightarrow> nomination_protocol \<Rightarrow> nomination_protocol \<Rightarrow> bool"
  for ctx :: slot_context where
  Vote: "v \<notin> set (np_votes s) \<Longrightarrow> votable ctx v \<Longrightarrow>
    nom_step ctx s (cast_vote v s)"
| Declare: "v \<in> set (np_votes s) \<Longrightarrow> nom_step ctx s (np_notify (NominatingValue (slot_index ctx) v) s)"
| Accept: "v \<notin> set (np_accepted s) \<Longrightarrow> should_accept_value ctx v s \<Longrightarrow>
    validate_nominated ctx v = FullyValidated \<Longrightarrow> nom_step ctx s (accept_value v s)"
| Ratify: "v \<in> set (np_accepted s) \<Longrightarrow> v \<notin> set (np_candidates s) \<Longrightarrow> should_ratify_value ctx v s \<Longrightarrow>
    nom_step ctx s (ratify_value ctx v s)"
| Combine: "nom_step ctx s (update_composite ctx s)"
| Store: "nomination_of env = Some nom \<Longrightarrow> is_newer_nomination_internal n nom s \<Longrightarrow>
    is_sane_statement nom \<Longrightarrow> n = st_node_id (env_statement env) \<Longrightarrow>
    nom_step ctx s (store_nomination n env s)"
| Announce: "is_sane_statement nom \<Longrightarrow> set (votes nom) \<subseteq> set (np_votes s) \<Longrightarrow>
    set (accepted nom) \<subseteq> set (np_accepted s) \<Longrightarrow> set (accepted nom) \<subseteq> set (votes nom) \<Longrightarrow>
    nom_step ctx s (announce nom (own_envelope ctx nom) s)"
| Bookkeep: "\<not> np_stopped s \<Longrightarrow>
    nom_step ctx s (s\<lparr>np_round := r, np_round_leaders := ls, np_previous_value := p,
                      np_timer_exp_count := c, np_started := b\<rparr>)"

abbreviation nom_steps :: "slot_context \<Rightarrow> nomination_protocol \<Rightarrow> nomination_protocol \<Rightarrow> bool" where
  "nom_steps ctx \<equiv> (nom_step ctx)\<^sup>*\<^sup>*"

text \<open>What a step leaves alone.\<close>

lemma update_composite_fields [simp]:
  "np_votes (update_composite ctx s) = np_votes s"
  "np_accepted (update_composite ctx s) = np_accepted s"
  "np_candidates (update_composite ctx s) = np_candidates s"
  "np_latest_nominations (update_composite ctx s) = np_latest_nominations s"
  "np_last_envelope (update_composite ctx s) = np_last_envelope s"
  "np_last_envelope_emit (update_composite ctx s) = np_last_envelope_emit s"
  "np_started (update_composite ctx s) = np_started s"
  "np_stopped (update_composite ctx s) = np_stopped s"
  "np_fully_validated (update_composite ctx s) = np_fully_validated s"
  by (simp_all add: update_composite_def np_notify_def split: option.splits)

lemma announce_fields [simp]:
  "np_votes (announce nom env s) = np_votes s"
  "np_accepted (announce nom env s) = np_accepted s"
  "np_candidates (announce nom env s) = np_candidates s"
  "np_latest_nominations (announce nom env s) = np_latest_nominations s"
  "np_latest_composite (announce nom env s) = np_latest_composite s"
  "np_started (announce nom env s) = np_started s"
  "np_stopped (announce nom env s) = np_stopped s"
  "np_fully_validated (announce nom env s) = np_fully_validated s"
  by (simp_all add: announce_def np_notify_def Let_def split: option.splits)

lemma np_notify_simps [simp]:
  "np_votes (np_notify e s) = np_votes s"
  "np_accepted (np_notify e s) = np_accepted s"
  "np_candidates (np_notify e s) = np_candidates s"
  "np_latest_nominations (np_notify e s) = np_latest_nominations s"
  "np_latest_composite (np_notify e s) = np_latest_composite s"
  "np_last_envelope (np_notify e s) = np_last_envelope s"
  "np_last_envelope_emit (np_notify e s) = np_last_envelope_emit s"
  "np_started (np_notify e s) = np_started s"
  "np_stopped (np_notify e s) = np_stopped s"
  "np_fully_validated (np_notify e s) = np_fully_validated s"
  "np_events (np_notify e s) = np_events s @ [e]"
  by (simp_all add: np_notify_def)

lemmas step_defs = cast_vote_def accept_value_def ratify_value_def store_nomination_def

lemma set_insert_unique [simp]: "set (snd (insert_unique vs v)) = insert v (set vs)"
  by (auto simp: insert_unique_def)

section \<open>Growth\<close>

text \<open>Votes, accepted values and candidates only grow, and a stopped nomination stays stopped.\<close>

definition values_le :: "nomination_protocol \<Rightarrow> nomination_protocol \<Rightarrow> bool" where
  "values_le s t \<longleftrightarrow> set (np_votes s) \<subseteq> set (np_votes t) \<and> set (np_accepted s) \<subseteq> set (np_accepted t) \<and>
     set (np_candidates s) \<subseteq> set (np_candidates t) \<and> np_stopped s = np_stopped t \<and>
     np_fully_validated s = np_fully_validated t"

lemma values_le_refl [simp]: "values_le s s"
  by (simp add: values_le_def)

lemma values_le_trans: "values_le s t \<Longrightarrow> values_le t u \<Longrightarrow> values_le s u"
  by (auto simp: values_le_def)

lemma nom_step_values_le: "nom_step ctx s t \<Longrightarrow> values_le s t"
  by (cases rule: nom_step.cases) (auto simp: values_le_def step_defs set_insort_insert)

lemma nom_steps_values_le: "nom_steps ctx s t \<Longrightarrow> values_le s t"
  by (induction rule: rtranclp_induct) (auto intro: values_le_trans nom_step_values_le)

text \<open>Accepted values are voted for.\<close>

definition accepted_voted :: "nomination_protocol \<Rightarrow> bool" where
  "accepted_voted s \<longleftrightarrow> set (np_accepted s) \<subseteq> set (np_votes s)"

lemma nom_step_accepted_voted: "nom_step ctx s t \<Longrightarrow> accepted_voted s \<Longrightarrow> accepted_voted t"
  by (cases rule: nom_step.cases) (auto simp: accepted_voted_def step_defs)

lemma nom_steps_accepted_voted: "nom_steps ctx s t \<Longrightarrow> accepted_voted s \<Longrightarrow> accepted_voted t"
  by (induction rule: rtranclp_induct) (auto intro: nom_step_accepted_voted)

section \<open>Loops and guarded steps\<close>

text \<open>A loop over a flag and the state whose iterations are steps, under a loop invariant.\<close>

lemma fold_steps:
  assumes "\<And>x a. x \<in> set xs \<Longrightarrow> Q (snd a) \<Longrightarrow> R\<^sup>*\<^sup>* (snd a) (snd (f x a)) \<and> Q (snd (f x a))"
    and "Q (snd a)"
  shows "R\<^sup>*\<^sup>* (snd a) (snd (fold f xs a)) \<and> Q (snd (fold f xs a))"
  using assms
proof (induction xs arbitrary: a)
  case (Cons x xs)
  from Cons.prems have step: "R\<^sup>*\<^sup>* (snd a) (snd (f x a))" "Q (snd (f x a))" by simp_all
  have "R\<^sup>*\<^sup>* (snd (f x a)) (snd (fold f xs (f x a))) \<and> Q (snd (fold f xs (f x a)))"
    using Cons.prems(1) step(2) by (intro Cons.IH) simp_all
  with step(1) show ?case by (auto intro: rtranclp_trans)
qed simp

lemma promote_vote_cases:
  "snd (promote_vote ctx v (m, s)) = s \<or>
   snd (promote_vote ctx v (m, s)) = accept_value v s \<and> v \<notin> set (np_accepted s) \<and>
     should_accept_value ctx v s \<and> validate_nominated ctx v = FullyValidated \<or>
   (\<exists>e. snd (promote_vote ctx v (m, s)) = cast_vote e s \<and> e \<notin> set (np_votes s) \<and>
     extract_nominated ctx v = Some e)"
  by (auto simp: promote_vote_def accept_value_def cast_vote_def insert_unique_def Let_def
      split: option.splits)

lemma promote_vote_steps: "nom_steps ctx (snd a) (snd (promote_vote ctx v a))"
proof -
  obtain m s where [simp]: "a = (m, s)" by (cases a)
  show ?thesis
    using promote_vote_cases [of ctx v m s]
    by (elim disjE exE conjE) (auto simp: votable_def intro!: nom_step.Accept nom_step.Vote r_into_rtranclp
        [of "nom_step ctx" s "accept_value v s"] r_into_rtranclp [of "nom_step ctx" s "cast_vote _ s"])
qed

lemma promote_accepted_steps:
  assumes "v \<in> set (np_accepted (snd a))"
  shows "nom_steps ctx (snd a) (snd (promote_accepted ctx v a)) \<and>
    np_accepted (snd (promote_accepted ctx v a)) = np_accepted (snd a)"
proof -
  obtain c s where [simp]: "a = (c, s)" by (cases a)
  show ?thesis
    using assms by (auto simp: promote_accepted_def intro!: r_into_rtranclp
        nom_step.Ratify [unfolded ratify_value_def])
qed

lemma attempt_promote_steps:
  assumes "attempt_promote ctx vs s = (m, c, t)"
  shows "nom_steps ctx s t"
proof -
  obtain s1 where s1: "fold (promote_vote ctx) vs (False, s) = (m, s1)"
    and t: "fold (promote_accepted ctx) (np_accepted s1) (False, s1) = (c, t)"
    using assms by (auto simp: attempt_promote_def Let_def split: prod.splits)
  have "nom_steps ctx s s1"
    using fold_steps [of vs "\<lambda>_. True" "nom_step ctx" "promote_vote ctx" "(False, s)"]
      promote_vote_steps s1 by auto
  moreover have "nom_steps ctx s1 t"
    using fold_steps [of "np_accepted s1" "\<lambda>u. np_accepted u = np_accepted s1" "nom_step ctx"
        "promote_accepted ctx" "(False, s1)"] promote_accepted_steps t by auto
  ultimately show ?thesis by simp
qed

lemma vote_for_steps:
  assumes "vote_for ctx v s = (b, t)" "votable ctx v"
  shows "nom_steps ctx s t"
proof (cases "v \<in> set (np_votes s)")
  case True
  with assms(1) show ?thesis by (simp add: vote_for_def insert_unique_def)
next
  case False
  with assms(1) have t: "t = np_notify (NominatingValue (slot_index ctx) v) (cast_vote v s)"
    by (simp add: vote_for_def insert_unique_def cast_vote_def)
  have "nom_step ctx s (cast_vote v s)"
    using False assms(2) by (rule nom_step.Vote)
  moreover have "nom_step ctx (cast_vote v s) t"
    unfolding t by (rule nom_step.Declare) (simp add: cast_vote_def)
  ultimately show ?thesis by simp
qed

section \<open>Values from leaders\<close>

text \<open>The best candidate so far is votable and not yet voted for.\<close>

definition best_ok :: "slot_context \<Rightarrow> nomination_protocol \<Rightarrow> bool \<times> (u64 \<times> scp_value) option \<Rightarrow> bool" where
  "best_ok ctx s = (\<lambda>(found, best). \<forall>h v. best = Some (h, v) \<longrightarrow> votable ctx v \<and> v \<notin> set (np_votes s))"

lemma consider_value_ok: "best_ok ctx s a \<Longrightarrow> best_ok ctx s (consider_value ctx s v a)"
  by (cases a) (auto simp: best_ok_def consider_value_def votable_def Let_def split: option.splits if_splits)

lemma fold_invariant: "(\<And>x a. P a \<Longrightarrow> P (f x a)) \<Longrightarrow> P a \<Longrightarrow> P (fold f xs a)"
  by (induction xs arbitrary: a) auto

lemma new_value_votable:
  assumes "get_new_value_from_nomination ctx nom s = Some v"
  shows "votable ctx v" "v \<notin> set (np_votes s)"
proof -
  obtain f b where fb: "fold (consider_value ctx s) (accepted nom) (False, None) = (f, b)" by force
  have "best_ok ctx s (f, b)"
    unfolding fb [symmetric]
    by (rule fold_invariant [where P = "best_ok ctx s"]) (simp_all add: consider_value_ok, simp add: best_ok_def)
  moreover from this have "best_ok ctx s (fold (consider_value ctx s) (votes nom) (f, b))"
    by (rule fold_invariant [where P = "best_ok ctx s", rotated]) (rule consider_value_ok)
  ultimately show "votable ctx v" "v \<notin> set (np_votes s)"
    using assms by (auto simp: get_new_value_from_nomination_def fb best_ok_def split: if_splits prod.splits)
qed

lemma adopt_from_leader_steps: "nom_steps ctx (snd a) (snd (adopt_from_leader ctx n a))"
proof -
  obtain u s where [simp]: "a = (u, s)" by (cases a)
  show ?thesis
    by (auto simp: adopt_from_leader_def Let_def split: option.split prod.split
        dest: new_value_votable intro: vote_for_steps)
qed

lemma adopt_leader_values_steps:
  "adopt_leader_values ctx s = (b, t) \<Longrightarrow> nom_steps ctx s t"
  using fold_steps [of "np_round_leaders s" "\<lambda>_. True" "nom_step ctx" "adopt_from_leader ctx" "(False, s)"]
    adopt_from_leader_steps by (auto simp: adopt_leader_values_def)

lemma vote_as_leader_steps:
  "vote_as_leader ctx v s = (b, t) \<Longrightarrow> nom_steps ctx s t"
  by (auto simp: vote_as_leader_def votable_def Let_def split: if_splits intro: vote_for_steps)

section \<open>Self-emission\<close>

lemma is_sorted_unique_iff: "is_sorted_unique vs \<longleftrightarrow> sorted_wrt (<) vs"
proof (induction vs)
  case (Cons x vs)
  then show ?case by (cases vs) (auto simp: is_sorted_unique_def intro: order.strict_trans)
qed (simp add: is_sorted_unique_def)

lemma sorted_values_props [simp]:
  "set (sorted_values vs) = set vs" "is_sorted_unique (sorted_values vs)"
  unfolding sorted_values_def is_sorted_unique_iff
  by (simp_all add: strict_sorted_iff del: remdups_adj_set)

lemma own_nomination_fields [simp]:
  "set (votes (own_nomination ctx s)) = set (np_votes s)"
  "set (accepted (own_nomination ctx s)) = set (np_accepted s)"
  by (simp_all add: own_nomination_def)

text \<open>The body of \<open>emit_nomination\<close> over an arbitrary nested emission.\<close>

definition self_process ::
  "slot_context \<Rightarrow> (slot_context \<Rightarrow> nomination_protocol \<Rightarrow> nomination_protocol option) \<Rightarrow> scp_nomination
    \<Rightarrow> nomination_protocol \<Rightarrow> nomination_protocol option" where
  "self_process ctx emit nom s =
     (if np_started s
      then
        let (modified, new_candidates, s2) = attempt_promote ctx (votes nom) s in
        Option.bind (if modified then emit ctx s2 else Some s2)
          (\<lambda>s3. Some (if new_candidates then update_composite ctx s3 else s3))
      else Some s)"

definition emit_body ::
  "slot_context \<Rightarrow> (slot_context \<Rightarrow> nomination_protocol \<Rightarrow> nomination_protocol option)
    \<Rightarrow> nomination_protocol \<Rightarrow> nomination_protocol option" where
  "emit_body ctx emit s =
     (let nom = own_nomination ctx s; env = own_envelope ctx nom in
      if is_newer_nomination_internal (local_node_id ctx) nom s \<and> is_sane_statement nom
      then Option.bind (self_process ctx emit nom (store_nomination (local_node_id ctx) env s))
             (\<lambda>s4. Some (announce nom env s4))
      else Some s)"

lemma emit_body_eq:
  "(let nom = own_nomination ctx s; (st, env) = create_signed_envelope ctx (Nominate nom)
    in if \<not> is_newer_nomination_internal (local_node_id ctx) nom s then Some s
       else if \<not> is_sane_statement nom then Some s
       else
         let (recorded, s1) = record_local_nomination (local_node_id ctx) st env s in
         if \<not> recorded then Some s
         else
           Option.bind
             (if np_started s1
              then
                let (modified, new_candidates, s2) = attempt_promote ctx (votes nom) s1 in
                Option.bind (if modified then emit ctx s2 else Some s2)
                  (\<lambda>s3. Some (if new_candidates then update_composite ctx s3 else s3))
              else Some s1)
             (\<lambda>s4. Some (announce nom env s4))) = emit_body ctx emit s"
  by (auto simp: emit_body_def self_process_def own_envelope_def create_signed_envelope_def
      record_local_nomination_def store_nomination_def Let_def)

lemma emit_nomination_unfold: "emit_nomination ctx s = emit_body ctx emit_nomination s"
  by (subst emit_nomination.simps) (rule emit_body_eq)

lemma emit_nomination_induct:
  assumes "emit_nomination ctx s = Some t"
    and "\<And>emit ctx s t. (\<And>ctx s t. emit ctx s = Some t \<Longrightarrow> P ctx s t) \<Longrightarrow> emit_body ctx emit s = Some t \<Longrightarrow> P ctx s t"
  shows "P ctx s t"
  using emit_nomination.raw_induct [where P = P, unfolded emit_body_eq, OF assms(2) assms(1)] .

lemma self_process_steps:
  assumes "self_process ctx emit nom s = Some t" "accepted_voted s"
    and "\<And>s t. emit ctx s = Some t \<Longrightarrow> accepted_voted s \<Longrightarrow> nom_steps ctx s t"
  shows "nom_steps ctx s t"
proof (cases "np_started s")
  case True
  obtain m c s2 where pr: "attempt_promote ctx (votes nom) s = (m, c, s2)" by (metis prod_cases3)
  with True assms(1) obtain s3 where s3: "(if m then emit ctx s2 else Some s2) = Some s3"
    "t = (if c then update_composite ctx s3 else s3)"
    by (auto simp: self_process_def bind_eq_Some_conv)
  note pr = attempt_promote_steps [OF pr]
  have "nom_steps ctx s2 s3"
    using s3(1) assms(3) nom_steps_accepted_voted [OF pr assms(2)] by (auto split: if_splits)
  moreover have "nom_steps ctx s3 t"
    using s3(2) nom_step.Combine by auto
  ultimately show ?thesis using pr by (meson rtranclp_trans)
qed (use assms(1) in \<open>simp add: self_process_def\<close>)

lemma emit_nomination_steps:
  assumes "emit_nomination ctx s = Some t" "accepted_voted s"
  shows "nom_steps ctx s t"
proof -
  have "accepted_voted s \<longrightarrow> nom_steps ctx s t"
    using assms(1)
  proof (rule emit_nomination_induct, intro impI)
    fix emit ctx s t
    assume IH: "\<And>ctx s t. emit ctx s = Some t \<Longrightarrow> accepted_voted s \<longrightarrow> nom_steps ctx s t"
      and body: "emit_body ctx emit s = Some t" and voted: "accepted_voted s"
    let ?nom = "own_nomination ctx s"
    let ?s1 = "store_nomination (local_node_id ctx) (own_envelope ctx ?nom) s"
    show "nom_steps ctx s t"
    proof (cases "is_newer_nomination_internal (local_node_id ctx) ?nom s \<and> is_sane_statement ?nom")
      case True
      with body obtain s4 where s4: "self_process ctx emit ?nom ?s1 = Some s4"
        "t = announce ?nom (own_envelope ctx ?nom) s4"
        by (auto simp: emit_body_def Let_def bind_eq_Some_conv)
      have one: "nom_step ctx s ?s1"
        using True by (auto intro!: nom_step.Store)
      have two: "nom_steps ctx ?s1 s4"
        using s4(1) nom_step_accepted_voted [OF one voted] IH by (blast intro: self_process_steps)
      have "nom_step ctx s4 t"
        unfolding s4(2)
        using True voted nom_steps_values_le [OF two]
        by (intro nom_step.Announce) (auto simp: values_le_def store_nomination_def accepted_voted_def)
      with one two show ?thesis
        by (meson converse_rtranclp_into_rtranclp rtranclp.rtrancl_into_rtrancl)
    qed (use body in \<open>auto simp: emit_body_def Let_def\<close>)
  qed
  with assms(2) show ?thesis by simp
qed

section \<open>The entry points\<close>

lemma leader_loop_keeps:
  assumes "leader_loop ctx qs prev k n s = Inr t"
  shows "\<exists>r ls. t = s\<lparr>np_round := r, np_round_leaders := ls\<rparr>"
  using assms
proof (induction n arbitrary: s)
  case (Suc n)
  show ?case
  proof (cases "length (np_round_leaders s) < k \<and>
      length (sorted_list_of_set (set (np_round_leaders s) \<union> new_round_leaders ctx qs prev s)) =
        length (np_round_leaders s)")
    case True
    with Suc.prems have "leader_loop ctx qs prev k n
        (s\<lparr>np_round_leaders := sorted_list_of_set (set (np_round_leaders s) \<union> new_round_leaders ctx qs prev s),
           np_round := u32_saturating_add (np_round s) 1\<rparr>) = Inr t"
      by (simp add: Let_def)
    from Suc.IH [OF this] show ?thesis by auto
  next
    case False
    with Suc.prems consider "t = s" | ls where "t = s\<lparr>np_round_leaders := ls\<rparr>"
      by (auto simp: Let_def split: if_splits)
    then show ?thesis
    proof cases
      case 1
      have "s = s\<lparr>np_round := np_round s, np_round_leaders := np_round_leaders s\<rparr>" by simp
      with 1 show ?thesis by blast
    next
      case 2
      then have "t = s\<lparr>np_round := np_round s, np_round_leaders := ls\<rparr>" by simp
      then show ?thesis by blast
    qed
  qed
qed simp

lemma emitted_steps:
  assumes "(if b then emitted (emit_nomination ctx s) else Inr s) = Inr t" "accepted_voted s"
  shows "nom_steps ctx s t"
  using assms by (auto simp: emitted_def split: if_splits option.splits intro: emit_nomination_steps)

lemma vote_round_steps:
  assumes "vote_round ctx v s = Inr (w, t)" "accepted_voted s"
  shows "nom_steps ctx s t"
proof -
  obtain a s1 where s1: "adopt_leader_values ctx s = (a, s1)" by force
  obtain b s2 where s2: "vote_as_leader ctx v s1 = (b, s2)" by force
  have t: "(if b \<or> a then emitted (emit_nomination ctx s2) else Inr s2) = Inr t"
    using assms(1) unfolding vote_round_def s1 s2 by (simp add: s2 Let_def bindE_Inr_iff split: if_splits)
  have "nom_steps ctx s s2"
    using adopt_leader_values_steps [OF s1] vote_as_leader_steps [OF s2] by simp
  with emitted_steps [OF t] nom_steps_accepted_voted [OF _ assms(2)] show ?thesis
    by (meson rtranclp_trans)
qed

lemma nominate_steps:
  assumes "nominate ctx v prev timedout s = Inr (w, t)" "accepted_voted s"
  shows "nom_steps ctx s t"
proof (cases "np_stopped s \<or> np_candidates s \<noteq> []")
  case True
  with assms(1) show ?thesis by (auto simp: nominate_def split: if_splits)
next
  case False
  define s1 where "s1 = (if timedout
    then s\<lparr>np_timer_exp_count := u32_saturating_add (np_timer_exp_count s) 1\<rparr> else s)"
  have s1: "s1 = s\<lparr>np_round := np_round s, np_round_leaders := np_round_leaders s,
      np_previous_value := np_previous_value s, np_timer_exp_count := np_timer_exp_count s1,
      np_started := np_started s\<rparr>"
    by (simp add: s1_def)
  show ?thesis
  proof (cases "timedout \<and> \<not> np_started s1")
    case True
    with False assms(1) have "t = s1" by (auto simp: nominate_def s1_def Let_def)
    then show ?thesis using nom_step.Bookkeep False s1 by (metis r_into_rtranclp)
  next
    case cont: False
    let ?s1' = "s1\<lparr>np_started := True, np_previous_value := Some prev,
      np_round := u32_saturating_add (np_round s1) 1\<rparr>"
    have "nominate ctx v prev timedout s = bindE (update_round_leaders ctx prev ?s1') (vote_round ctx v)"
      using False cont unfolding nominate_def Let_def s1_def [symmetric] by auto
    with assms(1) obtain s2 where s2: "update_round_leaders ctx prev ?s1' = Inr s2"
      and t: "vote_round ctx v s2 = Inr (w, t)"
      by auto
    from s2 obtain r ls where "s2 = ?s1'\<lparr>np_round := r, np_round_leaders := ls\<rparr>"
      unfolding update_round_leaders_def Let_def by (blast dest: leader_loop_keeps)
    then have "s2 = s\<lparr>np_round := r, np_round_leaders := ls, np_previous_value := Some prev,
        np_timer_exp_count := np_timer_exp_count s1, np_started := True\<rparr>"
      by (simp add: s1_def)
    then have "nom_step ctx s s2" using nom_step.Bookkeep False by auto
    with vote_round_steps [OF t] nom_step_accepted_voted [OF _ assms(2)] show ?thesis
      by (meson converse_rtranclp_into_rtranclp)
  qed
qed

lemma take_leader_vote_steps:
  "take_leader_vote ctx n nom s = (b, t) \<Longrightarrow> nom_steps ctx s t"
  by (auto simp: take_leader_vote_def split: if_splits option.splits
      intro: vote_for_steps dest: new_value_votable)

lemma process_stored_steps:
  assumes "process_stored ctx n nom s = Inr (w, t)" "accepted_voted s"
  shows "nom_steps ctx s t"
proof -
  obtain a c s1 where s1: "attempt_promote ctx (votes nom) s = (a, c, s1)" by (metis prod_cases3)
  obtain b s2 where s2: "take_leader_vote ctx n nom s1 = (b, s2)" by force
  obtain s3 where s3: "(if a \<or> b then emitted (emit_nomination ctx s2) else Inr s2) = Inr s3"
    and t: "t = (if c then update_composite ctx s3 else s3)"
    using assms(1) unfolding process_stored_def s1 by (auto simp: s2 Let_def bindE_Inr_iff)
  have "nom_steps ctx s s2"
    using attempt_promote_steps [OF s1] take_leader_vote_steps [OF s2] by simp
  moreover from this have "nom_steps ctx s2 s3"
    using emitted_steps [OF s3] nom_steps_accepted_voted assms(2) by blast
  moreover have "nom_steps ctx s3 t" using t nom_step.Combine by auto
  ultimately show ?thesis by (meson rtranclp_trans)
qed

lemma process_envelope_steps:
  assumes "process_envelope ctx env s = Inr (w, t)" "accepted_voted s"
  shows "nom_steps ctx s t"
proof (cases "nomination_of env")
  case None
  with assms(1) show ?thesis by (simp add: process_envelope_def)
next
  case (Some nom)
  let ?n = "st_node_id (env_statement env)"
  let ?s1 = "store_nomination ?n env s"
  show ?thesis
  proof (cases "is_newer_nomination_internal ?n nom s \<and> is_sane_statement nom")
    case False
    with assms(1) Some show ?thesis
      by (cases "is_newer_nomination_internal ?n nom s") (simp_all add: process_envelope_def)
  next
    case True
    with Some have one: "nom_step ctx s ?s1" by (auto intro: nom_step.Store)
    from assms(1) Some True have "t = ?s1 \<or> process_stored ctx ?n nom ?s1 = Inr (w, t)"
      by (auto simp: process_envelope_def store_nomination_def Let_def split: if_splits)
    with one process_stored_steps nom_step_accepted_voted [OF one assms(2)] show ?thesis
      by (metis converse_rtranclp_into_rtranclp r_into_rtranclp)
  qed
qed

end
