(* ===== verification/Freshness.thy ===== *)
theory Freshness
  imports Statements
begin

text \<open>
  Statement freshness is a strict order, and what follows from that for a table that keeps the
  latest statement of every node: the interface \<open>freshness\<close> states the two laws a freshness test
  owes its clients, and the three tests of \<open>crates/scp/src/compare.rs\<close> provide them.
\<close>

section \<open>The interface\<close>

locale freshness =
  fixes newer :: "'a \<Rightarrow> 'a \<Rightarrow> bool"
  assumes newer_irrefl: "\<not> newer x x"
    and newer_trans: "newer x y \<Longrightarrow> newer y z \<Longrightarrow> newer x z"
begin

lemma newer_asym: "newer x y \<Longrightarrow> \<not> newer y x"
  using newer_irrefl newer_trans by blast

text \<open>The same statement, or a newer one.\<close>

lemma newer_eq_trans:
  "x = y \<or> newer x y \<Longrightarrow> y = z \<or> newer y z \<Longrightarrow> x = z \<or> newer x z"
  using newer_trans by blast

lemma newer_eq_antisym: "x = y \<or> newer x y \<Longrightarrow> y = x \<or> newer y x \<Longrightarrow> x = y"
  using newer_asym by blast

lemma sorted_wrt_snoc:
  "sorted_wrt newer xs \<Longrightarrow> (xs \<noteq> [] \<Longrightarrow> newer (last xs) x) \<Longrightarrow> sorted_wrt newer (xs @ [x])"
proof (cases xs rule: rev_cases)
  case (snoc ys y)
  assume "sorted_wrt newer xs" "xs \<noteq> [] \<Longrightarrow> newer (last xs) x"
  with snoc show ?thesis by (auto simp: sorted_wrt_append intro: newer_trans)
qed simp

lemma sorted_wrt_distinct: "sorted_wrt newer xs \<Longrightarrow> distinct xs"
  by (induction xs) (auto simp: newer_irrefl)

end

section \<open>The tests as lexicographic comparisons\<close>

lemma is_newer_prepare_lex:
  "is_newer_prepare old new \<longleftrightarrow>
     (prep_ballot old, prep_prepared old, prep_prepared_prime old, prep_n_h old) <
     (prep_ballot new, prep_prepared new, prep_prepared_prime new, prep_n_h new)"
  by (auto simp: is_newer_prepare_def cmp_def split: ordering.splits if_splits)

lemma is_newer_confirm_lex:
  "is_newer_confirm old new \<longleftrightarrow>
     (conf_ballot old, conf_n_prepared old, conf_n_h old) <
     (conf_ballot new, conf_n_prepared new, conf_n_h new)"
  by (auto simp: is_newer_confirm_def cmp_def split: ordering.splits if_splits)

lemma is_newer_nominate_iff:
  "is_newer_nominate old new \<longleftrightarrow>
     set (votes old) \<subseteq> set (votes new) \<and> set (accepted old) \<subseteq> set (accepted new) \<and>
     (set (votes old) \<noteq> set (votes new) \<or> set (accepted old) \<noteq> set (accepted new))"
  by (auto simp: is_newer_nominate_def Let_def psubset_card_mono psubset_eq
      intro: psubset_card_mono)

interpretation prepare_fresh: freshness is_newer_prepare
  by unfold_locales (auto simp: is_newer_prepare_lex simp del: less_prod_simp intro: less_trans)

interpretation confirm_fresh: freshness is_newer_confirm
  by unfold_locales (auto simp: is_newer_confirm_lex simp del: less_prod_simp intro: less_trans)

interpretation nominate_fresh: freshness is_newer_nominate
  by unfold_locales (auto simp: is_newer_nominate_iff)

lemma is_newer_ballot_st_cases:
  "is_newer_ballot_st a b \<longleftrightarrow>
     ballot_rank (st_pledges a) < ballot_rank (st_pledges b) \<or>
     (\<exists>p q. st_pledges a = Prepare p \<and> st_pledges b = Prepare q \<and> is_newer_prepare p q) \<or>
     (\<exists>p q. st_pledges a = Confirm p \<and> st_pledges b = Confirm q \<and> is_newer_confirm p q)"
  by (cases "st_pledges a"; cases "st_pledges b") (auto simp: is_newer_ballot_st_def)

interpretation ballot_fresh: freshness is_newer_ballot_st
proof unfold_locales
  show "\<not> is_newer_ballot_st x x" for x
    by (auto simp: is_newer_ballot_st_cases prepare_fresh.newer_irrefl confirm_fresh.newer_irrefl)
  show "is_newer_ballot_st x z" if "is_newer_ballot_st x y" "is_newer_ballot_st y z" for x y z
    using that unfolding is_newer_ballot_st_cases
    by (elim disjE exE conjE)
      (auto dest: prepare_fresh.newer_trans confirm_fresh.newer_trans)
qed

lemma is_newer_any_cases:
  "is_newer_nomination_or_ballot_st a b \<longleftrightarrow>
     st_node_id a = st_node_id b \<and> st_slot_index a = st_slot_index b \<and>
     ((\<exists>p q. st_pledges a = Nominate p \<and> st_pledges b = Nominate q \<and> is_newer_nominate p q) \<or>
      (\<not> is_nomination (st_pledges a) \<and> \<not> is_nomination (st_pledges b) \<and> is_newer_ballot_st a b))"
  by (cases "st_pledges a"; cases "st_pledges b") (auto simp: is_newer_nomination_or_ballot_st_def)

interpretation statement_fresh: freshness is_newer_nomination_or_ballot_st
proof unfold_locales
  show "\<not> is_newer_nomination_or_ballot_st x x" for x
    by (auto simp: is_newer_any_cases nominate_fresh.newer_irrefl ballot_fresh.newer_irrefl)
  show "is_newer_nomination_or_ballot_st x z"
    if "is_newer_nomination_or_ballot_st x y" "is_newer_nomination_or_ballot_st y z" for x y z
    using that unfolding is_newer_any_cases
    by (elim disjE exE conjE)
      (auto dest: nominate_fresh.newer_trans ballot_fresh.newer_trans)
qed

text \<open>
  C6. Freshness of SCP statements is a strict order that never mixes protocols: no statement is newer
  than itself, newer-than is transitive, and a nomination never replaces a ballot statement of the
  same node, nor the other way round; within the ballot protocol the phases only advance.
\<close>

theorem statement_freshness_strict_order:
  "\<not> is_newer_nomination_or_ballot_st a a \<and>
   (is_newer_nomination_or_ballot_st a b \<and> is_newer_nomination_or_ballot_st b c \<longrightarrow>
      is_newer_nomination_or_ballot_st a c) \<and>
   (is_newer_nomination_or_ballot_st a b \<longrightarrow>
      st_node_id a = st_node_id b \<and> st_slot_index a = st_slot_index b \<and>
      is_nomination (st_pledges a) = is_nomination (st_pledges b) \<and>
      ballot_rank (st_pledges a) \<le> ballot_rank (st_pledges b))"
proof (intro conjI impI)
  show "\<not> is_newer_nomination_or_ballot_st a a"
    by (rule statement_fresh.newer_irrefl)
  show "is_newer_nomination_or_ballot_st a c"
    if "is_newer_nomination_or_ballot_st a b \<and> is_newer_nomination_or_ballot_st b c"
    using that by (blast intro: statement_fresh.newer_trans)
qed (auto simp: is_newer_any_cases is_newer_ballot_st_cases)

text \<open>A prepare statement is replaced by a confirm statement of the same node and slot.\<close>

definition sample_statement :: "scp_pledges \<Rightarrow> scp_statement" where
  "sample_statement pl = \<lparr>st_node_id = [1], st_slot_index = 7, st_pledges = pl\<rparr>"

definition sample_prepare :: "u32 \<Rightarrow> scp_pledges" where
  "sample_prepare n = Prepare \<lparr>prep_quorum_set_hash = [], prep_ballot = ScpBallot n [1],
     prep_prepared = None, prep_prepared_prime = None, prep_n_c = 0, prep_n_h = 0\<rparr>"

definition sample_confirm :: "u32 \<Rightarrow> scp_pledges" where
  "sample_confirm n = Confirm \<lparr>conf_ballot = ScpBallot n [1], conf_n_prepared = n,
     conf_n_commit = 1, conf_n_h = n, conf_quorum_set_hash = []\<rparr>"

theorem statement_freshness_witness:
  "is_newer_nomination_or_ballot_st (sample_statement (sample_prepare 1)) (sample_statement (sample_prepare 2)) \<and>
   is_newer_nomination_or_ballot_st (sample_statement (sample_prepare 2)) (sample_statement (sample_confirm 2)) \<and>
   is_newer_nomination_or_ballot_st (sample_statement (sample_prepare 1)) (sample_statement (sample_confirm 2))"
proof -
  have 1: "is_newer_nomination_or_ballot_st (sample_statement (sample_prepare 1)) (sample_statement (sample_prepare 2))"
    by (simp add: sample_statement_def sample_prepare_def is_newer_nomination_or_ballot_st_def
        is_newer_ballot_st_def is_newer_prepare_def ballot_less_iff cmp_def)
  have 2: "is_newer_nomination_or_ballot_st (sample_statement (sample_prepare 2)) (sample_statement (sample_confirm 2))"
    by (simp add: sample_statement_def sample_prepare_def sample_confirm_def
        is_newer_nomination_or_ballot_st_def is_newer_ballot_st_def)
  show ?thesis
    using 1 2 statement_freshness_strict_order
      [of "sample_statement (sample_prepare 1)" "sample_statement (sample_prepare 2)"
          "sample_statement (sample_confirm 2)"] by blast
qed

end
