(* ===== verification/Nomination_Safety.thy ===== *)
theory Nomination_Safety
  imports Nomination_Steps Freshness
begin

text \<open>
  Safety of nomination: the invariant of reachable states, the growth of what a node says, the
  provenance of accepted values and candidates, and the return of self-emission.
\<close>

section \<open>Freshness of nominations\<close>

text \<open>The module's own freshness test is the one of \<open>compare.rs\<close>.\<close>

lemma is_newer_nomination_eq: "is_newer_nomination old new = is_newer_nominate old new"
  by (auto simp: is_newer_nomination_def is_newer_nominate_def Let_def)

lemma is_newer_nomination_iff:
  "is_newer_nomination old new \<longleftrightarrow> set (votes old) \<subseteq> set (votes new) \<and> set (accepted old) \<subseteq> set (accepted new) \<and>
     (set (votes old) \<noteq> set (votes new) \<or> set (accepted old) \<noteq> set (accepted new))"
proof -
  have "card A < card B \<longleftrightarrow> A \<noteq> B" if "A \<subseteq> B" "finite B" for A B :: "scp_value set"
    using that by (metis card_seteq finite_subset less_le not_le psubset_card_mono)
  then show ?thesis by (auto simp: is_newer_nomination_def Let_def)
qed

lemma is_newer_nomination_trans:
  "is_newer_nomination a b \<Longrightarrow> is_newer_nomination b c \<Longrightarrow> is_newer_nomination a c"
  by (auto simp: is_newer_nomination_iff)

section \<open>Inputs and reachable states\<close>

inductive nom_input :: "slot_context \<Rightarrow> nomination_protocol \<Rightarrow> nomination_protocol \<Rightarrow> bool"
  for ctx :: slot_context where
  Nominating: "nominate ctx v prev timedout s = Inr (w, t) \<Longrightarrow> nom_input ctx s t"
| Envelope: "process_envelope ctx env s = Inr (st, t) \<Longrightarrow> nom_input ctx s t"
| Stopping: "nom_input ctx s (stop s)"
| Validated: "nom_input ctx s (set_fully_validated b s)"
| Deferred: "nom_input ctx s (emit_deferred s)"

text \<open>A nomination this node can have announced.\<close>

definition own_sane :: "slot_context \<Rightarrow> scp_envelope \<Rightarrow> bool" where
  "own_sane ctx env \<longleftrightarrow> st_node_id (env_statement env) = local_node_id ctx \<and>
     st_slot_index (env_statement env) = slot_index ctx \<and>
     (\<exists>nom. nomination_of env = Some nom \<and> is_sane_statement nom \<and> set (accepted nom) \<subseteq> set (votes nom))"

text \<open>A node starts afresh or from a nomination it announced before a crash.\<close>

inductive nom_reachable :: "slot_context \<Rightarrow> nomination_protocol \<Rightarrow> bool" for ctx :: slot_context where
  fresh: "nom_reachable ctx new_nomination_protocol"
| restored: "own_sane ctx env \<Longrightarrow> set_state_from_envelope env new_nomination_protocol = (True, s) \<Longrightarrow>
    nom_reachable ctx s"
| input: "nom_reachable ctx s \<Longrightarrow> nom_input ctx s t \<Longrightarrow> nom_reachable ctx t"

section \<open>The invariant\<close>

definition stored_sane :: "nomination_protocol \<Rightarrow> bool" where
  "stored_sane s \<longleftrightarrow> distinct (map fst (np_latest_nominations s)) \<and>
     (\<forall>n env. map_of (np_latest_nominations s) n = Some env \<longrightarrow> st_node_id (env_statement env) = n \<and>
        (\<exists>nom. nomination_of env = Some nom \<and> is_sane_statement nom))"

definition last_said :: "slot_context \<Rightarrow> nomination_protocol \<Rightarrow> bool" where
  "last_said ctx s \<longleftrightarrow> (\<forall>env nom. np_last_envelope s = Some env \<and> nomination_of env = Some nom \<longrightarrow>
     set (votes nom) \<subseteq> set (np_votes s) \<and> set (accepted nom) \<subseteq> set (np_accepted s))"

definition values_ok :: "nomination_protocol \<Rightarrow> bool" where
  "values_ok s \<longleftrightarrow> distinct (np_votes s) \<and> distinct (np_accepted s) \<and> accepted_voted s \<and>
     set (np_candidates s) \<subseteq> set (np_accepted s) \<and> sorted_wrt (<) (np_candidates s) \<and>
     (np_latest_composite s \<noteq> None \<longrightarrow> np_candidates s \<noteq> [])"

text \<open>What was sent: own sane nominations, each strictly newer than the one before, the last of
  them recorded as sent and not newer than the last one constructed.\<close>

fun sent_of :: "driver_event \<Rightarrow> scp_envelope option" where
  "sent_of (EmitEnvelope env) = Some env"
| "sent_of _ = None"

definition sent :: "nomination_protocol \<Rightarrow> scp_envelope list" where
  "sent s = List.map_filter sent_of (np_events s)"

definition newer_env :: "scp_envelope \<Rightarrow> scp_envelope \<Rightarrow> bool" where
  "newer_env a b \<longleftrightarrow> (\<exists>na nb. nomination_of a = Some na \<and> nomination_of b = Some nb \<and> is_newer_nomination na nb)"

definition sent_ok :: "slot_context \<Rightarrow> nomination_protocol \<Rightarrow> bool" where
  "sent_ok ctx s \<longleftrightarrow> (\<forall>env \<in> set (sent s). own_sane ctx env) \<and> sorted_wrt newer_env (sent s) \<and>
     (\<forall>env. np_last_envelope s = Some env \<longrightarrow> own_sane ctx env) \<and>
     np_last_envelope_emit s = (if sent s = [] then None else Some (last (sent s))) \<and>
     (sent s \<noteq> [] \<longrightarrow> (\<exists>l. np_last_envelope s = Some l \<and> (l = last (sent s) \<or> newer_env (last (sent s)) l)))"

definition nom_inv :: "slot_context \<Rightarrow> nomination_protocol \<Rightarrow> bool" where
  "nom_inv ctx s \<longleftrightarrow> values_ok s \<and> stored_sane s \<and> last_said ctx s \<and> sent_ok ctx s \<and>
     (np_stopped s \<longrightarrow> \<not> np_started s)"

lemma newer_env_trans: "newer_env a b \<Longrightarrow> newer_env b c \<Longrightarrow> newer_env a c"
  by (auto simp: newer_env_def intro: is_newer_nomination_trans)

lemma own_sane_own_envelope:
  "is_sane_statement nom \<Longrightarrow> set (accepted nom) \<subseteq> set (votes nom) \<Longrightarrow> own_sane ctx (own_envelope ctx nom)"
  by (simp add: own_sane_def)

subsection \<open>Preservation by the steps\<close>

lemma strict_insort_insert:
  "sorted_wrt (<) xs \<Longrightarrow> sorted_wrt (<) (insort_insert (x :: 'a :: linorder) xs)"
  by (simp add: strict_sorted_iff sorted_insort_insert distinct_insort_insert)

lemma insort_insert_nonempty [simp]: "insort_insert x xs \<noteq> []"
  by (metis insert_not_empty set_empty set_insort_insert)

lemma composite_needs_candidates:
  "np_latest_composite (update_composite ctx s) \<noteq> None \<Longrightarrow> np_candidates s \<noteq> [] \<or> np_latest_composite s \<noteq> None"
  by (auto simp: update_composite_def split: option.splits if_splits)

lemma nom_step_values_ok: "nom_step ctx s t \<Longrightarrow> values_ok s \<Longrightarrow> values_ok t"
proof (induction rule: nom_step.induct)
  case (Combine s)
  then show ?case
    using composite_needs_candidates [of ctx s] by (auto simp: values_ok_def accepted_voted_def)
next
  case (Ratify v s)
  then show ?case
    by (auto simp: values_ok_def accepted_voted_def ratify_value_def set_insort_insert strict_insort_insert)
next
  case (Announce nom s)
  then show ?case by (simp add: values_ok_def accepted_voted_def)
qed (auto simp: values_ok_def accepted_voted_def step_defs insert_unique_def)

lemma nom_step_stored_sane: "nom_step ctx s t \<Longrightarrow> stored_sane s \<Longrightarrow> stored_sane t"
proof (induction rule: nom_step.induct)
  case (Store env nom n s)
  then show ?case
    by (auto simp: stored_sane_def store_nomination_def update_conv' distinct_update split: if_splits)
qed (simp_all add: stored_sane_def step_defs)

text \<open>What an announcement does to the last envelope and to what was sent.\<close>

lemma announce_cases:
  obtains
    (stale) "announce nom env s = s"
  | (newer) "\<And>l nom'. np_last_envelope s = Some l \<Longrightarrow> nomination_of l = Some nom' \<Longrightarrow> is_newer_nomination nom' nom"
      "announce nom env s = (let s1 = s\<lparr>np_last_envelope := Some env\<rparr> in
         if np_fully_validated s1 \<and> np_last_envelope_emit s1 \<noteq> Some env
         then np_notify (EmitEnvelope env) (s1\<lparr>np_last_envelope_emit := Some env\<rparr>) else s1)"
proof (cases "case np_last_envelope s of None \<Rightarrow> True
    | Some l \<Rightarrow> (case nomination_of l of Some nom' \<Rightarrow> is_newer_nomination nom' nom | None \<Rightarrow> True)")
  case True
  then have "\<And>l nom'. np_last_envelope s = Some l \<Longrightarrow> nomination_of l = Some nom' \<Longrightarrow> is_newer_nomination nom' nom"
    by simp
  moreover from True have "announce nom env s = (let s1 = s\<lparr>np_last_envelope := Some env\<rparr> in
      if np_fully_validated s1 \<and> np_last_envelope_emit s1 \<noteq> Some env
      then np_notify (EmitEnvelope env) (s1\<lparr>np_last_envelope_emit := Some env\<rparr>) else s1)"
    by (simp add: announce_def)
  ultimately show ?thesis by (rule newer)
next
  case False
  then have "announce nom env s = s" by (simp add: announce_def)
  then show ?thesis by (rule stale)
qed

lemma nom_step_last_said: "nom_step ctx s t \<Longrightarrow> last_said ctx s \<Longrightarrow> last_said ctx t"
proof (induction rule: nom_step.induct)
  case (Announce nom s)
  then show ?case
    by (cases rule: announce_cases [of nom "own_envelope ctx nom" s]) (simp_all add: last_said_def Let_def)
qed (auto simp: last_said_def step_defs)

lemma sent_notify [simp]:
  "sent (np_notify e s) = sent s @ (case sent_of e of Some env \<Rightarrow> [env] | None \<Rightarrow> [])"
  by (simp add: sent_def map_filter_def split: option.splits)

lemma sent_update [simp]:
  "sent (s\<lparr>np_last_envelope := l\<rparr>) = sent s" "sent (s\<lparr>np_last_envelope_emit := l\<rparr>) = sent s"
  "sent (s\<lparr>np_votes := vs\<rparr>) = sent s" "sent (s\<lparr>np_accepted := vs\<rparr>) = sent s"
  "sent (s\<lparr>np_candidates := vs\<rparr>) = sent s" "sent (s\<lparr>np_latest_composite := c\<rparr>) = sent s"
  "sent (s\<lparr>np_latest_nominations := ns\<rparr>) = sent s" "sent (s\<lparr>np_round := r\<rparr>) = sent s"
  "sent (s\<lparr>np_round_leaders := ls\<rparr>) = sent s" "sent (s\<lparr>np_previous_value := p\<rparr>) = sent s"
  "sent (s\<lparr>np_timer_exp_count := n\<rparr>) = sent s" "sent (s\<lparr>np_started := b\<rparr>) = sent s"
  "sent (s\<lparr>np_stopped := b\<rparr>) = sent s" "sent (s\<lparr>np_fully_validated := b\<rparr>) = sent s"
  by (simp_all add: sent_def)

text \<open>Sending the last envelope keeps the order; so does replacing it by a newer one.\<close>

lemma sent_ok_replace:
  assumes "sent_ok ctx s" "own_sane ctx env"
    and "\<And>l. np_last_envelope s = Some l \<Longrightarrow> newer_env l env"
  shows "sent_ok ctx (s\<lparr>np_last_envelope := Some env\<rparr>)"
  using assms by (auto simp: sent_ok_def intro: newer_env_trans)

lemma sent_ok_send:
  assumes "sent_ok ctx s" "np_last_envelope s = Some env" "np_last_envelope_emit s \<noteq> Some env"
  shows "sent_ok ctx (np_notify (EmitEnvelope env) (s\<lparr>np_last_envelope_emit := Some env\<rparr>))"
proof -
  have "newer_env e env" if "e \<in> set (sent s)" for e
  proof -
    from assms that have last: "newer_env (last (sent s)) env" by (auto simp: sent_ok_def split: if_splits)
    from that obtain es where es: "sent s = es @ [last (sent s)]"
      by (metis append_butlast_last_id empty_iff list.set(1))
    have "sorted_wrt newer_env (es @ [last (sent s)])" using assms(1) es by (simp add: sent_ok_def)
    with that es have "e = last (sent s) \<or> newer_env e (last (sent s))"
      by (metis (no_types, lifting) Un_iff empty_iff insert_iff list.set set_append sorted_wrt_append)
    with last show ?thesis by (auto intro: newer_env_trans)
  qed
  with assms show ?thesis by (auto simp: sent_ok_def sorted_wrt_append)
qed

lemma nom_step_sent_ok: "nom_step ctx s t \<Longrightarrow> sent_ok ctx s \<Longrightarrow> sent_ok ctx t"
proof (induction rule: nom_step.induct)
  case (Announce nom s)
  let ?env = "own_envelope ctx nom"
  have own: "own_sane ctx ?env" using Announce.hyps by (simp add: own_sane_own_envelope)
  show ?case
  proof (cases rule: announce_cases [of nom ?env s])
    case stale
    with Announce.prems show ?thesis by simp
  next
    case newer
    have "newer_env l ?env" if "np_last_envelope s = Some l" for l
      using that newer(1) Announce.prems by (fastforce simp: newer_env_def sent_ok_def own_sane_def)
    from sent_ok_replace [OF Announce.prems own this]
    have "sent_ok ctx (s\<lparr>np_last_envelope := Some ?env\<rparr>)" .
    with sent_ok_send [OF this, of ?env] newer(2) show ?thesis by (auto simp: Let_def)
  qed
next
  case (Combine s)
  then show ?case by (auto simp: sent_ok_def update_composite_def split: option.splits)
qed (simp_all add: sent_ok_def step_defs)

lemma nom_step_nom_inv: "nom_step ctx s t \<Longrightarrow> nom_inv ctx s \<Longrightarrow> nom_inv ctx t"
proof -
  assume step: "nom_step ctx s t" and inv: "nom_inv ctx s"
  have "np_stopped t \<longrightarrow> \<not> np_started t"
    using step inv by (induction rule: nom_step.induct) (simp_all add: nom_inv_def step_defs)
  with step inv show ?thesis
    unfolding nom_inv_def
    using nom_step_values_ok nom_step_stored_sane nom_step_last_said nom_step_sent_ok by blast
qed

lemma nom_steps_nom_inv: "nom_steps ctx s t \<Longrightarrow> nom_inv ctx s \<Longrightarrow> nom_inv ctx t"
  by (induction rule: rtranclp_induct) (auto intro: nom_step_nom_inv)

subsection \<open>Reachable states\<close>

lemma nom_input_nom_inv:
  assumes "nom_input ctx s t" "nom_inv ctx s"
  shows "nom_inv ctx t"
  using assms
proof (induction rule: nom_input.induct)
  case (Nominating v prev timedout s w t)
  then have "nom_steps ctx s t"
    by (intro nominate_steps [of ctx v prev timedout s w t]) (simp_all add: nom_inv_def values_ok_def)
  with Nominating.prems show ?case by (blast intro: nom_steps_nom_inv)
next
  case (Envelope env s st t)
  then have "nom_steps ctx s t"
    by (intro process_envelope_steps [of ctx env s st t]) (simp_all add: nom_inv_def values_ok_def)
  with Envelope.prems show ?case by (blast intro: nom_steps_nom_inv)
next
  case (Deferred s)
  then show ?case
    using sent_ok_send [of ctx s]
    by (auto simp: emit_deferred_def nom_inv_def values_ok_def stored_sane_def last_said_def
        accepted_voted_def split: option.splits)
qed (auto simp: nom_inv_def values_ok_def stored_sane_def last_said_def sent_ok_def accepted_voted_def
    stop_def set_fully_validated_def)

lemma nom_inv_restored:
  assumes "own_sane ctx env" "set_state_from_envelope env new_nomination_protocol = (True, s)"
  shows "nom_inv ctx s"
proof -
  from assms(1) obtain nom where nom: "nomination_of env = Some nom" "is_sane_statement nom"
    "set (accepted nom) \<subseteq> set (votes nom)" by (auto simp: own_sane_def)
  have "sorted_wrt (<) (votes nom)" "sorted_wrt (<) (accepted nom)"
    using nom(2) by (auto simp: is_sane_statement_def is_sorted_unique_iff split: if_splits)
  then have "distinct (votes nom)" "distinct (accepted nom)" by (simp_all add: strict_sorted_iff)
  with assms nom show ?thesis
    by (auto simp: set_state_from_envelope_def new_nomination_protocol_def nom_inv_def values_ok_def
        stored_sane_def last_said_def sent_ok_def accepted_voted_def sent_def map_filter_def split: if_splits)
qed

lemma nom_reachable_nom_inv: "nom_reachable ctx s \<Longrightarrow> nom_inv ctx s"
proof (induction rule: nom_reachable.induct)
  case fresh
  show ?case
    by (simp add: new_nomination_protocol_def nom_inv_def values_ok_def stored_sane_def last_said_def
        sent_ok_def accepted_voted_def sent_def map_filter_def)
qed (auto intro: nom_inv_restored nom_input_nom_inv)

text \<open>
  C16. On every reachable state, started afresh or restored from an earlier nomination: no value is
  listed twice, candidates are accepted and accepted values voted for, the candidates are in the
  order all nodes share, there is a composite only when there is a candidate, and every stored
  nomination is sane and stored under the node that made it; a stopped nomination is not running.
\<close>

theorem nomination_invariant:
  assumes "nom_reachable ctx s"
  shows "distinct (np_votes s) \<and> distinct (np_accepted s) \<and>
    set (np_candidates s) \<subseteq> set (np_accepted s) \<and> set (np_accepted s) \<subseteq> set (np_votes s) \<and>
    sorted_wrt (<) (np_candidates s) \<and> (np_latest_composite s \<noteq> None \<longrightarrow> np_candidates s \<noteq> []) \<and>
    stored_sane s \<and> (np_stopped s \<longrightarrow> \<not> np_started s)"
  using nom_reachable_nom_inv [OF assms] by (simp add: nom_inv_def values_ok_def accepted_voted_def)

text \<open>A node that is its own quorum nominates a value: it votes, accepts and ratifies in one call.\<close>

definition solo_nominated :: nomination_protocol where
  "solo_nominated = snd (projr (nominate solo_context [5] [9] False new_nomination_protocol))"

lemma solo_nominate: "nominate solo_context [5] [9] False new_nomination_protocol = Inr (True, solo_nominated)"
  unfolding solo_nominated_def by (rule Inr_TrueI) code_simp+

lemma solo_nominated_reachable: "nom_reachable solo_context solo_nominated"
  using solo_nominate by (blast intro: nom_reachable.fresh nom_reachable.input nom_input.Nominating)

theorem nomination_invariant_witness:
  "np_candidates solo_nominated = [[5]] \<and> stored_sane solo_nominated"
proof -
  have "np_candidates solo_nominated = [[5]]" by code_simp
  with nomination_invariant [OF solo_nominated_reachable] show ?thesis by simp
qed

text \<open>
  C17. Everything a node sends in nomination is its own sane nomination for the slot, accepts only
  values it votes for, and is strictly newer than everything the node sent before.
\<close>

theorem nominations_sent_increase:
  assumes "nom_reachable ctx s"
  shows "(\<forall>env \<in> set (sent s). own_sane ctx env) \<and>
    (\<forall>i j. i < j \<and> j < length (sent s) \<longrightarrow> newer_env (sent s ! i) (sent s ! j))"
  using nom_reachable_nom_inv [OF assms] by (simp add: nom_inv_def sent_ok_def sorted_wrt_iff_nth_less)

theorem nominations_sent_increase_witness:
  "length (sent solo_nominated) = 1 \<and> own_sane solo_context (sent solo_nominated ! 0)"
proof -
  have "length (sent solo_nominated) = 1" by code_simp
  with nominations_sent_increase [OF solo_nominated_reachable] show ?thesis by simp
qed

section \<open>Provenance\<close>

text \<open>A move: a protocol step, or one of the slot's writes.\<close>

definition nom_move :: "slot_context \<Rightarrow> nomination_protocol \<Rightarrow> nomination_protocol \<Rightarrow> bool" where
  "nom_move ctx s t \<longleftrightarrow> nom_step ctx s t \<or> t = stop s \<or> t = emit_deferred s \<or> (\<exists>b. t = set_fully_validated b s)"

abbreviation nom_moves :: "slot_context \<Rightarrow> nomination_protocol \<Rightarrow> nomination_protocol \<Rightarrow> bool" where
  "nom_moves ctx \<equiv> (nom_move ctx)\<^sup>*\<^sup>*"

lemma nom_steps_moves: "nom_steps ctx s t \<Longrightarrow> nom_moves ctx s t"
  by (rule rtranclp_mono [THEN predicate2D, of "nom_step ctx"]) (auto simp: nom_move_def)

lemma nom_input_moves: "nom_input ctx s t \<Longrightarrow> accepted_voted s \<Longrightarrow> nom_moves ctx s t"
proof (induction rule: nom_input.induct)
  case (Nominating v prev timedout s w t)
  then show ?case by (blast intro: nom_steps_moves nominate_steps)
next
  case (Envelope env s st t)
  then show ?case by (blast intro: nom_steps_moves process_envelope_steps)
qed (auto simp: nom_move_def intro!: r_into_rtranclp)

lemma emit_deferred_fields [simp]:
  "np_votes (emit_deferred s) = np_votes s" "np_accepted (emit_deferred s) = np_accepted s"
  "np_candidates (emit_deferred s) = np_candidates s"
  by (simp_all add: emit_deferred_def split: option.splits)

lemma nom_move_values:
  assumes "nom_move ctx s t"
  shows "v \<in> set (np_votes t) \<Longrightarrow> v \<in> set (np_votes s) \<or> votable ctx v"
    "v \<in> set (np_accepted t) \<Longrightarrow>
       v \<in> set (np_accepted s) \<or> should_accept_value ctx v s \<and> validate_nominated ctx v = FullyValidated"
    "v \<in> set (np_candidates t) \<Longrightarrow>
       v \<in> set (np_candidates s) \<or> v \<in> set (np_accepted s) \<and> should_ratify_value ctx v s"
proof -
  have "(v \<in> set (np_votes t) \<longrightarrow> v \<in> set (np_votes s) \<or> votable ctx v) \<and>
    (v \<in> set (np_accepted t) \<longrightarrow>
       v \<in> set (np_accepted s) \<or> should_accept_value ctx v s \<and> validate_nominated ctx v = FullyValidated) \<and>
    (v \<in> set (np_candidates t) \<longrightarrow>
       v \<in> set (np_candidates s) \<or> v \<in> set (np_accepted s) \<and> should_ratify_value ctx v s)"
  proof (cases "nom_step ctx s t")
    case True
    then show ?thesis
      by (induction rule: nom_step.induct) (auto simp: step_defs votable_def set_insort_insert)
  next
    case False
    with assms show ?thesis
      by (auto simp: nom_move_def stop_def set_fully_validated_def)
  qed
  then show "v \<in> set (np_votes t) \<Longrightarrow> v \<in> set (np_votes s) \<or> votable ctx v"
    "v \<in> set (np_accepted t) \<Longrightarrow>
       v \<in> set (np_accepted s) \<or> should_accept_value ctx v s \<and> validate_nominated ctx v = FullyValidated"
    "v \<in> set (np_candidates t) \<Longrightarrow>
       v \<in> set (np_candidates s) \<or> v \<in> set (np_accepted s) \<and> should_ratify_value ctx v s" by simp_all
qed

text \<open>A property that only a move out of a state with \<open>Q\<close> can establish was preceded by \<open>Q\<close>.\<close>

lemma moves_origin:
  assumes "nom_moves ctx s t" "P t" "\<not> P s" "\<And>a b. nom_move ctx a b \<Longrightarrow> P b \<Longrightarrow> P a \<or> Q a"
  shows "\<exists>r. nom_moves ctx s r \<and> nom_moves ctx r t \<and> Q r"
  using assms(1,2)
proof (induction rule: rtranclp_induct)
  case base
  with assms(3) show ?case by simp
next
  case (step y z)
  show ?case
  proof (cases "P y")
    case True
    with step.IH obtain r where "nom_moves ctx s r" "nom_moves ctx r y" "Q r" by blast
    with step.hyps(2) show ?thesis by (blast intro: rtranclp.rtrancl_into_rtrancl)
  next
    case False
    with assms(4) [OF step.hyps(2) step.prems] have "Q y" by simp
    with step.hyps show ?thesis by blast
  qed
qed

text \<open>
  C18. Values move up only through federated voting: along any input, a new candidate had been
  accepted and ratified by a quorum, a new accepted value was fully valid and accepted by a blocking
  set or voted for by a quorum, and a new vote is for a value the driver does not reject or extracted.
\<close>

theorem values_need_federated_support:
  assumes "nom_reachable ctx s" "nom_input ctx s t"
  shows "(v \<in> set (np_candidates t) - set (np_candidates s) \<longrightarrow>
      (\<exists>r. nom_moves ctx s r \<and> nom_moves ctx r t \<and> v \<in> set (np_accepted r) \<and> should_ratify_value ctx v r)) \<and>
    (v \<in> set (np_accepted t) - set (np_accepted s) \<longrightarrow> validate_nominated ctx v = FullyValidated \<and>
      (\<exists>r. nom_moves ctx s r \<and> nom_moves ctx r t \<and> should_accept_value ctx v r)) \<and>
    (v \<in> set (np_votes t) - set (np_votes s) \<longrightarrow> votable ctx v)"
proof -
  have moves: "nom_moves ctx s t"
    using nom_input_moves [OF assms(2)] nom_reachable_nom_inv [OF assms(1)]
    by (simp add: nom_inv_def values_ok_def)
  have "\<exists>r. nom_moves ctx s r \<and> nom_moves ctx r t \<and> v \<in> set (np_accepted r) \<and> should_ratify_value ctx v r"
    if "v \<in> set (np_candidates t) - set (np_candidates s)"
    by (rule moves_origin [OF moves, where P = "\<lambda>s. v \<in> set (np_candidates s)"
          and Q = "\<lambda>r. v \<in> set (np_accepted r) \<and> should_ratify_value ctx v r", OF _ _ nom_move_values(3)])
      (use that in simp_all)
  moreover have "\<exists>r. nom_moves ctx s r \<and> nom_moves ctx r t \<and>
      should_accept_value ctx v r \<and> validate_nominated ctx v = FullyValidated"
    if "v \<in> set (np_accepted t) - set (np_accepted s)"
    by (rule moves_origin [OF moves, where P = "\<lambda>s. v \<in> set (np_accepted s)"
          and Q = "\<lambda>r. should_accept_value ctx v r \<and> validate_nominated ctx v = FullyValidated",
          OF _ _ nom_move_values(2)])
      (use that in simp_all)
  moreover have "\<exists>r. nom_moves ctx s r \<and> nom_moves ctx r t \<and> votable ctx v"
    if "v \<in> set (np_votes t) - set (np_votes s)"
    by (rule moves_origin [OF moves, where P = "\<lambda>s. v \<in> set (np_votes s)"
          and Q = "\<lambda>r. votable ctx v", OF _ _ nom_move_values(1)])
      (use that in simp_all)
  ultimately show ?thesis by blast
qed

theorem values_need_federated_support_witness:
  "\<exists>r. nom_moves solo_context r solo_nominated \<and> should_ratify_value solo_context [5] r"
proof -
  have "[5] \<in> set (np_candidates solo_nominated) - set (np_candidates new_nomination_protocol)" by code_simp
  with values_need_federated_support [OF nom_reachable.fresh nom_input.Nominating [OF solo_nominate], of "[5]"]
  show ?thesis by blast
qed

end
