(* ===== verification/Quorum_Correct.thy ===== *)
theory Quorum_Correct
  imports Quorum
begin

text \<open>
  Correctness of the quorum-set operations. The declarative notions (a set of nodes that contains a
  slice of each of its members; a set that meets every slice) stand at the top; the interface
  \<open>slice_system\<close> collects what the quorum test needs to know about slice satisfaction, and
  \<open>is_quorum_slice\<close> provides it.
\<close>

section \<open>Slice satisfaction\<close>

lemma is_quorum_slice_iff [simp]:
  "is_quorum_slice (ScpQuorumSet th vs inner) nodes \<longleftrightarrow>
     1 \<le> unat th \<and>
     unat th \<le> count_if (\<lambda>v. v \<in> nodes) vs + count_if (\<lambda>i. is_quorum_slice i nodes) inner"
proof (cases "unat th = 0")
  case False
  then show ?thesis by (auto simp: Let_def count_until_spec)
qed simp

declare is_quorum_slice.simps [simp del]

lemma is_quorum_slice_mono: "is_quorum_slice q A \<Longrightarrow> A \<subseteq> B \<Longrightarrow> is_quorum_slice q B"
proof (induction q)
  case (ScpQuorumSet th vs inner)
  have "count_if (\<lambda>v. v \<in> A) vs \<le> count_if (\<lambda>v. v \<in> B) vs"
    using ScpQuorumSet.prems(2) by (intro count_if_mono) auto
  moreover have "count_if (\<lambda>i. is_quorum_slice i A) inner \<le> count_if (\<lambda>i. is_quorum_slice i B) inner"
    using ScpQuorumSet.IH ScpQuorumSet.prems(2) by (intro count_if_mono) auto
  ultimately show ?case using ScpQuorumSet.prems(1) by simp
qed

lemma is_quorum_slice_nonempty: "\<not> is_quorum_slice q {}"
proof (induction q)
  case (ScpQuorumSet th vs inner)
  then have "count_if (\<lambda>i. is_quorum_slice i {}) inner = 0" by simp
  then show ?case by simp
qed

text \<open>Only the nodes that occur in the set matter.\<close>

lemma is_quorum_slice_restrict: "is_quorum_slice q (A \<inter> get_all_nodes q) = is_quorum_slice q A"
proof -
  have "get_all_nodes q \<subseteq> N \<Longrightarrow> is_quorum_slice q (A \<inter> N) = is_quorum_slice q A" for N
  proof (induction q)
    case (ScpQuorumSet th vs inner)
    have "count_if (\<lambda>v. v \<in> A \<inter> N) vs = count_if (\<lambda>v. v \<in> A) vs"
      using ScpQuorumSet.prems by (intro count_if_cong) (auto simp: get_all_nodes_def)
    moreover have "count_if (\<lambda>i. is_quorum_slice i (A \<inter> N)) inner
        = count_if (\<lambda>i. is_quorum_slice i A) inner"
      using ScpQuorumSet.prems
      by (intro count_if_cong ScpQuorumSet.IH) (auto simp: get_all_nodes_def)
    ultimately show ?case by simp
  qed
  then show ?thesis by simp
qed

section \<open>Quorums\<close>

text \<open>A set is a quorum when every member has a quorum set that the set itself satisfies.\<close>

definition self_sustaining ::
  "('q \<Rightarrow> 'n set \<Rightarrow> bool) \<Rightarrow> ('n \<Rightarrow> 'q option) \<Rightarrow> 'n set \<Rightarrow> bool" where
  "self_sustaining sat get Q \<longleftrightarrow> (\<forall>n \<in> Q. \<exists>q. get n = Some q \<and> sat q Q)"

locale slice_system =
  fixes sat :: "'q \<Rightarrow> 'n set \<Rightarrow> bool"
  assumes sat_mono: "sat q A \<Longrightarrow> A \<subseteq> B \<Longrightarrow> sat q B"
    and sat_nonempty: "\<not> sat q {}"
begin

lemma self_sustaining_Un:
  "self_sustaining sat get P \<Longrightarrow> self_sustaining sat get Q \<Longrightarrow> self_sustaining sat get (P \<union> Q)"
  unfolding self_sustaining_def by (meson UnE Un_upper1 Un_upper2 sat_mono)

lemma self_sustaining_survives:
  assumes "self_sustaining sat get Q" "Q \<subseteq> R"
  shows "Q \<subseteq> {n \<in> R. \<exists>q. get n = Some q \<and> sat q R}"
  using assms sat_mono unfolding self_sustaining_def by blast

lemma fixpoint_self_sustaining:
  "{n \<in> R. \<exists>q. get n = Some q \<and> sat q R} = R \<Longrightarrow> self_sustaining sat get R"
  unfolding self_sustaining_def by blast

lemma blocked_iff_meets_all:
  "\<not> sat q (- B) \<longleftrightarrow> (\<forall>S. sat q S \<longrightarrow> S \<inter> B \<noteq> {})"
  by (metis Compl_disjoint2 disjoint_eq_subset_Compl sat_mono)

end

interpretation slices: slice_system is_quorum_slice
  by unfold_locales (auto dest: is_quorum_slice_mono simp: is_quorum_slice_nonempty)

lemma set_prune_round:
  "set (prune_round g xs) = {n \<in> set xs. \<exists>q. g n = Some q \<and> is_quorum_slice q (set xs)}"
  by (auto simp: prune_round_def split: option.splits)

lemma prune_loop_result:
  shows "set (prune_loop g xs) \<subseteq> set xs"
    and "self_sustaining is_quorum_slice g (set (prune_loop g xs))"
    and "self_sustaining is_quorum_slice g Q \<Longrightarrow> Q \<subseteq> set xs \<Longrightarrow> Q \<subseteq> set (prune_loop g xs)"
proof (induction g xs rule: prune_loop.induct)
  case (1 g xs)
  let ?ys = "prune_round g xs"
  have fix_eq: "?ys = xs" if "length ?ys = length xs"
    using that unfolding prune_round_def
    by (metis (no_types, lifting) filter_True length_filter_less nat_neq_iff)
  have sub: "set ?ys \<subseteq> set xs" by (auto simp: set_prune_round)
  have keep: "self_sustaining is_quorum_slice g Q \<Longrightarrow> Q \<subseteq> set xs \<Longrightarrow> Q \<subseteq> set ?ys" for Q
    unfolding set_prune_round by (rule slices.self_sustaining_survives)
  { case 1
    show ?case using "1.IH"(1) [OF refl] sub unfolding prune_loop.simps [of g xs] Let_def
      by (cases "length ?ys = length xs") auto
  next
    case 2
    have "self_sustaining is_quorum_slice g (set ?ys)" if "length ?ys = length xs"
      using set_prune_round [of g xs] fix_eq [OF that]
      by (intro slices.fixpoint_self_sustaining) simp
    then show ?case using "1.IH"(2) [OF refl] unfolding prune_loop.simps [of g xs] Let_def
      by (cases "length ?ys = length xs") auto
  next
    case 3
    then show ?case using "1.IH"(3) [OF refl] keep unfolding prune_loop.simps [of g xs] Let_def
      by (cases "length ?ys = length xs") auto
  }
qed

lemma is_quorum_iff:
  "is_quorum qs nodes get \<longleftrightarrow>
     (\<exists>Q \<subseteq> set nodes. self_sustaining is_quorum_slice get Q \<and> is_quorum_slice qs Q)"
proof
  assume "is_quorum qs nodes get"
  then show "\<exists>Q \<subseteq> set nodes. self_sustaining is_quorum_slice get Q \<and> is_quorum_slice qs Q"
    unfolding is_quorum_def using prune_loop_result(1,2) by (intro exI conjI)
next
  assume "\<exists>Q \<subseteq> set nodes. self_sustaining is_quorum_slice get Q \<and> is_quorum_slice qs Q"
  then obtain Q where Q: "Q \<subseteq> set nodes" "self_sustaining is_quorum_slice get Q" "is_quorum_slice qs Q"
    by blast
  from Q(2,1) have "Q \<subseteq> set (prune_loop get nodes)" by (rule prune_loop_result(3))
  with Q(3) show "is_quorum qs nodes get"
    unfolding is_quorum_def by (rule is_quorum_slice_mono)
qed

text \<open>
  C1. The quorum test is exact: the pruning loop ends with the largest quorum among the given nodes,
  and \<open>is_quorum\<close> answers true if and only if some subset of the given nodes contains a slice of each
  of its members and satisfies the local quorum set.
\<close>

theorem is_quorum_correct:
  "set (prune_loop get nodes) = \<Union>{Q. Q \<subseteq> set nodes \<and> self_sustaining is_quorum_slice get Q} \<and>
   (is_quorum qs nodes get \<longleftrightarrow>
     (\<exists>Q \<subseteq> set nodes. self_sustaining is_quorum_slice get Q \<and> is_quorum_slice qs Q))"
proof
  show "set (prune_loop get nodes) = \<Union>{Q. Q \<subseteq> set nodes \<and> self_sustaining is_quorum_slice get Q}"
    using prune_loop_result(1,2) [of get nodes] prune_loop_result(3) [where g = get and xs = nodes]
    by (intro equalityI Sup_least Sup_upper) blast+
qed (rule is_quorum_iff)

lemma is_quorum_mono:
  "is_quorum qs nodes get \<Longrightarrow> set nodes \<subseteq> set nodes' \<Longrightarrow> is_quorum qs nodes' get"
  unfolding is_quorum_iff by blast

section \<open>Blocking sets\<close>

text \<open>What the sanity check guarantees about thresholds, at every level.\<close>

fun thresholds_ok :: "scp_quorum_set \<Rightarrow> bool" where
  "thresholds_ok (ScpQuorumSet th vs inner) \<longleftrightarrow>
     1 \<le> unat th \<and> unat th \<le> length vs + length inner \<and> list_all thresholds_ok inner"

lemma is_v_blocking_iff [simp]:
  "is_v_blocking (ScpQuorumSet th vs inner) nodes \<longleftrightarrow>
     1 \<le> unat th \<and>
     length vs + length inner - unat th <
       count_if (\<lambda>v. v \<in> nodes) vs + count_if (\<lambda>i. is_v_blocking i nodes) inner"
  by (auto simp: Let_def)

declare is_v_blocking.simps [simp del]

lemma is_v_blocking_mono: "is_v_blocking q A \<Longrightarrow> A \<subseteq> B \<Longrightarrow> is_v_blocking q B"
proof (induction q)
  case (ScpQuorumSet th vs inner)
  have "count_if (\<lambda>v. v \<in> A) vs \<le> count_if (\<lambda>v. v \<in> B) vs"
    using ScpQuorumSet.prems(2) by (intro count_if_mono) auto
  moreover have "count_if (\<lambda>i. is_v_blocking i A) inner \<le> count_if (\<lambda>i. is_v_blocking i B) inner"
    using ScpQuorumSet.IH ScpQuorumSet.prems(2) by (intro count_if_mono) auto
  ultimately show ?case using ScpQuorumSet.prems(1) by simp
qed

lemma is_v_blocking_dual: "thresholds_ok q \<Longrightarrow> is_v_blocking q B \<longleftrightarrow> \<not> is_quorum_slice q (- B)"
proof (induction q)
  case (ScpQuorumSet th vs inner)
  have v: "count_if (\<lambda>v. v \<in> B) vs + count_if (\<lambda>v. v \<in> - B) vs = length vs"
    using count_if_compl [of "\<lambda>v. v \<in> B" vs] by simp
  have "count_if (\<lambda>i. is_v_blocking i B) inner = count_if (\<lambda>i. \<not> is_quorum_slice i (- B)) inner"
    using ScpQuorumSet by (intro count_if_cong) (auto simp: list_all_iff)
  then have i: "count_if (\<lambda>i. is_v_blocking i B) inner
      + count_if (\<lambda>i. is_quorum_slice i (- B)) inner = length inner"
    using count_if_compl [of "\<lambda>i. is_quorum_slice i (- B)" inner] by simp
  from ScpQuorumSet.prems v i show ?case
    unfolding is_v_blocking_iff is_quorum_slice_iff thresholds_ok.simps by linarith
qed

section \<open>The sanity check\<close>

fun qset_depth :: "scp_quorum_set \<Rightarrow> nat" where
  "qset_depth (ScpQuorumSet th vs inner) = foldr (\<lambda>i m. max (Suc (qset_depth i)) m) inner 0"

fun majority_thresholds :: "scp_quorum_set \<Rightarrow> bool" where
  "majority_thresholds (ScpQuorumSet th vs inner) \<longleftrightarrow>
     length vs + length inner < 2 * unat th \<and> list_all majority_thresholds inner"

lemma foldr_max_le:
  "d + foldr (\<lambda>i m. max (Suc (f i)) m) xs 0 \<le> n \<longleftrightarrow> d \<le> n \<and> (\<forall>x \<in> set xs. Suc d + f x \<le> (n :: nat))"
  by (induction xs) auto

definition add_known :: "sanity_checker \<Rightarrow> node_id list \<Rightarrow> sanity_checker" where
  "add_known c ns = c\<lparr>known_nodes := known_nodes c \<union> set ns,
     sc_count := usize_saturating_add (sc_count c) (length ns)\<rparr>"

lemma insert_known_iff:
  "insert_known ns c = Inr c' \<longleftrightarrow>
     distinct ns \<and> set ns \<inter> known_nodes c = {} \<and> c' = c\<lparr>known_nodes := known_nodes c \<union> set ns\<rparr>"
  by (induction ns arbitrary: c) auto

lemma add_known_simps [simp]:
  "known_nodes (add_known c ns) = known_nodes c \<union> set ns"
  "sc_count (add_known c ns) = usize_saturating_add (sc_count c) (length ns)"
  "add_known (add_known c ms) ns = add_known c (ms @ ns)"
  "sc_count c \<le> usize_max \<Longrightarrow> add_known c [] = c"
  by (auto simp: add_known_def usize_saturating_add_def Un_assoc min_def)

lemma insert_known_count:
  "insert_known vs (c\<lparr>sc_count := usize_saturating_add (sc_count c) (length vs)\<rparr>) = Inr c' \<longleftrightarrow>
     distinct vs \<and> set vs \<inter> known_nodes c = {} \<and> c' = add_known c vs"
  by (auto simp: insert_known_iff add_known_def)

lemma usize_saturating_add_le [simp]: "usize_saturating_add a b \<le> usize_max"
  by (simp add: usize_saturating_add_def)

definition structure_ok :: "bool \<Rightarrow> scp_quorum_set \<Rightarrow> bool" where
  "structure_ok extra q \<longleftrightarrow> thresholds_ok q \<and> (extra \<longrightarrow> majority_thresholds q)"

lemma structure_ok_iff:
  "structure_ok extra (ScpQuorumSet th vs inner) \<longleftrightarrow>
     1 \<le> unat th \<and> unat th \<le> length vs + length inner \<and>
     (extra \<longrightarrow> length vs + length inner < 2 * unat th) \<and> list_all (structure_ok extra) inner"
  by (auto simp: structure_ok_def list_all_iff)

lemma check_sanity_iff:
  fixes q :: scp_quorum_set and qs :: "scp_quorum_set list"
  shows "sc_count c \<le> usize_max \<Longrightarrow>
    check_sanity extra q d c = Inr c' \<longleftrightarrow>
     structure_ok extra q \<and> d + qset_depth q \<le> MAXIMUM_QUORUM_NESTING_LEVEL \<and>
     distinct (collect_nodes q) \<and> set (collect_nodes q) \<inter> known_nodes c = {} \<and>
     c' = add_known c (collect_nodes q)"
    and "sc_count c \<le> usize_max \<Longrightarrow>
    check_sanity_all extra qs d c = Inr c' \<longleftrightarrow>
     list_all (structure_ok extra) qs \<and>
     (\<forall>q \<in> set qs. d + qset_depth q \<le> MAXIMUM_QUORUM_NESTING_LEVEL) \<and>
     distinct (concat (map collect_nodes qs)) \<and>
     set (concat (map collect_nodes qs)) \<inter> known_nodes c = {} \<and>
     c' = add_known c (concat (map collect_nodes qs))"
proof (induction extra q d c and extra qs d c arbitrary: c' and c' rule: check_sanity_check_sanity_all.induct)
  case (1 extra th vs inner d c)
  have th: "\<not> th < 1 \<longleftrightarrow> 1 \<le> unat th" by (auto simp: word_less_nat_alt)
  show ?case
  proof (cases "d \<le> MAXIMUM_QUORUM_NESTING_LEVEL \<and> \<not> th < 1 \<and> unat th \<le> length vs + length inner \<and>
      \<not> (extra \<and> unat th < length vs + length inner - unat th + 1)")
    case False
    then show ?thesis using th by (auto simp: Let_def structure_ok_iff foldr_max_le)
  next
    case True
    have unfold: "check_sanity extra (ScpQuorumSet th vs inner) d c =
        (case insert_known vs (c\<lparr>sc_count := usize_saturating_add (sc_count c) (length vs)\<rparr>) of
           Inl e \<Rightarrow> Inl e | Inr k \<Rightarrow> check_sanity_all extra inner (d + 1) k)"
      using True by (auto simp: Let_def)
    show ?thesis
    proof (cases "distinct vs \<and> set vs \<inter> known_nodes c = {}")
      case False
      then have "insert_known vs (c\<lparr>sc_count := usize_saturating_add (sc_count c) (length vs)\<rparr>) \<noteq> Inr k" for k
        by (auto simp: insert_known_count)
      with False show ?thesis unfolding unfold by (auto split: sum.split)
    next
      case distinct: True
      then have ins: "insert_known vs (c\<lparr>sc_count := usize_saturating_add (sc_count c) (length vs)\<rparr>)
          = Inr (add_known c vs)"
        by (simp add: insert_known_count)
      have "check_sanity_all extra inner (d + 1) (add_known c vs) = Inr c' \<longleftrightarrow>
          list_all (structure_ok extra) inner \<and>
          (\<forall>q \<in> set inner. d + 1 + qset_depth q \<le> MAXIMUM_QUORUM_NESTING_LEVEL) \<and>
          distinct (concat (map collect_nodes inner)) \<and>
          set (concat (map collect_nodes inner)) \<inter> known_nodes (add_known c vs) = {} \<and>
          c' = add_known (add_known c vs) (concat (map collect_nodes inner))"
        using True by (intro "1.IH" [OF _ _ refl _ refl _ ins]) auto
      with True distinct th show ?thesis
        unfolding unfold ins by (auto simp: structure_ok_iff foldr_max_le)
    qed
  qed
next
  case (2 extra d c)
  then show ?case by auto
next
  case (3 extra q qs d c)
  show ?case
  proof (cases "check_sanity extra q d c")
    case (Inl e)
    then have "check_sanity extra q d c \<noteq> Inr k" for k by simp
    with Inl show ?thesis unfolding "3.IH"(1) [OF "3.prems"] by auto
  next
    case (Inr k)
    note q = Inr [unfolded "3.IH"(1) [OF "3.prems"]]
    have "sc_count k \<le> usize_max" using q by simp
    from "3.IH"(2) [OF Inr this] q Inr show ?thesis by auto
  qed
qed

text \<open>
  C2. The recursive checker with its running state accepts a quorum set exactly when, at every level,
  the threshold lies between one and the number of entries (and above half of them under the extra
  checks), the nesting is at most four deep, no node occurs twice, and there are between one and a
  thousand nodes.
\<close>

theorem is_quorum_set_sane_iff:
  "is_quorum_set_sane q extra = Inr () \<longleftrightarrow>
     thresholds_ok q \<and> (extra \<longrightarrow> majority_thresholds q) \<and> qset_depth q \<le> 4 \<and>
     distinct (collect_nodes q) \<and> 1 \<le> length (collect_nodes q) \<and> length (collect_nodes q) \<le> 1000"
proof -
  let ?c = "\<lparr>known_nodes = {}, sc_count = 0\<rparr>"
  have "is_quorum_set_sane q extra = Inr () \<longleftrightarrow>
      (\<exists>c. check_sanity extra q 0 ?c = Inr c \<and> 1 \<le> sc_count c \<and> sc_count c \<le> 1000)"
    by (auto simp: is_quorum_set_sane_def MAXIMUM_QUORUM_NODES_def split: sum.split)
  also have "\<dots> \<longleftrightarrow> structure_ok extra q \<and> qset_depth q \<le> 4 \<and> distinct (collect_nodes q) \<and>
      1 \<le> length (collect_nodes q) \<and> length (collect_nodes q) \<le> 1000"
    by (auto simp: check_sanity_iff MAXIMUM_QUORUM_NESTING_LEVEL_def usize_saturating_add_def
        usize_max_def min_def)
  finally show ?thesis by (auto simp: structure_ok_def)
qed

lemma sane_thresholds_ok: "is_quorum_set_sane q extra = Inr () \<Longrightarrow> thresholds_ok q"
  by (auto simp: is_quorum_set_sane_def check_sanity_iff structure_ok_def split: sum.splits)

text \<open>
  C3. For a quorum set that passes the sanity check, the counting test for v-blocking sets agrees
  with the definition: a set blocks if and only if it meets every slice.
\<close>

theorem is_v_blocking_meets_all_slices:
  assumes "is_quorum_set_sane q extra = Inr ()"
  shows "is_v_blocking q B \<longleftrightarrow> (\<forall>S. is_quorum_slice q S \<longrightarrow> S \<inter> B \<noteq> {})"
  using is_v_blocking_dual [OF sane_thresholds_ok [OF assms]] slices.blocked_iff_meets_all
  by blast

definition two_of_three :: scp_quorum_set where
  "two_of_three = ScpQuorumSet 2 [[1], [2], [3]] []"

lemma two_of_three_sane: "is_quorum_set_sane two_of_three True = Inr ()"
  by (simp add: two_of_three_def is_quorum_set_sane_def MAXIMUM_QUORUM_NESTING_LEVEL_def
      MAXIMUM_QUORUM_NODES_def usize_saturating_add_def usize_max_def Let_def)

theorem is_quorum_set_sane_witness:
  "thresholds_ok two_of_three \<and> majority_thresholds two_of_three \<and> distinct (collect_nodes two_of_three)"
  using is_quorum_set_sane_iff [of two_of_three True] two_of_three_sane by simp

theorem is_v_blocking_meets_all_slices_witness:
  "is_quorum_set_sane two_of_three True = Inr () \<and> is_v_blocking two_of_three {[1], [2]} \<and>
   is_quorum_slice two_of_three {[1], [3]} \<and> {[1], [3]} \<inter> {[1], [2]} \<noteq> {}"
proof -
  have b: "is_v_blocking two_of_three {[1], [2]}" and s: "is_quorum_slice two_of_three {[1], [3]}"
    by (simp_all add: two_of_three_def)
  from b s is_v_blocking_meets_all_slices [OF two_of_three_sane]
  have "{[1], [3]} \<inter> {[1], [2]} \<noteq> {}" by blast
  with b s two_of_three_sane show ?thesis by simp
qed

section \<open>Normalisation\<close>

text \<open>Two quorum sets with the same slices and the same blocking sets.\<close>

definition qset_equiv :: "scp_quorum_set \<Rightarrow> scp_quorum_set \<Rightarrow> bool" where
  "qset_equiv p q \<longleftrightarrow>
     (\<forall>N. is_quorum_slice p N = is_quorum_slice q N \<and> is_v_blocking p N = is_v_blocking q N)"

lemma qset_equiv_trans: "qset_equiv p q \<Longrightarrow> qset_equiv q r \<Longrightarrow> qset_equiv p r"
  by (simp add: qset_equiv_def)

lemma qset_equivI:
  assumes "length vs + length inner = length vs' + length inner'"
    and "\<And>N. count_if (\<lambda>v. v \<in> N) vs + count_if (\<lambda>i. is_quorum_slice i N) inner =
             count_if (\<lambda>v. v \<in> N) vs' + count_if (\<lambda>i. is_quorum_slice i N) inner'"
    and "\<And>N. count_if (\<lambda>v. v \<in> N) vs + count_if (\<lambda>i. is_v_blocking i N) inner =
             count_if (\<lambda>v. v \<in> N) vs' + count_if (\<lambda>i. is_v_blocking i N) inner'"
  shows "qset_equiv (ScpQuorumSet th vs inner) (ScpQuorumSet th vs' inner')"
  using assms by (simp add: qset_equiv_def)

lemma count_if_sort: "count_if p (sort xs) = count_if p xs"
  by (simp add: filter_sort)

lemma count_if_map: "count_if p (map f xs) = count_if (\<lambda>x. p (f x)) xs"
  by (induction xs) auto

lemma reorder_equiv: "qset_equiv q (normalize_quorum_set_reorder q)"
proof (induction q)
  case (ScpQuorumSet th vs inner)
  show ?case
    unfolding normalize_quorum_set_reorder.simps
    using ScpQuorumSet.IH
    by (intro qset_equivI) (auto simp: count_if_sort count_if_map qset_equiv_def intro!: count_if_cong)
qed

lemma singleton_set_meaning:
  assumes "is_singleton_set q"
  shows "is_quorum_slice q N \<longleftrightarrow> validators q ! 0 \<in> N" "is_v_blocking q N \<longleftrightarrow> validators q ! 0 \<in> N"
proof -
  obtain v where "q = ScpQuorumSet 1 [v] []"
    using assms by (cases q) (auto simp: is_singleton_set_def length_Suc_conv)
  then show "is_quorum_slice q N \<longleftrightarrow> validators q ! 0 \<in> N" "is_v_blocking q N \<longleftrightarrow> validators q ! 0 \<in> N"
    by auto
qed

lemma collapse_single_equiv: "qset_equiv q (collapse_single q)"
proof (cases q)
  case (ScpQuorumSet th vs inner)
  then show ?thesis
    by (auto simp: collapse_single_def qset_equiv_def length_Suc_conv split: if_splits)
qed

lemma simplify_equiv:
  fixes q :: scp_quorum_set and qs :: "scp_quorum_set list"
  shows "rm = None \<Longrightarrow> qset_equiv q (normalize_quorum_set_simplify q rm)"
    and "rm = None \<Longrightarrow> simplify_inner qs rm merged = (qs', merged') \<Longrightarrow>
      length merged + length qs = length merged' + length qs' \<and>
      (\<forall>N. count_if (\<lambda>v. v \<in> N) merged + count_if (\<lambda>i. is_quorum_slice i N) qs =
           count_if (\<lambda>v. v \<in> N) merged' + count_if (\<lambda>i. is_quorum_slice i N) qs' \<and>
           count_if (\<lambda>v. v \<in> N) merged + count_if (\<lambda>i. is_v_blocking i N) qs =
           count_if (\<lambda>v. v \<in> N) merged' + count_if (\<lambda>i. is_v_blocking i N) qs')"
proof (induction q rm and qs rm merged arbitrary: and qs' merged'
    rule: normalize_quorum_set_simplify_simplify_inner.induct)
  case (1 th vs inner rm)
  obtain inner' merged' where r: "simplify_inner inner rm vs = (inner', merged')"
    by fastforce
  have "qset_equiv (ScpQuorumSet th vs inner) (ScpQuorumSet th merged' inner')"
    using "1.IH" [OF _ _ "1.prems" r] "1.prems" by (intro qset_equivI) (auto simp: remove_validator_def)
  then show ?case
    using r "1.prems" by (auto simp: remove_validator_def intro: qset_equiv_trans collapse_single_equiv)
next
  case (2 rm merged)
  then show ?case by simp
next
  case (3 q qs rm merged)
  let ?q = "normalize_quorum_set_simplify q rm"
  note eq = "3.IH"(1) [OF "3.prems"(1)]
  show ?case
  proof (cases "is_singleton_set ?q")
    case True
    let ?v = "validators ?q ! 0"
    have mean: "is_quorum_slice q N \<longleftrightarrow> ?v \<in> N" "is_v_blocking q N \<longleftrightarrow> ?v \<in> N" for N
      using eq singleton_set_meaning [OF True] by (simp_all add: qset_equiv_def)
    have "simplify_inner qs rm (merged @ [?v]) = (qs', merged')"
      using "3.prems"(2) True by (simp add: Let_def)
    note IH = "3.IH"(2) [OF refl True "3.prems"(1) this]
    have "count_if (\<lambda>v. v \<in> N) merged + count_if (\<lambda>i. is_quorum_slice i N) (q # qs) =
          count_if (\<lambda>v. v \<in> N) merged' + count_if (\<lambda>i. is_quorum_slice i N) qs' \<and>
          count_if (\<lambda>v. v \<in> N) merged + count_if (\<lambda>i. is_v_blocking i N) (q # qs) =
          count_if (\<lambda>v. v \<in> N) merged' + count_if (\<lambda>i. is_v_blocking i N) qs'" for N
      using conjunct2 [OF IH, THEN spec, of N] by (cases "?v \<in> N") (simp_all add: mean)
    with conjunct1 [OF IH] show ?thesis by simp
  next
    case False
    with "3.prems"(2) obtain r where
      r: "simplify_inner qs rm merged = (r, merged')" "qs' = ?q # r"
      by (auto simp: Let_def split: prod.splits)
    have mean: "is_quorum_slice ?q N = is_quorum_slice q N" "is_v_blocking ?q N = is_v_blocking q N" for N
      using eq by (simp_all add: qset_equiv_def)
    from "3.IH"(3) [OF refl False "3.prems"(1) r(1)] show ?thesis by (simp add: r(2) mean)
  qed
qed

lemma normalize_quorum_set_equiv: "qset_equiv q (normalize_quorum_set q)"
  unfolding normalize_quorum_set_def normalize_quorum_set_with_remove_def
  by (rule qset_equiv_trans [OF simplify_equiv(1) reorder_equiv]) simp

text \<open>The shape that normalisation establishes.\<close>

fun simplified :: "scp_quorum_set \<Rightarrow> bool" where
  "simplified (ScpQuorumSet th vs inner) \<longleftrightarrow>
     \<not> (th = 1 \<and> vs = [] \<and> length inner = 1) \<and>
     list_all (\<lambda>i. simplified i \<and> \<not> is_singleton_set i) inner"

fun reordered :: "scp_quorum_set \<Rightarrow> bool" where
  "reordered (ScpQuorumSet th vs inner) \<longleftrightarrow> sorted vs \<and> sorted inner \<and> list_all reordered inner"

lemma reorder_reordered: "reordered (normalize_quorum_set_reorder q)"
  by (induction q) (auto simp: list_all_iff)

lemma reorder_id: "reordered q \<Longrightarrow> normalize_quorum_set_reorder q = q"
proof (induction q)
  case (ScpQuorumSet th vs inner)
  then have "map normalize_quorum_set_reorder inner = inner"
    by (intro map_idI) (auto simp: list_all_iff)
  with ScpQuorumSet.prems show ?case by (simp add: sorted_sort_id)
qed

lemma is_singleton_reorder: "is_singleton_set (normalize_quorum_set_reorder q) = is_singleton_set q"
  by (cases q) (auto simp: is_singleton_set_def)

lemma simplified_reorder: "simplified q \<Longrightarrow> simplified (normalize_quorum_set_reorder q)"
proof (induction q)
  case (ScpQuorumSet th vs inner)
  then show ?case
    by (simp add: list_all_iff is_singleton_reorder)
qed

lemma simplified_collapse:
  "list_all (\<lambda>i. simplified i \<and> \<not> is_singleton_set i) (inner_sets q) \<Longrightarrow> simplified (collapse_single q)"
  by (cases q) (auto simp: collapse_single_def list_all_iff)

lemma simplify_simplified:
  fixes q :: scp_quorum_set and qs :: "scp_quorum_set list"
  shows "simplified (normalize_quorum_set_simplify q rm)"
    and "list_all (\<lambda>i. simplified i \<and> \<not> is_singleton_set i) (fst (simplify_inner qs rm merged))"
  by (induction q rm and qs rm merged rule: normalize_quorum_set_simplify_simplify_inner.induct)
    (auto simp: Let_def split: prod.splits intro!: simplified_collapse)

lemma simplify_id:
  fixes q :: scp_quorum_set and qs :: "scp_quorum_set list"
  shows "rm = None \<Longrightarrow> simplified q \<Longrightarrow> normalize_quorum_set_simplify q rm = q"
    and "rm = None \<Longrightarrow> list_all (\<lambda>i. simplified i \<and> \<not> is_singleton_set i) qs \<Longrightarrow>
      simplify_inner qs rm merged = (qs, merged)"
  by (induction q rm and qs rm merged rule: normalize_quorum_set_simplify_simplify_inner.induct)
    (auto simp: Let_def remove_validator_def collapse_single_def)

text \<open>
  C4. Normalisation is a semantics-preserving canonicalisation: the normalised quorum set has exactly
  the same slices and the same v-blocking sets, is fully simplified and sorted, and normalising it
  again changes nothing.
\<close>

theorem normalize_quorum_set_canonical:
  "(\<forall>N. is_quorum_slice (normalize_quorum_set q) N = is_quorum_slice q N \<and>
        is_v_blocking (normalize_quorum_set q) N = is_v_blocking q N) \<and>
   simplified (normalize_quorum_set q) \<and> reordered (normalize_quorum_set q) \<and>
   normalize_quorum_set (normalize_quorum_set q) = normalize_quorum_set q"
proof (intro conjI)
  show "\<forall>N. is_quorum_slice (normalize_quorum_set q) N = is_quorum_slice q N \<and>
      is_v_blocking (normalize_quorum_set q) N = is_v_blocking q N"
    using normalize_quorum_set_equiv [of q] by (simp add: qset_equiv_def)
  show s: "simplified (normalize_quorum_set q)" and r: "reordered (normalize_quorum_set q)"
    by (simp_all add: normalize_quorum_set_def normalize_quorum_set_with_remove_def
        simplified_reorder simplify_simplified reorder_reordered)
  show "normalize_quorum_set (normalize_quorum_set q) = normalize_quorum_set q"
    using s r unfolding normalize_quorum_set_def normalize_quorum_set_with_remove_def
    by (simp add: simplify_id reorder_id)
qed

section \<open>The closest v-blocking set\<close>

lemma fcvb_validators_spec:
  "0 < left \<Longrightarrow> fcvb_validators N None vs left res =
     (if int (count_if (\<lambda>v. v \<notin> N) vs) \<ge> left then None
      else Some (res @ filter (\<lambda>v. v \<in> N) vs, left - int (count_if (\<lambda>v. v \<notin> N) vs)))"
  by (induction vs arbitrary: left res) auto

definition indexed :: "nat \<Rightarrow> node_id list list \<Rightarrow> (nat \<times> nat \<times> node_id list) list" where
  "indexed k vs = map (\<lambda>(i, v). (length v, i, v)) (filter (\<lambda>(i, v). v \<noteq> []) (enumerate k vs))"

lemma indexed_simps [simp]:
  "indexed k [] = []"
  "indexed k (v # vs) = (if v = [] then [] else [(length v, k, v)]) @ indexed (Suc k) vs"
  by (auto simp: indexed_def)

lemma fcvb_inner_spec:
  "0 < left \<Longrightarrow> fcvb_inner k vs left acc =
     (if int (count_if (\<lambda>v. v = []) vs) \<ge> left then None
      else Some (acc @ indexed k vs, left - int (count_if (\<lambda>v. v = []) vs)))"
  by (induction vs arbitrary: k left acc) auto

lemma fcvb_extend_spec:
  "0 \<le> left \<Longrightarrow> fcvb_extend xs left res = res @ concat (map (snd \<circ> snd) (take (nat left) xs))"
proof (induction xs arbitrary: left res)
  case (Cons x xs)
  show ?case
  proof (cases "left = 0")
    case False
    then have "nat left = Suc (nat (left - 1))" using Cons.prems by simp
    with False Cons show ?thesis by simp
  qed simp
qed simp

lemma length_indexed: "length (indexed k vs) + count_if (\<lambda>v. v = []) vs = length vs"
  by (induction vs arbitrary: k) auto

lemma indexed_index:
  "t \<in> set (indexed k vs) \<Longrightarrow> k \<le> fst (snd t) \<and> fst (snd t) < k + length vs \<and>
     snd (snd t) = vs ! (fst (snd t) - k) \<and> snd (snd t) \<noteq> []"
  by (auto simp: indexed_def in_set_enumerate_eq)

lemma distinct_indexed: "distinct (map (fst \<circ> snd) (indexed k vs))"
proof (induction vs arbitrary: k)
  case (Cons v vs)
  have "k \<notin> (fst \<circ> snd) ` set (indexed (Suc k) vs)"
    using indexed_index [of _ "Suc k" vs] by fastforce
  with Cons show ?case by simp
qed simp

lemma count_if_take_filter:
  "count_if (\<lambda>v. \<not> p v) vs + length (take k (filter p vs))
     \<le> count_if (\<lambda>v. \<not> p v \<or> v \<in> set (take k (filter p vs))) vs"
proof -
  let ?T = "take k (filter p vs)"
  have "length ?T \<le> count_if (\<lambda>v. v \<in> set ?T) (?T @ drop k (filter p vs))"
    unfolding filter_append by simp
  also have "\<dots> = count_if (\<lambda>v. p v \<and> v \<in> set ?T) vs"
    by (simp add: conj_commute)
  finally have "length ?T \<le> count_if (\<lambda>v. p v \<and> v \<in> set ?T) vs" .
  moreover have "count_if (\<lambda>v. \<not> p v) us + count_if (\<lambda>v. p v \<and> v \<in> S) us
      = count_if (\<lambda>v. \<not> p v \<or> v \<in> S) us" for S us
    by (induction us) auto
  from this [of vs "set ?T"] calculation show ?thesis by linarith
qed

text \<open>Choosing results for distinct indices blocks that many further members.\<close>

lemma count_blocked_inner:
  assumes chosen: "set ts \<subseteq> set (indexed 0 (map f qs))" "distinct (map (fst \<circ> snd) ts)"
    and nil: "\<And>q. q \<in> set qs \<Longrightarrow> f q = [] \<Longrightarrow> P q"
    and picked: "\<And>t q. t \<in> set ts \<Longrightarrow> q \<in> set qs \<Longrightarrow> snd (snd t) = f q \<Longrightarrow> P q"
  shows "count_if (\<lambda>v. v = []) (map f qs) + length ts \<le> count_if P qs"
proof -
  let ?n = "length qs"
  let ?E = "{i. i < ?n \<and> f (qs ! i) = []}" and ?C = "(fst \<circ> snd) ` set ts"
  have idx: "i < ?n" "f (qs ! i) \<noteq> []" "P (qs ! i)" if "i \<in> ?C" for i
  proof -
    from that obtain t where t: "t \<in> set ts" "i = fst (snd t)" by auto
    with chosen(1) indexed_index [of t 0 "map f qs"] have *: "i < ?n" "snd (snd t) = f (qs ! i)" "snd (snd t) \<noteq> []"
      by auto
    then show "i < ?n" "f (qs ! i) \<noteq> []" by auto
    from t(1) * show "P (qs ! i)" by (intro picked) auto
  qed
  have "?E \<union> ?C \<subseteq> {i. i < ?n \<and> P (qs ! i)}" using idx nil by auto
  then have "card (?E \<union> ?C) \<le> card {i. i < ?n \<and> P (qs ! i)}" by (intro card_mono) auto
  moreover have "card (?E \<union> ?C) = card ?E + card ?C"
    using idx(2) by (intro card_Un_disjoint) auto
  moreover have "card ?C = length ts"
    using distinct_card [OF chosen(2)] by (simp add: image_comp)
  moreover have "count_if (\<lambda>v. v = []) (map f qs) = card ?E"
    by (simp add: length_filter_conv_card cong: conj_cong)
  ultimately show ?thesis by (simp add: length_filter_conv_card)
qed

declare find_closest_v_blocking.simps [simp del]

definition closest_ok :: "scp_quorum_set \<Rightarrow> node_id set \<Rightarrow> bool" where
  "closest_ok q N \<longleftrightarrow>
     set (find_closest_v_blocking q N None) \<subseteq> N \<inter> get_all_nodes q \<and>
     is_v_blocking q (- N \<union> set (find_closest_v_blocking q N None)) \<and>
     (find_closest_v_blocking q N None = [] \<longleftrightarrow> is_v_blocking q (- N))"

lemma find_closest_v_blocking_ok: "thresholds_ok q \<Longrightarrow> closest_ok q N"
proof (induction q)
  case (ScpQuorumSet th vs inner)
  let ?f = "\<lambda>i. find_closest_v_blocking i N None"
  let ?r = "find_closest_v_blocking (ScpQuorumSet th vs inner) N None"
  define t where "t = unat th"
  note t_def [symmetric, simp]
  define left0 where "left0 = 1 + int (length vs) + int (length inner) - int t"
  define nv where "nv = count_if (\<lambda>v. v \<notin> N) vs"
  define ni where "ni = count_if (\<lambda>v. v = []) (map ?f inner)"
  have left0: "0 < left0" using ScpQuorumSet.prems by (simp add: left0_def)
  have IH: "closest_ok i N" if "i \<in> set inner" for i
    using ScpQuorumSet that by (auto simp: list_all_iff)
  have ni: "ni = count_if (\<lambda>i. is_v_blocking i (- N)) inner"
    unfolding ni_def count_if_map using IH by (intro count_if_cong) (simp add: closest_ok_def)
  have blk: "is_v_blocking (ScpQuorumSet th vs inner) (- N) \<longleftrightarrow> left0 \<le> int nv + int ni"
    using ScpQuorumSet.prems by (auto simp: nv_def ni left0_def)
  show ?case
  proof (cases "left0 \<le> int nv + int ni")
    case True
    then have "?r = []"
      using left0 by (auto simp: find_closest_v_blocking.simps fcvb_validators_spec fcvb_inner_spec nv_def ni_def Let_def left0_def)
    with True blk show ?thesis by (simp add: closest_ok_def)
  next
    case False
    define k where "k = nat (left0 - int nv - int ni)"
    define rv where "rv = take k (filter (\<lambda>v. v \<in> N) vs)"
    define ts where "ts = take (k - length rv) (sort_key (\<lambda>x. (fst x, fst (snd x))) (indexed 0 (map ?f inner)))"
    have r: "?r = rv @ concat (map (snd \<circ> snd) ts)"
      using left0 False
      by (auto simp: find_closest_v_blocking.simps fcvb_validators_spec fcvb_inner_spec fcvb_extend_spec Let_def left0_def nv_def ni_def
          k_def rv_def ts_def min_def nat_diff_distrib)
    have lens: "length rv + length ts = k"
      using count_if_compl [of "\<lambda>v. v \<in> N" vs] length_indexed [of 0 "map ?f inner"]
        ScpQuorumSet.prems
      by (auto simp: rv_def ts_def k_def nv_def ni_def left0_def)
    have ts: "set ts \<subseteq> set (indexed 0 (map ?f inner))" "distinct (map (fst \<circ> snd) ts)"
    proof -
      show "set ts \<subseteq> set (indexed 0 (map ?f inner))"
        unfolding ts_def by (auto dest: in_set_takeD)
      have "distinct (map (fst \<circ> snd) (sort_key (\<lambda>x. (fst x, fst (snd x))) (indexed 0 (map ?f inner))))"
        using distinct_indexed [of 0 "map ?f inner"] by (simp add: distinct_map)
      then show "distinct (map (fst \<circ> snd) ts)"
        unfolding ts_def take_map [symmetric] by (rule distinct_take)
    qed
    have val: "nv + length rv \<le> count_if (\<lambda>v. v \<in> - N \<union> set ?r) vs"
      unfolding nv_def rv_def using count_if_take_filter [where k = k and p = "\<lambda>v. v \<in> N" and vs = vs]
      by (rule order_trans) (intro count_if_mono, auto simp: r rv_def)
    have inn: "ni + length ts \<le> count_if (\<lambda>i. is_v_blocking i (- N \<union> set ?r)) inner"
      unfolding ni_def
    proof (rule count_blocked_inner [OF ts])
      fix q assume q: "q \<in> set inner"
      show "is_v_blocking q (- N \<union> set ?r)" if "?f q = []"
        using IH [OF q] that by (auto simp: closest_ok_def intro: is_v_blocking_mono)
      show "is_v_blocking q (- N \<union> set ?r)" if "t \<in> set ts" "snd (snd t) = ?f q" for t
        using IH [OF q] that by (auto simp: closest_ok_def r intro!: is_v_blocking_mono [of q "- N \<union> set (?f q)"])
    qed
    have blocks: "is_v_blocking (ScpQuorumSet th vs inner) (- N \<union> set ?r)"
      unfolding is_v_blocking_iff using ScpQuorumSet.prems val inn lens False
      by (auto simp: k_def left0_def)
    have "set ?r \<subseteq> N \<inter> get_all_nodes (ScpQuorumSet th vs inner)"
    proof -
      have "set (snd (snd t)) \<subseteq> N \<inter> get_all_nodes (ScpQuorumSet th vs inner)" if t: "t \<in> set ts" for t
      proof -
        from t ts(1) have "t \<in> set (indexed 0 (map ?f inner))" by blast
        from indexed_index [OF this] obtain q where "q \<in> set inner" "snd (snd t) = ?f q"
          using nth_mem by fastforce
        with IH [of q] show ?thesis by (auto simp: closest_ok_def get_all_nodes_def)
      qed
      then have "(\<Union>t \<in> set ts. set (snd (snd t))) \<subseteq> N \<inter> get_all_nodes (ScpQuorumSet th vs inner)"
        by (rule UN_least)
      moreover have "set rv \<subseteq> N \<inter> get_all_nodes (ScpQuorumSet th vs inner)"
        by (auto simp: rv_def get_all_nodes_def dest!: in_set_takeD)
      ultimately show ?thesis by (simp add: r)
    qed
    moreover have "?r \<noteq> []"
    proof -
      have "k \<noteq> 0" using False by (simp add: k_def)
      moreover have "snd (snd t) \<noteq> []" if "t \<in> set ts" for t
        using that ts(1) indexed_index [of t 0 "map ?f inner"] by auto
      ultimately show ?thesis using lens by (cases ts) (auto simp: r)
    qed
    ultimately show ?thesis using blocks blk False by (simp add: closest_ok_def)
  qed
qed

text \<open>
  For a sane quorum set, \<open>find_closest_v_blocking\<close> returns nodes of the given set that, failing
  together with all nodes outside the set, block the quorum set; and it returns the empty vector
  exactly when the nodes outside the set block it already.
\<close>

theorem find_closest_v_blocking_blocks:
  assumes "is_quorum_set_sane q extra = Inr ()"
  shows "set (find_closest_v_blocking q N None) \<subseteq> N \<inter> get_all_nodes q \<and>
    is_v_blocking q (- N \<union> set (find_closest_v_blocking q N None)) \<and>
    (find_closest_v_blocking q N None = [] \<longleftrightarrow> is_v_blocking q (- N))"
  using find_closest_v_blocking_ok [OF sane_thresholds_ok [OF assms], of N]
  by (simp add: closest_ok_def)

theorem find_closest_v_blocking_blocks_witness:
  "is_quorum_set_sane two_of_three True = Inr () \<and>
   find_closest_v_blocking two_of_three {[1], [2], [3]} None = [[1], [2]] \<and>
   is_v_blocking two_of_three (- {[1], [2], [3]} \<union> {[1], [2]})"
proof -
  have r: "find_closest_v_blocking two_of_three {[1], [2], [3]} None = [[1], [2]]"
    by (simp add: two_of_three_def find_closest_v_blocking.simps)
  have "is_v_blocking two_of_three
      (- {[1], [2], [3]} \<union> set (find_closest_v_blocking two_of_three {[1], [2], [3]} None))"
    using find_closest_v_blocking_blocks [OF two_of_three_sane] by blast
  then show ?thesis unfolding r using two_of_three_sane r by simp
qed

end
