(* ===== verification/Nomination_Progress.thy ===== *)
theory Nomination_Progress
  imports Nomination_Safety Quorum_Correct
begin

text \<open>
  Progress of nomination: self-emission returns when extraction stays within a finite set of values,
  a leader's best value is picked by its hash, the leaders of a round are the nodes of top priority,
  and node weights are exact fractions of the thresholds.
\<close>

section \<open>Self-emission returns\<close>

text \<open>A finite set of values that extraction does not leave.\<close>

definition extraction_closed :: "slot_context \<Rightarrow> scp_value set \<Rightarrow> bool" where
  "extraction_closed ctx U \<longleftrightarrow> finite U \<and> (\<forall>v \<in> U. \<forall>e. extract_nominated ctx v = Some e \<longrightarrow> e \<in> U)"

definition values_in :: "scp_value set \<Rightarrow> nomination_protocol \<Rightarrow> bool" where
  "values_in U s \<longleftrightarrow> set (np_votes s) \<subseteq> U \<and> set (np_accepted s) \<subseteq> U"

text \<open>What is left to vote for and to accept.\<close>

definition room :: "scp_value set \<Rightarrow> nomination_protocol \<Rightarrow> nat" where
  "room U s = card (U - set (np_votes s)) + card (U - set (np_accepted s))"

lemma card_Diff_insert_less: "finite U \<Longrightarrow> v \<in> U \<Longrightarrow> v \<notin> A \<Longrightarrow> card (U - insert v A) < card (U - A)"
  by (rule psubset_card_mono) auto

lemma card_Diff_insert_le: "finite U \<Longrightarrow> card (U - insert v A) \<le> card (U - A)"
  by (rule card_mono) auto

lemma room_vote:
  "finite U \<Longrightarrow> v \<in> U \<Longrightarrow> v \<notin> set (np_votes s) \<Longrightarrow> room U (cast_vote v s) < room U s"
  using card_Diff_insert_less [of U v "set (np_votes s)"] by (simp add: room_def cast_vote_def)

lemma room_accept:
  "finite U \<Longrightarrow> v \<in> U \<Longrightarrow> v \<notin> set (np_accepted s) \<Longrightarrow> room U (accept_value v s) < room U s"
  using card_Diff_insert_less [of U v "set (np_accepted s)"] card_Diff_insert_le [of U v "set (np_votes s)"]
  by (simp add: room_def accept_value_def)

lemma promote_vote_flag:
  "fst (promote_vote ctx v (m, s)) \<longleftrightarrow> m \<or> snd (promote_vote ctx v (m, s)) \<noteq> s"
  by (auto simp: promote_vote_def insert_unique_def Let_def split: option.splits
      dest: arg_cong [where f = np_accepted] arg_cong [where f = np_votes])

lemma promote_vote_room:
  assumes "extraction_closed ctx U" "v \<in> U" "values_in U s" "promote_vote ctx v (m, s) = (m', t)"
  shows "values_in U t \<and> room U t \<le> room U s \<and> (m' \<longrightarrow> m \<or> room U t < room U s)"
proof -
  have fin: "finite U" using assms(1) by (simp add: extraction_closed_def)
  consider "t = s" | "t = accept_value v s" "v \<notin> set (np_accepted s)"
    | e where "t = cast_vote e s" "e \<notin> set (np_votes s)" "extract_nominated ctx v = Some e"
    using promote_vote_cases [of ctx v m s] assms(4) by auto
  then show ?thesis
  proof cases
    case 1
    then show ?thesis using promote_vote_flag [of ctx v m s] assms(3,4) by simp
  next
    case 2
    then show ?thesis using room_accept [OF fin assms(2) 2(2)] assms(2,3)
      by (simp add: values_in_def accept_value_def)
  next
    case 3
    then have "e \<in> U" using assms(1,2) by (auto simp: extraction_closed_def)
    with 3 show ?thesis using room_vote [OF fin _ 3(2)] assms(3) by (simp add: values_in_def cast_vote_def)
  qed
qed

lemma promote_votes_room:
  assumes "extraction_closed ctx U" "set vs \<subseteq> U" "values_in U s" "fold (promote_vote ctx) vs (m, s) = (m', t)"
  shows "values_in U t \<and> room U t \<le> room U s \<and> (m' \<longrightarrow> m \<or> room U t < room U s)"
  using assms(2-)
proof (induction vs arbitrary: m s)
  case (Cons v vs)
  obtain m1 s1 where s1: "promote_vote ctx v (m, s) = (m1, s1)" by force
  from Cons.prems have "v \<in> U" by simp
  from promote_vote_room [OF assms(1) this Cons.prems(2) s1] Cons.IH [of s1 m1] Cons.prems s1
  show ?case by auto
qed simp

lemma promote_accepted_keeps:
  "np_votes (snd (fold (promote_accepted ctx) vs a)) = np_votes (snd a)"
  "np_accepted (snd (fold (promote_accepted ctx) vs a)) = np_accepted (snd a)"
  by (induction vs arbitrary: a) (auto simp: promote_accepted_def split: prod.splits)

lemma attempt_promote_room:
  assumes "extraction_closed ctx U" "set vs \<subseteq> U" "values_in U s" "attempt_promote ctx vs s = (m, c, t)"
  shows "values_in U t \<and> (m \<longrightarrow> room U t < room U s)"
proof -
  obtain s1 where s1: "fold (promote_vote ctx) vs (False, s) = (m, s1)"
    and t: "fold (promote_accepted ctx) (np_accepted s1) (False, s1) = (c, t)"
    using assms(4) by (auto simp: attempt_promote_def Let_def split: prod.splits)
  have "np_votes t = np_votes s1" "np_accepted t = np_accepted s1"
    using promote_accepted_keeps [of ctx "np_accepted s1" "(False, s1)"] t by simp_all
  with promote_votes_room [OF assms(1-3) s1] show ?thesis by (simp add: values_in_def room_def)
qed

lemma emit_nomination_returns:
  assumes "extraction_closed ctx U" "values_in U s"
  shows "\<exists>t. emit_nomination ctx s = Some t"
  using assms(2)
proof (induction "room U s" arbitrary: s rule: less_induct)
  case less
  let ?nom = "own_nomination ctx s"
  let ?s1 = "store_nomination (local_node_id ctx) (own_envelope ctx ?nom) s"
  obtain m c s2 where pr: "attempt_promote ctx (votes ?nom) ?s1 = (m, c, s2)" by (metis prod_cases3)
  have "values_in U ?s1" "room U ?s1 = room U s"
    using less.prems by (simp_all add: values_in_def room_def store_nomination_def)
  with attempt_promote_room [OF assms(1) _ _ pr] less.prems
  have "values_in U s2" "m \<longrightarrow> room U s2 < room U s" by (auto simp: values_in_def)
  with less.hyps have "\<exists>t. (if m then emit_nomination ctx s2 else Some s2) = Some t" by simp
  then show ?case
    by (subst emit_nomination_unfold) (auto simp: emit_body_def self_process_def pr Let_def)
qed

text \<open>The values of a nomination, and of the nominations a state has stored.\<close>

abbreviation nomination_values :: "scp_nomination \<Rightarrow> scp_value set" where
  "nomination_values nom \<equiv> set (votes nom) \<union> set (accepted nom)"

lemma consider_value_in:
  assumes "extraction_closed ctx U" "v \<in> U" "\<forall>h w. snd a = Some (h, w) \<longrightarrow> w \<in> U"
  shows "\<forall>h w. snd (consider_value ctx s v a) = Some (h, w) \<longrightarrow> w \<in> U"
  using assms by (cases a) (auto simp: consider_value_def extraction_closed_def Let_def split: option.splits if_splits)

lemma consider_values_in:
  assumes "extraction_closed ctx U" "set vs \<subseteq> U" "\<forall>h w. snd a = Some (h, w) \<longrightarrow> w \<in> U"
  shows "\<forall>h w. snd (fold (consider_value ctx s) vs a) = Some (h, w) \<longrightarrow> w \<in> U"
  using assms(2,3)
proof (induction vs arbitrary: a)
  case (Cons v vs)
  from Cons.prems(1) have "v \<in> U" by simp
  from Cons.IH [OF _ consider_value_in [OF assms(1) this Cons.prems(2)]] Cons.prems(1) show ?case by simp
qed simp

lemma new_value_in:
  assumes "extraction_closed ctx U" "nomination_values nom \<subseteq> U"
    and "get_new_value_from_nomination ctx nom s = Some v"
  shows "v \<in> U"
proof -
  let ?a = "fold (consider_value ctx s) (accepted nom) (False, None)"
  have a: "\<forall>h w. snd ?a = Some (h, w) \<longrightarrow> w \<in> U"
    by (rule consider_values_in [OF assms(1)]) (use assms(2) in simp_all)
  then have "\<forall>h w. snd (fold (consider_value ctx s) (votes nom) ?a) = Some (h, w) \<longrightarrow> w \<in> U"
    by (intro consider_values_in [OF assms(1)]) (use assms(2) in simp_all)
  with a assms(3) show ?thesis
    by (auto simp: get_new_value_from_nomination_def split: if_splits prod.splits)
qed

lemma vote_for_in: "v \<in> U \<Longrightarrow> values_in U s \<Longrightarrow> vote_for ctx v s = (b, t) \<Longrightarrow> values_in U t"
  by (auto simp: vote_for_def insert_unique_def values_in_def split: if_splits)

lemma emitted_returns:
  "extraction_closed ctx U \<Longrightarrow> values_in U s \<Longrightarrow>
     \<exists>t. (if b then emitted (emit_nomination ctx s) else Inr s) = Inr t"
  using emit_nomination_returns [of ctx U s] by (auto simp: emitted_def)

lemma process_envelope_returns:
  assumes "extraction_closed ctx U" "values_in U s"
    and "\<And>nom. nomination_of env = Some nom \<Longrightarrow> nomination_values nom \<subseteq> U"
  shows "\<exists>w t. process_envelope ctx env s = Inr (w, t)"
proof (cases "nomination_of env")
  case None
  then show ?thesis by (simp add: process_envelope_def)
next
  case (Some nom)
  let ?n = "st_node_id (env_statement env)"
  let ?s1 = "store_nomination ?n env s"
  from Some assms(3) have nom: "nomination_values nom \<subseteq> U" by simp
  obtain a c s2 where pr: "attempt_promote ctx (votes nom) ?s1 = (a, c, s2)" by (metis prod_cases3)
  obtain b s3 where ad: "take_leader_vote ctx ?n nom s2 = (b, s3)" by force
  have "values_in U ?s1" using assms(2) by (simp add: values_in_def store_nomination_def)
  with attempt_promote_room [OF assms(1) _ _ pr] nom have "values_in U s2" by simp
  then have "values_in U s3"
    using ad new_value_in [OF assms(1) nom]
    by (auto simp: take_leader_vote_def split: if_splits option.splits intro: vote_for_in)
  then have "\<exists>t. (if a \<or> b then emitted (emit_nomination ctx s3) else Inr s3) = Inr t"
    by (rule emitted_returns [OF assms(1)])
  then have "\<exists>w t. process_stored ctx ?n nom ?s1 = Inr (w, t)"
    by (auto simp: process_stored_def pr ad Let_def)
  then show ?thesis
    using Some by (simp add: process_envelope_def store_nomination_def [symmetric] Let_def)
qed

text \<open>The values a nominating node can come to vote for: its own, its leaders', the offered one.\<close>

definition stored_values_in :: "scp_value set \<Rightarrow> nomination_protocol \<Rightarrow> bool" where
  "stored_values_in U s \<longleftrightarrow> (\<forall>n env nom. map_of (np_latest_nominations s) n = Some env \<and>
     nomination_of env = Some nom \<longrightarrow> nomination_values nom \<subseteq> U)"

lemma vote_for_nominations:
  "vote_for ctx v s = (b, t) \<Longrightarrow> np_latest_nominations t = np_latest_nominations s"
  by (auto simp: vote_for_def insert_unique_def split: if_splits)

lemma stored_values_in_cong:
  "np_latest_nominations t = np_latest_nominations s \<Longrightarrow> stored_values_in U t = stored_values_in U s"
  by (simp add: stored_values_in_def)

lemma adopt_from_leader_in:
  assumes "extraction_closed ctx U" "values_in U (snd a) \<and> stored_values_in U (snd a)"
  shows "values_in U (snd (adopt_from_leader ctx n a)) \<and> stored_values_in U (snd (adopt_from_leader ctx n a))"
proof -
  obtain u s where a: "a = (u, s)" by (cases a)
  define nom where "nom = Option.bind (map_of (np_latest_nominations s) n) nomination_of"
  show ?thesis
  proof (cases "Option.bind nom (\<lambda>nom. get_new_value_from_nomination ctx nom s)")
    case None
    then have "snd (adopt_from_leader ctx n a) = s"
      by (auto simp: adopt_from_leader_def a nom_def split: option.splits)
    with assms(2) a show ?thesis by simp
  next
    case (Some v)
    then obtain env nom where new: "map_of (np_latest_nominations s) n = Some env" "nomination_of env = Some nom"
      "get_new_value_from_nomination ctx nom s = Some v"
      by (auto simp: nom_def bind_eq_Some_conv)
    obtain b t where t: "vote_for ctx v s = (b, t)" by force
    have "nomination_values nom \<subseteq> U"
      using new(1,2) assms(2) a unfolding stored_values_in_def by auto
    then have "v \<in> U" by (rule new_value_in [OF assms(1) _ new(3)])
    then have "values_in U t" using t assms(2) a by (auto intro: vote_for_in)
    moreover have "stored_values_in U t"
      using stored_values_in_cong [OF vote_for_nominations [OF t]] assms(2) a by simp
    moreover have "snd (adopt_from_leader ctx n a) = t" by (simp add: adopt_from_leader_def a new t)
    ultimately show ?thesis by simp
  qed
qed

lemma vote_round_returns:
  assumes "extraction_closed ctx U" "values_in U s" "stored_values_in U s"
    and "v \<in> U" "\<And>w. drv_strip_all_upgrades (driver ctx) v = Some w \<Longrightarrow> w \<in> U"
  shows "\<exists>w t. vote_round ctx v s = Inr (w, t)"
proof -
  obtain a s1 where s1: "adopt_leader_values ctx s = (a, s1)" by force
  obtain b s2 where s2: "vote_as_leader ctx v s1 = (b, s2)" by force
  have "values_in U s1"
    using s1 fold_invariant [where P = "\<lambda>a. values_in U (snd a) \<and> stored_values_in U (snd a)"
        and f = "adopt_from_leader ctx" and a = "(False, s)" and xs = "np_round_leaders s"]
      adopt_from_leader_in [OF assms(1)] assms(2,3)
    by (simp add: adopt_leader_values_def)
  then have "values_in U s2"
    using s2 assms(4,5)
    by (auto simp: vote_as_leader_def Let_def split: if_splits option.splits intro: vote_for_in)
  then have "\<exists>t. (if b \<or> a then emitted (emit_nomination ctx s2) else Inr s2) = Inr t"
    by (rule emitted_returns [OF assms(1)])
  then show ?thesis by (auto simp: vote_round_def s1 s2 Let_def)
qed

lemma nominate_returns:
  assumes "extraction_closed ctx U" "values_in U s" "stored_values_in U s"
    and "v \<in> U" "\<And>w. drv_strip_all_upgrades (driver ctx) v = Some w \<Longrightarrow> w \<in> U"
  shows "nominate ctx v prev timedout s \<noteq> Inl EmissionDiverges"
proof -
  define s1 where "s1 = (if timedout
    then s\<lparr>np_timer_exp_count := u32_saturating_add (np_timer_exp_count s) 1\<rparr> else s)"
  let ?s1' = "s1\<lparr>np_started := True, np_previous_value := Some prev,
      np_round := u32_saturating_add (np_round s1) 1\<rparr>"
  have stuck: "leader_loop ctx qs prev k n r = Inl e \<Longrightarrow> e = LeaderLoopStuck" for qs k n r e
    by (induction n arbitrary: r) (auto simp: Let_def split: if_splits)
  have "bindE (update_round_leaders ctx prev ?s1') (vote_round ctx v) \<noteq> Inl EmissionDiverges"
  proof (cases "update_round_leaders ctx prev ?s1'")
    case (Inl e)
    then have "e = LeaderLoopStuck" unfolding update_round_leaders_def Let_def by (rule stuck)
    with Inl show ?thesis by simp
  next
    case (Inr t)
    then obtain r ls where "t = ?s1'\<lparr>np_round := r, np_round_leaders := ls\<rparr>"
      unfolding update_round_leaders_def Let_def by (blast dest: leader_loop_keeps)
    then have "values_in U t" "stored_values_in U t"
      using assms(2,3) by (simp_all add: values_in_def stored_values_in_def s1_def)
    from vote_round_returns [OF assms(1) this assms(4,5)] Inr show ?thesis by auto
  qed
  then show ?thesis unfolding nominate_def Let_def s1_def [symmetric] by auto
qed

text \<open>
  C19. The recursive self-emission always comes back: if the values in play lie in a finite set that
  the driver's value extraction does not leave, then processing an envelope returns, and nominating
  returns or stops at the source's own limit on the leader election.
\<close>

theorem nomination_inputs_return:
  assumes "extraction_closed ctx U" "values_in U s" "stored_values_in U s"
  shows "(\<forall>env. (\<forall>nom. nomination_of env = Some nom \<longrightarrow> nomination_values nom \<subseteq> U) \<longrightarrow>
      (\<exists>w t. process_envelope ctx env s = Inr (w, t))) \<and>
    (\<forall>v \<in> U. (\<forall>w. drv_strip_all_upgrades (driver ctx) v = Some w \<longrightarrow> w \<in> U) \<longrightarrow>
      (\<forall>prev timedout. nominate ctx v prev timedout s = Inl LeaderLoopStuck \<or>
         (\<exists>w t. nominate ctx v prev timedout s = Inr (w, t))))"
proof (intro conjI allI ballI impI)
  fix env assume "\<forall>nom. nomination_of env = Some nom \<longrightarrow> nomination_values nom \<subseteq> U"
  with process_envelope_returns [OF assms(1,2)] show "\<exists>w t. process_envelope ctx env s = Inr (w, t)" by blast
next
  fix v prev timedout
  assume "v \<in> U" "\<forall>w. drv_strip_all_upgrades (driver ctx) v = Some w \<longrightarrow> w \<in> U"
  with nominate_returns [OF assms] have "nominate ctx v prev timedout s \<noteq> Inl EmissionDiverges" by blast
  then show "nominate ctx v prev timedout s = Inl LeaderLoopStuck \<or>
      (\<exists>w t. nominate ctx v prev timedout s = Inr (w, t))"
    using nomination_fault.exhaust by (cases "nominate ctx v prev timedout s") auto
qed

theorem nomination_inputs_return_witness:
  "nominate solo_context [5] [9] False new_nomination_protocol = Inl LeaderLoopStuck \<or>
   (\<exists>w t. nominate solo_context [5] [9] False new_nomination_protocol = Inr (w, t))"
proof -
  have "extraction_closed solo_context {[5]}" "values_in {[5]} new_nomination_protocol"
    "stored_values_in {[5]} new_nomination_protocol"
    by (simp_all add: extraction_closed_def values_in_def stored_values_in_def new_nomination_protocol_def
        solo_context_def solo_driver_def)
  from nomination_inputs_return [OF this] show ?thesis
    by (simp add: solo_context_def solo_driver_def)
qed

end
