(* ===== verification/Nomination_Leaders.thy ===== *)
theory Nomination_Leaders
  imports Nomination_Progress
begin

text \<open>
  What nomination elects: the value with the greatest hash among a leader's valid values, the nodes
  of greatest priority as leaders of a round, and the weights that decide who can lead.
\<close>

section \<open>The value taken from a leader\<close>

text \<open>The value to vote for in place of \<open>v\<close>: itself when fully valid, else what the driver extracts.\<close>

definition usable :: "slot_context \<Rightarrow> scp_value \<Rightarrow> scp_value option" where
  "usable ctx v = (if validate_nominated ctx v = FullyValidated then Some v else extract_nominated ctx v)"

definition unvoted :: "slot_context \<Rightarrow> nomination_protocol \<Rightarrow> scp_value list \<Rightarrow> scp_value set" where
  "unvoted ctx s vs = {e. \<exists>v \<in> set vs. usable ctx v = Some e} - set (np_votes s)"

definition best_of :: "slot_context \<Rightarrow> nomination_protocol \<Rightarrow> scp_value set \<Rightarrow> (u64 \<times> scp_value) option \<Rightarrow> bool" where
  "best_of ctx s C best \<longleftrightarrow>
     (case best of
        None \<Rightarrow> C = {}
      | Some (h, e) \<Rightarrow> e \<in> C \<and> h = hash_value ctx e s \<and> (\<forall>c \<in> C. hash_value ctx c s \<le> h))"

lemma unvoted_simps [simp]:
  "unvoted ctx s [] = {}"
  "unvoted ctx s (v # vs) =
     (case usable ctx v of None \<Rightarrow> {} | Some e \<Rightarrow> {e} - set (np_votes s)) \<union> unvoted ctx s vs"
  by (auto simp: unvoted_def split: option.splits)

lemma consider_value_best:
  assumes "best_of ctx s C best"
  shows "best_of ctx s (C \<union> unvoted ctx s [v]) (snd (consider_value ctx s v (found, best)))"
    "fst (consider_value ctx s v (found, best)) \<longleftrightarrow> found \<or> usable ctx v \<noteq> None"
proof -
  show "best_of ctx s (C \<union> unvoted ctx s [v]) (snd (consider_value ctx s v (found, best)))"
  proof (cases "usable ctx v")
    case None
    with assms show ?thesis by (simp add: consider_value_def usable_def [symmetric])
  next
    case (Some e)
    with assms show ?thesis
      by (cases "e \<in> set (np_votes s)")
        (auto simp: consider_value_def usable_def [symmetric] best_of_def Let_def split: option.splits)
  qed
  show "fst (consider_value ctx s v (found, best)) \<longleftrightarrow> found \<or> usable ctx v \<noteq> None"
    by (auto simp: consider_value_def usable_def [symmetric] Let_def split: option.splits)
qed

lemma fold_consider_value:
  assumes "best_of ctx s C best"
  shows "best_of ctx s (C \<union> unvoted ctx s vs) (snd (fold (consider_value ctx s) vs (found, best)))"
    "fst (fold (consider_value ctx s) vs (found, best)) \<longleftrightarrow> found \<or> (\<exists>v \<in> set vs. usable ctx v \<noteq> None)"
proof -
  have "best_of ctx s (C \<union> unvoted ctx s vs) (snd (fold (consider_value ctx s) vs (found, best))) \<and>
    (fst (fold (consider_value ctx s) vs (found, best)) \<longleftrightarrow> found \<or> (\<exists>v \<in> set vs. usable ctx v \<noteq> None))"
    using assms
  proof (induction vs arbitrary: C found best)
    case Nil
    then show ?case by simp
  next
    case (Cons v vs)
    obtain found' best' where step: "consider_value ctx s v (found, best) = (found', best')" by force
    have "best_of ctx s (C \<union> unvoted ctx s [v]) best'" "found' \<longleftrightarrow> found \<or> usable ctx v \<noteq> None"
      using consider_value_best [OF Cons.prems, of v found] step by auto
    with Cons.IH [OF this(1), of found'] step show ?case by (simp add: Un_assoc)
  qed
  then show "best_of ctx s (C \<union> unvoted ctx s vs) (snd (fold (consider_value ctx s) vs (found, best)))"
    "fst (fold (consider_value ctx s) vs (found, best)) \<longleftrightarrow> found \<or> (\<exists>v \<in> set vs. usable ctx v \<noteq> None)"
    by simp_all
qed

text \<open>
  C20. The value a node adopts from a leader's nomination is one it has not voted for, usable, and of
  greatest hash among these; it comes from the values the leader accepted if any of them is usable,
  else from those it voted for; and no value is adopted only when there is none.
\<close>

theorem new_value_has_greatest_hash:
  fixes ctx s nom
  defines "pool \<equiv> unvoted ctx s (if \<exists>v \<in> set (accepted nom). usable ctx v \<noteq> None then accepted nom else votes nom)"
  shows "case get_new_value_from_nomination ctx nom s of
      None \<Rightarrow> pool = {}
    | Some v \<Rightarrow> v \<in> pool \<and> (\<forall>w \<in> pool. hash_value ctx w s \<le> hash_value ctx v s)"
proof -
  have init: "best_of ctx s {} None" by (simp add: best_of_def)
  obtain f b where fb: "fold (consider_value ctx s) (accepted nom) (False, None) = (f, b)" by force
  note acc = fold_consider_value [OF init, of "accepted nom" False, unfolded fb, simplified]
  show ?thesis
  proof (cases "\<exists>v \<in> set (accepted nom). usable ctx v \<noteq> None")
    case True
    then have "pool = unvoted ctx s (accepted nom)" unfolding pool_def by (simp only: if_True)
    with acc True fb show ?thesis
      by (auto simp: get_new_value_from_nomination_def best_of_def split: option.splits)
  next
    case False
    then have pool: "pool = unvoted ctx s (votes nom)" unfolding pool_def by (simp only: if_False)
    from False acc have f: "\<not> f" and "unvoted ctx s (accepted nom) = {}" by (auto simp: unvoted_def)
    with acc have "best_of ctx s {} b" by simp
    from fold_consider_value(1) [OF this, of "votes nom" f] f pool show ?thesis
      by (auto simp: get_new_value_from_nomination_def fb best_of_def split: option.splits prod.splits)
  qed
qed

text \<open>A leader that votes for two values, the first of which has the greater hash.\<close>

definition hashing_context :: slot_context where
  "hashing_context = solo_context
     \<lparr>driver := solo_driver\<lparr>drv_compute_value_hash := (\<lambda>_ _ _ v. if v = [5] then 9 else 3)\<rparr>\<rparr>"

definition two_votes :: scp_nomination where
  "two_votes = \<lparr>nom_quorum_set_hash = [7], votes = [[5], [6]], accepted = []\<rparr>"

theorem new_value_has_greatest_hash_witness:
  "get_new_value_from_nomination hashing_context two_votes new_nomination_protocol = Some [5] \<and>
   hash_value hashing_context [6] new_nomination_protocol \<le> hash_value hashing_context [5] new_nomination_protocol"
proof -
  have best: "get_new_value_from_nomination hashing_context two_votes new_nomination_protocol = Some [5]"
    by code_simp
  have "[6] \<in> unvoted hashing_context new_nomination_protocol (votes two_votes)"
    by (simp add: two_votes_def usable_def validate_nominated_def new_nomination_protocol_def
        hashing_context_def solo_context_def solo_driver_def)
  with new_value_has_greatest_hash [of hashing_context new_nomination_protocol two_votes] best
  show ?thesis by (simp add: two_votes_def)
qed

section \<open>The leaders of a round\<close>

lemma for_all_nodes_fold: "for_all_nodes q f a = fold f (collect_nodes q) a"
proof (induction q arbitrary: a)
  case (ScpQuorumSet th vs inner)
  have "fold (\<lambda>q. for_all_nodes q f) inner a = fold f (concat (map collect_nodes inner)) a" for a
    using ScpQuorumSet by (induction inner arbitrary: a) auto
  then show ?case by simp
qed

definition top_nodes :: "(node_id \<Rightarrow> u64) \<Rightarrow> node_id set \<Rightarrow> node_id set" where
  "top_nodes priority N = {n \<in> N. priority n > 0 \<and> (\<forall>m \<in> N. priority m \<le> priority n)}"

lemma fold_consider_leader:
  assumes "\<forall>m \<in> N. priority m \<le> p" "p > 0 \<longrightarrow> L = top_nodes priority N" "p > 0 \<longrightarrow> (\<exists>m \<in> N. priority m = p)"
    and "fold (consider_leader priority) ns (p, L) = (p', L')"
  shows "(\<forall>m \<in> N \<union> set ns. priority m \<le> p') \<and> (p' > 0 \<longrightarrow> L' = top_nodes priority (N \<union> set ns)) \<and>
    (p' > 0 \<longrightarrow> (\<exists>m \<in> N \<union> set ns. priority m = p'))"
  using assms
proof (induction ns arbitrary: N p L)
  case (Cons n ns)
  obtain q K where step: "consider_leader priority n (p, L) = (q, K)" by force
  consider "p < priority n" "q = priority n" "K = {n}"
    | "priority n = p" "p > 0" "q = p" "K = insert n L"
    | "priority n < p \<or> p = 0 \<and> priority n = 0" "q = p" "K = L"
  proof (cases "p < priority n")
    case True
    then have "priority n > 0" by (rule le_less_trans [OF word_zero_le])
    with True have "consider_leader priority n (p, L) = (priority n, {n})"
      by (simp add: consider_leader_def)
    with step True show ?thesis by (intro that(1)) simp_all
  next
    case False
    then consider "priority n = p \<and> p > 0" | "priority n < p \<or> p = 0 \<and> priority n = 0"
      using word_gt_0 [of p] by (cases "priority n = p"; cases "p = 0") (simp_all add: not_less le_less)
    then show ?thesis
    proof cases
      case 1
      then have "consider_leader priority n (p, L) = (p, insert n L)" by (simp add: consider_leader_def)
      with step 1 show ?thesis by (intro that(2)) simp_all
    next
      case 2
      then have "consider_leader priority n (p, L) = (p, L)" by (auto simp: consider_leader_def Let_def)
      with step 2 show ?thesis by (intro that(3)) simp_all
    qed
  qed
  then have "(\<forall>m \<in> insert n N. priority m \<le> q) \<and> (q > 0 \<longrightarrow> K = top_nodes priority (insert n N)) \<and>
    (q > 0 \<longrightarrow> (\<exists>m \<in> insert n N. priority m = q))"
  proof cases
    case 1
    then have less: "\<forall>m \<in> N. priority m < priority n" using Cons.prems(1) by fastforce
    then have "top_nodes priority (insert n N) = {n}"
      using le_less_trans [OF word_zero_le 1(1)] by (auto simp: top_nodes_def)
    with less 1 show ?thesis by auto
  next
    case 2
    with Cons.prems(1-3) have "top_nodes priority (insert n N) = insert n (top_nodes priority N)"
      by (auto simp: top_nodes_def)
    with 2 Cons.prems(1-3) show ?thesis by auto
  next
    case 3
    then have "priority n \<le> p" by auto
    moreover from 3 Cons.prems(3) have "p > 0 \<longrightarrow> top_nodes priority (insert n N) = top_nodes priority N"
      by (auto simp: top_nodes_def)
    ultimately show ?thesis using 3 Cons.prems(1-3) by auto
  qed
  with Cons.IH [of "insert n N" q K] Cons.prems(4) step show ?case by simp
qed simp

text \<open>The nodes among which the leaders of a round are elected.\<close>

definition electors :: "slot_context \<Rightarrow> scp_quorum_set \<Rightarrow> node_id set" where
  "electors ctx qs = insert (local_node_id ctx) (get_all_nodes qs)"

lemma new_round_leaders_top:
  "new_round_leaders ctx qs prev s = top_nodes (\<lambda>n. get_node_priority ctx qs prev n s) (electors ctx qs)"
proof -
  let ?p = "\<lambda>n. get_node_priority ctx qs prev n s"
  let ?l = "local_node_id ctx"
  obtain p L where pL: "fold (consider_leader ?p) (collect_nodes qs) (?p ?l, {?l}) = (p, L)" by force
  have init: "\<forall>m \<in> {?l}. ?p m \<le> ?p ?l" "?p ?l > 0 \<longrightarrow> {?l} = top_nodes ?p {?l}"
    "?p ?l > 0 \<longrightarrow> (\<exists>m \<in> {?l}. ?p m = ?p ?l)"
    by (auto simp: top_nodes_def)
  have el: "{?l} \<union> set (collect_nodes qs) = electors ctx qs"
    by (simp add: electors_def get_all_nodes_def)
  note res = fold_consider_leader [OF init pL, unfolded el]
  show ?thesis
  proof (cases "p = 0")
    case True
    with res have "top_nodes ?p (electors ctx qs) = {}" by (auto simp: top_nodes_def)
    with True pL show ?thesis by (simp add: new_round_leaders_def for_all_nodes_fold)
  next
    case False
    with res pL show ?thesis
      by (simp add: new_round_leaders_def for_all_nodes_fold word_neq_0_conv [symmetric])
  qed
qed

text \<open>The leaders that the round \<open>k\<close> steps after the current one would elect.\<close>

definition later_round :: "nat \<Rightarrow> nomination_protocol \<Rightarrow> nomination_protocol" where
  "later_round k s = s\<lparr>np_round := ((\<lambda>r. u32_saturating_add r 1) ^^ k) (np_round s)\<rparr>"

definition leaders_of_round ::
  "slot_context \<Rightarrow> scp_quorum_set \<Rightarrow> scp_value \<Rightarrow> nat \<Rightarrow> nomination_protocol \<Rightarrow> node_id set" where
  "leaders_of_round ctx qs prev k s =
     top_nodes (\<lambda>n. get_node_priority ctx qs prev n (later_round k s)) (electors ctx qs)"

lemma get_node_priority_cong:
  "np_round t = np_round s \<Longrightarrow> get_node_priority ctx qs prev n t = get_node_priority ctx qs prev n s"
  by (simp add: get_node_priority_def Let_def)

lemma leaders_of_round_0:
  "leaders_of_round ctx qs prev 0 s = new_round_leaders ctx qs prev s"
  by (simp add: leaders_of_round_def later_round_def new_round_leaders_top)

lemma leaders_of_round_Suc:
  "leaders_of_round ctx qs prev k (s\<lparr>np_round := u32_saturating_add (np_round s) 1\<rparr>) =
     leaders_of_round ctx qs prev (Suc k) s"
proof -
  have "np_round (later_round k (s\<lparr>np_round := u32_saturating_add (np_round s) 1\<rparr>)) =
      np_round (later_round (Suc k) s)"
    by (simp add: later_round_def funpow_Suc_right del: funpow.simps(2))
  from get_node_priority_cong [OF this] show ?thesis by (simp add: leaders_of_round_def)
qed

lemma finite_leaders_of_round [simp]: "finite (leaders_of_round ctx qs prev k s)"
proof -
  have "leaders_of_round ctx qs prev k s \<subseteq> insert (local_node_id ctx) (set (collect_nodes qs))"
    by (auto simp: leaders_of_round_def top_nodes_def electors_def get_all_nodes_def)
  then show ?thesis by (rule finite_subset) simp
qed

lemma leader_loop_result:
  assumes "sorted_wrt (<) (np_round_leaders s)" "length (np_round_leaders s) < max_leaders"
  shows "(\<exists>k < n. (\<forall>j < k. leaders_of_round ctx qs prev j s \<subseteq> set (np_round_leaders s)) \<and>
        \<not> leaders_of_round ctx qs prev k s \<subseteq> set (np_round_leaders s) \<and>
        leader_loop ctx qs prev max_leaders n s = Inr ((later_round k s)\<lparr>np_round_leaders :=
          sorted_list_of_set (set (np_round_leaders s) \<union> leaders_of_round ctx qs prev k s)\<rparr>)) \<or>
    (\<forall>j < n. leaders_of_round ctx qs prev j s \<subseteq> set (np_round_leaders s)) \<and>
      leader_loop ctx qs prev max_leaders n s = Inl LeaderLoopStuck"
  using assms
proof (induction n arbitrary: s)
  case (Suc n)
  let ?L = "set (np_round_leaders s)"
  let ?N = "leaders_of_round ctx qs prev 0 s"
  have dist: "distinct (np_round_leaders s)" using Suc.prems(1) by (simp add: strict_sorted_iff)
  have len: "length (sorted_list_of_set (?L \<union> ?N)) = length (np_round_leaders s) \<longleftrightarrow> ?N \<subseteq> ?L"
    using dist card_seteq [of "?L \<union> ?N" ?L] by (auto simp: distinct_card Un_absorb2)
  show ?case
  proof (cases "?N \<subseteq> ?L")
    case False
    then have "leader_loop ctx qs prev max_leaders (Suc n) s =
        Inr ((later_round 0 s)\<lparr>np_round_leaders := sorted_list_of_set (?L \<union> ?N)\<rparr>)"
      using Suc.prems(2) len by (simp add: Let_def leaders_of_round_0 later_round_def)
    with False show ?thesis by (intro disjI1 exI [of _ 0]) simp
  next
    case True
    let ?s' = "s\<lparr>np_round := u32_saturating_add (np_round s) 1\<rparr>"
    have "sorted_list_of_set (?L \<union> ?N) = np_round_leaders s"
      using True Suc.prems(1) by (simp add: Un_absorb2 strict_sorted_equal_Uniq sorted_list_of_set.idem_if_sorted_distinct strict_sorted_iff)
    then have step: "leader_loop ctx qs prev max_leaders (Suc n) s = leader_loop ctx qs prev max_leaders n ?s'"
      using Suc.prems(2) by (simp add: Let_def leaders_of_round_0)
    have later: "(later_round k ?s')\<lparr>np_round_leaders := ls\<rparr> = (later_round (Suc k) s)\<lparr>np_round_leaders := ls\<rparr>" for k ls
      by (simp add: later_round_def funpow_Suc_right del: funpow.simps(2))
    from Suc.IH [of ?s'] Suc.prems have "(\<exists>k < n. (\<forall>j < k. leaders_of_round ctx qs prev (Suc j) s \<subseteq> ?L) \<and>
        \<not> leaders_of_round ctx qs prev (Suc k) s \<subseteq> ?L \<and>
        leader_loop ctx qs prev max_leaders n ?s' = Inr ((later_round (Suc k) s)\<lparr>np_round_leaders :=
          sorted_list_of_set (?L \<union> leaders_of_round ctx qs prev (Suc k) s)\<rparr>)) \<or>
      (\<forall>j < n. leaders_of_round ctx qs prev (Suc j) s \<subseteq> ?L) \<and>
        leader_loop ctx qs prev max_leaders n ?s' = Inl LeaderLoopStuck"
      by (simp add: leaders_of_round_Suc later)
    then show ?thesis
    proof (elim disjE exE conjE)
      fix k assume k: "k < n" "\<forall>j < k. leaders_of_round ctx qs prev (Suc j) s \<subseteq> ?L"
        "\<not> leaders_of_round ctx qs prev (Suc k) s \<subseteq> ?L"
        "leader_loop ctx qs prev max_leaders n ?s' = Inr ((later_round (Suc k) s)\<lparr>np_round_leaders :=
          sorted_list_of_set (?L \<union> leaders_of_round ctx qs prev (Suc k) s)\<rparr>)"
      have "\<forall>j < Suc k. leaders_of_round ctx qs prev j s \<subseteq> ?L"
        using True k(2) by (simp add: All_less_Suc2)
      with k step show ?thesis by (intro disjI1 exI [of _ "Suc k"]) simp
    next
      assume k: "\<forall>j < n. leaders_of_round ctx qs prev (Suc j) s \<subseteq> ?L"
        "leader_loop ctx qs prev max_leaders n ?s' = Inl LeaderLoopStuck"
      then have "\<forall>j < Suc n. leaders_of_round ctx qs prev j s \<subseteq> ?L"
        using True by (simp add: All_less_Suc2)
      with k(2) step show ?thesis by simp
    qed
  qed
qed simp

text \<open>
  C21. Electing leaders adds exactly the nodes of greatest positive priority of the first round, from
  the current one, that adds anyone; the round advances to it and no leader is lost. It panics exactly
  when a thousand rounds in a row would add no one. With all possible leaders elected, nothing changes.
\<close>

theorem update_round_leaders_result:
  fixes ctx prev s
  defines "qs \<equiv> normalize_quorum_set_with_remove (local_quorum_set ctx) (Some (local_node_id ctx))"
  defines "elected \<equiv> \<lambda>k. leaders_of_round ctx qs prev k s"
  assumes "sorted_wrt (<) (np_round_leaders s)"
  shows "if max_leader_count ctx qs \<le> length (np_round_leaders s)
    then update_round_leaders ctx prev s = Inr s
    else (\<exists>k < 1000. (\<forall>j < k. elected j \<subseteq> set (np_round_leaders s)) \<and> \<not> elected k \<subseteq> set (np_round_leaders s) \<and>
        update_round_leaders ctx prev s = Inr ((later_round k s)\<lparr>np_round_leaders :=
          sorted_list_of_set (set (np_round_leaders s) \<union> elected k)\<rparr>)) \<or>
      (\<forall>j < 1000. elected j \<subseteq> set (np_round_leaders s)) \<and>
        update_round_leaders ctx prev s = Inl LeaderLoopStuck"
proof (cases "max_leader_count ctx qs \<le> length (np_round_leaders s)")
  case True
  then have "leader_loop ctx qs prev (max_leader_count ctx qs) (Suc n) s = Inr s" for n by simp
  from this [of 999] True show ?thesis
    by (simp add: update_round_leaders_def qs_def [symmetric] leader_iterations_def)
next
  case False
  with leader_loop_result [OF assms(3), of "max_leader_count ctx qs" 1000 ctx qs prev] show ?thesis
    unfolding update_round_leaders_def Let_def qs_def [symmetric] leader_iterations_def elected_def
    by (simp add: not_le)
qed

theorem update_round_leaders_result_witness:
  "\<exists>k < 1000. update_round_leaders solo_context [9] new_nomination_protocol =
     Inr ((later_round k new_nomination_protocol)\<lparr>np_round_leaders := [[1]]\<rparr>)"
proof -
  let ?qs = "normalize_quorum_set_with_remove (local_quorum_set solo_context) (Some (local_node_id solo_context))"
  have "\<not> max_leader_count solo_context ?qs \<le> length (np_round_leaders new_nomination_protocol)" by code_simp
  moreover have "sorted_wrt (<) (np_round_leaders new_nomination_protocol)"
    by (simp add: new_nomination_protocol_def)
  moreover have "leaders_of_round solo_context ?qs [9] k new_nomination_protocol = {[1]}" for k
  proof -
    have "electors solo_context ?qs = {[1]}" by code_simp
    then show ?thesis
      by (simp add: leaders_of_round_def top_nodes_def get_node_priority_def solo_context_def solo_driver_def)
  qed
  ultimately show ?thesis
    using update_round_leaders_result [of new_nomination_protocol solo_context "[9]"]
    by (auto simp: new_nomination_protocol_def dest: spec [of _ 0])
qed

section \<open>Weights\<close>

lemma unat_u64_of_nat: "n < 2 ^ 64 \<Longrightarrow> unat (word_of_nat n :: u64) = n"
  by (simp add: unsigned_of_nat take_bit_nat_eq_self)

lemma u64_max_max: "(w :: u64) \<le> u64_max"
  using unsigned_less [of w, where ?'a = nat] by (simp add: u64_max_def word_le_nat_alt)

text \<open>The weight is the exact fraction, rounded up, as long as the threshold is at most the total.\<close>

lemma ceiling_div:
  fixes a b :: nat
  assumes "0 < b"
  shows "a \<le> (a + b - 1) div b * b" "(a + b - 1) div b * b < a + b"
  using assms mod_less_divisor [OF assms, of "a + b - 1"] div_mult_mod_eq [of "a + b - 1" b] by linarith+

lemma compute_weight_exact:
  assumes "0 < thr" "thr \<le> entries"
  shows "unat m * unat thr \<le> unat (compute_weight m entries thr) * unat entries"
    "unat (compute_weight m entries thr) * unat entries < unat m * unat thr + unat entries"
    "compute_weight m entries thr \<le> m"
proof -
  let ?a = "unat m * unat thr" and ?b = "unat entries"
  have b: "0 < ?b" "unat thr \<le> ?b" "entries \<noteq> 0" "thr \<noteq> 0"
    using assms by (auto simp: word_less_nat_alt word_le_nat_alt unat_eq_zero)
  have "(?a + ?b - 1) div ?b * ?b < ?a + ?b" by (rule ceiling_div(2) [OF b(1)])
  also have "\<dots> \<le> (unat m + 1) * ?b" using b(2) by (simp add: algebra_simps)
  finally have "(?a + ?b - 1) div ?b < unat m + 1" using mult_less_cancel2 by blast
  then have le: "(?a + ?b - 1) div ?b \<le> unat m" by simp
  then have "unat (word_of_nat ((?a + ?b - 1) div ?b) :: u64) = (?a + ?b - 1) div ?b"
    using unsigned_less [of m, where ?'a = nat] by (intro unat_u64_of_nat) simp
  then have w: "unat (compute_weight m entries thr) = (?a + ?b - 1) div ?b"
    using b by (simp add: compute_weight_def Let_def)
  show "?a \<le> unat (compute_weight m entries thr) * ?b" "unat (compute_weight m entries thr) * ?b < ?a + ?b"
    unfolding w by (rule ceiling_div [OF b(1)])+
  show "compute_weight m entries thr \<le> m" using le w by (simp add: word_le_nat_alt)
qed

lemma compute_weight_positive: "0 < thr \<Longrightarrow> thr \<le> entries \<Longrightarrow> 0 < compute_weight m entries thr \<longleftrightarrow> 0 < m"
  using compute_weight_exact(1,3) [of thr entries m]
  by (metis mult_eq_0_iff unat_eq_zero word_gt_0 word_le_0_iff le_zero_eq)

text \<open>A quorum set whose thresholds are in range has at least as many nodes as entries.\<close>

lemma entries_le_nodes:
  "thresholds_ok q \<Longrightarrow> length (validators q) + length (inner_sets q) \<le> length (collect_nodes q)"
proof (induction q)
  case (ScpQuorumSet th vs inner)
  have "1 \<le> length (collect_nodes i)" if "i \<in> set inner" for i
  proof -
    have ok: "thresholds_ok i" using ScpQuorumSet.prems that by (simp add: list_all_iff)
    then have "1 \<le> length (validators i) + length (inner_sets i)" by (cases i) simp
    with ScpQuorumSet.IH [OF that ok] show ?thesis by simp
  qed
  then have "length inner \<le> length (concat (map collect_nodes inner))" by (induction inner) force+
  then show ?case by simp
qed

lemma threshold_word_range:
  assumes "thresholds_ok (ScpQuorumSet th vs inner)" "length (collect_nodes (ScpQuorumSet th vs inner)) \<le> 1000"
  shows "0 < (ucast th :: u64)" "(ucast th :: u64) \<le> word_of_nat (length vs + length inner)"
    "unat (word_of_nat (length vs + length inner) :: u64) = length vs + length inner"
    "unat (ucast th :: u64) = unat th"
proof -
  have n: "length vs + length inner \<le> 1000" using entries_le_nodes [OF assms(1)] assms(2) by simp
  then show un: "unat (word_of_nat (length vs + length inner) :: u64) = length vs + length inner"
    by (intro unat_u64_of_nat) simp
  show ut: "unat (ucast th :: u64) = unat th"
    using unat_u32_bound [of th] by (simp add: unsigned_ucast_eq take_bit_nat_eq_self)
  show "0 < (ucast th :: u64)" "(ucast th :: u64) \<le> word_of_nat (length vs + length inner)"
    using assms(1) un ut by (simp_all add: word_less_nat_alt word_le_nat_alt)
qed

lemma inner_weight_positive:
  assumes "\<And>m. 0 < compute_weight m e t \<longleftrightarrow> 0 < m"
    and "\<And>q. q \<in> set qs \<Longrightarrow> 0 < base_get_node_weight n q False \<longleftrightarrow> n \<in> set (collect_nodes q)"
  shows "0 < inner_weight n qs False e t \<longleftrightarrow> (\<exists>q \<in> set qs. n \<in> set (collect_nodes q))"
  using assms(2) by (induction qs) (auto simp: Let_def assms(1))

lemma length_concat_member: "xs \<in> set xss \<Longrightarrow> length xs \<le> length (concat xss)"
  by (induction xss) auto

lemma sane_node_count: "is_quorum_set_sane q extra = Inr () \<Longrightarrow> length (collect_nodes q) \<le> 1000"
  by (auto simp: is_quorum_set_sane_def check_sanity_iff MAXIMUM_QUORUM_NODES_def usize_saturating_add_def
      usize_max_def min_def split: sum.splits if_splits)

lemma node_weight_positive:
  "thresholds_ok q \<Longrightarrow> length (collect_nodes q) \<le> 1000 \<Longrightarrow>
     0 < base_get_node_weight n q False \<longleftrightarrow> n \<in> set (collect_nodes q)"
proof (induction q)
  case (ScpQuorumSet th vs inner)
  note range = threshold_word_range [OF ScpQuorumSet.prems]
  let ?t = "ucast th :: u64" and ?e = "word_of_nat (length vs + length inner) :: u64"
  have weigh: "0 < compute_weight m ?e ?t \<longleftrightarrow> 0 < m" for m
    by (rule compute_weight_positive [OF range(1,2)])
  have "0 < base_get_node_weight n i False \<longleftrightarrow> n \<in> set (collect_nodes i)" if "i \<in> set inner" for i
  proof (rule ScpQuorumSet.IH [OF that])
    show "thresholds_ok i" using ScpQuorumSet.prems(1) that by (simp add: list_all_iff)
    have "length (collect_nodes i) \<le> length (concat (map collect_nodes inner))"
      using that by (intro length_concat_member) simp
    then show "length (collect_nodes i) \<le> 1000" using ScpQuorumSet.prems(2) by simp
  qed
  with weigh have "0 < inner_weight n inner False ?e ?t \<longleftrightarrow> (\<exists>i \<in> set inner. n \<in> set (collect_nodes i))"
    by (rule inner_weight_positive)
  moreover have "0 < u64_max" by (simp add: u64_max_def)
  ultimately show ?case
    using range(1,2) weigh [of u64_max] by (auto simp: Let_def simp del: of_nat_add)
qed

text \<open>
  C22. With a sane quorum set exactly its nodes can be elected: their weight is positive. The weight of
  a validator of the top level is the threshold's fraction of the 64-bit range, rounded up, without overflow.
\<close>

theorem node_weight_fraction:
  assumes "is_quorum_set_sane q extra = Inr ()"
  shows "(0 < base_get_node_weight n q False \<longleftrightarrow> n \<in> get_all_nodes q) \<and>
    (n \<in> set (validators q) \<longrightarrow>
      (let w = unat (base_get_node_weight n q False); entries = length (validators q) + length (inner_sets q);
           share = (2 ^ 64 - 1) * unat (threshold q)
       in share \<le> w * entries \<and> w * entries < share + entries))"
proof -
  have ok: "thresholds_ok q" "length (collect_nodes q) \<le> 1000"
    using assms by (rule sane_thresholds_ok, rule sane_node_count)
  obtain th vs inner where q: "q = ScpQuorumSet th vs inner" by (cases q)
  note range = threshold_word_range [OF ok [unfolded q]]
  have "unat u64_max = 2 ^ 64 - 1" by (simp add: u64_max_def)
  with compute_weight_exact [OF range(1,2), of u64_max] range node_weight_positive [OF ok] show ?thesis
    by (auto simp: q get_all_nodes_def Let_def simp del: of_nat_add)
qed

theorem node_weight_fraction_witness:
  "0 < base_get_node_weight [2] (ScpQuorumSet 2 [[1], [2], [3]] []) False"
proof -
  have "is_quorum_set_sane (ScpQuorumSet 2 [[1], [2], [3]] []) False = Inr ()" by code_simp
  from node_weight_fraction [OF this, of "[2]"] show ?thesis by (simp add: get_all_nodes_def)
qed

end
