(* ===== verification/Slot.thy ===== *)
theory Slot
  imports Nomination
begin

text \<open>
  A slot (\<open>crates/scp/src/slot.rs\<close>): the nomination and the ballot protocol of one slot, the routing
  of envelopes and timeouts to them, the hand-over from nomination to the ballot protocol, and the
  slot's own record of externalisation, validation and v-blocking.

  The prefix \<open>sl_\<close> marks the fields of \<open>Slot\<close>. The driver calls of the two protocols are appended to
  the slot's log in the order in which they are made.
\<close>

section \<open>State\<close>

record slot =
  sl_slot_index :: u64
  sl_local_node_id :: node_id
  sl_local_quorum_set :: scp_quorum_set
  sl_is_validator :: bool
  sl_nomination :: nomination_protocol
  sl_ballot :: ballot_protocol
  sl_envelopes :: "(node_id \<times> scp_envelope list) list"
  sl_externalized_value :: "scp_value option"
  sl_nomination_started :: bool
  sl_fully_validated :: bool
  sl_got_v_blocking :: bool
  sl_events :: "driver_event list"

definition new_slot :: "u64 \<Rightarrow> node_id \<Rightarrow> scp_quorum_set \<Rightarrow> bool \<Rightarrow> slot" where
  "new_slot idx local qs is_validator =
     \<lparr>sl_slot_index = idx, sl_local_node_id = local, sl_local_quorum_set = qs, sl_is_validator = is_validator,
      sl_nomination = Nomination.set_fully_validated is_validator new_nomination_protocol,
      sl_ballot = Ballot.set_fully_validated is_validator new_ballot_protocol,
      sl_envelopes = [], sl_externalized_value = None, sl_nomination_started = False,
      sl_fully_validated = is_validator, sl_got_v_blocking = False, sl_events = []\<rparr>"

datatype slot_fault =
  BallotFault fault
| NominationFault nomination_fault
| RestoreFault restore_error   \<comment> \<open>\<open>expect("Cannot set state after starting ballot protocol")\<close>\<close>

text \<open>The macro \<open>slot_ctx!\<close>.\<close>

definition slot_ctx :: "scp_driver \<Rightarrow> slot \<Rightarrow> slot_context" where
  "slot_ctx d s = \<lparr>local_node_id = sl_local_node_id s, local_quorum_set = sl_local_quorum_set s,
                   driver = d, slot_index = sl_slot_index s\<rparr>"

definition slot_notify :: "driver_event \<Rightarrow> slot \<Rightarrow> slot" where
  "slot_notify e s = s\<lparr>sl_events := sl_events s @ [e]\<rparr>"

text \<open>A protocol after a call, with the driver calls it made.\<close>

definition put_nomination :: "nomination_protocol \<Rightarrow> slot \<Rightarrow> slot" where
  "put_nomination n s =
     s\<lparr>sl_nomination := n,
       sl_events := sl_events s @ drop (length (np_events (sl_nomination s))) (np_events n)\<rparr>"

definition put_ballot :: "ballot_protocol \<Rightarrow> slot \<Rightarrow> slot" where
  "put_ballot b s =
     s\<lparr>sl_ballot := b, sl_events := sl_events s @ drop (length (events (sl_ballot s))) (events b)\<rparr>"

definition lift_ballot :: "fault + (bool \<times> ballot_protocol) \<Rightarrow> slot \<Rightarrow> slot_fault + (bool \<times> slot)" where
  "lift_ballot r s = (case r of Inl e \<Rightarrow> Inl (BallotFault e) | Inr (w, b) \<Rightarrow> Inr (w, put_ballot b s))"

section \<open>Accessors\<close>

definition is_externalized :: "slot \<Rightarrow> bool" where
  "is_externalized s \<longleftrightarrow> sl_externalized_value s \<noteq> None"

definition has_active_ballot :: "slot \<Rightarrow> bool" where
  "has_active_ballot s \<longleftrightarrow> current_ballot (sl_ballot s) \<noteq> None"

definition is_nominating :: "slot \<Rightarrow> bool" where
  "is_nominating s \<longleftrightarrow> sl_nomination_started s \<and> \<not> np_stopped (sl_nomination s)"

definition get_statement_count :: "slot \<Rightarrow> nat" where
  "get_statement_count s = sum_list (map (\<lambda>(n, envs). length envs) (sl_envelopes s))"

definition get_latest_envelope :: "node_id \<Rightarrow> slot \<Rightarrow> scp_envelope option" where
  "get_latest_envelope n s =
     (case map_of (latest_envelopes (sl_ballot s)) n of
        Some env \<Rightarrow> Some env
      | None \<Rightarrow> map_of (np_latest_nominations (sl_nomination s)) n)"

definition get_latest_messages_send :: "slot \<Rightarrow> scp_envelope list" where
  "get_latest_messages_send s =
     (if \<not> sl_fully_validated s then []
      else (case np_last_envelope (sl_nomination s) of Some env \<Rightarrow> [env] | None \<Rightarrow> [])
           @ (case last_envelope (sl_ballot s) of Some env \<Rightarrow> [env] | None \<Rightarrow> []))"

definition get_externalizing_state :: "slot \<Rightarrow> scp_envelope list" where
  "get_externalizing_state s =
     Ballot.get_externalizing_state (sl_local_node_id s) (sl_fully_validated s) (sl_ballot s)"

definition get_node_state :: "node_id \<Rightarrow> slot \<Rightarrow> quorum_info_node_state" where
  "get_node_state n s =
     (let ballot_state = Ballot.get_node_state n (sl_ballot s) in
      if ballot_state \<noteq> Missing then ballot_state else Nomination.get_node_state n (sl_nomination s))"

definition get_reporting_state :: "node_id \<Rightarrow> node_id \<Rightarrow> bool \<Rightarrow> slot \<Rightarrow> reporting_node_state" where
  "get_reporting_state n local moved_on s =
     (let b = Ballot.get_reporting_state n local moved_on (sl_ballot s) in
      if b \<noteq> RNoInfo then b else Nomination.get_reporting_state n local moved_on (sl_nomination s))"

text \<open>A map over the set of the nodes, in the order of \<open>collect_nodes\<close>.\<close>

definition get_all_node_states :: "slot \<Rightarrow> (node_id \<times> quorum_info_node_state) list" where
  "get_all_node_states s = map (\<lambda>n. (n, get_node_state n s)) (remdups (collect_nodes (sl_local_quorum_set s)))"

text \<open>
  \<open>process_envelopes_current_state\<close> of \<open>lib.rs\<close>: the callback with the state it mutates, over the
  envelopes sorted by node, until it answers \<open>false\<close>.
\<close>

fun visit_envelopes ::
  "(scp_envelope \<Rightarrow> 'a \<Rightarrow> bool \<times> 'a) \<Rightarrow> node_id \<Rightarrow> bool \<Rightarrow> bool \<Rightarrow> (node_id \<times> scp_envelope) list \<Rightarrow> 'a
    \<Rightarrow> bool \<times> 'a" where
  "visit_envelopes f local fv force_self [] a = (True, a)"
| "visit_envelopes f local fv force_self ((n, env) # es) a =
     (if \<not> force_self \<and> n = local \<and> \<not> fv then visit_envelopes f local fv force_self es a
      else case f env a of
        (True, a') \<Rightarrow> visit_envelopes f local fv force_self es a'
      | (False, a') \<Rightarrow> (False, a'))"

definition process_envelopes_current_state ::
  "(node_id \<times> scp_envelope) list \<Rightarrow> (scp_envelope \<Rightarrow> 'a \<Rightarrow> bool \<times> 'a) \<Rightarrow> node_id \<Rightarrow> bool \<Rightarrow> bool \<Rightarrow> 'a
    \<Rightarrow> bool \<times> 'a" where
  "process_envelopes_current_state envs f local fv force_self a =
     visit_envelopes f local fv force_self (sort_key fst envs) a"

definition process_current_state ::
  "slot \<Rightarrow> (scp_envelope \<Rightarrow> 'a \<Rightarrow> bool \<times> 'a) \<Rightarrow> bool \<Rightarrow> 'a \<Rightarrow> bool \<times> 'a" where
  "process_current_state s f force_self a =
     (case process_envelopes_current_state (np_latest_nominations (sl_nomination s)) f
             (sl_local_node_id s) (sl_fully_validated s) force_self a of
        (True, a') \<Rightarrow> process_envelopes_current_state (latest_envelopes (sl_ballot s)) f
                        (sl_local_node_id s) (sl_fully_validated s) force_self a'
      | (False, a') \<Rightarrow> (False, a'))"

section \<open>Bookkeeping\<close>

definition set_fully_validated :: "bool \<Rightarrow> slot \<Rightarrow> slot" where
  "set_fully_validated b s =
     s\<lparr>sl_fully_validated := b,
       sl_nomination := Nomination.set_fully_validated b (sl_nomination s),
       sl_ballot := Ballot.set_fully_validated b (sl_ballot s)\<rparr>"

definition propagate_ballot_clear_slot_validation :: "slot \<Rightarrow> slot" where
  "propagate_ballot_clear_slot_validation s =
     (let (clear, b) = take_needs_clear_slot_validation (sl_ballot s); s1 = s\<lparr>sl_ballot := b\<rparr> in
      if clear \<and> sl_externalized_value s1 = None
      then s1\<lparr>sl_fully_validated := False,
              sl_nomination := Nomination.set_fully_validated False (sl_nomination s1)\<rparr>
      else s1)"

definition has_latest_message_from :: "node_id \<Rightarrow> slot \<Rightarrow> bool" where
  "has_latest_message_from n s \<longleftrightarrow>
     map_of (latest_envelopes (sl_ballot s)) n \<noteq> None \<or>
     map_of (np_latest_nominations (sl_nomination s)) n \<noteq> None"

definition sync_externalized_value_from_ballot :: "slot \<Rightarrow> slot" where
  "sync_externalized_value_from_ballot s =
     (if \<not> Ballot.is_externalized (sl_ballot s) then s
      else case get_externalized_value (sl_ballot s) of
        Some v \<Rightarrow> s\<lparr>sl_externalized_value := Some v\<rparr>
      | None \<Rightarrow> s)"

definition maybe_record_externalization :: "slot \<Rightarrow> slot" where
  "maybe_record_externalization s =
     (if \<not> Ballot.is_externalized (sl_ballot s) \<or> sl_externalized_value s \<noteq> None then s
      else if get_externalized_value (sl_ballot s) \<noteq> None
      then slot_notify (StopTimer (sl_slot_index s) BallotTimer)
             (slot_notify (StopTimer (sl_slot_index s) NominationTimer)
               (sync_externalized_value_from_ballot s))
      else s)"

definition heard_nodes :: "slot \<Rightarrow> node_id set" where
  "heard_nodes s = Set.filter (\<lambda>n. has_latest_message_from n s) (get_all_nodes (sl_local_quorum_set s))"

definition maybe_set_got_v_blocking :: "slot \<Rightarrow> slot" where
  "maybe_set_got_v_blocking s =
     (if sl_got_v_blocking s then s
      else s\<lparr>sl_got_v_blocking := is_v_blocking (sl_local_quorum_set s) (heard_nodes s)\<rparr>)"

definition run_post_emit_bookkeeping :: "slot \<Rightarrow> slot" where
  "run_post_emit_bookkeeping s =
     (let s1 = propagate_ballot_clear_slot_validation s;
          (stop_nom, b) = take_needs_stop_nomination (sl_ballot s1);
          s2 = s1\<lparr>sl_ballot := b\<rparr>;
          s3 = (if stop_nom
                then slot_notify (StopTimer (sl_slot_index s2) NominationTimer)
                       (s2\<lparr>sl_nomination := stop (sl_nomination s2)\<rparr>)
                else s2)
      in maybe_set_got_v_blocking (maybe_record_externalization s3))"

section \<open>Operations\<close>

definition restore_fully_validated :: "slot \<Rightarrow> slot" where
  "restore_fully_validated s =
     (if sl_fully_validated s then s
      else
        let s1 = set_fully_validated True s;
            s2 = put_ballot (send_latest_envelope (sl_ballot s1)) s1
        in put_nomination (emit_deferred (sl_nomination s2)) s2)"

definition stop_nomination :: "slot \<Rightarrow> slot" where
  "stop_nomination s =
     slot_notify (StopTimer (sl_slot_index s) NominationTimer) (s\<lparr>sl_nomination := stop (sl_nomination s)\<rparr>)"

definition sync_composite_candidate :: "slot \<Rightarrow> slot" where
  "sync_composite_candidate s =
     s\<lparr>sl_ballot := set_composite_candidate (np_latest_composite (sl_nomination s)) (sl_ballot s)\<rparr>"

definition process_nomination_envelope ::
  "scp_driver \<Rightarrow> scp_envelope \<Rightarrow> slot \<Rightarrow> slot_fault + (envelope_state \<times> slot)" where
  "process_nomination_envelope d env s =
     (case Nomination.process_envelope (slot_ctx d s) env (sl_nomination s) of
        Inl e \<Rightarrow> Inl (NominationFault e)
      | Inr (st, n) \<Rightarrow> Inr (st, put_nomination n s))"

definition process_ballot_envelope ::
  "scp_driver \<Rightarrow> scp_envelope \<Rightarrow> slot \<Rightarrow> slot_fault + (envelope_state \<times> slot)" where
  "process_ballot_envelope d env s =
     (let ctx = slot_ctx d s; st = env_statement env in
      if \<not> is_statement_sane ctx st then Inr (EnvInvalid, s)
      else if is_stale_ballot_statement st (sl_ballot s) then Inr (EnvInvalid, s)
      else
        let validation = validate_statement_values ctx st in
        if validation = Invalid then Inr (EnvInvalid, s)
        else
          let s1 = sync_composite_candidate s in
          case Ballot_Machine.process_envelope ctx env validation (sl_ballot s1) of
            Inl e \<Rightarrow> Inl (BallotFault e)
          | Inr (result, b) \<Rightarrow>
              let s2 = put_ballot b s1 in
              Inr (result,
                   if result \<noteq> EnvInvalid \<and> clears_fully_validated validation \<and> sl_externalized_value s2 = None
                   then set_fully_validated False s2 else s2))"

definition check_nomination_to_ballot :: "scp_driver \<Rightarrow> slot \<Rightarrow> slot_fault + slot" where
  "check_nomination_to_ballot d s =
     (if current_ballot (sl_ballot s) \<noteq> None then Inr s
      else case np_latest_composite (sl_nomination s) of
        None \<Rightarrow> Inr s
      | Some composite \<Rightarrow>
          let s1 = slot_notify (StopTimer (sl_slot_index s) NominationTimer) s in
          bindE (lift_ballot (bump (slot_ctx d s1) composite False (sl_ballot s1)) s1) (\<lambda>(_, s2). Inr s2))"

definition push_envelope :: "scp_envelope \<Rightarrow> slot \<Rightarrow> slot" where
  "push_envelope env s =
     (let n = st_node_id (env_statement env);
          old = (case map_of (sl_envelopes s) n of Some envs \<Rightarrow> envs | None \<Rightarrow> [])
      in s\<lparr>sl_envelopes := AList.update n (old @ [env]) (sl_envelopes s)\<rparr>)"

definition process_envelope ::
  "scp_driver \<Rightarrow> scp_envelope \<Rightarrow> slot \<Rightarrow> slot_fault + (envelope_state \<times> slot)" where
  "process_envelope d env s =
     bindE (if is_nomination (st_pledges (env_statement env))
            then process_nomination_envelope d env s else process_ballot_envelope d env s)
       (\<lambda>(result, s1).
          let s2 = (if result \<noteq> EnvInvalid then push_envelope env s1 else s1) in
          bindE (check_nomination_to_ballot d s2)
            (\<lambda>s3. Inr (result, run_post_emit_bookkeeping s3)))"

definition arm_nomination_timer :: "scp_driver \<Rightarrow> slot \<Rightarrow> slot" where
  "arm_nomination_timer d s =
     (let nom = sl_nomination s in
      if np_started nom \<and> \<not> np_stopped nom \<and> np_candidates nom = []
      then slot_notify (SetupTimer (sl_slot_index s) NominationTimer (drv_compute_timeout d (np_round nom) True)) s
      else s)"

definition nominate ::
  "scp_driver \<Rightarrow> scp_value \<Rightarrow> scp_value \<Rightarrow> bool \<Rightarrow> slot \<Rightarrow> slot_fault + (bool \<times> slot)" where
  "nominate d v prev timedout s =
     (if \<not> sl_is_validator s then Inr (False, s)
      else if is_externalized s then Inr (False, s)
      else
        let s1 = s\<lparr>sl_nomination_started := True\<rparr> in
        case Nomination.nominate (slot_ctx d s1) v prev timedout (sl_nomination s1) of
          Inl e \<Rightarrow> Inl (NominationFault e)
        | Inr (result, n) \<Rightarrow>
            bindE (check_nomination_to_ballot d (put_nomination n s1))
              (\<lambda>s2. Inr (result, arm_nomination_timer d (run_post_emit_bookkeeping s2))))"

text \<open>The operations that hand a request to the ballot protocol and run the bookkeeping.\<close>

definition after_ballot :: "fault + (bool \<times> ballot_protocol) \<Rightarrow> slot \<Rightarrow> slot_fault + (bool \<times> slot)" where
  "after_ballot r s = bindE (lift_ballot r s) (\<lambda>(w, s1). Inr (w, run_post_emit_bookkeeping s1))"

definition bump_ballot_on_timeout :: "scp_driver \<Rightarrow> slot \<Rightarrow> slot_fault + (bool \<times> slot)" where
  "bump_ballot_on_timeout d s =
     (if \<not> sl_is_validator s then Inr (False, s)
      else
        let s1 = slot_notify (TimerExpiredNotice (sl_slot_index s) BallotTimer) s in
        after_ballot (bump_timeout (slot_ctx d s1) (np_latest_composite (sl_nomination s1)) (sl_ballot s1)) s1)"

definition abandon_ballot :: "scp_driver \<Rightarrow> u32 \<Rightarrow> slot \<Rightarrow> slot_fault + (bool \<times> slot)" where
  "abandon_ballot d n s =
     (let s1 = sync_composite_candidate s; ctx = slot_ctx d s1
      in after_ballot (Ballot_Machine.abandon_ballot (emit_now ctx) ctx n (sl_ballot s1)) s1)"

definition bump_state :: "scp_driver \<Rightarrow> scp_value \<Rightarrow> u32 \<Rightarrow> slot \<Rightarrow> slot_fault + (bool \<times> slot)" where
  "bump_state d v n s =
     (let ctx = slot_ctx d s in after_ballot (Ballot_Machine.bump_state (emit_now ctx) ctx v n (sl_ballot s)) s)"

definition force_bump_state :: "scp_driver \<Rightarrow> scp_value \<Rightarrow> slot \<Rightarrow> slot_fault + (bool \<times> slot)" where
  "force_bump_state d v s = after_ballot (bump (slot_ctx d s) v True (sl_ballot s)) s"

definition force_externalize :: "scp_value \<Rightarrow> slot \<Rightarrow> slot" where
  "force_externalize v s =
     (let s1 = set_fully_validated True (s\<lparr>sl_externalized_value := Some v\<rparr>)
      in s1\<lparr>sl_nomination := stop (sl_nomination s1), sl_ballot := Ballot.force_externalize v (sl_ballot s1)\<rparr>)"

definition set_state_from_envelope ::
  "scp_driver \<Rightarrow> scp_envelope \<Rightarrow> slot \<Rightarrow> slot_fault + (bool \<times> slot)" where
  "set_state_from_envelope d env s =
     (let st = env_statement env in
      if st_node_id st \<noteq> sl_local_node_id s \<or> st_slot_index st \<noteq> sl_slot_index s then Inr (False, s)
      else
        let prev = has_latest_message_from (st_node_id st) s in
        bindE
          (if is_nomination (st_pledges st)
           then (case Nomination.set_state_from_envelope env (sl_nomination s) of
                   (result, n) \<Rightarrow> Inr (result, s\<lparr>sl_nomination := n\<rparr>))
           else (case Ballot_Machine.set_state_from_envelope (slot_ctx d s) env (sl_ballot s) of
                   Inl e \<Rightarrow> Inl (RestoreFault e)
                 | Inr b \<Rightarrow> Inr (True, sync_externalized_value_from_ballot (put_ballot b s))))
          (\<lambda>(result, s1). Inr (result, if result \<and> \<not> prev then maybe_set_got_v_blocking s1 else s1)))"

end
