(* ===== verification/Ballot_Steps.thy ===== *)
theory Ballot_Steps
  imports Ballot_Machine Freshness
begin

text \<open>
  The ballot protocol as a step relation. Every operation of \<open>Ballot_Machine\<close> is a sequence of the
  atomic steps of \<open>ballot_step\<close>: accepting and confirming a ballot as prepared or committed, moving
  the current ballot, recording a statement, announcing to the driver, and entering or leaving a
  nested \<open>advance_slot\<close>. What every atomic step keeps, every operation keeps.

  The operations are parametric in the emission they call. The interface \<open>emission\<close> states what an
  emission promises, the operations are decomposed under that promise, and \<open>emit_current_state\<close>
  keeps it at every recursion bound.
\<close>

section \<open>Events\<close>

fun externalized_value_of :: "driver_event \<Rightarrow> scp_value option" where
  "externalized_value_of (ValueExternalized _ v) = Some v"
| "externalized_value_of _ = None"

fun emitted_statement_of :: "driver_event \<Rightarrow> scp_statement option" where
  "emitted_statement_of (EmitEnvelope env) = Some (env_statement env)"
| "emitted_statement_of _ = None"

definition externalized_values :: "ballot_protocol \<Rightarrow> scp_value list" where
  "externalized_values s = List.map_filter externalized_value_of (events s)"

definition emitted_statements :: "ballot_protocol \<Rightarrow> scp_statement list" where
  "emitted_statements s = List.map_filter emitted_statement_of (events s)"

lemma map_filter_snoc [simp]:
  "List.map_filter f (xs @ [x]) = List.map_filter f xs @ (case f x of None \<Rightarrow> [] | Some y \<Rightarrow> [y])"
  by (induction xs) (auto simp: map_filter_simps split: option.splits)

lemma events_notify [simp]:
  "externalized_values (notify e s) = externalized_values s @ (case externalized_value_of e of None \<Rightarrow> [] | Some v \<Rightarrow> [v])"
  "emitted_statements (notify e s) = emitted_statements s @ (case emitted_statement_of e of None \<Rightarrow> [] | Some v \<Rightarrow> [v])"
  by (simp_all add: externalized_values_def emitted_statements_def notify_def)

text \<open>Both are functions of the field \<open>events\<close> alone.\<close>

lemma events_update [simp]:
  "externalized_values (s\<lparr>current_ballot := b\<rparr>) = externalized_values s"
  "externalized_values (s\<lparr>prepared := p\<rparr>) = externalized_values s"
  "externalized_values (s\<lparr>prepared_prime := p\<rparr>) = externalized_values s"
  "externalized_values (s\<lparr>high_ballot := p\<rparr>) = externalized_values s"
  "externalized_values (s\<lparr>commit := p\<rparr>) = externalized_values s"
  "externalized_values (s\<lparr>phase := ph\<rparr>) = externalized_values s"
  "externalized_values (s\<lparr>latest_envelopes := l\<rparr>) = externalized_values s"
  "externalized_values (s\<lparr>value_override := v\<rparr>) = externalized_values s"
  "externalized_values (s\<lparr>composite_candidate := v\<rparr>) = externalized_values s"
  "externalized_values (s\<lparr>heard_from_quorum := hq\<rparr>) = externalized_values s"
  "externalized_values (s\<lparr>current_message_level := n\<rparr>) = externalized_values s"
  "externalized_values (s\<lparr>last_envelope := le\<rparr>) = externalized_values s"
  "externalized_values (s\<lparr>last_envelope_emit := le\<rparr>) = externalized_values s"
  "externalized_values (s\<lparr>fully_validated := fv\<rparr>) = externalized_values s"
  "externalized_values (s\<lparr>needs_stop_nomination := fv\<rparr>) = externalized_values s"
  "externalized_values (s\<lparr>needs_clear_slot_validation := fv\<rparr>) = externalized_values s"
  "externalized_values (s\<lparr>timer_exp_count := n\<rparr>) = externalized_values s"
  "emitted_statements (s\<lparr>current_ballot := b\<rparr>) = emitted_statements s"
  "emitted_statements (s\<lparr>prepared := p\<rparr>) = emitted_statements s"
  "emitted_statements (s\<lparr>prepared_prime := p\<rparr>) = emitted_statements s"
  "emitted_statements (s\<lparr>high_ballot := p\<rparr>) = emitted_statements s"
  "emitted_statements (s\<lparr>commit := p\<rparr>) = emitted_statements s"
  "emitted_statements (s\<lparr>phase := ph\<rparr>) = emitted_statements s"
  "emitted_statements (s\<lparr>latest_envelopes := l\<rparr>) = emitted_statements s"
  "emitted_statements (s\<lparr>value_override := v\<rparr>) = emitted_statements s"
  "emitted_statements (s\<lparr>composite_candidate := v\<rparr>) = emitted_statements s"
  "emitted_statements (s\<lparr>heard_from_quorum := hq\<rparr>) = emitted_statements s"
  "emitted_statements (s\<lparr>current_message_level := n\<rparr>) = emitted_statements s"
  "emitted_statements (s\<lparr>last_envelope := le\<rparr>) = emitted_statements s"
  "emitted_statements (s\<lparr>last_envelope_emit := le\<rparr>) = emitted_statements s"
  "emitted_statements (s\<lparr>fully_validated := fv\<rparr>) = emitted_statements s"
  "emitted_statements (s\<lparr>needs_stop_nomination := fv\<rparr>) = emitted_statements s"
  "emitted_statements (s\<lparr>needs_clear_slot_validation := fv\<rparr>) = emitted_statements s"
  "emitted_statements (s\<lparr>timer_exp_count := n\<rparr>) = emitted_statements s"
  by (simp_all add: externalized_values_def emitted_statements_def)

lemma notify_fields [simp]:
  "current_ballot (notify e s) = current_ballot s"
  "prepared (notify e s) = prepared s"
  "prepared_prime (notify e s) = prepared_prime s"
  "high_ballot (notify e s) = high_ballot s"
  "commit (notify e s) = commit s"
  "phase (notify e s) = phase s"
  "latest_envelopes (notify e s) = latest_envelopes s"
  "value_override (notify e s) = value_override s"
  "composite_candidate (notify e s) = composite_candidate s"
  "heard_from_quorum (notify e s) = heard_from_quorum s"
  "current_message_level (notify e s) = current_message_level s"
  "last_envelope (notify e s) = last_envelope s"
  "last_envelope_emit (notify e s) = last_envelope_emit s"
  "fully_validated (notify e s) = fully_validated s"
  "timer_exp_count (notify e s) = timer_exp_count s"
  "needs_clear_slot_validation (notify e s) = needs_clear_slot_validation s"
  by (simp_all add: notify_def)

section \<open>Effects on the fields\<close>

text \<open>The part of the state that is not a ballot: envelopes, emission, recursion level, announcements, validation.\<close>

definition bookkeeping ::
  "ballot_protocol \<Rightarrow> (node_id \<times> scp_envelope) list \<times> scp_envelope option \<times> scp_envelope option \<times>
     bool \<times> u32 \<times> scp_value list \<times> scp_statement list \<times> bool" where
  "bookkeeping s =
     (latest_envelopes s, last_envelope s, last_envelope_emit s, fully_validated s,
      current_message_level s, externalized_values s, emitted_statements s, needs_clear_slot_validation s)"

lemma bookkeeping_update [simp]:
  "bookkeeping (s\<lparr>current_ballot := b\<rparr>) = bookkeeping s"
  "bookkeeping (s\<lparr>prepared := b\<rparr>) = bookkeeping s"
  "bookkeeping (s\<lparr>prepared_prime := b\<rparr>) = bookkeeping s"
  "bookkeeping (s\<lparr>high_ballot := b\<rparr>) = bookkeeping s"
  "bookkeeping (s\<lparr>commit := b\<rparr>) = bookkeeping s"
  "bookkeeping (s\<lparr>phase := ph\<rparr>) = bookkeeping s"
  "bookkeeping (s\<lparr>value_override := v\<rparr>) = bookkeeping s"
  "bookkeeping (s\<lparr>composite_candidate := v\<rparr>) = bookkeeping s"
  "bookkeeping (s\<lparr>heard_from_quorum := hq\<rparr>) = bookkeeping s"
  "bookkeeping (s\<lparr>needs_stop_nomination := q\<rparr>) = bookkeeping s"
  "bookkeeping (s\<lparr>timer_exp_count := n\<rparr>) = bookkeeping s"
  by (simp_all add: bookkeeping_def)

lemma bookkeeping_notify [simp]:
  "externalized_value_of e = None \<Longrightarrow> emitted_statement_of e = None \<Longrightarrow>
     bookkeeping (notify e s) = bookkeeping s"
  by (simp add: bookkeeping_def)

lemma bookkeepingD:
  assumes "bookkeeping t = bookkeeping s"
  shows "latest_envelopes t = latest_envelopes s" "last_envelope t = last_envelope s"
    "last_envelope_emit t = last_envelope_emit s" "fully_validated t = fully_validated s"
    "current_message_level t = current_message_level s"
    "externalized_values t = externalized_values s" "emitted_statements t = emitted_statements s"
    "needs_clear_slot_validation t = needs_clear_slot_validation s"
  using assms by (simp_all add: bookkeeping_def)

lemma check_heard_from_quorum_fields [simp]:
  "current_ballot (check_heard_from_quorum ctx s) = current_ballot s"
  "prepared (check_heard_from_quorum ctx s) = prepared s"
  "prepared_prime (check_heard_from_quorum ctx s) = prepared_prime s"
  "high_ballot (check_heard_from_quorum ctx s) = high_ballot s"
  "commit (check_heard_from_quorum ctx s) = commit s"
  "phase (check_heard_from_quorum ctx s) = phase s"
  "value_override (check_heard_from_quorum ctx s) = value_override s"
  "bookkeeping (check_heard_from_quorum ctx s) = bookkeeping s"
  by (simp_all add: check_heard_from_quorum_def Let_def split: option.splits)

lemmas check_heard_bookkeeping [simp] = bookkeepingD [OF check_heard_from_quorum_fields(8)]

lemma send_latest_envelope_fields [simp]:
  "current_ballot (send_latest_envelope s) = current_ballot s"
  "prepared (send_latest_envelope s) = prepared s"
  "prepared_prime (send_latest_envelope s) = prepared_prime s"
  "high_ballot (send_latest_envelope s) = high_ballot s"
  "commit (send_latest_envelope s) = commit s"
  "phase (send_latest_envelope s) = phase s"
  "value_override (send_latest_envelope s) = value_override s"
  "latest_envelopes (send_latest_envelope s) = latest_envelopes s"
  "current_message_level (send_latest_envelope s) = current_message_level s"
  "last_envelope (send_latest_envelope s) = last_envelope s"
  "fully_validated (send_latest_envelope s) = fully_validated s"
  "externalized_values (send_latest_envelope s) = externalized_values s"
  "needs_clear_slot_validation (send_latest_envelope s) = needs_clear_slot_validation s"
  by (simp_all add: send_latest_envelope_def split: option.splits)

lemma bump_to_ballot_fields:
  assumes "bump_to_ballot ctx b check s = (w, s')"
  shows "prepared s' = prepared s" "prepared_prime s' = prepared_prime s" "phase s' = phase s"
    "value_override s' = value_override s" "bookkeeping s' = bookkeeping s"
  using assms by (auto simp: bump_to_ballot_def Let_def split: if_splits option.splits)

lemma set_prepared_fields:
  assumes "set_prepared ctx b s = (w, s')"
  shows "current_ballot s' = current_ballot s" "high_ballot s' = high_ballot s" "commit s' = commit s"
    "phase s' = phase s" "value_override s' = value_override s" "bookkeeping s' = bookkeeping s"
  using assms by (auto simp: set_prepared_def Let_def split: if_splits option.splits ordering.splits)

lemma bump_to_ballot_check:
  assumes "bump_to_ballot ctx b True s = (w, s')"
  shows "if w then (case current_ballot s of Some cur \<Rightarrow> cur < b | None \<Rightarrow> True) \<and> current_ballot s' = Some b
         else s' = s"
  using assms by (auto simp: bump_to_ballot_def Let_def not_le split: if_splits option.splits)

section \<open>The step relation\<close>

text \<open>
  The state that an operation reaches just before it emits is the one it returns when the emission
  does nothing, i.e. when \<open>emit\<close> is \<open>Inr\<close>.
\<close>

definition override_value :: "scp_value \<Rightarrow> ballot_protocol \<Rightarrow> scp_value" where
  "override_value v s = (case value_override s of Some ov \<Rightarrow> ov | None \<Rightarrow> v)"

text \<open>The local statement of an externalised slot is recorded and sent, or the emission is skipped.\<close>

definition emit_externalized :: "slot_context \<Rightarrow> ballot_protocol \<Rightarrow> ballot_protocol \<Rightarrow> bool" where
  "emit_externalized ctx s s' \<longleftrightarrow>
     s' = s \<or>
     (\<exists>st env can_emit. emit_statement ctx s = Some (st, env, can_emit) \<and>
        is_newer_statement (local_node_id ctx) st s \<and>
        s' = send_latest_envelope (record_self ctx env can_emit s))"

inductive ballot_step :: "slot_context \<Rightarrow> ballot_protocol \<Rightarrow> ballot_protocol \<Rightarrow> bool" for ctx where
  AcceptPrepared: "ballot_step ctx s t"
    if "phase s \<noteq> PhaseExternalize" "\<not> skip_candidate s b"
      "federated_accept ctx (\<lambda>st. statement_votes_for_ballot b (st_pledges st))
         (\<lambda>st. has_prepared_ballot b (st_pledges st)) s"
      "set_accept_prepared Inr ctx b s = Inr (w, t)"
| ConfirmPrepared: "ballot_step ctx s t"
    if "phase s = PhasePrepare" "prepared s \<noteq> None"
      "case high_ballot s of Some high \<Rightarrow> high < h | None \<Rightarrow> True"
      "federated_ratify ctx (\<lambda>st. has_prepared_ballot h (st_pledges st)) s"
      "counter c = 0 \<or> are_ballots_less_and_compatible c h \<and>
         federated_ratify ctx (\<lambda>st. has_prepared_ballot c (st_pledges st)) s"
      "set_confirm_prepared Inr ctx c h s = Inr (w, t)"
| AcceptCommit: "ballot_step ctx s t"
    if "phase s \<noteq> PhaseExternalize"
      "phase s = PhaseConfirm \<Longrightarrow> case high_ballot s of Some high \<Rightarrow> bvalue high = v | None \<Rightarrow> True"
      "lo \<noteq> 0" "lo \<le> hi"
      "federated_accept ctx (\<lambda>st. statement_votes_commit (ScpBallot hi v) (lo, hi) (st_pledges st))
         (\<lambda>st. commit_predicate (ScpBallot hi v) (lo, hi) (st_pledges st)) s"
      "phase s = PhaseConfirm \<Longrightarrow> case high_ballot s of Some high \<Rightarrow> counter high < hi | None \<Rightarrow> True"
      "set_accept_commit Inr ctx (ScpBallot lo v) (ScpBallot hi v) s = Inr (w, t)"
| ConfirmCommit: "ballot_step ctx s (notify (ValueExternalized (slot_index ctx) v) (t\<lparr>needs_stop_nomination := True\<rparr>))"
    if "phase s = PhaseConfirm" "high_ballot s \<noteq> None" "commit s = Some cm" "bvalue cm = v"
      "lo \<noteq> 0" "lo \<le> hi"
      "federated_ratify ctx (\<lambda>st. commit_predicate (ScpBallot hi v) (lo, hi) (st_pledges st)) s"
      "update_current_if_needed ctx (ScpBallot hi v) s = (w, u)"
      "emit_externalized ctx (u\<lparr>commit := Some (ScpBallot lo v), high_ballot := Some (ScpBallot hi v),
          phase := PhaseExternalize\<rparr>) t"
| BumpBallot: "ballot_step ctx s t"
    if "phase s \<noteq> PhaseExternalize"
      "update_current_value ctx (ScpBallot n (override_value v s)) s = (w, t)"
| RecordSelf: "ballot_step ctx s (record_self ctx env can_emit (s\<lparr>fully_validated := fv, needs_clear_slot_validation := ncv\<rparr>))"
    if "phase s \<noteq> PhaseExternalize" "emit_statement ctx s = Some (st, env, can_emit)"
      "is_statement_sane ctx st" "is_newer_statement (local_node_id ctx) st s"
      "validate_statement_values ctx st \<noteq> Invalid" "fv \<Longrightarrow> fully_validated s"
| StoreEnvelope: "ballot_step ctx s (s\<lparr>fully_validated := fv,
      latest_envelopes := AList.update (st_node_id (env_statement env)) env (latest_envelopes s)\<rparr>)"
    if "\<not> is_nomination (st_pledges (env_statement env))"
      "is_newer_statement (st_node_id (env_statement env)) (env_statement env) s"
      "phase s = PhaseExternalize \<Longrightarrow> statement_value_matches_commit (commit s) (st_pledges (env_statement env))"
      "fv \<Longrightarrow> fully_validated s"
| SendLatest: "ballot_step ctx s (send_latest_envelope s)"
| HeardFromQuorum: "ballot_step ctx s (check_heard_from_quorum ctx s)"
| TimerExpired: "ballot_step ctx s (s\<lparr>timer_exp_count := n, composite_candidate := v\<rparr>)"
| SetLevel: "ballot_step ctx s (s\<lparr>current_message_level := l\<rparr>)"

abbreviation ballot_steps :: "slot_context \<Rightarrow> ballot_protocol \<Rightarrow> ballot_protocol \<Rightarrow> bool" where
  "ballot_steps ctx \<equiv> (ballot_step ctx)\<^sup>*\<^sup>*"

section \<open>The interface of an emission\<close>

text \<open>
  What the node does of its own accord to its validation flags: a value that could not be fully
  validated clears the flag and asks the slot to clear its own, and nothing else changes either.
\<close>

definition flags_kept :: "ballot_protocol \<Rightarrow> ballot_protocol \<Rightarrow> bool" where
  "flags_kept s t \<longleftrightarrow>
     fully_validated t = fully_validated s \<and> needs_clear_slot_validation t = needs_clear_slot_validation s \<or>
     \<not> fully_validated t \<and> needs_clear_slot_validation t"

lemma flags_kept_same [intro]:
  "fully_validated t = fully_validated s \<Longrightarrow> needs_clear_slot_validation t = needs_clear_slot_validation s \<Longrightarrow>
     flags_kept s t"
  by (simp add: flags_kept_def)

lemma flags_kept_trans: "flags_kept r s \<Longrightarrow> flags_kept s t \<Longrightarrow> flags_kept r t"
  by (auto simp: flags_kept_def)

locale emission =
  fixes ctx :: slot_context and emit :: emitter
  assumes emit_steps: "emit s = Inr s' \<Longrightarrow> phase s \<noteq> PhaseExternalize \<Longrightarrow> ballot_steps ctx s s'"
    and emit_level: "emit s = Inr s' \<Longrightarrow> current_message_level s' = current_message_level s"
    and emit_flags: "emit s = Inr s' \<Longrightarrow> flags_kept s s'"
    and emit_final: "emit s = Inr s' \<Longrightarrow> phase s = PhaseExternalize \<Longrightarrow> emit_externalized ctx s s'"

text \<open>Each operation is its quiet part, followed by at most one emission.\<close>

lemma set_accept_prepared_quiet:
  "set_accept_prepared emit ctx b s = Inr (w, s') \<Longrightarrow>
     \<exists>t. set_accept_prepared Inr ctx b s = Inr (w, t) \<and> (s' = t \<or> emit t = Inr s')"
  by (auto simp: set_accept_prepared_def Let_def split: prod.splits if_splits option.splits)

lemma set_confirm_prepared_quiet:
  "set_confirm_prepared emit ctx c h s = Inr (w, s') \<Longrightarrow>
     \<exists>t. set_confirm_prepared Inr ctx c h s = Inr (w, t) \<and> (s' = t \<or> emit t = Inr s')"
  unfolding set_confirm_prepared_def Let_def
  by (auto split: prod.splits if_splits)

lemma set_accept_commit_quiet:
  "set_accept_commit emit ctx c h s = Inr (w, s') \<Longrightarrow>
     \<exists>t. set_accept_commit Inr ctx c h s = Inr (w, t) \<and> (s' = t \<or> emit t = Inr s')"
  unfolding set_accept_commit_def Let_def
  by (auto split: prod.splits if_splits)


lemmas quiet_parts = set_accept_prepared_quiet set_confirm_prepared_quiet set_accept_commit_quiet

section \<open>What the searches find\<close>

lemma highest_confirmed_loop_Some:
  "highest_confirmed_loop ctx s xs = Some (b, i) \<Longrightarrow>
     (i, b) \<in> set xs \<and> (case high_ballot s of Some h \<Rightarrow> h < b | None \<Rightarrow> True) \<and>
     federated_ratify ctx (\<lambda>st. has_prepared_ballot b (st_pledges st)) s"
  by (induction ctx s xs rule: highest_confirmed_loop.induct) (auto split: if_splits option.splits)

lemma find_highest_confirmed_prepared_Some:
  assumes "find_highest_confirmed_prepared ctx cands s = Some (b, i)"
  shows "case high_ballot s of Some h \<Rightarrow> h < b | None \<Rightarrow> True"
    "federated_ratify ctx (\<lambda>st. has_prepared_ballot b (st_pledges st)) s"
    "i < length cands" "cands ! i = b"
  using assms highest_confirmed_loop_Some [of ctx s "rev (enumerate 0 cands)" b i]
  by (auto simp: find_highest_confirmed_prepared_def in_set_enumerate_eq)

lemma lowest_commit_loop_result:
  "lowest_commit_loop ctx s cur h bs c = c' \<Longrightarrow>
     c' = c \<or> c' \<in> set bs \<and> cur \<le> c' \<and> are_ballots_less_and_compatible c' h \<and>
       federated_ratify ctx (\<lambda>st. has_prepared_ballot c' (st_pledges st)) s"
  by (induction ctx s cur h bs c rule: lowest_commit_loop.induct) (auto split: if_splits)

lemma find_lowest_commit_ballot_result:
  assumes "find_lowest_commit_ballot ctx cands h i s = c"
  shows "counter c = 0 \<or> are_ballots_less_and_compatible c h \<and>
         federated_ratify ctx (\<lambda>st. has_prepared_ballot c (st_pledges st)) s"
  using assms lowest_commit_loop_result
    [of ctx s "case current_ballot s of Some b \<Rightarrow> b | None \<Rightarrow> ScpBallot 0 (bvalue h)" h
        "rev (take (i + 1) cands)" "ScpBallot 0 (bvalue h)" c]
  by (auto simp: find_lowest_commit_ballot_def Let_def split: if_splits)

text \<open>The interval search: a candidate with a non-zero lower end satisfies the predicate.\<close>

definition interval_ok :: "(u32 \<times> u32 \<Rightarrow> bool) \<Rightarrow> u32 set \<Rightarrow> u32 \<times> u32 \<Rightarrow> bool" where
  "interval_ok pred B r \<longleftrightarrow> fst r \<noteq> 0 \<longrightarrow> pred r \<and> fst r \<le> snd r \<and> fst r \<in> B \<and> snd r \<in> B"

lemma extend_interval_loop_ok:
  "interval_ok pred B r \<Longrightarrow> set bs \<subseteq> B \<Longrightarrow>
     interval_ok pred B (extend_interval_loop pred bs r)"
  by (induction pred bs r rule: extend_interval_loop.induct) (auto simp: interval_ok_def Let_def not_less)

lemma find_extended_interval_ok:
  assumes "find_extended_interval (0, 0) bs pred = (lo, hi)" "lo \<noteq> 0"
  shows "pred (lo, hi)" "lo \<le> hi" "lo \<in> set bs" "hi \<in> set bs"
  using assms extend_interval_loop_ok [of pred "set bs" "(0, 0)" "rev bs"]
  by (auto simp: find_extended_interval_def interval_ok_def)

text \<open>Commit votes depend on the value of the ballot only.\<close>

lemma commit_votes_value:
  "commit_predicate b i pl \<longleftrightarrow> commit_predicate (ScpBallot n (bvalue b)) i pl"
  "statement_votes_commit b i pl \<longleftrightarrow> statement_votes_commit (ScpBallot n (bvalue b)) i pl"
  by (cases i; cases pl; simp add: ballot_compatible_def)+

section \<open>Phases and levels of the quiet parts\<close>

lemma update_current_if_needed_cases:
  assumes "update_current_if_needed ctx b s = (w, s')"
  obtains "s' = s" "\<not> w" "\<exists>cur. current_ballot s = Some cur \<and> b \<le> cur"
  | "bump_to_ballot ctx b True s = (w, s')"
proof (cases "case current_ballot s of Some cur \<Rightarrow> cur < b | None \<Rightarrow> True")
  case True
  with assms show thesis by (intro that(2)) (simp add: update_current_if_needed_def split: option.splits)
next
  case False
  with assms have "s' = s" "\<not> w" by (simp_all add: update_current_if_needed_def split: option.splits)
  with False show thesis by (intro that(1)) (auto simp: not_less split: option.splits)
qed

lemma update_current_if_needed_fields:
  assumes "update_current_if_needed ctx b s = (w, s')"
  shows "prepared s' = prepared s" "prepared_prime s' = prepared_prime s" "phase s' = phase s"
    "value_override s' = value_override s" "bookkeeping s' = bookkeeping s"
  using assms by - (erule update_current_if_needed_cases, simp, erule bump_to_ballot_fields)+

lemma update_current_value_cases:
  assumes "update_current_value ctx b s = (w, s')"
  obtains "s' = s" "\<not> w" | w1 where "bump_to_ballot ctx b True s = (w1, s')" "w \<longrightarrow> w1"
proof (cases "current_ballot s")
  case None
  obtain w1 t where bump: "bump_to_ballot ctx b True s = (w1, t)" by fastforce
  with None have w1 by (auto simp: bump_to_ballot_def Let_def)
  with assms None bump show thesis by (auto simp: update_current_value_def split: if_splits intro: that)
next
  case (Some cur)
  with assms show thesis by (auto simp: update_current_value_def split: if_splits intro: that)
qed

lemma update_current_value_fields:
  assumes "update_current_value ctx b s = (w, s')"
  shows "prepared s' = prepared s" "prepared_prime s' = prepared_prime s" "phase s' = phase s"
    "value_override s' = value_override s" "bookkeeping s' = bookkeeping s"
  using assms by - (erule update_current_value_cases, simp, erule bump_to_ballot_fields)+

lemma set_accept_prepared_cases:
  assumes "set_accept_prepared Inr ctx b s = Inr (w, t)"
  obtains w1 where "set_prepared ctx b s = (w1, t)"
  | w1 t1 where "set_prepared ctx b s = (w1, t1)" "t = t1\<lparr>commit := None\<rparr>"
  using assms by (auto simp: set_accept_prepared_def Let_def split: prod.splits if_splits option.splits)

lemma set_accept_prepared_fields:
  assumes "set_accept_prepared Inr ctx b s = Inr (w, t)"
  shows "current_ballot t = current_ballot s" "high_ballot t = high_ballot s" "phase t = phase s"
    "value_override t = value_override s" "bookkeeping t = bookkeeping s"
  using assms
  by - (erule set_accept_prepared_cases, erule set_prepared_fields, simp, erule set_prepared_fields)+


lemma update_current_value_current:
  assumes "update_current_value ctx b s = (w, s')" w
  shows "current_ballot s' = Some b"
  using assms(1)
proof (cases rule: update_current_value_cases)
  case (2 w1)
  then show ?thesis using bump_to_ballot_check [OF 2(1)] assms(2) by simp
qed (use assms(2) in simp)

text \<open>
  Confirming prepared: an incompatible current ballot leaves the high and commit ballots alone, a
  compatible one sets them; then the current ballot is raised.
\<close>

definition confirm_prepared_high :: "scp_ballot \<Rightarrow> ballot_protocol \<Rightarrow> scp_ballot option" where
  "confirm_prepared_high h s =
     (if (case high_ballot s of Some b \<Rightarrow> b < h | None \<Rightarrow> True) then Some h else high_ballot s)"

definition confirm_prepared_commit :: "scp_ballot \<Rightarrow> ballot_protocol \<Rightarrow> scp_ballot option" where
  "confirm_prepared_commit c s = (if counter c \<noteq> 0 \<and> commit s = None then Some c else commit s)"

lemma set_confirm_prepared_cases:
  assumes "set_confirm_prepared Inr ctx c h s = Inr (w, t)"
  obtains (incompatible) b w1 where "current_ballot s = Some b" "bvalue b \<noteq> bvalue h"
    "update_current_if_needed ctx h (s\<lparr>value_override := Some (bvalue h)\<rparr>) = (w1, t)"
  | (compatible) u w1 where "\<And>b. current_ballot s = Some b \<Longrightarrow> bvalue b = bvalue h"
    "update_current_if_needed ctx h u = (w1, t)" "current_ballot u = current_ballot s"
    "high_ballot u = confirm_prepared_high h s" "commit u = confirm_prepared_commit c s"
    "prepared u = prepared s" "prepared_prime u = prepared_prime s" "phase u = phase s"
    "value_override u = Some (bvalue h)" "bookkeeping u = bookkeeping s"
proof (cases "case current_ballot s of Some b \<Rightarrow> bvalue b = bvalue h | None \<Rightarrow> True")
  case False
  then obtain b where b: "current_ballot s = Some b" "bvalue b \<noteq> bvalue h"
    by (auto split: option.splits)
  with assms show thesis
    by (auto simp: set_confirm_prepared_def ballot_compatible_def split: prod.splits if_splits
        intro: incompatible)
next
  case True
  then have compat: "case current_ballot s of Some b \<Rightarrow> ballot_compatible b h | None \<Rightarrow> True"
    by (auto simp: ballot_compatible_def split: option.splits)
  define t1 where "t1 = (if (case high_ballot s of Some b \<Rightarrow> b < h | None \<Rightarrow> True)
    then s\<lparr>value_override := Some (bvalue h), high_ballot := Some h\<rparr>
    else s\<lparr>value_override := Some (bvalue h)\<rparr>)"
  define t2 where "t2 = (if counter c \<noteq> 0 \<and> commit s = None then t1\<lparr>commit := Some c\<rparr> else t1)"
  from assms compat have "\<exists>w1 u. update_current_if_needed ctx h u = (w1, t) \<and>
      (u = t2 \<or> u = notify (BallotDidConfirm (slot_index ctx) h) t2)"
    by (auto simp: set_confirm_prepared_def t1_def t2_def Let_def split: prod.splits if_splits
        cong: option.case_cong)
  with True show thesis
    by (auto simp: t1_def t2_def confirm_prepared_high_def confirm_prepared_commit_def
        intro!: compatible split: if_splits)
qed

lemma set_confirm_prepared_fields:
  assumes "set_confirm_prepared Inr ctx c h s = Inr (w, t)"
  shows "prepared t = prepared s" "prepared_prime t = prepared_prime s" "phase t = phase s"
    "value_override t = Some (bvalue h)" "bookkeeping t = bookkeeping s"
  using assms
  by - (erule set_confirm_prepared_cases; simp add: update_current_if_needed_fields; fail)+

text \<open>What moving the current ballot does to the high and commit ballots.\<close>

lemma bump_to_ballot_high:
  assumes "bump_to_ballot ctx b check s = (w, s')"
  shows "w \<Longrightarrow> current_ballot s' = Some b" "\<not> w \<Longrightarrow> s' = s"
    "case high_ballot s of Some h \<Rightarrow> bvalue h = bvalue b | None \<Rightarrow> True \<Longrightarrow>
       high_ballot s' = high_ballot s \<and> commit s' = commit s"
    "w \<Longrightarrow> high_ballot s = Some h \<Longrightarrow> bvalue h \<noteq> bvalue b \<Longrightarrow> high_ballot s' = None \<and> commit s' = None"
  using assms by (auto simp: bump_to_ballot_def ballot_compatible_def Let_def split: if_splits option.splits)

lemma bump_to_ballot_unchecked: "bump_to_ballot ctx b False s = (w, s') \<Longrightarrow> w"
  by (auto simp: bump_to_ballot_def Let_def)

lemma update_current_if_needed_current:
  assumes "update_current_if_needed ctx b s = (w, s')"
  shows "current_ballot s' = Some (case current_ballot s of Some cur \<Rightarrow> max cur b | None \<Rightarrow> b)"
  using assms
proof (cases rule: update_current_if_needed_cases)
  case 2
  from bump_to_ballot_check [OF 2] bump_to_ballot_high(1) [OF 2] assms 2 show ?thesis
    by (auto simp: update_current_if_needed_def bump_to_ballot_def Let_def split: if_splits option.splits)
qed (auto simp: max_def)

lemma update_current_if_needed_high:
  assumes "update_current_if_needed ctx b s = (w, s')"
    and "case high_ballot s of Some h \<Rightarrow> bvalue h = bvalue b | None \<Rightarrow> True"
  shows "high_ballot s' = high_ballot s" "commit s' = commit s"
  using assms bump_to_ballot_high(3) [of ctx b True s w s']
  by (auto elim!: update_current_if_needed_cases)

text \<open>Accepting commit: after the new interval is installed, the current ballot is moved to it.\<close>

definition install_commit :: "scp_ballot \<Rightarrow> scp_ballot \<Rightarrow> ballot_protocol \<Rightarrow> ballot_protocol" where
  "install_commit c h s =
     (let s1 = s\<lparr>value_override := Some (bvalue h)\<rparr> in
      if high_ballot s = Some h \<and> commit s = Some c then s1
      else s1\<lparr>commit := Some c, high_ballot := Some h\<rparr>)"

lemma install_commit_fields [simp]:
  "high_ballot (install_commit c h s) = Some h" "commit (install_commit c h s) = Some c"
  "current_ballot (install_commit c h s) = current_ballot s"
  "prepared (install_commit c h s) = prepared s" "prepared_prime (install_commit c h s) = prepared_prime s"
  "value_override (install_commit c h s) = Some (bvalue h)" "phase (install_commit c h s) = phase s"
  "bookkeeping (install_commit c h s) = bookkeeping s"
  by (simp_all add: install_commit_def Let_def)

lemma set_accept_commit_alt:
  "set_accept_commit Inr ctx c h s =
     (let u = install_commit c h s in
      if phase s = PhasePrepare
      then
        let t1 = u\<lparr>phase := PhaseConfirm\<rparr>;
            t2 = (case current_ballot s of
                    Some cur \<Rightarrow> if \<not> are_ballots_less_and_compatible h cur
                                then snd (bump_to_ballot ctx h False t1) else t1
                  | None \<Rightarrow> t1)
        in Inr (True, notify (AcceptedCommit (slot_index ctx) h)
             (snd (update_current_if_needed ctx h (t2\<lparr>prepared_prime := None\<rparr>))))
      else if high_ballot s = Some h \<and> commit s = Some c then Inr (False, u)
      else Inr (True, notify (AcceptedCommit (slot_index ctx) h) (snd (update_current_if_needed ctx h u))))"
proof -
  have "(case x of Some b \<Rightarrow> ballot_compare b y \<noteq> Equal | None \<Rightarrow> True) \<longleftrightarrow> x \<noteq> Some y" for x y
    by (auto split: option.splits)
  then show ?thesis
    by (auto simp: set_accept_commit_def install_commit_def Let_def)
qed

lemma set_accept_commit_prepare:
  assumes "set_accept_commit Inr ctx c h s = Inr (w, t)" "phase s = PhasePrepare"
  shows "high_ballot t = Some h" "commit t = Some c" "phase t = PhaseConfirm" "prepared t = prepared s"
    "prepared_prime t = None" "value_override t = Some (bvalue h)" "bookkeeping t = bookkeeping s"
    "current_ballot t = (case current_ballot s of
       Some cur \<Rightarrow> if are_ballots_less_and_compatible h cur then Some cur else Some h | None \<Rightarrow> Some h)"
proof -
  define u where "u = (install_commit c h s)\<lparr>phase := PhaseConfirm\<rparr>"
  obtain wb bt where bump: "bump_to_ballot ctx h False u = (wb, bt)" by fastforce
  define v where "v = (case current_ballot s of
      Some cur \<Rightarrow> if \<not> are_ballots_less_and_compatible h cur then bt else u | None \<Rightarrow> u)\<lparr>prepared_prime := None\<rparr>"
  obtain wu z where upd: "update_current_if_needed ctx h v = (wu, z)" by fastforce
  have t: "t = notify (AcceptedCommit (slot_index ctx) h) z"
    using assms upd bump
    by (auto simp: set_accept_commit_alt Let_def u_def v_def split: option.splits if_splits)
  have bt: "high_ballot bt = Some h" "commit bt = Some c" "current_ballot bt = Some h"
    using bump_to_ballot_high [OF bump] bump_to_ballot_unchecked [OF bump] by (simp_all add: u_def)
  have v: "high_ballot v = Some h" "commit v = Some c" "prepared v = prepared s" "prepared_prime v = None"
    "phase v = PhaseConfirm" "value_override v = Some (bvalue h)" "bookkeeping v = bookkeeping s"
    using bt bump_to_ballot_fields [OF bump] by (simp_all add: v_def u_def split: option.splits)
  have cur: "current_ballot v = (case current_ballot s of
       Some cur \<Rightarrow> if are_ballots_less_and_compatible h cur then Some cur else Some h | None \<Rightarrow> None)"
    using bt by (simp add: v_def u_def split: option.splits)
  show "high_ballot t = Some h" "commit t = Some c" "phase t = PhaseConfirm" "prepared t = prepared s"
    "prepared_prime t = None" "value_override t = Some (bvalue h)" "bookkeeping t = bookkeeping s"
    using v update_current_if_needed_fields [OF upd] update_current_if_needed_high [OF upd]
    by (simp_all add: t)
  show "current_ballot t = (case current_ballot s of
       Some cur \<Rightarrow> if are_ballots_less_and_compatible h cur then Some cur else Some h | None \<Rightarrow> Some h)"
    using update_current_if_needed_current [OF upd]
    by (auto simp: t cur max_def less_and_compatible_iff split: option.splits)
qed

lemma set_accept_commit_confirm:
  assumes "set_accept_commit Inr ctx c h s = Inr (w, t)" "phase s = PhaseConfirm"
  shows "high_ballot t = Some h" "commit t = Some c" "phase t = PhaseConfirm" "prepared t = prepared s"
    "prepared_prime t = prepared_prime s" "value_override t = Some (bvalue h)" "bookkeeping t = bookkeeping s"
    "if high_ballot s = Some h \<and> commit s = Some c then current_ballot t = current_ballot s
     else current_ballot t = Some (case current_ballot s of Some cur \<Rightarrow> max cur h | None \<Rightarrow> h)"
proof -
  define u where "u = install_commit c h s"
  obtain wu z where upd: "update_current_if_needed ctx h u = (wu, z)" by fastforce
  have t: "t = (if high_ballot s = Some h \<and> commit s = Some c then u
                else notify (AcceptedCommit (slot_index ctx) h) z)"
    using assms upd by (auto simp: set_accept_commit_alt Let_def u_def)
  show "high_ballot t = Some h" "commit t = Some c" "phase t = PhaseConfirm" "prepared t = prepared s"
    "prepared_prime t = prepared_prime s" "value_override t = Some (bvalue h)" "bookkeeping t = bookkeeping s"
    using assms(2) update_current_if_needed_fields [OF upd] update_current_if_needed_high [OF upd]
    by (simp_all add: t u_def)
  show "if high_ballot s = Some h \<and> commit s = Some c then current_ballot t = current_ballot s
     else current_ballot t = Some (case current_ballot s of Some cur \<Rightarrow> max cur h | None \<Rightarrow> h)"
    using update_current_if_needed_current [OF upd] by (simp add: t u_def)
qed

lemma set_accept_commit_fields:
  assumes "set_accept_commit Inr ctx c h s = Inr (w, t)" "phase s \<noteq> PhaseExternalize"
  shows "phase t = PhaseConfirm" "bookkeeping t = bookkeeping s"
  using assms set_accept_commit_prepare(3,7) [OF assms(1)] set_accept_commit_confirm(3,7) [OF assms(1)]
  by (cases "phase s"; simp)+

lemma record_self_fields [simp]:
  "current_ballot (record_self ctx env ce s) = current_ballot s"
  "prepared (record_self ctx env ce s) = prepared s"
  "prepared_prime (record_self ctx env ce s) = prepared_prime s"
  "high_ballot (record_self ctx env ce s) = high_ballot s"
  "commit (record_self ctx env ce s) = commit s"
  "phase (record_self ctx env ce s) = phase s"
  "value_override (record_self ctx env ce s) = value_override s"
  "current_message_level (record_self ctx env ce s) = current_message_level s"
  "last_envelope_emit (record_self ctx env ce s) = last_envelope_emit s"
  "fully_validated (record_self ctx env ce s) = fully_validated s"
  "externalized_values (record_self ctx env ce s) = externalized_values s"
  "emitted_statements (record_self ctx env ce s) = emitted_statements s"
  "latest_envelopes (record_self ctx env ce s) = AList.update (local_node_id ctx) env (latest_envelopes s)"
  "last_envelope (record_self ctx env ce s) = (if ce then Some env else last_envelope s)"
  "needs_clear_slot_validation (record_self ctx env ce s) = needs_clear_slot_validation s"
  by (simp_all add: record_self_def Let_def)

lemma emit_statement_env:
  assumes "emit_statement ctx s = Some (st, env, can_emit)"
  shows "env_statement env = st" "st_node_id st = local_node_id ctx" "\<not> is_nomination (st_pledges st)"
  using assms
  by (auto simp: emit_statement_def emit_prepare_def emit_confirm_def emit_externalize_def
      create_signed_envelope_def Let_def split: ballot_phase.splits option.splits)

lemma emit_externalized_fields:
  assumes "emit_externalized ctx s s'"
  shows "current_ballot s' = current_ballot s" "prepared s' = prepared s"
    "prepared_prime s' = prepared_prime s" "high_ballot s' = high_ballot s" "commit s' = commit s"
    "phase s' = phase s" "value_override s' = value_override s"
    "current_message_level s' = current_message_level s" "fully_validated s' = fully_validated s"
    "externalized_values s' = externalized_values s"
    "needs_clear_slot_validation s' = needs_clear_slot_validation s"
  using assms by (auto simp: emit_externalized_def)

section \<open>Every operation is a sequence of steps\<close>

lemma inactive_phase [simp]: "p \<noteq> PhasePrepare \<and> p \<noteq> PhaseConfirm \<longleftrightarrow> p = PhaseExternalize"
  by (cases p) simp_all

lemma saturating_add_sub:
  "\<not> MAX_PROTOCOL_TRANSITIONS \<le> u32_saturating_add l 1 \<Longrightarrow> u32_saturating_sub (u32_saturating_add l 1) 1 = l"
  "\<not> MAX_PROTOCOL_TRANSITIONS \<le> u32_saturating_add l 1 \<Longrightarrow> unat (u32_saturating_add l 1) = unat l + 1"
  by (auto simp: u32_saturating_add_def u32_saturating_sub_def MAX_PROTOCOL_TRANSITIONS_def u32_max_def
      word_le_nat_alt unat_word_ariths split: if_splits)

text \<open>
  A balanced run of the node's own: a sequence of steps that ends at the recursion level at which it
  began and leaves the flags alone but for such requests.
\<close>

definition own_run :: "slot_context \<Rightarrow> ballot_protocol \<Rightarrow> ballot_protocol \<Rightarrow> bool" where
  "own_run ctx s s' \<longleftrightarrow> ballot_steps ctx s s' \<and> current_message_level s' = current_message_level s \<and>
     flags_kept s s'"

lemma own_run_refl [simp, intro]: "own_run ctx s s"
  by (auto simp: own_run_def)

lemma own_run_trans [trans]: "own_run ctx r s \<Longrightarrow> own_run ctx s t \<Longrightarrow> own_run ctx r t"
  by (auto simp: own_run_def intro: flags_kept_trans)

lemma own_run_step: "ballot_step ctx s t \<Longrightarrow> current_message_level t = current_message_level s \<Longrightarrow> flags_kept s t \<Longrightarrow> own_run ctx s t"
  by (auto simp: own_run_def)

lemma own_run_heard: "own_run ctx s (check_heard_from_quorum ctx s)"
  by (rule own_run_step) (auto intro: HeardFromQuorum)

lemma own_run_send: "own_run ctx s (send_latest_envelope s)"
  by (rule own_run_step) (auto intro: SendLatest)

context emission
begin

lemma emit_run: "emit s = Inr s' \<Longrightarrow> phase s \<noteq> PhaseExternalize \<Longrightarrow> own_run ctx s s'"
  using emit_steps emit_level emit_flags by (simp add: own_run_def)

text \<open>A step and the emission that may follow it.\<close>

lemma step_emit_run:
  assumes "ballot_step ctx s t" "bookkeeping t = bookkeeping s" "phase t \<noteq> PhaseExternalize"
    and "s' = t \<or> emit t = Inr s'"
  shows "own_run ctx s s'"
  using own_run_step [OF assms(1) bookkeepingD(5) [OF assms(2)] flags_kept_same [OF bookkeepingD(4,8) [OF assms(2)]]]
    assms(3,4) emit_run
  by (metis own_run_trans)

lemma accept_prepared_loop_run:
  "phase s \<noteq> PhaseExternalize \<Longrightarrow> accept_prepared_loop emit ctx bs s = Inr (w, s') \<Longrightarrow> own_run ctx s s'"
proof (induction bs arbitrary: s)
  case (Cons b bs)
  let ?fed = "federated_accept ctx (\<lambda>st. statement_votes_for_ballot b (st_pledges st))
    (\<lambda>st. has_prepared_ballot b (st_pledges st)) s"
  show ?case
  proof (cases "skip_candidate s b \<or> \<not> ?fed")
    case True
    with Cons show ?thesis by (auto split: if_splits)
  next
    case False
    with Cons.prems obtain w1 s1 where s1: "set_accept_prepared emit ctx b s = Inr (w1, s1)"
      and rest: "(if w1 then Inr (True, s1) else accept_prepared_loop emit ctx bs s1) = Inr (w, s')"
      by auto
    from set_accept_prepared_quiet [OF s1] obtain t where
      t: "set_accept_prepared Inr ctx b s = Inr (w1, t)" "s1 = t \<or> emit t = Inr s1" by blast
    note fields = set_accept_prepared_fields [OF t(1)]
    have run: "own_run ctx s s1"
      using t fields Cons.prems(1) False by (intro step_emit_run [OF AcceptPrepared]) auto
    show ?thesis
    proof (cases w1)
      case False
      then have "s1 = t" using s1 t(1)
        by (auto simp: set_accept_prepared_def Let_def split: prod.splits if_splits option.splits)
      with rest False Cons.IH [of s1] fields Cons.prems(1) run show ?thesis
        by (auto intro: own_run_trans)
    qed (use rest run in simp)
  qed
qed simp

lemma attempt_accept_prepared_run:
  "attempt_accept_prepared emit ctx hint s = Inr (w, s') \<Longrightarrow> own_run ctx s s'"
  by (auto simp: attempt_accept_prepared_def split: if_splits intro: accept_prepared_loop_run)

lemma attempt_confirm_prepared_run:
  assumes "attempt_confirm_prepared emit ctx hint s = Inr (w, s')"
  shows "own_run ctx s s'"
proof (cases "s' = s")
  case False
  let ?cands = "get_prepare_candidates s hint"
  from assms False obtain h i where prep: "phase s = PhasePrepare" "prepared s \<noteq> None"
    and h: "find_highest_confirmed_prepared ctx ?cands s = Some (h, i)"
    and conf: "set_confirm_prepared emit ctx (find_lowest_commit_ballot ctx ?cands h i s) h s = Inr (w, s')"
    by (auto simp: attempt_confirm_prepared_def Let_def split: if_splits option.splits)
  from set_confirm_prepared_quiet [OF conf] obtain t where
    t: "set_confirm_prepared Inr ctx (find_lowest_commit_ballot ctx ?cands h i s) h s = Inr (w, t)"
      "s' = t \<or> emit t = Inr s'" by blast
  show ?thesis
    using t set_confirm_prepared_fields [OF t(1)] prep
    by (intro step_emit_run [OF ConfirmPrepared [OF prep find_highest_confirmed_prepared_Some(1,2) [OF h]
          find_lowest_commit_ballot_result [OF refl]]]) auto
qed simp

lemma attempt_accept_commit_run:
  assumes "attempt_accept_commit emit ctx hint s = Inr (w, s')"
  shows "own_run ctx s s'"
proof (cases "s' = s")
  case False
  with assms obtain b where ph: "phase s \<noteq> PhaseExternalize"
    and compat: "phase s = PhaseConfirm \<Longrightarrow> case high_ballot s of Some high \<Rightarrow> ballot_compatible b high | None \<Rightarrow> True"
    and hint: "hint_ballot_for_commit (st_pledges hint) = Some b"
    by (auto simp: attempt_accept_commit_def split: if_splits option.splits)
  let ?pred = "\<lambda>i. federated_accept ctx (\<lambda>st. statement_votes_commit b i (st_pledges st))
    (\<lambda>st. commit_predicate b i (st_pledges st)) s"
  obtain lo hi where cand:
    "find_extended_interval (0, 0) (get_commit_boundaries_from_statements b s) ?pred = (lo, hi)"
    by fastforce
  from assms False hint cand have lo: "lo \<noteq> 0"
    and above: "phase s = PhaseConfirm \<Longrightarrow> case high_ballot s of Some high \<Rightarrow> counter high < hi | None \<Rightarrow> True"
    and set: "set_accept_commit emit ctx (ScpBallot lo (bvalue b)) (ScpBallot hi (bvalue b)) s = Inr (w, s')"
    by (auto simp: attempt_accept_commit_def Let_def split: if_splits option.splits)
  note found = find_extended_interval_ok [OF cand lo]
  have fed: "federated_accept ctx (\<lambda>st. statement_votes_commit (ScpBallot hi (bvalue b)) (lo, hi) (st_pledges st))
    (\<lambda>st. commit_predicate (ScpBallot hi (bvalue b)) (lo, hi) (st_pledges st)) s"
    using found(1) by (simp add: commit_votes_value [of b _ _ hi])
  have compat': "case high_ballot s of Some high \<Rightarrow> bvalue high = bvalue b | None \<Rightarrow> True"
    if "phase s = PhaseConfirm"
    using compat [OF that] by (auto simp: ballot_compatible_def split: option.splits)
  from set_accept_commit_quiet [OF set] obtain t where
    t: "set_accept_commit Inr ctx (ScpBallot lo (bvalue b)) (ScpBallot hi (bvalue b)) s = Inr (w, t)"
      "s' = t \<or> emit t = Inr s'" by blast
  with set_accept_commit_fields [OF t(1) ph] show ?thesis
    by (intro step_emit_run [OF AcceptCommit [OF ph compat' lo found(2) fed above t(1)]]) auto
qed simp

lemma set_confirm_commit_run:
  assumes conf: "set_confirm_commit emit ctx (ScpBallot lo v) (ScpBallot hi v) s = Inr (w, s')"
    and ph: "phase s = PhaseConfirm" "high_ballot s \<noteq> None" "commit s = Some cm" "bvalue cm = v"
    and int: "lo \<noteq> 0" "lo \<le> hi"
    and fed: "federated_ratify ctx (\<lambda>st. commit_predicate (ScpBallot hi v) (lo, hi) (st_pledges st)) s"
  shows "own_run ctx s s'"
proof -
  obtain wu u where upd: "update_current_if_needed ctx (ScpBallot hi v) s = (wu, u)" by fastforce
  let ?s2 = "u\<lparr>commit := Some (ScpBallot lo v), high_ballot := Some (ScpBallot hi v), phase := PhaseExternalize\<rparr>"
  from conf upd obtain s3 where s3: "emit ?s2 = Inr s3"
    and tail: "(case commit (s3\<lparr>needs_stop_nomination := True\<rparr>) of
        None \<Rightarrow> Inl UnwrapNone
      | Some c \<Rightarrow> Inr (True, notify (ValueExternalized (slot_index ctx) (bvalue c))
          (s3\<lparr>needs_stop_nomination := True\<rparr>))) = Inr (w, s')"
    by (auto simp: set_confirm_commit_def Let_def)
  from emit_final [OF s3] have fin: "emit_externalized ctx ?s2 s3" by simp
  note f = emit_externalized_fields [OF fin]
  have s': "s' = notify (ValueExternalized (slot_index ctx) v) (s3\<lparr>needs_stop_nomination := True\<rparr>)"
    using tail f by simp
  have "ballot_step ctx s s'"
    unfolding s' by (rule ConfirmCommit [OF ph int fed upd fin])
  moreover have "current_message_level s' = current_message_level s"
    using f bookkeepingD(5) [OF update_current_if_needed_fields(5) [OF upd]] by (simp add: s')
  moreover have "flags_kept s s'"
    using f bookkeepingD(4,8) [OF update_current_if_needed_fields(5) [OF upd]] by (intro flags_kept_same) (simp_all add: s')
  ultimately show ?thesis by (rule own_run_step)
qed

lemma attempt_confirm_commit_run:
  assumes "attempt_confirm_commit emit ctx hint s = Inr (w, s')"
  shows "own_run ctx s s'"
proof (cases "s' = s")
  case False
  with assms obtain high cm b where ph: "phase s = PhaseConfirm" "high_ballot s = Some high" "commit s = Some cm"
    and hint: "hint_ballot_for_commit (st_pledges hint) = Some b" and compat: "ballot_compatible b cm"
    by (auto simp: attempt_confirm_commit_def split: if_splits option.splits)
  let ?pred = "\<lambda>i. federated_ratify ctx (\<lambda>st. commit_predicate b i (st_pledges st)) s"
  obtain lo hi where cand:
    "find_extended_interval (0, 0) (get_commit_boundaries_from_statements b s) ?pred = (lo, hi)"
    by fastforce
  from assms False ph hint cand have lo: "lo \<noteq> 0"
    and set: "set_confirm_commit emit ctx (ScpBallot lo (bvalue b)) (ScpBallot hi (bvalue b)) s = Inr (w, s')"
    by (auto simp: attempt_confirm_commit_def Let_def split: if_splits)
  note found = find_extended_interval_ok [OF cand lo]
  have fed: "federated_ratify ctx (\<lambda>st. commit_predicate (ScpBallot hi (bvalue b)) (lo, hi) (st_pledges st)) s"
    using found(1) by (simp add: commit_votes_value(1) [of b _ _ hi])
  from compat have "bvalue cm = bvalue b" by (simp add: ballot_compatible_def)
  with ph set_confirm_commit_run [OF set] lo found(2) fed show ?thesis by auto
qed simp

lemma bump_state_run:
  assumes "bump_state emit ctx v n s = Inr (w, s')"
  shows "own_run ctx s s'"
    and "w \<Longrightarrow> \<exists>u. own_run ctx s u \<and> phase u = phase s \<and>
           current_ballot u = Some (ScpBallot n (override_value v s)) \<and> own_run ctx u s'"
proof -
  obtain wu u where upd: "update_current_value ctx (ScpBallot n (override_value v s)) s = (wu, u)" by fastforce
  note f = update_current_value_fields [OF upd]
  have su: "own_run ctx s u" if "phase s \<noteq> PhaseExternalize"
    using BumpBallot [OF that upd] bookkeepingD(5) [OF f(5)] flags_kept_same [OF bookkeepingD(4,8) [OF f(5)]]
    by (rule own_run_step)
  consider (final) "s' = s" "\<not> w" | (none) "s' = u" "\<not> w" "phase s \<noteq> PhaseExternalize"
    | (bumped) s2 where "w" "wu" "phase s \<noteq> PhaseExternalize" "emit u = Inr s2" "s' = check_heard_from_quorum ctx s2"
    using assms upd by (auto simp: bump_state_def override_value_def Let_def split: if_splits)
  then have "own_run ctx s s' \<and> (w \<longrightarrow> wu \<and> own_run ctx s u \<and> own_run ctx u s')"
  proof cases
    case bumped
    have "own_run ctx u s'"
      using bumped f(3) emit_run [of u s2] own_run_heard own_run_trans by metis
    with bumped su show ?thesis by (auto intro: own_run_trans)
  qed (use su in auto)
  then show "own_run ctx s s'"
    and "w \<Longrightarrow> \<exists>u. own_run ctx s u \<and> phase u = phase s \<and>
           current_ballot u = Some (ScpBallot n (override_value v s)) \<and> own_run ctx u s'"
    using f(3) update_current_value_current [OF upd] by auto
qed

lemma abandon_ballot_run:
  "abandon_ballot emit ctx n s = Inr (w, s') \<Longrightarrow> own_run ctx s s'"
  by (auto simp: abandon_ballot_def Let_def split: if_splits option.splits intro: bump_state_run(1))

lemma bump_counters_loop_run:
  "bump_counters_loop emit ctx ns s = Inr (w, s') \<Longrightarrow> own_run ctx s s'"
  by (induction ns) (auto split: if_splits intro: abandon_ballot_run)

lemma attempt_bump_run:
  "attempt_bump emit ctx s = Inr (w, s') \<Longrightarrow> own_run ctx s s'"
  by (auto simp: attempt_bump_def Let_def split: if_splits intro: bump_counters_loop_run)

lemma bump_loop_run:
  "bump_loop emit ctx did s = Inr (w, s') \<Longrightarrow> own_run ctx s s'"
proof (induction e \<equiv> emit c \<equiv> ctx did s rule: bump_loop.induct)
  case (1 did s)
  from "1.prems" obtain bumped s1 where s1: "attempt_bump emit ctx s = Inr (bumped, s1)"
    by (subst (asm) bump_loop.simps) (auto split: sum.splits prod.splits)
  show ?case
  proof (cases bumped)
    case True
    with "1.prems" s1 have "bump_loop emit ctx True s1 = Inr (w, s')"
      and "phase_rank (phase s) < phase_rank (phase s1) \<or> phase s = phase s1 \<and> local_counter s < local_counter s1"
      by (subst (asm) bump_loop.simps, simp split: if_splits)+
    with 1 s1 True have "own_run ctx s1 s'" by auto
    with attempt_bump_run [OF s1] show ?thesis by (rule own_run_trans)
  next
    case False
    with "1.prems" s1 have "s' = s1" by (subst (asm) bump_loop.simps) simp
    with attempt_bump_run [OF s1] show ?thesis by simp
  qed
qed

lemma advance_slot_run:
  assumes "advance_slot emit ctx hint s = Inr (r, s')"
  shows "own_run ctx s s'"
proof -
  let ?l = "current_message_level s"
  define s0 where "s0 = s\<lparr>current_message_level := u32_saturating_add ?l 1\<rparr>"
  from assms obtain w1 s1 w2 s2 w3 s3 w4 s4 w s6 where
    low: "\<not> MAX_PROTOCOL_TRANSITIONS \<le> current_message_level s0"
    and ops: "attempt_accept_prepared emit ctx hint s0 = Inr (w1, s1)"
      "attempt_confirm_prepared emit ctx hint s1 = Inr (w2, s2)"
      "attempt_accept_commit emit ctx hint s2 = Inr (w3, s3)"
      "attempt_confirm_commit emit ctx hint s3 = Inr (w4, s4)"
    and bumps: "(if current_message_level s4 = 1
               then bindE (bump_loop emit ctx (w4 \<or> w3 \<or> w2 \<or> w1) s4)
                      (\<lambda>(w5, s5). Inr (w5, check_heard_from_quorum ctx s5))
               else Inr (w4 \<or> w3 \<or> w2 \<or> w1, s4)) = Inr (w, s6)"
    and out: "s' = (let s7 = s6\<lparr>current_message_level := u32_saturating_sub (current_message_level s6) 1\<rparr>
                    in if w then send_latest_envelope s7 else s7)"
    by (auto simp: advance_slot_def Let_def s0_def split: if_splits)
  have "own_run ctx s0 s4"
    using ops attempt_accept_prepared_run attempt_confirm_prepared_run attempt_accept_commit_run
      attempt_confirm_commit_run by (blast intro: own_run_trans)
  moreover have "own_run ctx s4 s6"
    using bumps by (auto split: if_splits intro: own_run_trans [OF bump_loop_run own_run_heard])
  ultimately have run: "own_run ctx s0 s6" by (rule own_run_trans)
  define s7 where "s7 = s6\<lparr>current_message_level := u32_saturating_sub (current_message_level s6) 1\<rparr>"
  have "ballot_steps ctx s s7"
    using run SetLevel [of ctx s "u32_saturating_add ?l 1"]
      SetLevel [of ctx s6 "u32_saturating_sub (current_message_level s6) 1"]
    by (auto simp: own_run_def s0_def s7_def)
  moreover have "current_message_level s7 = ?l"
    using run low saturating_add_sub [of ?l] by (simp add: own_run_def s0_def s7_def)
  moreover have "flags_kept s s7"
    using run by (simp add: own_run_def flags_kept_def s0_def s7_def)
  ultimately have "own_run ctx s s7" by (simp add: own_run_def)
  with out show ?thesis
    by (auto simp: s7_def Let_def split: if_splits intro: own_run_trans own_run_send)
qed

text \<open>One more level of recursion is again an emission.\<close>

lemma emit_step_run:
  assumes "emit_step (advance_slot emit ctx) ctx s = Inr s'" "phase s \<noteq> PhaseExternalize"
  shows "own_run ctx s s'"
proof (cases "s' = s")
  case False
  from assms False obtain st env can_emit where st: "emit_statement ctx s = Some (st, env, can_emit)"
    and ok: "is_statement_sane ctx st" "is_newer_statement (local_node_id ctx) st s"
      "validate_statement_values ctx st \<noteq> Invalid"
    by (auto simp: emit_step_def Let_def split: option.splits if_splits)
  let ?clr = "clears_fully_validated (validate_statement_values ctx st)"
  define fv where "fv = (if ?clr then False else fully_validated s)"
  define ncv where "ncv = (if ?clr then True else needs_clear_slot_validation s)"
  define s2 where "s2 = record_self ctx env can_emit (s\<lparr>fully_validated := fv, needs_clear_slot_validation := ncv\<rparr>)"
  have "(if ?clr then s\<lparr>fully_validated := False, needs_clear_slot_validation := True\<rparr> else s)
      = s\<lparr>fully_validated := fv, needs_clear_slot_validation := ncv\<rparr>"
    by (simp add: fv_def ncv_def)
  with assms st ok obtain r s3 where s3: "advance_slot emit ctx st s2 = Inr (r, s3)" "s' = send_latest_envelope s3"
    by (auto simp: emit_step_def Let_def s2_def)
  have "ballot_step ctx s s2"
    unfolding s2_def by (rule RecordSelf [OF assms(2) st ok]) (auto simp: fv_def split: if_splits)
  then have "own_run ctx s s2" 
    by (rule own_run_step) (simp_all add: s2_def fv_def ncv_def flags_kept_def)
  with advance_slot_run [OF s3(1)] own_run_send [of ctx s3] s3(2) show ?thesis
    by (blast intro: own_run_trans)
qed simp

end

lemma emit_step_final:
  assumes "emit_step adv ctx s = Inr s'" "phase s = PhaseExternalize"
  shows "emit_externalized ctx s s'"
  using assms
  by (auto simp: emit_step_def emit_externalized_def Let_def split: option.splits if_splits)

lemma emission_next:
  assumes "emission ctx emit"
  shows "emission ctx (emit_step (advance_slot emit ctx) ctx)"
proof
  fix s s' assume emitted: "emit_step (advance_slot emit ctx) ctx s = Inr s'"
  note final = emit_step_final [OF emitted] and run = emission.emit_step_run [OF assms emitted]
  show "ballot_steps ctx s s'" if "phase s \<noteq> PhaseExternalize"
    using run [OF that] by (simp add: own_run_def)
  show "current_message_level s' = current_message_level s"
    using run emit_externalized_fields(8) [OF final] by (auto simp: own_run_def)
  show "flags_kept s s'"
    using run emit_externalized_fields(9,11) [OF final] by (cases "phase s = PhaseExternalize") (auto simp: own_run_def)
  show "emit_externalized ctx s s'" if "phase s = PhaseExternalize"
    using final [OF that] .
qed

interpretation emitted: emission ctx "emit_current_state n ctx" for ctx n
proof (induction n)
  case 0
  show ?case by unfold_locales simp_all
next
  case (Suc n)
  then show ?case by (simp add: emission_next)
qed

section \<open>The entry points\<close>

text \<open>A balanced run: a sequence of steps that ends at the recursion level at which it began.\<close>

definition ballot_run :: "slot_context \<Rightarrow> ballot_protocol \<Rightarrow> ballot_protocol \<Rightarrow> bool" where
  "ballot_run ctx s s' \<longleftrightarrow> ballot_steps ctx s s' \<and> current_message_level s' = current_message_level s"

lemma ballot_run_refl [simp, intro]: "ballot_run ctx s s"
  by (simp add: ballot_run_def)

lemma own_run_ballot: "own_run ctx s t \<Longrightarrow> ballot_run ctx s t"
  by (simp add: own_run_def ballot_run_def)

text \<open>
  An envelope that is stored may clear the flag first, and the rest is the node's own. The slot
  learns of such a clearing from the validation it passed in.
\<close>

definition stored_flag :: "validation_level \<Rightarrow> ballot_protocol \<Rightarrow> bool" where
  "stored_flag validation s =
     (if phase s \<noteq> PhaseExternalize \<and> clears_fully_validated validation then False else fully_validated s)"

lemma process_envelope_stored:
  assumes "process_envelope ctx env validation s = Inr (r, s')" "r \<noteq> EnvInvalid"
  shows "ballot_step ctx s (s\<lparr>fully_validated := stored_flag validation s,
           latest_envelopes := AList.update (st_node_id (env_statement env)) env (latest_envelopes s)\<rparr>)"
    and "own_run ctx (s\<lparr>fully_validated := stored_flag validation s,
           latest_envelopes := AList.update (st_node_id (env_statement env)) env (latest_envelopes s)\<rparr>) s'"
proof -
  let ?st = "env_statement env"
  let ?n = "st_node_id ?st"
  let ?s2 = "s\<lparr>fully_validated := stored_flag validation s,
    latest_envelopes := AList.update ?n env (latest_envelopes s)\<rparr>"
  from assms have new: "\<not> is_nomination (st_pledges ?st)" "is_newer_statement ?n ?st s"
    by (auto simp: process_envelope_def Let_def split: if_splits)
  from assms have "phase s = PhaseExternalize \<Longrightarrow> statement_value_matches_commit (commit s) (st_pledges ?st)"
    by (auto simp: process_envelope_def Let_def split: if_splits)
  then show "ballot_step ctx s ?s2"
    using new by (intro StoreEnvelope) (auto simp: stored_flag_def split: if_splits)
  have same: "?s2 = s\<lparr>latest_envelopes := AList.update ?n env (latest_envelopes s)\<rparr>"
    if "stored_flag validation s = fully_validated s"
    using that by simp
  have "s' = ?s2 \<or> (\<exists>r. advance_slot (emit_now ctx) ctx ?st ?s2 = Inr (r, s'))"
    using assms new same by (auto simp: process_envelope_def Let_def stored_flag_def split: if_splits)
  then show "own_run ctx ?s2 s'" using emitted.advance_slot_run by blast
qed

lemma ballot_rejects:
  assumes "process_envelope ctx env validation s = Inr (EnvInvalid, s')"
  shows "s' = s"
proof -
  have "advance_slot emit ctx st s \<noteq> Inr (EnvInvalid, t)" for emit st s t
    by (auto simp: advance_slot_def Let_def bindE_Inr_iff split: if_splits)
  with assms show ?thesis by (auto simp: process_envelope_def Let_def split: if_splits)
qed

theorem process_envelope_run:
  assumes "process_envelope ctx env validation s = Inr (r, s')"
  shows "ballot_run ctx s s'"
proof (cases "r = EnvInvalid")
  case False
  from process_envelope_stored [OF assms False] show ?thesis
    by (auto simp: own_run_def ballot_run_def intro: converse_rtranclp_into_rtranclp)
qed (use assms ballot_rejects in blast)

theorem bump_run: "bump ctx v force s = Inr (w, s') \<Longrightarrow> own_run ctx s s'"
  by (auto simp: bump_def split: if_splits intro: emitted.bump_state_run(1))

theorem bump_timeout_run:
  assumes "bump_timeout ctx composite s = Inr (w, s')"
  shows "own_run ctx s s'"
proof -
  let ?s1 = "s\<lparr>timer_exp_count := u32_saturating_add (timer_exp_count s) 1, composite_candidate := composite\<rparr>"
  have "own_run ctx s ?s1"
    by (rule own_run_step [OF TimerExpired]) auto
  with assms emitted.abandon_ballot_run show ?thesis
    by (auto simp: bump_timeout_def intro: own_run_trans)
qed

text \<open>What holds of every step holds of every entry point.\<close>

lemma ballot_run_induct [consumes 1, case_names refl step]:
  assumes "ballot_run ctx s s'" "\<And>s. R s s"
    and "\<And>r s t. R r s \<Longrightarrow> ballot_step ctx s t \<Longrightarrow> R r t"
  shows "R s s'"
proof -
  from assms(1) have "ballot_steps ctx s s'" by (simp add: ballot_run_def)
  then show ?thesis by (induction rule: rtranclp_induct) (use assms(2,3) in blast)+
qed

lemma ballot_run_keeps:
  assumes "ballot_run ctx s s'" "P s" "\<And>s t. P s \<Longrightarrow> ballot_step ctx s t \<Longrightarrow> P t"
  shows "P s'"
  using assms(1,2) by (induction rule: ballot_run_induct) (use assms(3) in blast)+

end
