(* ===== verification/Ballot_Progress.thy ===== *)
theory Ballot_Progress
  imports Ballot_Steps
begin

text \<open>
  The ballot protocol only moves forward. The relation \<open>step_le\<close> between the state before and after
  an operation says: the phase advances, or it stays and the current ballot does not decrease; the
  latest statement of every node is kept or replaced by a newer one; after externalisation the
  ballots and the announced value are frozen; and a slot that is not fully validated stays so.
\<close>

section \<open>The forward relation\<close>

definition ballots_le :: "ballot_protocol \<Rightarrow> ballot_protocol \<Rightarrow> bool" where
  "ballots_le s s' \<longleftrightarrow>
     phase_rank (phase s) < phase_rank (phase s') \<or>
     phase s = phase s' \<and> current_ballot s \<le> current_ballot s'"

definition envelopes_le :: "ballot_protocol \<Rightarrow> ballot_protocol \<Rightarrow> bool" where
  "envelopes_le s s' \<longleftrightarrow>
     (\<forall>n e. map_of (latest_envelopes s) n = Some e \<longrightarrow>
        (\<exists>e'. map_of (latest_envelopes s') n = Some e' \<and>
           (env_statement e = env_statement e' \<or>
            is_newer_ballot_st (env_statement e) (env_statement e'))))"

definition same_ballots :: "ballot_protocol \<Rightarrow> ballot_protocol \<Rightarrow> bool" where
  "same_ballots s s' \<longleftrightarrow>
     current_ballot s' = current_ballot s \<and> prepared s' = prepared s \<and>
     prepared_prime s' = prepared_prime s \<and> high_ballot s' = high_ballot s \<and>
     commit s' = commit s \<and> phase s' = phase s"

definition frozen :: "ballot_protocol \<Rightarrow> ballot_protocol \<Rightarrow> bool" where
  "frozen s s' \<longleftrightarrow>
     (phase s = PhaseExternalize \<longrightarrow> same_ballots s s' \<and> externalized_values s' = externalized_values s)"

definition step_le :: "ballot_protocol \<Rightarrow> ballot_protocol \<Rightarrow> bool" where
  "step_le s s' \<longleftrightarrow>
     ballots_le s s' \<and> envelopes_le s s' \<and> frozen s s' \<and> (fully_validated s' \<longrightarrow> fully_validated s)"

lemma phase_rank_eq [simp]: "phase_rank p = phase_rank q \<longleftrightarrow> p = q"
  by (cases p; cases q) simp_all

lemma envelopes_le_same: "latest_envelopes s' = latest_envelopes s \<Longrightarrow> envelopes_le s s'"
  by (auto simp: envelopes_le_def)

lemma envelopes_le_update:
  assumes "is_newer_statement n (env_statement env) s"
    and "latest_envelopes s' = AList.update n env (latest_envelopes s)"
  shows "envelopes_le s s'"
  using assms by (auto simp: envelopes_le_def is_newer_statement_def update_conv')

lemma envelopes_le_trans:
  assumes "envelopes_le r s" "envelopes_le s t"
  shows "envelopes_le r t"
  unfolding envelopes_le_def
proof (intro allI impI)
  fix n e assume "map_of (latest_envelopes r) n = Some e"
  with assms(1) obtain e1 where e1: "map_of (latest_envelopes s) n = Some e1"
    "env_statement e = env_statement e1 \<or> is_newer_ballot_st (env_statement e) (env_statement e1)"
    by (auto simp: envelopes_le_def)
  with assms(2) obtain e2 where e2: "map_of (latest_envelopes t) n = Some e2"
    "env_statement e1 = env_statement e2 \<or> is_newer_ballot_st (env_statement e1) (env_statement e2)"
    unfolding envelopes_le_def by blast
  with ballot_fresh.newer_eq_trans [OF e1(2) e2(2)] show
    "\<exists>e'. map_of (latest_envelopes t) n = Some e' \<and>
       (env_statement e = env_statement e' \<or> is_newer_ballot_st (env_statement e) (env_statement e'))"
    by blast
qed

lemma step_le_refl [simp, intro]: "step_le s s"
  by (simp add: step_le_def ballots_le_def envelopes_le_same frozen_def same_ballots_def)

lemma step_le_trans [trans]: "step_le r s \<Longrightarrow> step_le s t \<Longrightarrow> step_le r t"
  unfolding step_le_def
  by (auto simp: ballots_le_def frozen_def same_ballots_def intro: envelopes_le_trans order_trans)

text \<open>A step that leaves the ballots alone, and a step before externalisation.\<close>

lemma step_le_same:
  assumes "same_ballots s s'" "envelopes_le s s'" "externalized_values s' = externalized_values s"
    and "fully_validated s' \<Longrightarrow> fully_validated s"
  shows "step_le s s'"
  using assms by (auto simp: step_le_def ballots_le_def frozen_def same_ballots_def)

lemma step_le_ballots:
  assumes "phase s \<noteq> PhaseExternalize" "ballots_le s s'" "bookkeeping s' = bookkeeping s"
  shows "step_le s s'"
  using assms(1,2) bookkeepingD [OF assms(3)] by (auto simp: step_le_def frozen_def envelopes_le_same)

section \<open>Every step moves forward\<close>

lemma le_max_option: "x \<le> Some (case x of Some cur \<Rightarrow> max cur b | None \<Rightarrow> (b :: scp_ballot))"
  by (auto split: option.splits)

lemma update_current_if_needed_le:
  "update_current_if_needed ctx b s = (w, s') \<Longrightarrow> current_ballot s \<le> current_ballot s'"
  by (simp add: update_current_if_needed_current le_max_option)

lemma update_current_value_le:
  assumes "update_current_value ctx b s = (w, s')"
  shows "current_ballot s \<le> current_ballot s'"
  using assms
proof (cases rule: update_current_value_cases)
  case (2 w1)
  then show ?thesis using bump_to_ballot_check [OF 2(1)] by (auto split: if_splits option.splits)
qed simp

lemma emit_externalized_envelopes_le:
  assumes "emit_externalized ctx s s'"
  shows "envelopes_le s s'"
proof (cases "s' = s")
  case False
  with assms obtain st env can_emit where emitted: "emit_statement ctx s = Some (st, env, can_emit)"
    and "is_newer_statement (local_node_id ctx) st s"
    and "s' = send_latest_envelope (record_self ctx env can_emit s)"
    by (auto simp: emit_externalized_def)
  with emit_statement_env(1) [OF emitted] show ?thesis
    by (intro envelopes_le_update [of "local_node_id ctx" env]) simp_all
qed (simp add: envelopes_le_same)

theorem ballot_step_le: "ballot_step ctx s t \<Longrightarrow> step_le s t"
proof (induction rule: ballot_step.induct)
  case (AcceptPrepared s b w t)
  then show ?case
    using set_accept_prepared_fields [OF AcceptPrepared(4)] by (auto intro!: step_le_ballots simp: ballots_le_def)
next
  case (ConfirmPrepared s h c w t)
  note f = set_confirm_prepared_fields [OF ConfirmPrepared(6)]
  from ConfirmPrepared(6) have "current_ballot s \<le> current_ballot t"
    by (cases rule: set_confirm_prepared_cases) (auto dest: update_current_if_needed_le)
  with f ConfirmPrepared(1) show ?case by (auto intro!: step_le_ballots simp: ballots_le_def)
next
  case (AcceptCommit s v lo hi w t)
  show ?case
  proof (cases "phase s")
    case PhasePrepare
    with set_accept_commit_prepare(3,7) [OF AcceptCommit(7)] show ?thesis
      by (auto intro!: step_le_ballots simp: ballots_le_def)
  next
    case PhaseConfirm
    note f = set_accept_commit_confirm [OF AcceptCommit(7) PhaseConfirm]
    from f(8) have "current_ballot s \<le> current_ballot t"
      by (auto simp: le_max_option split: if_splits)
    with f(3,7) PhaseConfirm show ?thesis by (auto intro!: step_le_ballots simp: ballots_le_def)
  qed (use AcceptCommit(1) in simp)
next
  case (ConfirmCommit s cm v lo hi w u t)
  note f = emit_externalized_fields [OF ConfirmCommit(9)]
  note g = bookkeepingD [OF update_current_if_needed_fields(5) [OF ConfirmCommit(8)]]
  have "envelopes_le s t"
    using emit_externalized_envelopes_le [OF ConfirmCommit(9)] g(1) by (simp add: envelopes_le_def)
  with f g ConfirmCommit(1) show ?case
    by (auto simp: step_le_def ballots_le_def frozen_def envelopes_le_def)
next
  case (BumpBallot s n v w t)
  then show ?case
    using update_current_value_fields [OF BumpBallot(2)] update_current_value_le [OF BumpBallot(2)]
    by (auto intro!: step_le_ballots simp: ballots_le_def)
next
  case (RecordSelf s st env can_emit fv ncv)
  with emit_statement_env(1) [OF RecordSelf(2)] show ?case
    by (intro step_le_same envelopes_le_update [of "local_node_id ctx" env]) (auto simp: same_ballots_def)
next
  case (StoreEnvelope env s fv)
  then show ?case
    by (intro step_le_same envelopes_le_update [of "st_node_id (env_statement env)" env])
      (auto simp: same_ballots_def)
qed (auto intro!: step_le_same envelopes_le_same simp: same_ballots_def)

lemma ballot_run_le: "ballot_run ctx s s' \<Longrightarrow> step_le s s'"
  by (induction rule: ballot_run_induct) (auto intro: step_le_trans ballot_step_le)

end
