(* ===== verification/Ballot_Safety.thy ===== *)
theory Ballot_Safety
  imports Ballot_Progress
begin

text \<open>
  The safety invariant of the ballot protocol: \<open>p'\<close> is below and incompatible with \<open>p\<close>, the commit
  ballot is below and compatible with the high ballot, which is below and compatible with the
  current ballot, and the later phases have the ballots they speak about. It holds of every state
  that the entry points reach, whatever envelopes they are given.
\<close>

section \<open>Reachable states\<close>

text \<open>
  The inputs of a running slot, and the states a node reaches that takes part in the slot from the start
  (\<open>ballot_reachable\<close>). A slot may also be restored from a statement that the node made before it was
  restarted, or be declared externalised while catching up (\<open>ballot_state\<close>, every state a slot can be in).
\<close>

inductive ballot_input :: "slot_context \<Rightarrow> ballot_protocol \<Rightarrow> ballot_protocol \<Rightarrow> bool" for ctx where
  Receive: "process_envelope ctx env validation s = Inr (r, s') \<Longrightarrow> ballot_input ctx s s'"
| Start: "bump ctx v force s = Inr (w, s') \<Longrightarrow> ballot_input ctx s s'"
| Timeout: "bump_timeout ctx composite s = Inr (w, s') \<Longrightarrow> ballot_input ctx s s'"
| Abandon: "abandon_ballot (emit_now ctx) ctx n s = Inr (w, s') \<Longrightarrow> ballot_input ctx s s'"
| BumpState: "bump_state (emit_now ctx) ctx v n s = Inr (w, s') \<Longrightarrow> ballot_input ctx s s'"

inductive ballot_reachable :: "slot_context \<Rightarrow> ballot_protocol \<Rightarrow> bool" for ctx where
  Init: "ballot_reachable ctx new_ballot_protocol"
| Input: "ballot_reachable ctx s \<Longrightarrow> ballot_input ctx s s' \<Longrightarrow> ballot_reachable ctx s'"
| Composite: "ballot_reachable ctx s \<Longrightarrow> ballot_reachable ctx (set_composite_candidate v s)"
| TakeStop: "ballot_reachable ctx s \<Longrightarrow> ballot_reachable ctx (snd (take_needs_stop_nomination s))"
| TakeClear: "ballot_reachable ctx s \<Longrightarrow> ballot_reachable ctx (snd (take_needs_clear_slot_validation s))"
| SetValidated: "ballot_reachable ctx s \<Longrightarrow> ballot_reachable ctx (set_fully_validated fv s)"

lemma ballot_input_run: "ballot_input ctx s s' \<Longrightarrow> ballot_run ctx s s'"
  by (auto elim!: ballot_input.cases intro: process_envelope_run
      own_run_ballot [OF bump_run] own_run_ballot [OF bump_timeout_run]
      own_run_ballot [OF emitted.abandon_ballot_run] own_run_ballot [OF emitted.bump_state_run(1)])

inductive ballot_state :: "slot_context \<Rightarrow> ballot_protocol \<Rightarrow> bool" for ctx where
  Fresh: "ballot_state ctx new_ballot_protocol"
| Stepped: "ballot_state ctx s \<Longrightarrow> ballot_input ctx s s' \<Longrightarrow> ballot_state ctx s'"
| SetComposite: "ballot_state ctx s \<Longrightarrow> ballot_state ctx (set_composite_candidate v s)"
| TakenStop: "ballot_state ctx s \<Longrightarrow> ballot_state ctx (snd (take_needs_stop_nomination s))"
| TakenClear: "ballot_state ctx s \<Longrightarrow> ballot_state ctx (snd (take_needs_clear_slot_validation s))"
| Validated: "ballot_state ctx s \<Longrightarrow> ballot_state ctx (set_fully_validated fv s)"
| Forced: "ballot_state ctx s \<Longrightarrow> ballot_state ctx (force_externalize v s)"
| Restored: "ballot_state ctx before \<Longrightarrow> emit_statement ctx before = Some (st, env, ce) \<Longrightarrow>
    set_state_from_envelope ctx env new_ballot_protocol = Inr s \<Longrightarrow> ballot_state ctx s"

lemma ballot_reachable_state: "ballot_reachable ctx s \<Longrightarrow> ballot_state ctx s"
  by (induction rule: ballot_reachable.induct) (auto intro: ballot_state.intros)

lemma ballot_reachable_keeps:
  assumes "ballot_reachable ctx s" "P new_ballot_protocol"
    and "\<And>s t. P s \<Longrightarrow> ballot_step ctx s t \<Longrightarrow> P t"
    and "\<And>s v. P s \<Longrightarrow> P (s\<lparr>composite_candidate := v\<rparr>)"
    and "\<And>s v. P s \<Longrightarrow> P (s\<lparr>needs_stop_nomination := v\<rparr>)"
    and "\<And>s v. P s \<Longrightarrow> P (s\<lparr>needs_clear_slot_validation := v\<rparr>)"
    and "\<And>s v. P s \<Longrightarrow> P (s\<lparr>fully_validated := v\<rparr>)"
  shows "P s"
  using assms(1)
proof induction
  case (Input s s')
  then show ?case using ballot_run_keeps [OF ballot_input_run] assms(3) by blast
qed (use assms(2,4-) in \<open>auto simp: set_composite_candidate_def take_needs_stop_nomination_def
      take_needs_clear_slot_validation_def set_fully_validated_def\<close>)

section \<open>The invariant\<close>

definition prepared_ordered :: "ballot_protocol \<Rightarrow> bool" where
  "prepared_ordered s \<longleftrightarrow>
     (case prepared_prime s of
        None \<Rightarrow> True
      | Some p' \<Rightarrow> (case prepared s of None \<Rightarrow> False | Some p \<Rightarrow> are_ballots_less_and_incompatible p' p))"

definition high_below_current :: "ballot_protocol \<Rightarrow> bool" where
  "high_below_current s \<longleftrightarrow>
     (case high_ballot s of
        None \<Rightarrow> True
      | Some h \<Rightarrow> (case current_ballot s of None \<Rightarrow> False | Some b \<Rightarrow> are_ballots_less_and_compatible h b))"

definition commit_below_high :: "ballot_protocol \<Rightarrow> bool" where
  "commit_below_high s \<longleftrightarrow>
     (case commit s of
        None \<Rightarrow> True
      | Some c \<Rightarrow> (case high_ballot s of None \<Rightarrow> False | Some h \<Rightarrow> are_ballots_less_and_compatible c h))"

text \<open>
  In the confirm phase the value is held by the override, or, after a restart, by the commit ballot and by a
  prepared ballot of the same value.
\<close>

definition value_held :: "ballot_protocol \<Rightarrow> scp_value \<Rightarrow> bool" where
  "value_held s v \<longleftrightarrow>
     value_override s = Some v \<or>
     commit s \<noteq> None \<and> prepared_prime s = None \<and> map_option bvalue (prepared s) = Some v"

definition phase_ballots :: "ballot_protocol \<Rightarrow> bool" where
  "phase_ballots s \<longleftrightarrow>
     (case phase s of
        PhasePrepare \<Rightarrow> True
      | PhaseConfirm \<Rightarrow> (\<exists>h. high_ballot s = Some h \<and> value_held s (bvalue h))
      | PhaseExternalize \<Rightarrow> high_ballot s \<noteq> None \<and> commit s \<noteq> None)"

definition ballot_inv :: "ballot_protocol \<Rightarrow> bool" where
  "ballot_inv s \<longleftrightarrow> prepared_ordered s \<and> high_below_current s \<and> commit_below_high s \<and> phase_ballots s"

lemmas ballot_inv_defs = ballot_inv_def prepared_ordered_def high_below_current_def commit_below_high_def
  phase_ballots_def value_held_def

lemma ballot_inv_cong:
  assumes "current_ballot t = current_ballot s" "prepared t = prepared s" "prepared_prime t = prepared_prime s"
    "high_ballot t = high_ballot s" "commit t = commit s" "phase t = phase s" "value_override t = value_override s"
  shows "ballot_inv t = ballot_inv s"
  using assms by (simp add: ballot_inv_defs cong: option.case_cong ballot_phase.case_cong)

text \<open>Accepting prepared keeps the two prepared ballots ordered.\<close>

lemma set_prepared_ordered:
  assumes "set_prepared ctx b s = (w, t)" "prepared_ordered s" "\<not> skip_candidate s b"
  shows "prepared_ordered t"
  using assms
  by (auto simp: set_prepared_def prepared_ordered_def skip_candidate_def Let_def less_and_compatible_iff
      ballot_compatible_def not_less cmp_def split: option.splits if_splits ordering.splits)


text \<open>Raising the current ballot keeps the high and commit ballots below it, or forgets them.\<close>

lemma bump_to_ballot_inv:
  assumes "bump_to_ballot ctx b True s = (w, t)" "high_below_current s" "commit_below_high s"
  shows "high_below_current t" "commit_below_high t"
proof -
  have "high_below_current t \<and> commit_below_high t"
  proof (cases w)
    case True
    with bump_to_ballot_check [OF assms(1)] have cur: "current_ballot t = Some b"
      "case current_ballot s of Some cur \<Rightarrow> cur < b | None \<Rightarrow> True" by simp_all
    show ?thesis
    proof (cases "case high_ballot s of Some h \<Rightarrow> bvalue h = bvalue b | None \<Rightarrow> True")
      case True
      with bump_to_ballot_high(3) [OF assms(1)] cur assms(2,3) show ?thesis
        by (auto simp: high_below_current_def commit_below_high_def less_and_compatible_iff split: option.splits)
    next
      case False
      then obtain h where "high_ballot s = Some h" "bvalue h \<noteq> bvalue b" by (auto split: option.splits)
      with bump_to_ballot_high(4) [OF assms(1) \<open>w\<close>] show ?thesis
        by (simp add: high_below_current_def commit_below_high_def)
    qed
  next
    case False
    with bump_to_ballot_high(2) [OF assms(1)] assms(2,3) show ?thesis by simp
  qed
  then show "high_below_current t" "commit_below_high t" by simp_all
qed

lemma update_current_if_needed_inv:
  assumes "update_current_if_needed ctx b s = (w, t)" "high_below_current s" "commit_below_high s"
  shows "high_below_current t" "commit_below_high t"
  using assms by (auto elim!: update_current_if_needed_cases dest: bump_to_ballot_inv)

lemma update_current_value_inv:
  assumes "update_current_value ctx b s = (w, t)" "high_below_current s" "commit_below_high s"
  shows "high_below_current t" "commit_below_high t"
  using assms by (auto elim!: update_current_value_cases dest: bump_to_ballot_inv)

section \<open>Every step keeps the invariant\<close>

lemma set_prepared_compatible:
  assumes "set_prepared ctx b s = (w, t)" "prepared s = Some p" "are_ballots_less_and_compatible p b"
  shows "prepared_prime t = prepared_prime s" "map_option bvalue (prepared t) = Some (bvalue p)"
  using assms
  by (auto simp: set_prepared_def Let_def less_and_compatible_iff ballot_compatible_def cmp_def
      split: if_splits ordering.splits)

lemma accept_prepared_held:
  assumes acc: "set_accept_prepared Inr ctx b s = Inr (w, t)" and "\<not> skip_candidate s b" "phase s = PhaseConfirm"
    and "high_ballot s = Some h" "value_held s (bvalue h)"
  shows "value_held t (bvalue h)"
proof (cases "value_override s = Some (bvalue h)")
  case True
  with set_accept_prepared_fields(4) [OF acc] show ?thesis by (simp add: value_held_def)
next
  case False
  then obtain p where held: "commit s \<noteq> None" "prepared_prime s = None" "prepared s = Some p" "bvalue p = bvalue h"
    using assms(5) by (auto simp: value_held_def)
  then have le: "are_ballots_less_and_compatible p b" using assms(2,3) by (simp add: skip_candidate_def)
  obtain w1 t1 where prep: "set_prepared ctx b s = (w1, t1)" by fastforce
  note f = set_prepared_fields [OF prep] and g = set_prepared_compatible [OF prep held(3) le]
  have "\<not> opt_less_and_incompatible h (prepared t1)" "\<not> opt_less_and_incompatible h (prepared_prime t1)"
    using g held(2,4) by (auto simp: opt_less_and_incompatible_def are_ballots_less_and_incompatible_def ballot_compatible_def)
  with acc prep f held(1) assms(4) have "t = t1" by (auto simp: set_accept_prepared_def Let_def split: if_splits)
  with f g held show ?thesis by (simp add: value_held_def)
qed

text \<open>A commit ballot keeps the high ballot from being forgotten.\<close>

lemma update_current_value_held:
  assumes upd: "update_current_value ctx (ScpBallot n (override_value v s)) s = (w, t)"
    and "high_ballot s = Some h" "value_held s (bvalue h)" and inv: "high_below_current s" "commit_below_high s"
  shows "high_ballot t = Some h" "value_held t (bvalue h)"
proof -
  have "high_ballot t = high_ballot s \<and> commit t = commit s"
  proof (cases "value_override s = Some (bvalue h)")
    case True
    from upd show ?thesis
      by (cases rule: update_current_value_cases)
        (use bump_to_ballot_high(3) assms(2) True in \<open>fastforce simp: override_value_def\<close>)+
  next
    case False
    then obtain c where c: "commit s = Some c" using assms(3) by (auto simp: value_held_def)
    from inv(2) c assms(2) have vc: "bvalue c = bvalue h" by (auto simp: commit_below_high_def less_and_compatible_iff)
    from inv(1) assms(2) obtain cur where cur: "current_ballot s = Some cur"
      by (auto simp: high_below_current_def split: option.splits)
    let ?b = "ScpBallot n (override_value v s)"
    show ?thesis
    proof (cases "bvalue ?b = bvalue c")
      case True
      from upd show ?thesis
        by (cases rule: update_current_value_cases) (use bump_to_ballot_high(3) assms(2) True vc in fastforce)+
    next
      case False
      with upd c cur have "t = s" by (auto simp: update_current_value_def ballot_compatible_def split: if_splits)
      then show ?thesis by simp
    qed
  qed
  then show "high_ballot t = Some h" "value_held t (bvalue h)"
    using update_current_value_fields(1,2,4) [OF upd] assms(2,3) by (simp_all add: value_held_def)
qed

lemma accept_prepared_inv:
  assumes acc: "set_accept_prepared Inr ctx b s = Inr (w, t)" and "\<not> skip_candidate s b" "phase s \<noteq> PhaseExternalize"
    and inv: "ballot_inv s"
  shows "ballot_inv t"
proof -
  have "prepared_ordered t \<and> (commit t = commit s \<or> commit t = None)"
    using acc
  proof (cases rule: set_accept_prepared_cases)
    case (1 w1)
    with set_prepared_ordered [OF 1] set_prepared_fields(3) [OF 1] assms(2) inv show ?thesis by (simp add: ballot_inv_def)
  next
    case (2 w1 t1)
    have "prepared_ordered t1" using set_prepared_ordered [OF 2(1)] assms(2) inv by (simp add: ballot_inv_def)
    with 2(2) show ?thesis by (simp add: prepared_ordered_def cong: option.case_cong)
  qed
  moreover note f = set_accept_prepared_fields [OF acc]
  ultimately have "prepared_ordered t" "high_below_current t" "commit_below_high t"
    using inv by (auto simp: ballot_inv_def high_below_current_def commit_below_high_def cong: option.case_cong)
  moreover have "phase_ballots t"
  proof (cases "phase s")
    case PhaseConfirm
    with inv obtain h where "high_ballot s = Some h" "value_held s (bvalue h)"
      by (auto simp: ballot_inv_def phase_ballots_def)
    with accept_prepared_held [OF acc assms(2) PhaseConfirm] f PhaseConfirm show ?thesis
      by (simp add: phase_ballots_def)
  qed (use f(3) assms(3) in \<open>simp_all add: phase_ballots_def\<close>)
  ultimately show ?thesis by (simp add: ballot_inv_def)
qed

lemma confirm_prepared_inv:
  assumes conf: "set_confirm_prepared Inr ctx c h s = Inr (w, t)"
    and "case high_ballot s of Some high \<Rightarrow> high < h | None \<Rightarrow> True"
    and "counter c = 0 \<or> are_ballots_less_and_compatible c h"
    and "phase s = PhasePrepare" and inv: "ballot_inv s"
  shows "ballot_inv t"
proof -
  have "high_below_current t \<and> commit_below_high t"
    using conf
  proof (cases rule: set_confirm_prepared_cases)
    case (incompatible b w1)
    let ?u = "s\<lparr>value_override := Some (bvalue h)\<rparr>"
    have "high_below_current ?u" "commit_below_high ?u"
      using inv by (simp_all add: ballot_inv_defs cong: option.case_cong)
    with update_current_if_needed_inv [OF incompatible(3)] show ?thesis by simp
  next
    case (compatible u w1)
    have u: "high_ballot u = Some h" using compatible(4) assms(2) by (simp add: confirm_prepared_high_def)
    have "current_ballot t = Some (case current_ballot s of Some cur \<Rightarrow> max cur h | None \<Rightarrow> h)"
      "high_ballot t = Some h" "commit t = confirm_prepared_commit c s"
      using update_current_if_needed_current [OF compatible(2)] update_current_if_needed_high [OF compatible(2)]
        compatible(3,5) u by simp_all
    then obtain b where b: "current_ballot t = Some b" "h \<le> b" "bvalue b = bvalue h"
      using compatible(1) by (auto simp: max_def split: option.splits if_splits)
    have "are_ballots_less_and_compatible c0 h" if "commit t = Some c0" for c0
    proof (cases "commit s")
      case None
      with that \<open>commit t = confirm_prepared_commit c s\<close> assms(3) show ?thesis by (auto simp: confirm_prepared_commit_def split: if_splits)
    next
      case (Some c1)
      with inv obtain h0 cur where "high_ballot s = Some h0" "are_ballots_less_and_compatible c1 h0"
        "current_ballot s = Some cur" "are_ballots_less_and_compatible h0 cur"
        by (auto simp: ballot_inv_defs split: option.splits)
      moreover have "c0 = c1" using Some that \<open>commit t = confirm_prepared_commit c s\<close> by (simp add: confirm_prepared_commit_def)
      ultimately show ?thesis using assms(2) compatible(1) by (auto simp: less_and_compatible_iff)
    qed
    with b \<open>high_ballot t = Some h\<close> show ?thesis
      by (auto simp: high_below_current_def commit_below_high_def less_and_compatible_iff split: option.splits)
  qed
  moreover have "prepared_ordered t" "phase_ballots t"
    using set_confirm_prepared_fields [OF conf] inv assms(4)
    by (simp_all add: ballot_inv_defs cong: option.case_cong)
  ultimately show ?thesis by (simp add: ballot_inv_def)
qed

lemma accept_commit_inv:
  assumes acc: "set_accept_commit Inr ctx (ScpBallot lo v) (ScpBallot hi v) s = Inr (w, t)"
    and "phase s \<noteq> PhaseExternalize" "lo \<le> hi"
    and "phase s = PhaseConfirm \<Longrightarrow> case high_ballot s of Some high \<Rightarrow> bvalue high = v | None \<Rightarrow> True"
    and inv: "ballot_inv s"
  shows "ballot_inv t"
proof -
  let ?h = "ScpBallot hi v" and ?c = "ScpBallot lo v"
  have ch: "are_ballots_less_and_compatible ?c ?h"
    using assms(3) by (simp add: less_and_compatible_counter)
  show ?thesis
  proof (cases "phase s")
    case PhasePrepare
    note f = set_accept_commit_prepare [OF acc PhasePrepare]
    have "\<exists>b. current_ballot t = Some b \<and> are_ballots_less_and_compatible ?h b"
      using f(8) by (auto simp: less_and_compatible_counter split: option.splits if_splits)
    with f ch show ?thesis by (auto simp: ballot_inv_defs)
  next
    case PhaseConfirm
    note f = set_accept_commit_confirm [OF acc PhaseConfirm]
    from inv PhaseConfirm obtain high cur where high: "high_ballot s = Some high" "current_ballot s = Some cur"
      "are_ballots_less_and_compatible high cur"
      by (auto simp: ballot_inv_defs split: option.splits)
    with assms(4) PhaseConfirm have v: "bvalue cur = v" by (simp add: less_and_compatible_iff)
    have "\<exists>b. current_ballot t = Some b \<and> are_ballots_less_and_compatible ?h b"
      using f(8) high v by (auto simp: less_and_compatible_iff max_def split: if_splits)
    moreover have "prepared_ordered t"
      using f(4,5) inv by (simp add: ballot_inv_defs cong: option.case_cong)
    ultimately show ?thesis using f ch by (auto simp: ballot_inv_defs)
  qed (use assms(2) in simp)
qed

lemma confirm_commit_inv:
  assumes "update_current_if_needed ctx (ScpBallot hi v) s = (w, u)"
    and "emit_externalized ctx (u\<lparr>commit := Some (ScpBallot lo v), high_ballot := Some (ScpBallot hi v),
          phase := PhaseExternalize\<rparr>) t"
    and "commit s = Some cm" "bvalue cm = v" "lo \<le> hi" and inv: "ballot_inv s"
  shows "ballot_inv t"
proof -
  note f = emit_externalized_fields [OF assms(2)] and g = update_current_if_needed_fields [OF assms(1)]
  from inv assms(3) obtain high cur where "high_ballot s = Some high" "are_ballots_less_and_compatible cm high"
    "current_ballot s = Some cur" "are_ballots_less_and_compatible high cur"
    by (auto simp: ballot_inv_defs split: option.splits)
  with assms(4) update_current_if_needed_current [OF assms(1)]
  have "\<exists>b. current_ballot u = Some b \<and> are_ballots_less_and_compatible (ScpBallot hi v) b"
    by (auto simp: less_and_compatible_iff max_def)
  moreover have "prepared_ordered t"
    using f g inv by (simp add: ballot_inv_defs cong: option.case_cong)
  ultimately show ?thesis
    using f assms(5) by (auto simp: ballot_inv_defs less_and_compatible_counter)
qed

lemma bump_ballot_inv:
  assumes upd: "update_current_value ctx (ScpBallot n (override_value v s)) s = (w, t)"
    and "phase s \<noteq> PhaseExternalize" and inv: "ballot_inv s"
  shows "ballot_inv t"
proof -
  note f = update_current_value_fields [OF upd]
  have "phase_ballots t"
  proof (cases "phase s")
    case PhaseConfirm
    with inv obtain h where h: "high_ballot s = Some h" "value_held s (bvalue h)"
      by (auto simp: ballot_inv_def phase_ballots_def)
    from update_current_value_held [OF upd h] inv f(3) PhaseConfirm show ?thesis
      by (simp add: ballot_inv_def phase_ballots_def)
  qed (use f(3) assms(2) in \<open>simp_all add: phase_ballots_def\<close>)
  moreover have "prepared_ordered t"
    using f inv by (simp add: ballot_inv_defs cong: option.case_cong)
  ultimately show ?thesis
    using update_current_value_inv [OF upd] inv by (simp add: ballot_inv_def)
qed

theorem ballot_step_inv: "ballot_step ctx s t \<Longrightarrow> ballot_inv s \<Longrightarrow> ballot_inv t"
proof (induction rule: ballot_step.induct)
  case (AcceptPrepared s b w t)
  then show ?case using accept_prepared_inv by blast
next
  case (ConfirmPrepared s h c w t)
  then show ?case using confirm_prepared_inv [OF ConfirmPrepared(6)] by blast
next
  case (AcceptCommit s v lo hi w t)
  then show ?case using accept_commit_inv [OF AcceptCommit(7)] by blast
next
  case (ConfirmCommit s cm v lo hi w u t)
  have "ballot_inv t" using confirm_commit_inv [OF ConfirmCommit(8,9,3,4,6)] ConfirmCommit.prems by blast
  then show ?case by (rule iffD2 [OF ballot_inv_cong, rotated -1]) simp_all
next
  case (BumpBallot s n v w t)
  then show ?case using bump_ballot_inv by blast
qed (erule iffD2 [OF ballot_inv_cong, rotated -1]; simp)+

lemma ballot_run_inv: "ballot_run ctx s s' \<Longrightarrow> ballot_inv s \<Longrightarrow> ballot_inv s'"
  using ballot_run_keeps [where P = ballot_inv] ballot_step_inv by blast

lemma ballot_reachable_inv:
  assumes "ballot_reachable ctx s"
  shows "ballot_inv s"
  using assms
proof (rule ballot_reachable_keeps)
  show "ballot_inv new_ballot_protocol" by (simp add: ballot_inv_defs new_ballot_protocol_def)
  show "ballot_inv t" if "ballot_inv s" "ballot_step ctx s t" for s t
    using ballot_step_inv that by blast
qed (erule iffD2 [OF ballot_inv_cong, rotated -1]; simp)+


text \<open>A restored node has the ballots it spoke of before, a forced one has its ballot everywhere.\<close>

lemma restored_ballots:
  fixes ctx
  defines "r \<equiv> \<lambda>pl. restore_pledges ctx pl new_ballot_protocol"
  shows "current_ballot (r (Prepare p)) = Some (prep_ballot p)" "prepared (r (Prepare p)) = prep_prepared p"
    "prepared_prime (r (Prepare p)) = prep_prepared_prime p" "phase (r (Prepare p)) = PhasePrepare"
    "commit (r (Prepare p)) =
       (if prep_n_c p \<noteq> 0 then Some (ScpBallot (prep_n_c p) (bvalue (prep_ballot p))) else None)"
    "high_ballot (r (Prepare p)) =
       (if prep_n_h p \<noteq> 0 then Some (ScpBallot (prep_n_h p) (bvalue (prep_ballot p))) else None)"
    and "current_ballot (r (Confirm c)) = Some (conf_ballot c)"
    "prepared (r (Confirm c)) = Some (ScpBallot (conf_n_prepared c) (bvalue (conf_ballot c)))"
    "prepared_prime (r (Confirm c)) = None" "phase (r (Confirm c)) = PhaseConfirm"
    "commit (r (Confirm c)) = Some (ScpBallot (conf_n_commit c) (bvalue (conf_ballot c)))"
    "high_ballot (r (Confirm c)) = Some (ScpBallot (conf_n_h c) (bvalue (conf_ballot c)))"
    and "current_ballot (r (Externalize e)) = Some (ScpBallot u32_max (bvalue (ext_commit e)))"
    "prepared_prime (r (Externalize e)) = None" "phase (r (Externalize e)) = PhaseExternalize"
    "commit (r (Externalize e)) = Some (ext_commit e)"
    "high_ballot (r (Externalize e)) = Some (ScpBallot (ext_n_h e) (bvalue (ext_commit e)))"
  by (simp_all add: r_def restore_pledges_def bump_to_ballot_def ballot_compatible_def new_ballot_protocol_def Let_def)

lemma u32_max_top: "n \<le> u32_max"
  using unat_u32_bound [of n] by (simp add: u32_max_def word_le_nat_alt)

lemma restored_inv:
  assumes inv: "ballot_inv before" and emit: "emit_statement ctx before = Some (st, env, ce)"
    and restore: "set_state_from_envelope ctx env new_ballot_protocol = Inr s"
  shows "ballot_inv s"
proof -
  let ?r = "restore_pledges ctx (st_pledges st) new_ballot_protocol"
  have "ballot_inv ?r"
  proof (cases "phase before")
    case PhasePrepare
    with emit obtain p where p: "st_pledges st = Prepare p"
      "prep_ballot p = (case current_ballot before of Some b \<Rightarrow> b | None \<Rightarrow> ScpBallot 0 [])"
      "prep_prepared p = prepared before" "prep_prepared_prime p = prepared_prime before"
      "prep_n_c p = opt_counter (commit before)" "prep_n_h p = opt_counter (high_ballot before)"
      by (auto simp: emit_statement_def emit_prepare_def create_signed_envelope_def Let_def)
    show ?thesis
      using inv p
      by (cases "high_ballot before"; cases "commit before")
        (auto simp: ballot_inv_defs restored_ballots opt_counter_def less_and_compatible_counter
          split: option.splits)
  next
    case PhaseConfirm
    with emit obtain c b where c: "st_pledges st = Confirm c" "current_ballot before = Some b" "conf_ballot c = b"
      "conf_n_commit c = opt_counter (commit before)" "conf_n_h c = opt_counter (high_ballot before)"
      by (auto simp: emit_statement_def emit_confirm_def create_signed_envelope_def Let_def split: option.splits)
    from inv PhaseConfirm obtain h where h: "high_ballot before = Some h" "are_ballots_less_and_compatible h b"
      using c(2) by (auto simp: ballot_inv_defs)
    have "opt_counter (commit before) \<le> counter h"
      using inv h(1) by (auto simp: ballot_inv_defs opt_counter_def less_and_compatible_counter split: option.splits)
    with c h show ?thesis
      by (simp add: ballot_inv_defs restored_ballots opt_counter_def less_and_compatible_counter)
  next
    case PhaseExternalize
    with emit obtain e c where e: "st_pledges st = Externalize e" "commit before = Some c" "ext_commit e = c"
      "ext_n_h e = opt_counter (high_ballot before)"
      by (auto simp: emit_statement_def emit_externalize_def create_signed_envelope_def Let_def split: option.splits)
    from inv e(2) obtain h where "high_ballot before = Some h" "are_ballots_less_and_compatible c h"
      by (auto simp: ballot_inv_defs split: option.splits)
    with e show ?thesis
      by (simp add: ballot_inv_defs restored_ballots opt_counter_def less_and_compatible_counter u32_max_top)
  qed
  moreover have "ballot_inv s = ballot_inv ?r"
    using restore emit_statement_env [OF emit]
    by (intro ballot_inv_cong) (auto simp: set_state_from_envelope_def Let_def split: if_splits)
  ultimately show ?thesis by simp
qed

lemma forced_inv: "ballot_inv s \<Longrightarrow> ballot_inv (force_externalize v s)"
  by (simp add: force_externalize_def ballot_inv_defs less_and_compatible_iff Let_def cong: option.case_cong)

lemma ballot_state_inv: "ballot_state ctx s \<Longrightarrow> ballot_inv s"
proof (induction rule: ballot_state.induct)
  case Fresh
  show ?case by (simp add: ballot_inv_defs new_ballot_protocol_def)
next
  case (Stepped s s')
  then show ?case using ballot_run_inv ballot_input_run by blast
next
  case (Forced s v)
  then show ?case by (simp add: forced_inv)
next
  case (Restored before st env ce s)
  then show ?case using restored_inv by blast
qed (erule iffD2 [OF ballot_inv_cong, rotated -1]; simp add: set_composite_candidate_def take_needs_stop_nomination_def
      take_needs_clear_slot_validation_def set_fully_validated_def)+

text \<open>
  C7. Every input (an envelope, a bump, a timeout, an abandoned ballot, a bumped state) moves the ballot protocol forward: the phase
  never goes back, the current ballot never decreases within a phase, a peer's latest statement is
  only replaced by a newer one, and an externalised slot keeps its ballots and its announced value;
  and the recursion counter is back where it was.
\<close>

theorem ballot_input_moves_forward:
  assumes "ballot_input ctx s s'"
  shows "step_le s s' \<and> current_message_level s' = current_message_level s"
  using ballot_input_run [OF assms] ballot_run_le by (simp add: ballot_run_def)

theorem ballot_input_moves_forward_witness:
  "step_le new_ballot_protocol solo_externalized \<and>
   current_message_level solo_externalized = current_message_level new_ballot_protocol"
  by (rule ballot_input_moves_forward [OF Start [OF solo_bump]])

text \<open>
  C8. In every state a slot can be in - reached by inputs from the start, restored from a statement the node
  made before a restart, or declared externalised while catching up - the protocol's own consistency
  check finds the prepared ballots ordered, the high ballot below the current one and the commit ballot
  below the high one; beyond the prepare phase there are a current and a high ballot, and a slot that has
  externalised has a commit ballot as well.
\<close>

theorem reachable_check_invariants:
  assumes "ballot_state ctx s"
  shows "check_prepared_prime s = Inr () \<and> check_high s = Inr () \<and> check_commit s = Inr () \<and>
         (phase s \<noteq> PhasePrepare \<longrightarrow> current_ballot s \<noteq> None \<and> high_ballot s \<noteq> None) \<and>
         (phase s = PhaseExternalize \<longrightarrow> commit s \<noteq> None)"
proof -
  note inv = ballot_state_inv [OF assms]
  have 1: "check_prepared_prime s = Inr ()"
    using inv by (auto simp: ballot_inv_defs check_prepared_prime_def split: option.splits)
  have 2: "check_high s = Inr ()" "check_commit s = Inr ()"
    using inv by (auto simp: ballot_inv_defs check_high_def check_commit_def split: option.splits)
  have 3: "current_ballot s \<noteq> None \<and> high_ballot s \<noteq> None" if "phase s \<noteq> PhasePrepare"
    using inv that by (cases "phase s") (auto simp: ballot_inv_defs split: option.splits)
  have 4: "commit s \<noteq> None" if "phase s = PhaseExternalize"
    using inv that by (auto simp: ballot_inv_defs)
  from 1 2 3 4 show ?thesis by blast
qed

lemma solo_reachable: "ballot_reachable solo_context solo_externalized"
  by (rule ballot_reachable.Input [OF ballot_reachable.Init Start [OF solo_bump]])

theorem reachable_check_invariants_witness:
  "check_prepared_prime solo_externalized = Inr () \<and> check_high solo_externalized = Inr () \<and>
   check_commit solo_externalized = Inr ()"
  using reachable_check_invariants [OF ballot_reachable_state [OF solo_reachable]] by blast

end
