(* ===== verification/Ballot_Emission.thy ===== *)
theory Ballot_Emission
  imports Ballot_Safety
begin

text \<open>
  What a node tells the others and its driver: the statements it emits are strictly increasing in
  freshness, so that every receiver accepts each of them after the previous one, and a value is
  announced as externalised at most once, namely when the slot externalises.
\<close>

section \<open>Emitted statements\<close>

definition same_or_newer :: "scp_envelope \<Rightarrow> scp_envelope \<Rightarrow> bool" where
  "same_or_newer e e' \<longleftrightarrow>
     env_statement e = env_statement e' \<or> is_newer_ballot_st (env_statement e) (env_statement e')"

definition emission_inv :: "slot_context \<Rightarrow> ballot_protocol \<Rightarrow> bool" where
  "emission_inv ctx s \<longleftrightarrow>
     sorted_wrt is_newer_ballot_st (emitted_statements s) \<and>
     (\<forall>st \<in> set (emitted_statements s). st_node_id st = local_node_id ctx) \<and>
     (case last_envelope_emit s of
        None \<Rightarrow> emitted_statements s = []
      | Some e \<Rightarrow> emitted_statements s \<noteq> [] \<and> last (emitted_statements s) = env_statement e \<and>
          (\<exists>e'. last_envelope s = Some e' \<and> (e = e' \<or> is_newer_ballot_st (env_statement e) (env_statement e')))) \<and>
     (case last_envelope s of
        None \<Rightarrow> True
      | Some e \<Rightarrow> st_node_id (env_statement e) = local_node_id ctx \<and>
          (\<exists>e'. map_of (latest_envelopes s) (local_node_id ctx) = Some e' \<and> same_or_newer e e'))"

lemma emission_inv_cong:
  assumes "emitted_statements t = emitted_statements s" "last_envelope_emit t = last_envelope_emit s"
    "last_envelope t = last_envelope s" "latest_envelopes t = latest_envelopes s"
  shows "emission_inv ctx t = emission_inv ctx s"
  using assms by (simp add: emission_inv_def cong: option.case_cong)

lemma emission_inv_bookkeeping: "bookkeeping t = bookkeeping s \<Longrightarrow> emission_inv ctx t = emission_inv ctx s"
  by (rule emission_inv_cong) (auto dest: bookkeepingD)

lemma newer_than_last:
  assumes "emission_inv ctx s" "is_newer_statement (local_node_id ctx) st s" "last_envelope s = Some e"
  shows "is_newer_ballot_st (env_statement e) st"
  using assms ballot_fresh.newer_trans
  by (auto simp: emission_inv_def is_newer_statement_def same_or_newer_def)

lemma emission_inv_record:
  assumes "emission_inv ctx s" "is_newer_statement (local_node_id ctx) (env_statement env) s"
    and "st_node_id (env_statement env) = local_node_id ctx"
  shows "emission_inv ctx (record_self ctx env can_emit s)"
proof -
  have newer: "is_newer_ballot_st (env_statement e) (env_statement env)" if "last_envelope s = Some e" for e
    using newer_than_last assms(1,2) that by blast
  then have emit: "is_newer_ballot_st (env_statement e) (env_statement env)" if "last_envelope_emit s = Some e" for e
    using that assms(1) ballot_fresh.newer_trans by (fastforce simp: emission_inv_def)
  show ?thesis
    using assms newer emit
    by (auto simp: emission_inv_def same_or_newer_def update_conv' split: option.splits)
qed

lemma emission_inv_store:
  assumes "emission_inv ctx s" "is_newer_statement n (env_statement env) s"
  shows "emission_inv ctx (s\<lparr>latest_envelopes := AList.update n env (latest_envelopes s)\<rparr>)"
proof -
  have "is_newer_ballot_st (env_statement e) (env_statement env)"
    if "last_envelope s = Some e" "n = local_node_id ctx" for e
    using newer_than_last assms that by blast
  with assms(1) show ?thesis
    by (auto simp: emission_inv_def same_or_newer_def update_conv' split: option.splits)
qed

lemma emission_inv_send:
  assumes "emission_inv ctx s"
  shows "emission_inv ctx (send_latest_envelope s)"
proof (cases "send_latest_envelope s = s")
  case False
  then obtain env where env: "last_envelope s = Some env" "last_envelope_emit s \<noteq> Some env"
    and send: "send_latest_envelope s = notify (EmitEnvelope env) (s\<lparr>last_envelope_emit := Some env\<rparr>)"
    by (auto simp: send_latest_envelope_def split: if_splits option.splits)
  have "is_newer_ballot_st (last (emitted_statements s)) (env_statement env)" if "emitted_statements s \<noteq> []"
    using assms env that by (auto simp: emission_inv_def split: option.splits)
  with assms have "sorted_wrt is_newer_ballot_st (emitted_statements s @ [env_statement env])"
    by (intro ballot_fresh.sorted_wrt_snoc) (auto simp: emission_inv_def)
  with assms env show ?thesis by (auto simp: send emission_inv_def)
qed (use assms in simp)

lemma emission_inv_externalized:
  assumes "emit_externalized ctx s s'" "emission_inv ctx s"
  shows "emission_inv ctx s'"
proof (cases "s' = s")
  case False
  with assms(1) obtain st env can_emit where emitted: "emit_statement ctx s = Some (st, env, can_emit)"
    and new: "is_newer_statement (local_node_id ctx) st s"
    and s': "s' = send_latest_envelope (record_self ctx env can_emit s)"
    by (auto simp: emit_externalized_def)
  have "emission_inv ctx (record_self ctx env can_emit s)"
    using emission_inv_record assms(2) new emit_statement_env(1,2) [OF emitted] by blast
  then show ?thesis unfolding s' by (rule emission_inv_send)
qed (use assms(2) in simp)

lemma ballot_step_emission_inv:
  "ballot_step ctx s t \<Longrightarrow> emission_inv ctx s \<Longrightarrow> emission_inv ctx t"
proof (induction rule: ballot_step.induct)
  case (AcceptPrepared s b w t)
  then show ?case using emission_inv_bookkeeping set_accept_prepared_fields(5) by blast
next
  case (ConfirmPrepared s h c w t)
  then show ?case using emission_inv_bookkeeping set_confirm_prepared_fields(5) by blast
next
  case (AcceptCommit s v lo hi w t)
  then show ?case
    using emission_inv_bookkeeping set_accept_commit_fields(2) [OF AcceptCommit(7,1)] by blast
next
  case (ConfirmCommit s cm v lo hi w u t)
  let ?v = "u\<lparr>commit := Some (ScpBallot lo v), high_ballot := Some (ScpBallot hi v), phase := PhaseExternalize\<rparr>"
  have "bookkeeping ?v = bookkeeping s"
    using update_current_if_needed_fields(5) [OF ConfirmCommit(8)] by simp
  with ConfirmCommit.prems have "emission_inv ctx ?v" using emission_inv_bookkeeping by blast
  then have "emission_inv ctx t" by (rule emission_inv_externalized [OF ConfirmCommit(9)])
  then show ?case by (rule iffD2 [OF emission_inv_cong, rotated -1]) simp_all
next
  case (BumpBallot s n v w t)
  then show ?case using emission_inv_bookkeeping update_current_value_fields(5) by blast
next
  case (RecordSelf s st env can_emit fv ncv)
  have "emission_inv ctx (s\<lparr>fully_validated := fv, needs_clear_slot_validation := ncv\<rparr>)"
    using RecordSelf.prems by (rule iffD2 [OF emission_inv_cong, rotated -1]) simp_all
  with RecordSelf(4) emit_statement_env(1,2) [OF RecordSelf(2)] show ?case
    by (intro emission_inv_record) (auto simp: is_newer_statement_def)
next
  case (StoreEnvelope env s fv)
  have "emission_inv ctx (s\<lparr>fully_validated := fv\<rparr>)"
    using StoreEnvelope.prems by (rule iffD2 [OF emission_inv_cong, rotated -1]) simp_all
  with StoreEnvelope(2) emission_inv_store [of ctx "s\<lparr>fully_validated := fv\<rparr>"] show ?case
    by (auto simp: is_newer_statement_def)
next
  case (HeardFromQuorum s)
  then show ?case by (simp add: emission_inv_bookkeeping [OF check_heard_from_quorum_fields(8)])
next
  case (SendLatest s)
  then show ?case by (rule emission_inv_send)
qed (erule iffD2 [OF emission_inv_cong, rotated -1]; simp)+


lemma ballot_reachable_emission_inv:
  assumes "ballot_reachable ctx s"
  shows "emission_inv ctx s"
  using assms
proof (rule ballot_reachable_keeps)
  show "emission_inv ctx new_ballot_protocol"
    by (simp add: emission_inv_def new_ballot_protocol_def emitted_statements_def map_filter_simps)
  show "emission_inv ctx t" if "emission_inv ctx s" "ballot_step ctx s t" for s t
    using ballot_step_emission_inv that by blast
qed (erule iffD2 [OF emission_inv_cong, rotated -1]; simp)+

section \<open>The externalised value\<close>

definition announced_inv :: "ballot_protocol \<Rightarrow> bool" where
  "announced_inv s \<longleftrightarrow> ballot_inv s \<and>
     externalized_values s = (case get_externalized_value s of None \<Rightarrow> [] | Some v \<Rightarrow> [v])"

text \<open>After externalisation the current, the high and the commit ballot have the same value.\<close>

lemma externalized_value_commit:
  assumes "ballot_inv s" "phase s = PhaseExternalize" "commit s = Some c"
  shows "get_externalized_value s = Some (bvalue c)"
  using assms
  by (auto simp: ballot_inv_defs get_externalized_value_def less_and_compatible_iff split: option.splits)

text \<open>A step announces nothing and leaves the externalised value, or externalises and announces the value.\<close>

definition announces :: "ballot_protocol \<Rightarrow> ballot_protocol \<Rightarrow> bool" where
  "announces s t \<longleftrightarrow>
     (if phase s \<noteq> PhaseExternalize \<and> phase t = PhaseExternalize
      then \<exists>v. externalized_values t = externalized_values s @ [v] \<and> get_externalized_value t = Some v
      else externalized_values t = externalized_values s \<and> phase_rank (phase s) \<le> phase_rank (phase t) \<and>
        (phase s = PhaseExternalize \<longrightarrow> current_ballot t = current_ballot s))"

lemma announces_nothing:
  assumes "externalized_values t = externalized_values s" "phase t = phase s"
    "phase s = PhaseExternalize \<Longrightarrow> current_ballot t = current_ballot s"
  shows "announces s t"
  using assms by (auto simp: announces_def)

lemma ballot_step_announces:
  assumes step: "ballot_step ctx s t" and "ballot_inv s"
  shows "announces s t"
proof -
  have inv: "ballot_inv t" using assms ballot_step_inv by blast
  show ?thesis using step
  proof cases
    case (AcceptPrepared b w)
    note f = set_accept_prepared_fields [OF AcceptPrepared(4)]
    show ?thesis by (rule announces_nothing) (use f bookkeepingD(6) [OF f(5)] in simp_all)
  next
    case (ConfirmPrepared h c w)
    note f = set_confirm_prepared_fields [OF ConfirmPrepared(6)]
    show ?thesis by (rule announces_nothing) (use f bookkeepingD(6) [OF f(5)] ConfirmPrepared(1) in simp_all)
  next
    case (AcceptCommit v lo hi w)
    note f = set_accept_commit_fields [OF AcceptCommit(7,1)]
    with bookkeepingD(6) [OF f(2)] AcceptCommit(1) show ?thesis
      by (cases "phase s") (simp_all add: announces_def)
  next
    case (ConfirmCommit cm v lo hi w u t1)
    note f = emit_externalized_fields [OF ConfirmCommit(10)]
    note g = bookkeepingD [OF update_current_if_needed_fields(5) [OF ConfirmCommit(9)]]
    have "externalized_values t = externalized_values s @ [v]" "phase t = PhaseExternalize"
      using f g by (simp_all add: ConfirmCommit(1))
    moreover have "get_externalized_value t = Some v"
      using externalized_value_commit [OF inv, of "ScpBallot lo v"] f by (simp add: ConfirmCommit(1))
    ultimately show ?thesis using ConfirmCommit(2) by (simp add: announces_def)
  next
    case (BumpBallot n v w)
    note f = update_current_value_fields [OF BumpBallot(2)]
    show ?thesis by (rule announces_nothing) (use f bookkeepingD(6) [OF f(5)] BumpBallot(1) in simp_all)
  qed (rule announces_nothing; simp)+
qed

lemma ballot_step_announced_inv:
  assumes "ballot_step ctx s t" "announced_inv s"
  shows "announced_inv t"
proof -
  from assms(2) have inv: "ballot_inv s" by (simp add: announced_inv_def)
  from ballot_step_announces [OF assms(1) inv] ballot_step_inv [OF assms(1) inv] assms(2) show ?thesis
    by (cases "phase s"; cases "phase t") (auto simp: announced_inv_def announces_def get_externalized_value_def)
qed

lemma ballot_reachable_announced:
  assumes "ballot_reachable ctx s"
  shows "announced_inv s"
  using assms
proof (rule ballot_reachable_keeps)
  show "announced_inv new_ballot_protocol"
    by (simp add: announced_inv_def ballot_inv_defs new_ballot_protocol_def externalized_values_def
        map_filter_simps get_externalized_value_def)
  show "announced_inv t" if "announced_inv s" "ballot_step ctx s t" for s t
    using ballot_step_announced_inv that by blast
qed (auto simp: announced_inv_def get_externalized_value_def elim!: iffD2 [OF ballot_inv_cong, rotated -1])

text \<open>Restoring a slot or declaring it externalised announces nothing.\<close>

lemma restored_silent:
  "set_state_from_envelope ctx env new_ballot_protocol = Inr s \<Longrightarrow> externalized_values s = []"
  by (auto simp: set_state_from_envelope_def restore_pledges_def bump_to_ballot_def new_ballot_protocol_def
      ballot_compatible_def notify_def externalized_values_def map_filter_simps Let_def
      split: if_splits scp_pledges.splits)

lemma forced_silent: "externalized_values (force_externalize v s) = externalized_values s"
  by (simp add: force_externalize_def externalized_values_def Let_def)

definition announced_late :: "ballot_protocol \<Rightarrow> bool" where
  "announced_late s \<longleftrightarrow>
     length (externalized_values s) \<le> 1 \<and> (phase s \<noteq> PhaseExternalize \<longrightarrow> externalized_values s = [])"

lemma announced_late_step:
  "announces s t \<Longrightarrow> announced_late s \<Longrightarrow> announced_late t"
  by (cases "phase s"; cases "phase t") (auto simp: announces_def announced_late_def)

lemma ballot_state_announced: "ballot_state ctx s \<Longrightarrow> announced_late s"
proof (induction rule: ballot_state.induct)
  case Fresh
  show ?case by (simp add: announced_late_def new_ballot_protocol_def externalized_values_def map_filter_simps)
next
  case (Stepped s s')
  have "ballot_inv s' \<and> announced_late s'"
    using ballot_run_keeps [OF ballot_input_run [OF Stepped.hyps(2)], of "\<lambda>s. ballot_inv s \<and> announced_late s"]
      ballot_step_inv ballot_step_announces announced_late_step ballot_state_inv [OF Stepped.hyps(1)] Stepped.IH
    by blast
  then show ?case by simp
next
  case (Forced s v)
  then show ?case by (simp add: announced_late_def forced_silent) (simp add: force_externalize_def Let_def)
next
  case (Restored before st env ce s)
  then show ?case by (simp add: announced_late_def restored_silent)
qed (simp_all add: announced_late_def set_composite_candidate_def take_needs_stop_nomination_def
      take_needs_clear_slot_validation_def set_fully_validated_def)

text \<open>
  C9. The driver is told of an externalised value at most once in a slot, and not before the slot has
  externalised. In a slot in which the node takes part from the start it is told exactly when the
  slot externalises, of the value that the slot reports. Declaring a slot externalised
  (\<open>force_externalize\<close>, while catching up) and restoring it from a saved statement tell the driver nothing. In
  every case the reported value is that of the commit ballot.
\<close>

theorem externalized_announced_once:
  assumes "ballot_state ctx s"
  shows "length (externalized_values s) \<le> 1 \<and> (\<not> is_externalized s \<longrightarrow> externalized_values s = []) \<and>
         (ballot_reachable ctx s \<longrightarrow>
            externalized_values s = (case get_externalized_value s of None \<Rightarrow> [] | Some v \<Rightarrow> [v])) \<and>
         (\<forall>v. externalized_values (force_externalize v s) = externalized_values s) \<and>
         (\<forall>env s'. set_state_from_envelope ctx env new_ballot_protocol = Inr s' \<longrightarrow> externalized_values s' = []) \<and>
         (is_externalized s \<longleftrightarrow> get_externalized_value s \<noteq> None) \<and>
         (is_externalized s \<longrightarrow> get_externalized_value s = map_option bvalue (commit s))"
proof -
  have "externalized_values s = (case get_externalized_value s of None \<Rightarrow> [] | Some v \<Rightarrow> [v])" if "ballot_reachable ctx s"
    using ballot_reachable_announced [OF that] by (simp add: announced_inv_def)
  moreover have "(is_externalized s \<longleftrightarrow> get_externalized_value s \<noteq> None) \<and>
      (is_externalized s \<longrightarrow> get_externalized_value s = map_option bvalue (commit s))"
    using ballot_state_inv [OF assms]
    by (auto simp: is_externalized_def get_externalized_value_def ballot_inv_defs less_and_compatible_iff split: option.splits)
  ultimately show ?thesis
    using ballot_state_announced [OF assms] forced_silent restored_silent
    by (simp add: announced_late_def is_externalized_def)
qed

theorem externalized_announced_once_witness:
  "externalized_values solo_externalized = [[5]] \<and>
   externalized_values (force_externalize [6] solo_externalized) = [[5]]"
  using externalized_announced_once [OF ballot_reachable_state [OF solo_reachable]] solo_reachable solo_value by simp

text \<open>
  C10. The statements a node emits in a slot are its own and strictly increase in freshness, in
  whatever order envelopes, timeouts and votes arrive.
\<close>

theorem emitted_statements_increase:
  assumes "ballot_reachable ctx s"
  shows "sorted_wrt is_newer_ballot_st (emitted_statements s) \<and> distinct (emitted_statements s) \<and>
         (\<forall>st \<in> set (emitted_statements s). st_node_id st = local_node_id ctx)"
  using ballot_reachable_emission_inv [OF assms] ballot_fresh.sorted_wrt_distinct
  by (simp add: emission_inv_def)

theorem emitted_statements_increase_witness: "distinct (emitted_statements solo_externalized)"
  using emitted_statements_increase [OF solo_reachable] by blast

end
