(* ===== verification/Ballot_Agreement.thy ===== *)
theory Ballot_Agreement
  imports Ballot_Emission Quorum_Correct
begin

text \<open>
  Agreement. Once a node has accepted a commit, the value it speaks for is fixed; so a node never
  makes confirm or externalise statements for two values. Two nodes confirm a commit on the
  statements of one quorum each; when these quorums share a node that follows the protocol, the two
  nodes externalise the same value.
\<close>

section \<open>The committed value is fixed\<close>

definition committed_value :: "ballot_protocol \<Rightarrow> scp_value option" where
  "committed_value s = (if phase s = PhasePrepare then None else map_option bvalue (high_ballot s))"

lemma committed_value_Some:
  "ballot_inv s \<Longrightarrow> phase s \<noteq> PhasePrepare \<Longrightarrow> \<exists>v. committed_value s = Some v"
  by (cases "phase s") (auto simp: committed_value_def ballot_inv_defs)

lemma committed_value_same:
  "phase t = phase s \<Longrightarrow> high_ballot t = high_ballot s \<Longrightarrow> committed_value t = committed_value s"
  by (simp add: committed_value_def)

lemma ballot_step_committed_value:
  assumes "ballot_step ctx s t" "ballot_inv s" "committed_value s = Some v"
  shows "committed_value t = Some v"
proof -
  from assms(3) have ph: "phase s \<noteq> PhasePrepare" and v: "map_option bvalue (high_ballot s) = Some v"
    by (auto simp: committed_value_def split: if_splits)
  from assms(1) show ?thesis
  proof cases
    case (AcceptPrepared b w)
    from committed_value_same set_accept_prepared_fields(2,3) [OF AcceptPrepared(4)] assms(3)
    show ?thesis by metis
  next
    case (ConfirmPrepared h c w)
    with ph show ?thesis by simp
  next
    case (AcceptCommit v' lo hi w)
    with ph have c: "phase s = PhaseConfirm" by (cases "phase s") auto
    with AcceptCommit(2) v have "v' = v" by auto
    with set_accept_commit_confirm(1,3) [OF AcceptCommit(7) c] show ?thesis
      by (simp add: committed_value_def)
  next
    case (ConfirmCommit cm v' lo hi w u t1)
    note f = emit_externalized_fields [OF ConfirmCommit(10)]
    have "v' = v" using assms(2) ConfirmCommit(4,5) v
      by (auto simp: ballot_inv_defs less_and_compatible_iff split: option.splits)
    with f show ?thesis by (simp add: committed_value_def ConfirmCommit(1))
  next
    case (BumpBallot n v' w)
    then have c: "phase s = PhaseConfirm" using ph by (cases "phase s") auto
    from assms(2) c obtain h where h: "high_ballot s = Some h" "value_held s (bvalue h)"
      by (auto simp: ballot_inv_def phase_ballots_def)
    have "high_ballot t = high_ballot s"
      using update_current_value_held(1) [OF BumpBallot(2) h] assms(2) h(1) by (simp add: ballot_inv_def)
    with committed_value_same update_current_value_fields(3) [OF BumpBallot(2)] assms(3) show ?thesis
      by metis
  qed (use ph v in \<open>simp_all add: committed_value_def\<close>)
qed

text \<open>The history of a slot: the steps of its inputs and the flags that the slot itself writes.\<close>

definition slot_write :: "ballot_protocol \<Rightarrow> ballot_protocol \<Rightarrow> bool" where
  "slot_write s t \<longleftrightarrow>
     (\<exists>v stop clear fv. t = s\<lparr>composite_candidate := v, needs_stop_nomination := stop,
        needs_clear_slot_validation := clear, fully_validated := fv\<rparr>)"

abbreviation ballot_history :: "slot_context \<Rightarrow> ballot_protocol \<Rightarrow> ballot_protocol \<Rightarrow> bool" where
  "ballot_history ctx \<equiv> (\<lambda>s t. ballot_step ctx s t \<or> slot_write s t)\<^sup>*\<^sup>*"

lemma slot_write_keeps:
  assumes "slot_write s t"
  shows "ballot_inv t = ballot_inv s" "committed_value t = committed_value s"
    "emitted_statements t = emitted_statements s" "last_envelope t = last_envelope s"
proof -
  from assms obtain v stop clear fv where t: "t = s\<lparr>composite_candidate := v, needs_stop_nomination := stop,
      needs_clear_slot_validation := clear, fully_validated := fv\<rparr>"
    by (auto simp: slot_write_def)
  show "ballot_inv t = ballot_inv s" by (rule ballot_inv_cong) (simp_all add: t)
  show "committed_value t = committed_value s" "emitted_statements t = emitted_statements s"
    "last_envelope t = last_envelope s" by (simp_all add: t committed_value_def)
qed

lemma ballot_history_committed_value:
  assumes "ballot_history ctx s t" "ballot_inv s" "committed_value s = Some v"
  shows "committed_value t = Some v \<and> ballot_inv t"
  using assms(1)
proof (induction rule: rtranclp_induct)
  case base
  show ?case using assms(2,3) by simp
next
  case (step t u)
  from step(2) show ?case
  proof
    assume "ballot_step ctx t u"
    with step(3) ballot_step_committed_value ballot_step_inv show ?thesis by blast
  next
    assume "slot_write t u"
    from slot_write_keeps(1,2) [OF this] step(3) show ?thesis by simp
  qed
qed

section \<open>What a node says\<close>

text \<open>
  A statement that the node makes in some state of a run that ends in \<open>s\<close>. Every statement it
  emits is one of them.
\<close>

definition said_by :: "slot_context \<Rightarrow> ballot_protocol \<Rightarrow> scp_statement \<Rightarrow> bool" where
  "said_by ctx s st \<longleftrightarrow>
     (\<exists>r env can_emit. ballot_inv r \<and> ballot_history ctx r s \<and> emit_statement ctx r = Some (st, env, can_emit))"

text \<open>The value for which a statement accepts a commit.\<close>

fun accepted_commit_value :: "scp_pledges \<Rightarrow> scp_value option" where
  "accepted_commit_value (Confirm c) = Some (bvalue (conf_ballot c))"
| "accepted_commit_value (Externalize e) = Some (bvalue (ext_commit e))"
| "accepted_commit_value _ = None"

lemma commit_predicate_value:
  "commit_predicate b i pl \<Longrightarrow> accepted_commit_value pl = Some (bvalue b)"
  by (cases i; cases pl) (auto simp: ballot_compatible_def split: if_splits)

lemma emit_statement_committed_value:
  assumes "emit_statement ctx r = Some (st, env, ce)" "ballot_inv r"
    and "accepted_commit_value (st_pledges st) = Some v"
  shows "committed_value r = Some v"
  using assms
  by (auto simp: emit_statement_def emit_prepare_def emit_confirm_def emit_externalize_def
      create_signed_envelope_def Let_def committed_value_def ballot_inv_defs less_and_compatible_iff
      split: ballot_phase.splits option.splits)

lemma said_by_one_value:
  assumes "said_by ctx s st" "said_by ctx s st'"
    and "accepted_commit_value (st_pledges st) = Some v" "accepted_commit_value (st_pledges st') = Some v'"
  shows "v = v'"
proof -
  have "committed_value s = Some v" if "said_by ctx s st" "accepted_commit_value (st_pledges st) = Some v" for st v
    using that emit_statement_committed_value ballot_history_committed_value unfolding said_by_def by blast
  from this [OF assms(1,3)] this [OF assms(2,4)] show ?thesis by simp
qed

text \<open>The statements that are emitted, or about to be, are said.\<close>

definition said_inv :: "slot_context \<Rightarrow> ballot_protocol \<Rightarrow> bool" where
  "said_inv ctx s \<longleftrightarrow> ballot_inv s \<and>
     (\<forall>st \<in> set (emitted_statements s). said_by ctx s st) \<and>
     (\<forall>e. last_envelope s = Some e \<longrightarrow> said_by ctx s (env_statement e))"

lemma said_by_extend:
  "said_by ctx s st \<Longrightarrow> ballot_step ctx s t \<or> slot_write s t \<Longrightarrow> said_by ctx t st"
  unfolding said_by_def
  using rtranclp.rtrancl_into_rtrancl [of "\<lambda>s t. ballot_step ctx s t \<or> slot_write s t"] by blast

lemma said_by_now:
  "ballot_inv s \<Longrightarrow> emit_statement ctx s = Some (st, env, ce) \<Longrightarrow> said_by ctx s st"
  unfolding said_by_def by blast

lemma emit_statement_cong:
  assumes "current_ballot t = current_ballot s" "prepared t = prepared s" "prepared_prime t = prepared_prime s"
    "high_ballot t = high_ballot s" "commit t = commit s" "phase t = phase s"
  shows "emit_statement ctx t = emit_statement ctx s"
  using assms
  by (simp add: emit_statement_def emit_prepare_def emit_confirm_def emit_externalize_def
      cong: option.case_cong split: ballot_phase.splits)

lemma said_inv_step:
  assumes "said_inv ctx s" "ballot_step ctx s t"
    and "\<And>st. st \<in> set (emitted_statements t) \<Longrightarrow> st \<in> set (emitted_statements s) \<or>
           (\<exists>e. last_envelope s = Some e \<and> st = env_statement e) \<or> said_by ctx t st"
    and "\<And>e. last_envelope t = Some e \<Longrightarrow> last_envelope s = Some e \<or> said_by ctx t (env_statement e)"
  shows "said_inv ctx t"
  using assms said_by_extend ballot_step_inv unfolding said_inv_def by blast

lemma send_latest_emits:
  "st \<in> set (emitted_statements (send_latest_envelope s)) \<Longrightarrow>
     st \<in> set (emitted_statements s) \<or> (\<exists>e. last_envelope s = Some e \<and> st = env_statement e)"
  by (auto simp: send_latest_envelope_def split: if_splits option.splits)

lemma ballot_step_said_inv:
  assumes "ballot_step ctx s t" "said_inv ctx s"
  shows "said_inv ctx t"
  using assms(1)
proof cases
  case (AcceptPrepared b w)
  note bk = bookkeepingD [OF set_accept_prepared_fields(5) [OF AcceptPrepared(4)]]
  show ?thesis by (rule said_inv_step [OF assms(2,1)]) (simp_all add: bk)
next
  case (ConfirmPrepared h c w)
  note bk = bookkeepingD [OF set_confirm_prepared_fields(5) [OF ConfirmPrepared(6)]]
  show ?thesis by (rule said_inv_step [OF assms(2,1)]) (simp_all add: bk)
next
  case (AcceptCommit v lo hi w)
  note bk = bookkeepingD [OF set_accept_commit_fields(2) [OF AcceptCommit(7,1)]]
  show ?thesis by (rule said_inv_step [OF assms(2,1)]) (simp_all add: bk)
next
  case (ConfirmCommit cm v lo hi w u t1)
  note bk = bookkeepingD [OF update_current_if_needed_fields(5) [OF ConfirmCommit(9)]]
  have inv: "ballot_inv t" using assms ballot_step_inv by (simp add: said_inv_def)
  let ?u = "u\<lparr>commit := Some (ScpBallot lo v), high_ballot := Some (ScpBallot hi v), phase := PhaseExternalize\<rparr>"
  show ?thesis
  proof (cases "t1 = ?u")
    case True
    then show ?thesis by (intro said_inv_step [OF assms(2,1)]) (simp_all add: ConfirmCommit(1) bk)
  next
    case False
    with ConfirmCommit(10) obtain st env ce where st: "emit_statement ctx ?u = Some (st, env, ce)"
      and t1: "t1 = send_latest_envelope (record_self ctx env ce ?u)"
      by (auto simp: emit_externalized_def)
    have "emit_statement ctx t = emit_statement ctx ?u"
      using emit_externalized_fields [OF ConfirmCommit(10)]
      by (intro emit_statement_cong) (simp_all add: ConfirmCommit(1))
    then have said: "said_by ctx t (env_statement env)"
      using said_by_now [OF inv] st emit_statement_env(1) [OF st] by simp
    show ?thesis
    proof (rule said_inv_step [OF assms(2,1)])
      show "last_envelope s = Some e \<or> said_by ctx t (env_statement e)" if "last_envelope t = Some e" for e
        using that said bk by (auto simp: ConfirmCommit(1) t1 split: if_splits)
      show "st' \<in> set (emitted_statements s) \<or> (\<exists>e. last_envelope s = Some e \<and> st' = env_statement e) \<or>
        said_by ctx t st'" if "st' \<in> set (emitted_statements t)" for st'
        using that said bk send_latest_emits [of st' "record_self ctx env ce ?u"]
        by (auto simp: ConfirmCommit(1) t1 split: if_splits)
    qed
  qed
next
  case (BumpBallot n v w)
  note bk = bookkeepingD [OF update_current_value_fields(5) [OF BumpBallot(2)]]
  show ?thesis by (rule said_inv_step [OF assms(2,1)]) (simp_all add: bk)
next
  case (RecordSelf st env ce fv ncv)
  have inv: "ballot_inv t" using assms ballot_step_inv by (simp add: said_inv_def)
  have "emit_statement ctx t = emit_statement ctx s"
    by (rule emit_statement_cong) (simp_all add: RecordSelf(1))
  then have "said_by ctx t (env_statement env)"
    using said_by_now [OF inv] RecordSelf(3) emit_statement_env(1) [OF RecordSelf(3)] by simp
  then show ?thesis
    by (intro said_inv_step [OF assms(2,1)]) (auto simp: RecordSelf(1) split: if_splits)
next
  case SendLatest
  then show ?thesis
    using send_latest_emits by (intro said_inv_step [OF assms(2,1)]) (auto simp: SendLatest)
qed (rule said_inv_step [OF assms(2,1)]; simp)+


lemma slot_write_fields:
  "slot_write s (s\<lparr>composite_candidate := v\<rparr>)"
  "slot_write s (s\<lparr>needs_stop_nomination := q\<rparr>)"
  "slot_write s (s\<lparr>needs_clear_slot_validation := q\<rparr>)"
  "slot_write s (s\<lparr>fully_validated := q\<rparr>)"
proof -
  have "slot_write s (s\<lparr>composite_candidate := x, needs_stop_nomination := a,
      needs_clear_slot_validation := b, fully_validated := c\<rparr>)" for x a b c
    unfolding slot_write_def by blast
  note all = this
  note all [where x = v and a = "needs_stop_nomination s" and b = "needs_clear_slot_validation s" and c = "fully_validated s"]
    all [where x = "composite_candidate s" and a = q and b = "needs_clear_slot_validation s" and c = "fully_validated s"]
    all [where x = "composite_candidate s" and a = "needs_stop_nomination s" and b = q and c = "fully_validated s"]
    all [where x = "composite_candidate s" and a = "needs_stop_nomination s" and b = "needs_clear_slot_validation s" and c = q]
  then
  show "slot_write s (s\<lparr>composite_candidate := v\<rparr>)" "slot_write s (s\<lparr>needs_stop_nomination := q\<rparr>)"
    "slot_write s (s\<lparr>needs_clear_slot_validation := q\<rparr>)" "slot_write s (s\<lparr>fully_validated := q\<rparr>)"
    by simp_all
qed

lemma slot_write_said_inv:
  assumes "said_inv ctx s" "slot_write s t"
  shows "said_inv ctx t"
proof -
  have "said_by ctx t st" if "said_by ctx s st" for st
    using said_by_extend that assms(2) by blast
  with assms(1) slot_write_keeps [OF assms(2)] show ?thesis by (simp add: said_inv_def)
qed

lemma ballot_reachable_said:
  assumes "ballot_reachable ctx s"
  shows "said_inv ctx s"
  using assms
proof (rule ballot_reachable_keeps)
  show "said_inv ctx new_ballot_protocol"
    by (simp add: said_inv_def ballot_inv_defs new_ballot_protocol_def emitted_statements_def map_filter_simps)
  show "said_inv ctx t" if "said_inv ctx s" "ballot_step ctx s t" for s t
    using ballot_step_said_inv that by blast
qed (rule slot_write_said_inv, assumption, rule slot_write_fields)+

section \<open>Agreement\<close>

text \<open>
  A quorum in the eyes of a node: nodes of its table that contain a slice of each of their own
  quorum sets, as their latest statements declare them, and a slice of its own quorum set.
\<close>

definition quorum_in :: "slot_context \<Rightarrow> ballot_protocol \<Rightarrow> node_id set \<Rightarrow> bool" where
  "quorum_in ctx s Q \<longleftrightarrow>
     Q \<subseteq> fst ` set (latest_envelopes s) \<and>
     self_sustaining is_quorum_slice (map_of (statement_quorum_set_map ctx s)) Q \<and>
     is_quorum_slice (local_quorum_set ctx) Q"

text \<open>Ratification is a quorum of nodes whose table entries all satisfy the predicate.\<close>

lemma federated_ratify_quorum:
  assumes "federated_ratify ctx p s"
  obtains Q where "quorum_in ctx s Q"
    "\<And>n. n \<in> Q \<Longrightarrow> \<exists>e. (n, e) \<in> set (latest_envelopes s) \<and> p (env_statement e)"
proof -
  from assms obtain Q where Q: "Q \<subseteq> set (nodes_where p s)"
    "self_sustaining is_quorum_slice (map_of (statement_quorum_set_map ctx s)) Q"
    "is_quorum_slice (local_quorum_set ctx) Q"
    unfolding federated_ratify_def is_quorum_iff by blast
  from Q(1) have "\<exists>e. (n, e) \<in> set (latest_envelopes s) \<and> p (env_statement e)" if "n \<in> Q" for n
    using that by (fastforce simp: nodes_where_def)
  with Q show thesis by (intro that [of Q]) (auto simp: quorum_in_def nodes_where_def image_iff)
qed

text \<open>Confirming a commit rests on such a quorum of nodes that accepted the commit of its value.\<close>

lemma attempt_confirm_commit_quorum:
  assumes "attempt_confirm_commit (emit_now ctx) ctx hint r = Inr (True, s)" "ballot_inv r"
  obtains v Q where "get_externalized_value s = Some v" "quorum_in ctx r Q"
    "\<And>n. n \<in> Q \<Longrightarrow> \<exists>e. (n, e) \<in> set (latest_envelopes r) \<and>
       accepted_commit_value (st_pledges (env_statement e)) = Some v"
proof -
  from assms(1) obtain high cm b where ph: "phase r = PhaseConfirm" "high_ballot r = Some high" "commit r = Some cm"
    and hint: "hint_ballot_for_commit (st_pledges hint) = Some b" "ballot_compatible b cm"
    by (auto simp: attempt_confirm_commit_def split: if_splits option.splits)
  let ?pred = "\<lambda>i. federated_ratify ctx (\<lambda>st. commit_predicate b i (st_pledges st)) r"
  obtain lo hi where cand:
    "find_extended_interval (0, 0) (get_commit_boundaries_from_statements b r) ?pred = (lo, hi)"
    by fastforce
  from assms(1) ph hint cand have lo: "lo \<noteq> 0"
    and set: "set_confirm_commit (emit_now ctx) ctx (ScpBallot lo (bvalue b)) (ScpBallot hi (bvalue b)) r = Inr (True, s)"
    by (auto simp: attempt_confirm_commit_def Let_def split: if_splits)
  obtain wu u where upd: "update_current_if_needed ctx (ScpBallot hi (bvalue b)) r = (wu, u)" by fastforce
  let ?s2 = "u\<lparr>commit := Some (ScpBallot lo (bvalue b)), high_ballot := Some (ScpBallot hi (bvalue b)),
    phase := PhaseExternalize\<rparr>"
  from set upd obtain s3 where s3: "emit_now ctx ?s2 = Inr s3"
    and tail: "(case commit s3 of None \<Rightarrow> Inl UnwrapNone
      | Some c \<Rightarrow> Inr (True, notify (ValueExternalized (slot_index ctx) (bvalue c))
          (s3\<lparr>needs_stop_nomination := True\<rparr>))) = Inr (True, s)"
    by (auto simp: set_confirm_commit_def Let_def)
  from emitted.emit_final [OF s3] have "emit_externalized ctx ?s2 s3" by simp
  note f = emit_externalized_fields [OF this]
  have "ballot_inv s"
    using ballot_run_inv own_run_ballot [OF emitted.attempt_confirm_commit_run [OF assms(1)]] assms(2) by blast
  moreover have "phase s = PhaseExternalize" "commit s = Some (ScpBallot lo (bvalue b))"
    using tail f by auto
  ultimately have v: "get_externalized_value s = Some (bvalue b)"
    using externalized_value_commit [of s] by simp
  from find_extended_interval_ok(1) [OF cand lo] obtain Q where "quorum_in ctx r Q"
    "\<And>n. n \<in> Q \<Longrightarrow> \<exists>e. (n, e) \<in> set (latest_envelopes r) \<and> commit_predicate b (lo, hi) (st_pledges (env_statement e))"
    by (rule federated_ratify_quorum) blast
  with v commit_predicate_value show thesis by (intro that [of "bvalue b" Q]) blast+
qed

text \<open>
  A node is well-behaved with respect to two tables when what they hold of it are statements that
  one run of the protocol made.
\<close>

definition well_behaved :: "ballot_protocol \<Rightarrow> ballot_protocol \<Rightarrow> node_id \<Rightarrow> bool" where
  "well_behaved r r' n \<longleftrightarrow>
     (\<exists>ctx s. local_node_id ctx = n \<and>
        (\<forall>e. (n, e) \<in> set (latest_envelopes r) \<union> set (latest_envelopes r') \<longrightarrow> said_by ctx s (env_statement e)))"

text \<open>
  C12. Agreement: when two nodes confirm a commit, and every quorum of the one shares a well-behaved
  node with every quorum of the other, they externalise the same value.
\<close>

theorem agreement:
  assumes "attempt_confirm_commit (emit_now ctx) ctx hint r = Inr (True, s)" "ballot_inv r"
    and "attempt_confirm_commit (emit_now ctx') ctx' hint' r' = Inr (True, s')" "ballot_inv r'"
    and "\<And>Q Q'. quorum_in ctx r Q \<Longrightarrow> quorum_in ctx' r' Q' \<Longrightarrow> \<exists>n \<in> Q \<inter> Q'. well_behaved r r' n"
  shows "\<exists>v. get_externalized_value s = Some v \<and> get_externalized_value s' = Some v"
proof -
  from assms(1,2) obtain v Q where v: "get_externalized_value s = Some v" "quorum_in ctx r Q"
    "\<And>n. n \<in> Q \<Longrightarrow> \<exists>e. (n, e) \<in> set (latest_envelopes r) \<and>
       accepted_commit_value (st_pledges (env_statement e)) = Some v"
    by (rule attempt_confirm_commit_quorum) blast
  from assms(3,4) obtain v' Q' where v': "get_externalized_value s' = Some v'" "quorum_in ctx' r' Q'"
    "\<And>n. n \<in> Q' \<Longrightarrow> \<exists>e. (n, e) \<in> set (latest_envelopes r') \<and>
       accepted_commit_value (st_pledges (env_statement e)) = Some v'"
    by (rule attempt_confirm_commit_quorum) blast
  from assms(5) [OF v(2) v'(2)] obtain n where n: "n \<in> Q" "n \<in> Q'" "well_behaved r r' n" by blast
  from v(3) [OF n(1)] v'(3) [OF n(2)] n(3) have "v = v'"
    unfolding well_behaved_def using said_by_one_value by blast
  with v(1) v'(1) show ?thesis by blast
qed

text \<open>A node that is its own quorum, on the point of confirming the commit that it has accepted.\<close>

definition solo_confirm :: scp_statement where
  "solo_confirm = \<lparr>st_node_id = [1], st_slot_index = 7, st_pledges = Confirm
     \<lparr>conf_ballot = ScpBallot 1 [5], conf_n_prepared = 1, conf_n_commit = 1, conf_n_h = 1,
      conf_quorum_set_hash = [7]\<rparr>\<rparr>"

definition solo_confirming :: ballot_protocol where
  "solo_confirming = new_ballot_protocol
     \<lparr>current_ballot := Some (ScpBallot 1 [5]), prepared := Some (ScpBallot 1 [5]),
      high_ballot := Some (ScpBallot 1 [5]), commit := Some (ScpBallot 1 [5]), phase := PhaseConfirm,
      value_override := Some [5],
      latest_envelopes := [([1], \<lparr>env_statement = solo_confirm, env_signature = []\<rparr>)]\<rparr>"

definition solo_confirmed :: "fault + (bool \<times> ballot_protocol)" where
  "solo_confirmed = attempt_confirm_commit (emit_now solo_context) solo_context solo_confirm solo_confirming"

lemma solo_confirmed: "solo_confirmed = Inr (True, snd (projr solo_confirmed))"
  by (rule Inr_TrueI) code_simp+

lemma solo_confirming_inv: "ballot_inv solo_confirming"
  by (simp add: ballot_inv_defs solo_confirming_def new_ballot_protocol_def less_and_compatible_iff)

lemma solo_confirming_emits:
  "emit_statement solo_context solo_confirming = Some (solo_confirm, \<lparr>env_statement = solo_confirm, env_signature = []\<rparr>, True)"
  by (simp add: emit_statement_def emit_confirm_def solo_confirming_def solo_confirm_def solo_context_def
      solo_driver_def create_signed_envelope_def opt_counter_def Let_def)

lemma solo_confirming_said: "said_by solo_context solo_confirming solo_confirm"
  by (rule said_by_now [OF solo_confirming_inv solo_confirming_emits])

lemma solo_well_behaved: "well_behaved solo_confirming solo_confirming [1]"
  unfolding well_behaved_def
proof (intro exI conjI allI impI)
  show "local_node_id solo_context = [1]" by (simp add: solo_context_def)
  show "said_by solo_context solo_confirming (env_statement e)"
    if "([1], e) \<in> set (latest_envelopes solo_confirming) \<union> set (latest_envelopes solo_confirming)" for e
    using that solo_confirming_said by (simp add: solo_confirming_def)
qed

lemma solo_quorum: "quorum_in solo_context s Q \<Longrightarrow> [1] \<in> Q"
  by (auto simp: quorum_in_def solo_context_def simple_quorum_set_def split: if_splits)

theorem agreement_witness:
  "\<exists>v. get_externalized_value (snd (projr solo_confirmed)) = Some v \<and>
       get_externalized_value (snd (projr solo_confirmed)) = Some v"
proof (rule agreement)
  show "attempt_confirm_commit (emit_now solo_context) solo_context solo_confirm solo_confirming =
      Inr (True, snd (projr solo_confirmed))"
    using solo_confirmed by (simp add: solo_confirmed_def)
  then show "attempt_confirm_commit (emit_now solo_context) solo_context solo_confirm solo_confirming =
      Inr (True, snd (projr solo_confirmed))" .
  show "\<exists>n \<in> Q \<inter> Q'. well_behaved solo_confirming solo_confirming n"
    if "quorum_in solo_context solo_confirming Q" "quorum_in solo_context solo_confirming Q'" for Q Q'
    using that solo_quorum solo_well_behaved by blast
qed (rule solo_confirming_inv)+

end
