(* ===== verification/Ballot_Total.thy ===== *)
theory Ballot_Total
  imports Ballot_Progress
begin

text \<open>
  The entry points of the ballot protocol never get stuck. Started at recursion level 0, the bump
  loop of \<open>advance_slot\<close> ends, no \<open>unwrap\<close> fails, and the recursion bound of the model is enough:
  the only fault left is the panic of the transition limit, which the source has itself.
\<close>

section \<open>The interface of an emission that does not get stuck\<close>

definition level_fits :: "nat \<Rightarrow> ballot_protocol \<Rightarrow> bool" where
  "level_fits depth s \<longleftrightarrow>
     unat (current_message_level s) < 50 \<and> 50 \<le> unat (current_message_level s) + depth"

locale safe_emission = emission +
  fixes depth :: nat
  assumes emit_fault: "emit s = Inl f \<Longrightarrow> level_fits depth s \<Longrightarrow> f = TransitionLimit"

text \<open>A fault of an operation is the fault of the emission that follows its quiet part.\<close>

lemma set_accept_prepared_fault:
  "set_accept_prepared emit ctx b s = Inl f \<Longrightarrow>
     \<exists>w t. set_accept_prepared Inr ctx b s = Inr (w, t) \<and> emit t = Inl f"
  by (auto simp: set_accept_prepared_def Let_def bindE_Inl_iff split: prod.splits if_splits option.splits)

lemma set_confirm_prepared_fault:
  "set_confirm_prepared emit ctx c h s = Inl f \<Longrightarrow>
     \<exists>w t. set_confirm_prepared Inr ctx c h s = Inr (w, t) \<and> emit t = Inl f"
  unfolding set_confirm_prepared_def Let_def
  by (auto simp: bindE_Inl_iff split: prod.splits if_splits)

lemma set_accept_commit_fault:
  "set_accept_commit emit ctx c h s = Inl f \<Longrightarrow>
     \<exists>w t. set_accept_commit Inr ctx c h s = Inr (w, t) \<and> emit t = Inl f"
  unfolding set_accept_commit_def Let_def
  by (auto simp: bindE_Inl_iff split: prod.splits if_splits)

lemma level_fits_bookkeeping: "bookkeeping t = bookkeeping s \<Longrightarrow> level_fits d t = level_fits d s"
  using bookkeepingD(5) [of t s] by (simp add: level_fits_def)

lemma level_fits_run: "own_run ctx s t \<Longrightarrow> level_fits d t = level_fits d s"
  by (simp add: level_fits_def own_run_def)

section \<open>A successful bump makes progress\<close>

context emission
begin

lemma bump_state_progress:
  assumes "bump_state emit ctx v n s = Inr (True, s')"
  shows "phase_rank (phase s) < phase_rank (phase s') \<or> phase s = phase s' \<and> n \<le> local_counter s'"
proof -
  from bump_state_run(2) [OF assms] obtain u where u: "phase u = phase s"
    "current_ballot u = Some (ScpBallot n (override_value v s))" "own_run ctx u s'" by blast
  from ballot_run_le [OF own_run_ballot [OF u(3)]] consider "phase_rank (phase s) < phase_rank (phase s')"
    | "phase s = phase s'" "Some (ScpBallot n (override_value v s)) \<le> current_ballot s'"
    by (auto simp: step_le_def ballots_le_def u)
  then show ?thesis
    by cases (auto simp: local_counter_def ballot_le_iff less_eq_option_def split: option.splits)
qed

lemma attempt_bump_progress:
  assumes "attempt_bump emit ctx s = Inr (True, s')"
  shows "phase_rank (phase s) < phase_rank (phase s') \<or> phase s = phase s' \<and> local_counter s < local_counter s'"
proof -
  have loop: "\<exists>n \<in> set ns. abandon_ballot emit ctx n s = Inr (True, s')"
    if "bump_counters_loop emit ctx ns s = Inr (True, s')" for ns
    using that by (induction ns) (auto split: if_splits)
  from assms loop obtain n where n: "local_counter s < n" "abandon_ballot emit ctx n s = Inr (True, s')"
    by (fastforce simp: attempt_bump_def Let_def split: if_splits)
  then have "n \<noteq> 0" by auto
  with n(2) obtain v where "bump_state emit ctx v n s = Inr (True, s')"
    by (auto simp: abandon_ballot_def Let_def split: option.splits)
  from bump_state_progress [OF this] n(1) show ?thesis by auto
qed

end

context safe_emission
begin

lemma accept_prepared_loop_fault:
  "accept_prepared_loop emit ctx bs s = Inl f \<Longrightarrow> level_fits depth s \<Longrightarrow> phase s \<noteq> PhaseExternalize \<Longrightarrow>
     f = TransitionLimit"
proof (induction bs arbitrary: s)
  case (Cons b bs)
  show ?case
  proof (cases "set_accept_prepared emit ctx b s")
    case (Inl g)
    from set_accept_prepared_fault [OF Inl] obtain w t where
      t: "set_accept_prepared Inr ctx b s = Inr (w, t)" "emit t = Inl g" by blast
    with emit_fault [of t g] Cons.prems(2) have "g = TransitionLimit"
      using level_fits_bookkeeping set_accept_prepared_fields(5) [OF t(1)] by blast
    with Inl Cons show ?thesis by (auto split: if_splits)
  next
    case (Inr r)
    obtain w s1 where r: "r = (w, s1)" by fastforce
    show ?thesis
    proof (cases w)
      case True
      with Inr r Cons show ?thesis by (auto split: if_splits)
    next
      case False
      from set_accept_prepared_quiet Inr r have "set_accept_prepared Inr ctx b s = Inr (w, s1)" using False
        by (auto simp: set_accept_prepared_def Let_def split: prod.splits if_splits option.splits)
      note f = set_accept_prepared_fields [OF this]
      have "level_fits depth s1" using Cons.prems(2) level_fits_bookkeeping f(5) by blast
      with Inr r False Cons f(3) show ?thesis by (auto split: if_splits)
    qed
  qed
qed simp

lemma attempt_accept_prepared_fault:
  "attempt_accept_prepared emit ctx hint s = Inl f \<Longrightarrow> level_fits depth s \<Longrightarrow> f = TransitionLimit"
  by (auto simp: attempt_accept_prepared_def split: if_splits intro: accept_prepared_loop_fault)

lemma attempt_confirm_prepared_fault:
  assumes "attempt_confirm_prepared emit ctx hint s = Inl f" "level_fits depth s"
  shows "f = TransitionLimit"
proof -
  from assms(1) obtain c h where "set_confirm_prepared emit ctx c h s = Inl f"
    by (auto simp: attempt_confirm_prepared_def Let_def split: if_splits option.splits)
  from set_confirm_prepared_fault [OF this] obtain w t where
    t: "set_confirm_prepared Inr ctx c h s = Inr (w, t)" "emit t = Inl f" by blast
  with emit_fault assms(2) level_fits_bookkeeping set_confirm_prepared_fields(5) [OF t(1)] show ?thesis by blast
qed

lemma attempt_accept_commit_fault:
  assumes "attempt_accept_commit emit ctx hint s = Inl f" "level_fits depth s"
  shows "f = TransitionLimit"
proof -
  from assms(1) obtain c h where ph: "phase s \<noteq> PhaseExternalize" and "set_accept_commit emit ctx c h s = Inl f"
    by (auto simp: attempt_accept_commit_def Let_def split: if_splits option.splits)
  from set_accept_commit_fault [OF this(2)] obtain w t where
    t: "set_accept_commit Inr ctx c h s = Inr (w, t)" "emit t = Inl f" by blast
  with emit_fault assms(2) level_fits_bookkeeping set_accept_commit_fields(2) [OF t(1) ph] show ?thesis by blast
qed

lemma attempt_confirm_commit_fault:
  assumes "attempt_confirm_commit emit ctx hint s = Inl f" "level_fits depth s"
  shows "f = TransitionLimit"
proof -
  from assms(1) obtain c h where "set_confirm_commit emit ctx c h s = Inl f"
    by (auto simp: attempt_confirm_commit_def Let_def split: if_splits option.splits)
  moreover obtain wu u where upd: "update_current_if_needed ctx h s = (wu, u)" by fastforce
  let ?s2 = "u\<lparr>commit := Some c, high_ballot := Some h, phase := PhaseExternalize\<rparr>"
  have fits: "level_fits depth ?s2"
    using assms(2) level_fits_bookkeeping [of ?s2 s] update_current_if_needed_fields(5) [OF upd] by simp
  have "commit s3 = Some c" if "emit ?s2 = Inr s3" for s3
    using emit_externalized_fields(5) [OF emit_final [OF that]] by simp
  ultimately have "emit ?s2 = Inl f"
    by (cases "emit ?s2") (auto simp: set_confirm_commit_def Let_def upd)
  with fits show ?thesis by (blast intro: emit_fault)
qed

lemma bump_state_fault:
  assumes "bump_state emit ctx v n s = Inl f" "level_fits depth s"
  shows "f = TransitionLimit"
proof -
  obtain wu u where upd: "update_current_value ctx (ScpBallot n (override_value v s)) s = (wu, u)" by fastforce
  with assms(1) have "emit u = Inl f"
    by (auto simp: bump_state_def override_value_def Let_def bindE_Inl_iff split: if_splits)
  with emit_fault assms(2) level_fits_bookkeeping update_current_value_fields(5) [OF upd] show ?thesis by blast
qed

lemma abandon_ballot_fault:
  "abandon_ballot emit ctx n s = Inl f \<Longrightarrow> level_fits depth s \<Longrightarrow> f = TransitionLimit"
  by (auto simp: abandon_ballot_def Let_def split: if_splits option.splits intro: bump_state_fault)

lemma attempt_bump_fault:
  assumes "attempt_bump emit ctx s = Inl f" "level_fits depth s"
  shows "f = TransitionLimit"
proof -
  have "bump_counters_loop emit ctx ns s = Inl f \<Longrightarrow> f = TransitionLimit" for ns
    using assms(2) by (induction ns) (auto split: if_splits intro: abandon_ballot_fault)
  with assms(1) show ?thesis by (auto simp: attempt_bump_def Let_def split: if_splits)
qed

lemma bump_loop_fault:
  "bump_loop emit ctx did s = Inl f \<Longrightarrow> level_fits depth s \<Longrightarrow> f = TransitionLimit"
proof (induction e \<equiv> emit c \<equiv> ctx did s rule: bump_loop.induct)
  case (1 did s)
  show ?case
  proof (cases "attempt_bump emit ctx s")
    case (Inl g)
    with "1.prems" attempt_bump_fault [OF Inl] show ?thesis by (subst (asm) (1) bump_loop.simps) simp
  next
    case (Inr r)
    obtain bumped s1 where r: "r = (bumped, s1)" by fastforce
    with "1.prems"(1) Inr have b: bumped
      by (subst (asm) bump_loop.simps) (auto split: if_splits)
    with Inr r have s1: "attempt_bump emit ctx s = Inr (True, s1)" by simp
    note prog = attempt_bump_progress [OF s1]
    from prog "1.prems"(1) s1 have "bump_loop emit ctx True s1 = Inl f"
      by (subst (asm) bump_loop.simps) simp
    moreover have "level_fits depth s1"
      using level_fits_run [OF attempt_bump_run [OF s1]] "1.prems"(2) by simp
    ultimately show ?thesis using "1.hyps" s1 prog by auto
  qed
qed

lemma advance_slot_fault:
  assumes "advance_slot emit ctx hint s = Inl f" "level_fits (Suc depth) s"
  shows "f = TransitionLimit"
proof (rule ccontr)
  assume neq: "f \<noteq> TransitionLimit"
  let ?l = "current_message_level s"
  define s0 where "s0 = s\<lparr>current_message_level := u32_saturating_add ?l 1\<rparr>"
  have low: "\<not> MAX_PROTOCOL_TRANSITIONS \<le> current_message_level s0"
    using assms(1) neq by (auto simp: advance_slot_def s0_def Let_def split: if_splits)
  then have "unat (current_message_level s0) = unat ?l + 1"
    using saturating_add_sub(2) [of ?l] by (simp add: s0_def)
  moreover have "unat (current_message_level s0) < 50"
    using low by (simp add: MAX_PROTOCOL_TRANSITIONS_def word_le_nat_alt)
  ultimately have fits: "level_fits depth s0"
    using assms(2) by (simp add: level_fits_def)
  have next_fits: "level_fits depth t" if "own_run ctx s0 t" for t
    using level_fits_run [OF that] fits by simp
  from assms(1) low neq obtain w1 s1 where s1: "attempt_accept_prepared emit ctx hint s0 = Inr (w1, s1)"
    using attempt_accept_prepared_fault [OF _ fits]
    by (cases "attempt_accept_prepared emit ctx hint s0") (auto simp: advance_slot_def s0_def Let_def)
  have r1: "own_run ctx s0 s1" using attempt_accept_prepared_run [OF s1] .
  from assms(1) low neq s1 obtain w2 s2 where s2: "attempt_confirm_prepared emit ctx hint s1 = Inr (w2, s2)"
    using attempt_confirm_prepared_fault [OF _ next_fits [OF r1]]
    by (cases "attempt_confirm_prepared emit ctx hint s1") (auto simp: advance_slot_def s0_def Let_def)
  have r2: "own_run ctx s0 s2" using r1 attempt_confirm_prepared_run [OF s2] by (rule own_run_trans)
  from assms(1) low neq s1 s2 obtain w3 s3 where s3: "attempt_accept_commit emit ctx hint s2 = Inr (w3, s3)"
    using attempt_accept_commit_fault [OF _ next_fits [OF r2]]
    by (cases "attempt_accept_commit emit ctx hint s2") (auto simp: advance_slot_def s0_def Let_def)
  have r3: "own_run ctx s0 s3" using r2 attempt_accept_commit_run [OF s3] by (rule own_run_trans)
  from assms(1) low neq s1 s2 s3 obtain w4 s4 where s4: "attempt_confirm_commit emit ctx hint s3 = Inr (w4, s4)"
    using attempt_confirm_commit_fault [OF _ next_fits [OF r3]]
    by (cases "attempt_confirm_commit emit ctx hint s3") (auto simp: advance_slot_def s0_def Let_def)
  have r4: "own_run ctx s0 s4" using r3 attempt_confirm_commit_run [OF s4] by (rule own_run_trans)
  let ?w = "w4 \<or> w3 \<or> w2 \<or> w1"
  from assms(1) low s1 s2 s3 s4 have "bump_loop emit ctx ?w s4 = Inl f"
    by (cases "bump_loop emit ctx ?w s4") (auto simp: advance_slot_def s0_def Let_def split: if_splits prod.splits)
  with neq bump_loop_fault next_fits [OF r4] show False by blast
qed

lemma emit_step_fault:
  assumes "emit_step (advance_slot emit ctx) ctx s = Inl f" "level_fits (Suc depth) s"
  shows "f = TransitionLimit"
proof -
  obtain st env can_emit where st: "emit_statement ctx s = Some (st, env, can_emit)"
    using assms(1) by (auto simp: emit_step_def split: option.splits)
  let ?s1 = "if clears_fully_validated (validate_statement_values ctx st)
    then s\<lparr>fully_validated := False, needs_clear_slot_validation := True\<rparr> else s"
  have "advance_slot emit ctx st (record_self ctx env can_emit ?s1) = Inl f"
    using assms(1) st by (auto simp: emit_step_def Let_def bindE_Inl_iff split: if_splits)
  moreover have "level_fits (Suc depth) (record_self ctx env can_emit ?s1)"
    using assms(2) by (simp add: level_fits_def)
  ultimately show ?thesis by (rule advance_slot_fault)
qed

end

interpretation emitted_safe: safe_emission ctx "emit_current_state n ctx" n for ctx n
proof (induction n)
  case 0
  show ?case by unfold_locales (auto simp: level_fits_def)
next
  case (Suc n)
  then show ?case
    by unfold_locales (simp add: safe_emission.emit_step_fault)
qed

section \<open>The entry points\<close>

lemma level_zero_fits: "current_message_level s = 0 \<Longrightarrow> level_fits emit_fuel s"
  by (simp add: level_fits_def emit_fuel_def)

lemma advance_now_fault:
  assumes "advance_slot (emit_now ctx) ctx hint s = Inl f" "current_message_level s = 0"
  shows "f = TransitionLimit"
  using emitted_safe.advance_slot_fault [OF assms(1)] assms(2)
  by (simp add: level_fits_def emit_fuel_def)

lemma process_envelope_fault:
  "process_envelope ctx env validation s = Inl f \<Longrightarrow> current_message_level s = 0 \<Longrightarrow> f = TransitionLimit"
  by (auto simp: process_envelope_def Let_def split: if_splits intro: advance_now_fault)

lemma bump_fault: "bump ctx v force s = Inl f \<Longrightarrow> current_message_level s = 0 \<Longrightarrow> f = TransitionLimit"
  by (auto simp: bump_def split: if_splits intro: emitted_safe.bump_state_fault level_zero_fits)

lemma bump_timeout_fault:
  "bump_timeout ctx composite s = Inl f \<Longrightarrow> current_message_level s = 0 \<Longrightarrow> f = TransitionLimit"
  unfolding bump_timeout_def by (erule emitted_safe.abandon_ballot_fault) (simp add: level_zero_fits)

text \<open>
  C11. The entry points return: outside an advance (recursion level 0) an envelope, a bump or a
  timeout is processed to the end, or the source's own limit of fifty nested transitions panics; the
  bump loop never stalls, no \<open>unwrap\<close> fails, and the model's recursion bound is never used up.
\<close>

theorem ballot_inputs_return:
  assumes "current_message_level s = 0"
  shows "((\<exists>r s'. process_envelope ctx env validation s = Inr (r, s')) \<or>
            process_envelope ctx env validation s = Inl TransitionLimit) \<and>
         ((\<exists>w s'. bump ctx v force s = Inr (w, s')) \<or> bump ctx v force s = Inl TransitionLimit) \<and>
         ((\<exists>w s'. bump_timeout ctx composite s = Inr (w, s')) \<or> bump_timeout ctx composite s = Inl TransitionLimit)"
proof -
  have returns: "(\<exists>a b. x = Inr (a, b)) \<or> x = Inl TransitionLimit"
    if "\<And>f. x = Inl f \<Longrightarrow> f = TransitionLimit" for x :: "fault + 'a \<times> ballot_protocol"
    using that by (cases x) auto
  show ?thesis
    by (intro conjI returns; rule process_envelope_fault bump_fault bump_timeout_fault; (assumption | rule assms))
qed

theorem ballot_inputs_return_witness:
  "(\<exists>w s'. bump solo_context [5] False new_ballot_protocol = Inr (w, s')) \<or>
   bump solo_context [5] False new_ballot_protocol = Inl TransitionLimit"
  using ballot_inputs_return [of new_ballot_protocol] by (simp add: new_ballot_protocol_def)

end
