(* ===== verification/Ballot_Recovery.thy ===== *)
theory Ballot_Recovery
  imports Ballot_Agreement Ballot_Total
begin

text \<open>
  Timeouts, crash recovery and reporting: a timeout moves to a higher ballot unless the counter is
  exhausted; a node restarted from its last statement repeats it and sends nothing; and how the
  reporting state of a peer depends on what the peer has done.
\<close>

section \<open>Timeouts\<close>

lemma u32_max_add_one: "u32_max + 1 = 0"
  by (simp add: u32_max_def)

lemma u32_less_add_one: "(n :: u32) \<noteq> u32_max \<Longrightarrow> n < n + 1"
  using unat_u32_bound [of n]
  by (auto simp: u32_max_def word_less_nat_alt unat_word_ariths word_eq_iff_unsigned [where ?'a = nat])

lemma bump_timeout_alt:
  assumes "current_ballot s = Some b"
  shows "\<exists>v. bump_timeout ctx composite s = bump_state (emit_now ctx) ctx v (counter b + 1)
    (s\<lparr>timer_exp_count := u32_saturating_add (timer_exp_count s) 1, composite_candidate := composite\<rparr>)"
  using assms by (auto simp: bump_timeout_def abandon_ballot_def Let_def split: option.splits)

text \<open>
  C13. A timeout of a slot that has a current ballot and has not externalised: with no commit ballot to
  restrict the value it moves to a higher ballot or a later phase; with the ballot counter at its
  maximum, where \<open>counter + 1\<close> wraps to zero, it reports no work done, only counts the expiration and
  records the composite candidate.
\<close>

theorem bump_timeout_progress:
  assumes "phase s \<noteq> PhaseExternalize" "current_ballot s = Some b"
    and "bump_timeout ctx composite s = Inr (w, s')"
  shows "(counter b \<noteq> u32_max \<and> commit s = None \<longrightarrow>
            w \<and> (phase_rank (phase s) < phase_rank (phase s') \<or>
                 phase s = phase s' \<and> local_counter s < local_counter s')) \<and>
         (counter b = u32_max \<longrightarrow>
            \<not> w \<and> s' = s\<lparr>timer_exp_count := u32_saturating_add (timer_exp_count s) 1,
                          composite_candidate := composite\<rparr>)"
proof -
  let ?t = "s\<lparr>timer_exp_count := u32_saturating_add (timer_exp_count s) 1, composite_candidate := composite\<rparr>"
  from bump_timeout_alt [OF assms(2)] assms(3) obtain v where
    bump: "bump_state (emit_now ctx) ctx v (counter b + 1) ?t = Inr (w, s')" by metis
  let ?b = "ScpBallot (counter b + 1) (override_value v ?t)"
  show ?thesis
  proof (intro conjI impI)
    assume "counter b = u32_max"
    then have "\<not> b < ?b" by (simp add: u32_max_add_one ballot_less_iff) (simp add: u32_max_def)
    with assms(2) have "update_current_value ctx ?b ?t = (False, ?t)"
      by (auto simp: update_current_value_def split: option.splits)
    with bump assms(1) show "\<not> w" "s' = ?t"
      by (auto simp: bump_state_def override_value_def Let_def split: if_splits)
  next
    assume low: "counter b \<noteq> u32_max \<and> commit s = None"
    have less: "b < ?b" using low u32_less_add_one by (simp add: ballot_less_iff)
    obtain u where "update_current_value ctx ?b ?t = (True, u)"
      using assms(1,2) low less by (auto simp: update_current_value_def bump_to_ballot_def Let_def)
    with bump assms(1) show w: w
      by (auto simp: bump_state_def override_value_def Let_def split: if_splits)
    from bump w have "bump_state (emit_now ctx) ctx v (counter b + 1) ?t = Inr (True, s')" by simp
    from emitted.bump_state_progress [OF this] have
      "phase_rank (phase ?t) < phase_rank (phase s') \<or> phase ?t = phase s' \<and> counter b + 1 \<le> local_counter s'" .
    moreover have "local_counter s < counter b + 1"
      using low u32_less_add_one assms(2) by (simp add: local_counter_def)
    ultimately show "phase_rank (phase s) < phase_rank (phase s') \<or>
        phase s = phase s' \<and> local_counter s < local_counter s'" by auto
  qed
qed

text \<open>The context of a node that waits for two others: its timeouts do not externalise.\<close>

definition waiting_context :: slot_context where
  "waiting_context = solo_context\<lparr>local_quorum_set := simple_quorum_set 2 [[1], [2], [3]]\<rparr>"

definition waiting_state :: ballot_protocol where
  "waiting_state = snd (projr (bump waiting_context [5] False new_ballot_protocol))"

theorem bump_timeout_progress_witness:
  "local_counter waiting_state = 1 \<and>
   local_counter (snd (projr (bump_timeout waiting_context None waiting_state))) = 2"
proof -
  have s: "phase waiting_state = PhasePrepare" "current_ballot waiting_state = Some (ScpBallot 1 [5])"
    "commit waiting_state = None" by code_simp+
  have r: "bump_timeout waiting_context None waiting_state =
      Inr (True, snd (projr (bump_timeout waiting_context None waiting_state)))"
    by (rule Inr_TrueI) code_simp+
  have after: "phase (snd (projr (bump_timeout waiting_context None waiting_state))) = PhasePrepare"
    "local_counter (snd (projr (bump_timeout waiting_context None waiting_state))) = 2" by code_simp+
  from bump_timeout_progress [OF _ s(2) r] s after show ?thesis
    by (simp add: local_counter_def u32_max_def)
qed

section \<open>Crash recovery\<close>

lemma restored_prepare:
  "current_ballot (restore_pledges ctx (Prepare p) new_ballot_protocol) = Some (prep_ballot p)"
  "prepared (restore_pledges ctx (Prepare p) new_ballot_protocol) = prep_prepared p"
  "prepared_prime (restore_pledges ctx (Prepare p) new_ballot_protocol) = prep_prepared_prime p"
  "opt_counter (commit (restore_pledges ctx (Prepare p) new_ballot_protocol)) = prep_n_c p"
  "opt_counter (high_ballot (restore_pledges ctx (Prepare p) new_ballot_protocol)) = prep_n_h p"
  "phase (restore_pledges ctx (Prepare p) new_ballot_protocol) = PhasePrepare"
  by (simp_all add: restore_pledges_def new_ballot_protocol_def bump_to_ballot_def opt_counter_def Let_def)

lemma restored_confirm:
  "current_ballot (restore_pledges ctx (Confirm c) new_ballot_protocol) = Some (conf_ballot c)"
  "opt_counter (prepared (restore_pledges ctx (Confirm c) new_ballot_protocol)) = conf_n_prepared c"
  "opt_counter (commit (restore_pledges ctx (Confirm c) new_ballot_protocol)) = conf_n_commit c"
  "opt_counter (high_ballot (restore_pledges ctx (Confirm c) new_ballot_protocol)) = conf_n_h c"
  "phase (restore_pledges ctx (Confirm c) new_ballot_protocol) = PhaseConfirm"
  by (simp_all add: restore_pledges_def new_ballot_protocol_def bump_to_ballot_def opt_counter_def Let_def)

lemma restored_externalize:
  "commit (restore_pledges ctx (Externalize e) new_ballot_protocol) = Some (ext_commit e)"
  "opt_counter (high_ballot (restore_pledges ctx (Externalize e) new_ballot_protocol)) = ext_n_h e"
  "phase (restore_pledges ctx (Externalize e) new_ballot_protocol) = PhaseExternalize"
  by (simp_all add: restore_pledges_def new_ballot_protocol_def bump_to_ballot_def opt_counter_def
      ballot_compatible_def Let_def)

lemma restored_emits_same:
  assumes "emit_statement ctx s = Some (st, env, True)"
  shows "phase (restore_pledges ctx (st_pledges st) new_ballot_protocol) = phase s"
    "emit_statement ctx (restore_pledges ctx (st_pledges st) new_ballot_protocol) = Some (st, env, True)"
proof -
  let ?r = "restore_pledges ctx (st_pledges st) new_ballot_protocol"
  have "phase ?r = phase s \<and> emit_statement ctx ?r = Some (st, env, True)"
  proof (cases "phase s")
    case PhasePrepare
    with assms show ?thesis
      by (auto simp: emit_statement_def emit_prepare_def create_signed_envelope_def restored_prepare Let_def
          split: option.splits)
  next
    case PhaseConfirm
    with assms show ?thesis
      by (auto simp: emit_statement_def emit_confirm_def create_signed_envelope_def restored_confirm Let_def
          split: option.splits)
  next
    case PhaseExternalize
    with assms show ?thesis
      by (auto simp: emit_statement_def emit_externalize_def create_signed_envelope_def restored_externalize
          Let_def split: option.splits)
  qed
  then show "phase ?r = phase s" "emit_statement ctx ?r = Some (st, env, True)" by simp_all
qed

text \<open>
  C14. A node that is restarted from its last statement is in the phase of that statement, would make
  exactly the same statement again, and sends nothing: neither a new nor the old envelope.
\<close>

theorem crash_recovery_repeats_statement:
  assumes "emit_statement ctx s = Some (st, env, True)"
  shows "\<exists>s'. set_state_from_envelope ctx env new_ballot_protocol = Inr s' \<and>
    phase s' = phase s \<and> emit_statement ctx s' = Some (st, env, True) \<and>
    emit_now ctx s' = Inr s' \<and> send_latest_envelope s' = s'"
proof -
  define r where "r = restore_pledges ctx (st_pledges st) new_ballot_protocol"
  define s' where "s' = r\<lparr>latest_envelopes := AList.update (st_node_id st) env (latest_envelopes r),
    last_envelope := Some env, last_envelope_emit := Some env\<rparr>"
  note st = emit_statement_env [OF assms]
  have "set_state_from_envelope ctx env new_ballot_protocol = Inr s'"
    using st by (simp add: set_state_from_envelope_def r_def s'_def new_ballot_protocol_def Let_def)
  moreover have "phase r = phase s" "emit_statement ctx r = Some (st, env, True)"
    using restored_emits_same [OF assms] by (simp_all add: r_def)
  then have again: "phase s' = phase s" "emit_statement ctx s' = Some (st, env, True)"
    using emit_statement_cong [of s' r ctx] by (simp_all add: s'_def)
  moreover have "\<not> is_newer_statement (local_node_id ctx) st s'"
    using st ballot_fresh.newer_irrefl by (simp add: s'_def is_newer_statement_def update_conv')
  then have "emit_now ctx s' = Inr s'"
    using again(2) by (simp add: emit_fuel_def numeral_eq_Suc emit_step_def)
  moreover have "send_latest_envelope s' = s'"
    by (simp add: send_latest_envelope_def s'_def)
  ultimately show ?thesis by blast
qed

theorem crash_recovery_repeats_statement_witness:
  "\<exists>s'. set_state_from_envelope solo_context \<lparr>env_statement = solo_confirm, env_signature = []\<rparr>
      new_ballot_protocol = Inr s' \<and> phase s' = PhaseConfirm"
proof -
  have "emit_statement solo_context solo_confirming =
      Some (solo_confirm, \<lparr>env_statement = solo_confirm, env_signature = []\<rparr>, True)"
    by (rule solo_confirming_emits)
  from crash_recovery_repeats_statement [OF this] show ?thesis
    by (auto simp: solo_confirming_def)
qed

section \<open>Reporting\<close>

text \<open>
  A peer that has externalised the same value is reported as delayed once this node has moved on,
  exactly as a peer that has not: the test for what the peer has done is always true, because no
  statement is both an externalise and a confirm statement.
\<close>

theorem reporting_delayed_ignores_peer_progress:
  assumes "n \<noteq> local" "map_of (latest_envelopes s) n = Some env"
    and "last_envelope_emit s = Some self" "phase s = PhaseExternalize"
    and "\<And>b b'. get_working_ballot (st_pledges (env_statement env)) = Some b \<Longrightarrow>
           get_working_ballot (st_pledges (env_statement self)) = Some b' \<Longrightarrow> bvalue b = bvalue b'"
  shows "get_reporting_state n local True s = RDelayed"
proof -
  let ?pl = "st_pledges (env_statement env)" and ?own = "st_pledges (env_statement self)"
  have "get_reporting_state n local True s =
    (if is_confirm_or_externalize ?pl
     then (case (get_working_ballot ?pl, get_working_ballot ?own) of
             (Some other_b, Some self_b) \<Rightarrow> if bvalue other_b \<noteq> bvalue self_b then RDisagree else RDelayed
           | _ \<Rightarrow> RDelayed)
     else RDelayed)"
    using assms(1-4) by (cases ?pl) (simp_all add: get_reporting_state_def ballot_compatible_def Let_def split: option.splits)
  with assms(5) show ?thesis by (simp split: option.splits)
qed

definition peer_externalized :: scp_envelope where
  "peer_externalized = \<lparr>env_statement = \<lparr>st_node_id = [2], st_slot_index = 7, st_pledges = Externalize
     \<lparr>ext_commit = ScpBallot 1 [5], ext_n_h = 1, ext_commit_quorum_set_hash = [7]\<rparr>\<rparr>, env_signature = []\<rparr>"

definition solo_with_peer :: ballot_protocol where
  "solo_with_peer = new_ballot_protocol
     \<lparr>phase := PhaseExternalize, latest_envelopes := [([2], peer_externalized)],
      last_envelope_emit := Some peer_externalized\<rparr>"

theorem reporting_delayed_ignores_peer_progress_witness:
  "get_reporting_state [2] [1] True solo_with_peer = RDelayed"
  by (rule reporting_delayed_ignores_peer_progress [where env = peer_externalized and self = peer_externalized])
    (simp_all add: solo_with_peer_def)

end
