(* ===== verification/Slot_Safety.thy ===== *)
theory Slot_Safety
  imports Slot Nomination_Progress Ballot_Recovery
begin

text \<open>
  The slot keeps its two protocols together: what it records of externalisation, validation and
  v-blocking is what the protocols say, an externalised value is final, a rejected envelope leaves no
  trace, and every input returns.
\<close>

section \<open>What the protocols promise the slot\<close>

text \<open>A ballot that has been set stays set, and externalising sets one.\<close>

lemma ballot_step_current: "ballot_step ctx s t \<Longrightarrow> current_ballot s \<noteq> None \<Longrightarrow> current_ballot t \<noteq> None"
proof (induction rule: ballot_step.induct)
  case (AcceptPrepared s b w t)
  then show ?case using set_accept_prepared_fields [OF AcceptPrepared(4)] by simp
next
  case (ConfirmPrepared s h c w t)
  then have "current_ballot s \<le> current_ballot t"
    by (cases rule: set_confirm_prepared_cases [OF ConfirmPrepared(6)]) (auto dest: update_current_if_needed_le)
  with ConfirmPrepared.prems show ?case by (cases "current_ballot s"; cases "current_ballot t") auto
next
  case (AcceptCommit s v lo hi w t)
  then show ?case
    using set_accept_commit_prepare(8) [OF AcceptCommit(7)] set_accept_commit_confirm(8) [OF AcceptCommit(7)]
    by (cases "phase s") (auto split: option.splits if_splits)
next
  case (ConfirmCommit s cm v lo hi w u t)
  then show ?case
    using emit_externalized_fields(1) [OF ConfirmCommit(9)] update_current_if_needed_current [OF ConfirmCommit(8)]
    by simp
next
  case (BumpBallot s n v w t)
  then show ?case
    using update_current_value_le [OF BumpBallot(2)] by (cases "current_ballot s"; cases "current_ballot t") auto
qed simp_all

definition active_when_final :: "ballot_protocol \<Rightarrow> bool" where
  "active_when_final s \<longleftrightarrow> (phase s = PhaseExternalize \<longrightarrow> current_ballot s \<noteq> None)"

lemma ballot_step_active_when_final: "ballot_step ctx s t \<Longrightarrow> active_when_final s \<Longrightarrow> active_when_final t"
proof (induction rule: ballot_step.induct)
  case (AcceptPrepared s b w t)
  then show ?case using set_accept_prepared_fields [OF AcceptPrepared(4)] by (simp add: active_when_final_def)
next
  case (ConfirmPrepared s h c w t)
  then show ?case using set_confirm_prepared_fields [OF ConfirmPrepared(6)] by (simp add: active_when_final_def)
next
  case (AcceptCommit s v lo hi w t)
  then show ?case using set_accept_commit_fields [OF AcceptCommit(7,1)] by (simp add: active_when_final_def)
next
  case (ConfirmCommit s cm v lo hi w u t)
  then show ?case
    using emit_externalized_fields(1) [OF ConfirmCommit(9)] update_current_if_needed_current [OF ConfirmCommit(8)]
    by (simp add: active_when_final_def)
next
  case (BumpBallot s n v w t)
  then show ?case using update_current_value_fields(3) [OF BumpBallot(2)] by (simp add: active_when_final_def)
qed (simp_all add: active_when_final_def)

lemma ballot_run_current: "ballot_run ctx s t \<Longrightarrow> current_ballot s \<noteq> None \<Longrightarrow> current_ballot t \<noteq> None"
  by (erule (1) ballot_run_keeps [where P = "\<lambda>s. current_ballot s \<noteq> None"]) (rule ballot_step_current)

lemma ballot_run_active_when_final: "ballot_run ctx s t \<Longrightarrow> active_when_final s \<Longrightarrow> active_when_final t"
  by (rule ballot_run_keeps [where P = active_when_final]) (auto intro: ballot_step_active_when_final)

text \<open>Messages that have been heard stay heard.\<close>

lemma ballot_run_heard_nodes:
  "ballot_run ctx s t \<Longrightarrow> map_of (latest_envelopes s) n \<noteq> None \<Longrightarrow> map_of (latest_envelopes t) n \<noteq> None"
  using ballot_run_le [of ctx s t] by (fastforce simp: step_le_def envelopes_le_def)

lemma nom_steps_heard_nodes:
  "nom_steps ctx s t \<Longrightarrow> map_of (np_latest_nominations s) n \<noteq> None \<Longrightarrow> map_of (np_latest_nominations t) n \<noteq> None"
proof (induction rule: rtranclp_induct)
  case (step y z)
  from step.hyps(2) have "map_of (np_latest_nominations y) n \<noteq> None \<Longrightarrow> map_of (np_latest_nominations z) n \<noteq> None"
    by (induction rule: nom_step.induct) (simp_all add: step_defs update_conv')
  with step show ?case by blast
qed simp

text \<open>Before the bookkeeping of an operation, and after it.\<close>

text \<open>
  The nomination flag is the slot's, and so is the ballot protocol's unless the ballot protocol has
  asked for the flag to be cleared, which it does before the value is externalised only.
\<close>

definition flags_agree :: "slot \<Rightarrow> bool" where
  "flags_agree s \<longleftrightarrow> np_fully_validated (sl_nomination s) = sl_fully_validated s \<and>
     (if needs_clear_slot_validation (sl_ballot s)
      then \<not> fully_validated (sl_ballot s) \<and> sl_externalized_value s = None
      else fully_validated (sl_ballot s) = sl_fully_validated s)"

definition record_core :: "slot \<Rightarrow> bool" where
  "record_core s \<longleftrightarrow> active_when_final (sl_ballot s) \<and> accepted_voted (sl_nomination s) \<and>
     current_message_level (sl_ballot s) = 0 \<and>
     (sl_externalized_value s \<noteq> None \<longrightarrow> sl_externalized_value s = get_externalized_value (sl_ballot s)) \<and>
     (sl_got_v_blocking s \<longrightarrow> is_v_blocking (sl_local_quorum_set s) (heard_nodes s))"

definition slot_core :: "slot \<Rightarrow> bool" where
  "slot_core s \<longleftrightarrow> record_core s \<and> flags_agree s"

lemmas slot_core_defs = slot_core_def record_core_def

definition handed_over :: "slot \<Rightarrow> bool" where
  "handed_over s \<longleftrightarrow> (np_latest_composite (sl_nomination s) \<noteq> None \<longrightarrow> current_ballot (sl_ballot s) \<noteq> None)"

definition slot_settled :: "slot \<Rightarrow> bool" where
  "slot_settled s \<longleftrightarrow> slot_core s \<and> handed_over s \<and>
     \<not> needs_stop_nomination (sl_ballot s) \<and> \<not> needs_clear_slot_validation (sl_ballot s) \<and>
     sl_externalized_value s = get_externalized_value (sl_ballot s) \<and>
     sl_got_v_blocking s = is_v_blocking (sl_local_quorum_set s) (heard_nodes s)"

section \<open>Effects of the parts of an operation\<close>

text \<open>The heard nodes depend on the quorum set and the two tables only, and grow with them.\<close>

definition hears_more :: "slot \<Rightarrow> slot \<Rightarrow> bool" where
  "hears_more s t \<longleftrightarrow> sl_local_quorum_set t = sl_local_quorum_set s \<and>
     (\<forall>n. has_latest_message_from n s \<longrightarrow> has_latest_message_from n t)"

lemma hears_more_v_blocking:
  "hears_more s t \<Longrightarrow> is_v_blocking (sl_local_quorum_set s) (heard_nodes s) \<Longrightarrow>
     is_v_blocking (sl_local_quorum_set t) (heard_nodes t)"
  by (auto simp: hears_more_def heard_nodes_def elim!: is_v_blocking_mono)

lemma heard_nodes_cong:
  "sl_local_quorum_set t = sl_local_quorum_set s \<Longrightarrow> latest_envelopes (sl_ballot t) = latest_envelopes (sl_ballot s) \<Longrightarrow>
   np_latest_nominations (sl_nomination t) = np_latest_nominations (sl_nomination s) \<Longrightarrow> heard_nodes t = heard_nodes s"
  by (simp add: heard_nodes_def has_latest_message_from_def)

lemma put_ballot_fields [simp]:
  "sl_ballot (put_ballot b s) = b" "sl_nomination (put_ballot b s) = sl_nomination s"
  "sl_local_quorum_set (put_ballot b s) = sl_local_quorum_set s"
  "sl_externalized_value (put_ballot b s) = sl_externalized_value s"
  "sl_fully_validated (put_ballot b s) = sl_fully_validated s"
  "sl_got_v_blocking (put_ballot b s) = sl_got_v_blocking s"
  by (simp_all add: put_ballot_def)

lemma put_nomination_fields [simp]:
  "sl_ballot (put_nomination n s) = sl_ballot s" "sl_nomination (put_nomination n s) = n"
  "sl_local_quorum_set (put_nomination n s) = sl_local_quorum_set s"
  "sl_externalized_value (put_nomination n s) = sl_externalized_value s"
  "sl_fully_validated (put_nomination n s) = sl_fully_validated s"
  "sl_got_v_blocking (put_nomination n s) = sl_got_v_blocking s"
  by (simp_all add: put_nomination_def)

lemma slot_notify_fields [simp]:
  "sl_ballot (slot_notify e s) = sl_ballot s" "sl_nomination (slot_notify e s) = sl_nomination s"
  "sl_local_quorum_set (slot_notify e s) = sl_local_quorum_set s"
  "sl_externalized_value (slot_notify e s) = sl_externalized_value s"
  "sl_fully_validated (slot_notify e s) = sl_fully_validated s"
  "sl_got_v_blocking (slot_notify e s) = sl_got_v_blocking s"
  by (simp_all add: slot_notify_def)

lemma flags_put_twice [simp]: "flags_agree (put_ballot b (put_ballot c s)) = flags_agree (put_ballot b s)"
  by (simp add: flags_agree_def cong: if_cong)

text \<open>What \<open>slot_core\<close> and \<open>handed_over\<close> read of the state.\<close>

lemma record_core_frame:
  assumes "record_core s" "latest_envelopes (sl_ballot t) = latest_envelopes (sl_ballot s)"
    "phase (sl_ballot t) = phase (sl_ballot s)" "current_ballot (sl_ballot t) = current_ballot (sl_ballot s)"
    "current_message_level (sl_ballot t) = current_message_level (sl_ballot s)"
    "np_votes (sl_nomination t) = np_votes (sl_nomination s)"
    "np_accepted (sl_nomination t) = np_accepted (sl_nomination s)"
    "np_latest_nominations (sl_nomination t) = np_latest_nominations (sl_nomination s)"
    "sl_local_quorum_set t = sl_local_quorum_set s" "sl_externalized_value t = sl_externalized_value s"
    "sl_got_v_blocking t = sl_got_v_blocking s"
  shows "record_core t"
proof -
  have "get_externalized_value (sl_ballot t) = get_externalized_value (sl_ballot s)"
    using assms by (simp add: get_externalized_value_def)
  with heard_nodes_cong [of t s] assms show ?thesis
    by (simp add: record_core_def active_when_final_def accepted_voted_def)
qed

lemma slot_core_frame:
  assumes "slot_core s" "latest_envelopes (sl_ballot t) = latest_envelopes (sl_ballot s)"
    "phase (sl_ballot t) = phase (sl_ballot s)" "current_ballot (sl_ballot t) = current_ballot (sl_ballot s)"
    "current_message_level (sl_ballot t) = current_message_level (sl_ballot s)"
    "np_votes (sl_nomination t) = np_votes (sl_nomination s)"
    "np_accepted (sl_nomination t) = np_accepted (sl_nomination s)"
    "np_latest_nominations (sl_nomination t) = np_latest_nominations (sl_nomination s)"
    "flags_agree t"
    "sl_local_quorum_set t = sl_local_quorum_set s" "sl_externalized_value t = sl_externalized_value s"
    "sl_got_v_blocking t = sl_got_v_blocking s"
  shows "slot_core t"
  using assms record_core_frame [of s t] by (simp add: slot_core_def)

lemma handed_over_frame:
  assumes "handed_over s" "current_ballot (sl_ballot t) = current_ballot (sl_ballot s)"
    "np_latest_composite (sl_nomination t) = np_latest_composite (sl_nomination s)"
  shows "handed_over t"
  using assms by (simp add: handed_over_def)

lemma ballot_run_externalized:
  assumes "ballot_run ctx b b'" "get_externalized_value b = Some v"
  shows "get_externalized_value b' = Some v"
  using ballot_run_le [OF assms(1)] assms(2)
  by (auto simp: step_le_def frozen_def same_ballots_def get_externalized_value_def split: if_splits)

text \<open>An externalised ballot protocol asks for nothing more.\<close>

lemma ballot_run_final_unasked:
  assumes "ballot_run ctx b b'" "phase b = PhaseExternalize \<and> \<not> needs_clear_slot_validation b"
  shows "phase b' = PhaseExternalize \<and> \<not> needs_clear_slot_validation b'"
proof -
  let ?P = "\<lambda>b. phase b = PhaseExternalize \<and> \<not> needs_clear_slot_validation b"
  have "?P t" if "?P s" "ballot_step ctx s t" for s t
    using that(2,1) by (induction rule: ballot_step.induct) simp_all
  then show ?thesis by (rule ballot_run_keeps [where P = ?P, OF assms])
qed

lemma own_run_flags:
  assumes "slot_core s" "own_run ctx (sl_ballot s) b"
  shows "flags_agree (put_ballot b s)"
proof -
  have kept: "flags_kept (sl_ballot s) b" and run: "ballot_run ctx (sl_ballot s) b"
    using assms(2) own_run_ballot by (auto simp: own_run_def)
  have "needs_clear_slot_validation b \<longrightarrow> sl_externalized_value s = None"
  proof (rule ccontr)
    assume "\<not> (needs_clear_slot_validation b \<longrightarrow> sl_externalized_value s = None)"
    then have that: "sl_externalized_value s \<noteq> None" and asked: "needs_clear_slot_validation b" by simp_all
    from that assms(1) have "phase (sl_ballot s) = PhaseExternalize \<and> \<not> needs_clear_slot_validation (sl_ballot s)"
      by (auto simp: slot_core_defs flags_agree_def get_externalized_value_def split: if_splits)
    with ballot_run_final_unasked [OF run] asked show False by simp
  qed
  with kept assms(1) show ?thesis
    unfolding slot_core_def flags_agree_def flags_kept_def by (auto split: if_splits)
qed

lemma put_ballot_record:
  assumes "record_core s" "ballot_run ctx (sl_ballot s) b"
  shows "record_core (put_ballot b s)" "handed_over s \<Longrightarrow> handed_over (put_ballot b s)"
proof -
  have "hears_more s (put_ballot b s)"
    using ballot_run_heard_nodes [OF assms(2)] by (auto simp: hears_more_def has_latest_message_from_def)
  note heard = hears_more_v_blocking [OF this]
  have "sl_externalized_value s \<noteq> None \<longrightarrow> sl_externalized_value s = get_externalized_value b"
  proof
    assume ext: "sl_externalized_value s \<noteq> None"
    then obtain v where v: "sl_externalized_value s = Some v" by blast
    moreover from ext assms(1) have "sl_externalized_value s = get_externalized_value (sl_ballot s)"
      unfolding record_core_def by blast
    ultimately have "get_externalized_value (sl_ballot s) = Some v" by simp
    from ballot_run_externalized [OF assms(2) this] v
    show "sl_externalized_value s = get_externalized_value b" by simp
  qed
  with heard assms ballot_run_active_when_final [OF assms(2)] show "record_core (put_ballot b s)"
    by (simp add: record_core_def ballot_run_def)
  show "handed_over s \<Longrightarrow> handed_over (put_ballot b s)"
    using ballot_run_current [OF assms(2)] by (simp add: handed_over_def)
qed

lemma put_ballot_core:
  assumes "slot_core s" "own_run ctx (sl_ballot s) b"
  shows "slot_core (put_ballot b s)" "handed_over s \<Longrightarrow> handed_over (put_ballot b s)"
  using put_ballot_record [of s ctx b] own_run_flags [OF assms] own_run_ballot [OF assms(2)] assms(1)
  by (auto simp: slot_core_def)

lemma nom_steps_fully_validated: "nom_steps ctx n n' \<Longrightarrow> np_fully_validated n' = np_fully_validated n"
  using nom_steps_values_le by (fastforce simp: values_le_def)

lemma put_nomination_core:
  assumes "slot_core s" "nom_steps ctx (sl_nomination s) n"
  shows "slot_core (put_nomination n s)"
proof -
  have "hears_more s (put_nomination n s)"
    using nom_steps_heard_nodes [OF assms(2)] by (auto simp: hears_more_def has_latest_message_from_def)
  from hears_more_v_blocking [OF this] assms nom_steps_accepted_voted [OF assms(2)]
  show ?thesis
    using nom_steps_fully_validated [OF assms(2)] by (auto simp: slot_core_defs flags_agree_def)
qed

lemmas protocol_setters = set_composite_candidate_def Ballot.set_fully_validated_def
  Nomination.set_fully_validated_def stop_def take_needs_clear_slot_validation_def take_needs_stop_nomination_def

lemma sync_composite_core:
  assumes "slot_core s"
  shows "slot_core (sync_composite_candidate s)"
  using assms by (rule slot_core_frame)
    (use assms in \<open>simp_all add: sync_composite_candidate_def protocol_setters slot_core_defs flags_agree_def\<close>)

lemma set_fully_validated_record: "record_core s \<Longrightarrow> record_core (set_fully_validated b s)"
  by (rule record_core_frame) (simp_all add: set_fully_validated_def protocol_setters)

lemma set_fully_validated_flags: "sl_externalized_value s = None \<Longrightarrow> flags_agree (set_fully_validated False s)"
  by (simp add: flags_agree_def set_fully_validated_def protocol_setters)

lemma slot_notify_core: "slot_core s \<Longrightarrow> slot_core (slot_notify e s)"
  by (rule slot_core_frame) (simp_all add: slot_core_defs flags_agree_def)

section \<open>The bookkeeping\<close>

definition stop_if_needed :: "slot \<Rightarrow> slot" where
  "stop_if_needed s =
     (let (stop_nom, b) = take_needs_stop_nomination (sl_ballot s); s1 = s\<lparr>sl_ballot := b\<rparr> in
      if stop_nom
      then slot_notify (StopTimer (sl_slot_index s1) NominationTimer) (s1\<lparr>sl_nomination := stop (sl_nomination s1)\<rparr>)
      else s1)"

lemma run_post_emit_bookkeeping_alt:
  "run_post_emit_bookkeeping s = maybe_set_got_v_blocking (maybe_record_externalization
     (stop_if_needed (propagate_ballot_clear_slot_validation s)))"
  by (simp add: run_post_emit_bookkeeping_def stop_if_needed_def Let_def split: prod.splits)

lemma propagate_core:
  assumes "slot_core s"
  shows "slot_core (propagate_ballot_clear_slot_validation s)"
  using assms by (rule slot_core_frame)
    (use assms in \<open>simp_all add: propagate_ballot_clear_slot_validation_def protocol_setters slot_core_defs flags_agree_def Let_def\<close>)

lemma stop_if_needed_core:
  assumes "slot_core s"
  shows "slot_core (stop_if_needed s)"
  using assms by (rule slot_core_frame)
    (use assms in \<open>simp_all add: stop_if_needed_def protocol_setters slot_core_defs flags_agree_def slot_notify_def Let_def\<close>)

lemma maybe_record_fields [simp]:
  "sl_ballot (maybe_record_externalization s) = sl_ballot s"
  "sl_nomination (maybe_record_externalization s) = sl_nomination s"
  "sl_local_quorum_set (maybe_record_externalization s) = sl_local_quorum_set s"
  "sl_fully_validated (maybe_record_externalization s) = sl_fully_validated s"
  "sl_got_v_blocking (maybe_record_externalization s) = sl_got_v_blocking s"
  by (simp_all add: maybe_record_externalization_def sync_externalized_value_from_ballot_def split: option.splits)

lemma maybe_record_value:
  assumes "slot_core s"
  shows "sl_externalized_value (maybe_record_externalization s) = get_externalized_value (sl_ballot s)"
  using assms
  by (auto simp: maybe_record_externalization_def sync_externalized_value_from_ballot_def slot_core_defs
      active_when_final_def Ballot.is_externalized_def get_externalized_value_def split: option.splits)

lemma maybe_set_fields [simp]:
  "sl_ballot (maybe_set_got_v_blocking s) = sl_ballot s"
  "sl_nomination (maybe_set_got_v_blocking s) = sl_nomination s"
  "sl_local_quorum_set (maybe_set_got_v_blocking s) = sl_local_quorum_set s"
  "sl_externalized_value (maybe_set_got_v_blocking s) = sl_externalized_value s"
  "sl_fully_validated (maybe_set_got_v_blocking s) = sl_fully_validated s"
  by (simp_all add: maybe_set_got_v_blocking_def)

lemma maybe_set_got:
  assumes "sl_got_v_blocking s \<longrightarrow> is_v_blocking (sl_local_quorum_set s) (heard_nodes s)"
  shows "sl_got_v_blocking (maybe_set_got_v_blocking s) \<longleftrightarrow> is_v_blocking (sl_local_quorum_set s) (heard_nodes s)"
  using assms by (auto simp: maybe_set_got_v_blocking_def)

lemma flags_consumed:
  "\<not> needs_stop_nomination (sl_ballot (stop_if_needed s))"
  "needs_clear_slot_validation (sl_ballot (stop_if_needed s)) = needs_clear_slot_validation (sl_ballot s)"
  "\<not> needs_clear_slot_validation (sl_ballot (propagate_ballot_clear_slot_validation s))"
  "current_ballot (sl_ballot (stop_if_needed s)) = current_ballot (sl_ballot s)"
  "current_ballot (sl_ballot (propagate_ballot_clear_slot_validation s)) = current_ballot (sl_ballot s)"
  "np_latest_composite (sl_nomination (stop_if_needed s)) = np_latest_composite (sl_nomination s)"
  "np_latest_composite (sl_nomination (propagate_ballot_clear_slot_validation s)) = np_latest_composite (sl_nomination s)"
  by (simp_all add: stop_if_needed_def propagate_ballot_clear_slot_validation_def protocol_setters Let_def)

lemma bookkeeping_settles:
  assumes "slot_core s" "handed_over s"
  shows "slot_settled (run_post_emit_bookkeeping s)"
proof -
  let ?u = "stop_if_needed (propagate_ballot_clear_slot_validation s)"
  let ?t = "maybe_record_externalization ?u"
  have u: "slot_core ?u" using stop_if_needed_core propagate_core assms(1) by blast
  have heard: "heard_nodes ?t = heard_nodes ?u" "heard_nodes (maybe_set_got_v_blocking ?t) = heard_nodes ?u"
    by (rule heard_nodes_cong; simp)+
  have "handed_over ?u"
    by (rule handed_over_frame [OF assms(2)]) (simp_all add: flags_consumed)
  then show ?thesis
    using u heard maybe_record_value [OF u] maybe_set_got [of ?t] flags_consumed
    by (simp add: slot_settled_def slot_core_defs flags_agree_def handed_over_def run_post_emit_bookkeeping_alt)
qed

lemma check_nomination_to_ballot_core:
  assumes "check_nomination_to_ballot d s = Inr t" "slot_core s"
  shows "slot_core t" "handed_over t"
proof -
  have "slot_core t \<and> handed_over t"
  proof (cases "current_ballot (sl_ballot s) = None \<and> np_latest_composite (sl_nomination s) \<noteq> None")
    case False
    with assms show ?thesis by (auto simp: check_nomination_to_ballot_def handed_over_def split: option.splits)
  next
    case True
    then obtain c where c: "np_latest_composite (sl_nomination s) = Some c" by blast
    let ?s1 = "slot_notify (StopTimer (sl_slot_index s) NominationTimer) s"
    let ?ctx = "slot_ctx d ?s1"
    from assms(1) True c obtain w b where b: "bump ?ctx c False (sl_ballot ?s1) = Inr (w, b)"
      and t: "t = put_ballot b ?s1"
      by (auto simp: check_nomination_to_ballot_def lift_ballot_def Let_def split: sum.splits)
    have "phase (sl_ballot s) \<noteq> PhaseExternalize"
      using assms(2) True by (auto simp: slot_core_defs active_when_final_def)
    then have w
      using b True by (auto simp: bump_def Ballot_Machine.bump_state_def update_current_value_def Let_def split: if_splits)
    from b True have "Ballot_Machine.bump_state (emit_now ?ctx) ?ctx c 1 (sl_ballot ?s1) = Inr (w, b)"
      by (simp add: bump_def)
    from emitted.bump_state_run(2) [OF this] \<open>w\<close> have "current_ballot b \<noteq> None"
      using ballot_run_current own_run_ballot by (metis option.distinct(1))
    moreover have "slot_core t"
      unfolding t
      using put_ballot_core(1) [OF slot_notify_core [OF assms(2)] bump_run [OF b]] .
    ultimately show ?thesis by (simp add: handed_over_def t)
  qed
  then show "slot_core t" "handed_over t" by simp_all
qed

section \<open>Inputs and reachable slots\<close>

inductive slot_input :: "scp_driver \<Rightarrow> slot \<Rightarrow> slot \<Rightarrow> bool" for d where
  Envelope: "process_envelope d env s = Inr (r, t) \<Longrightarrow> slot_input d s t"
| Nominate: "nominate d v prev timedout s = Inr (w, t) \<Longrightarrow> slot_input d s t"
| BallotTimeout: "bump_ballot_on_timeout d s = Inr (w, t) \<Longrightarrow> slot_input d s t"
| Abandon: "abandon_ballot d n s = Inr (w, t) \<Longrightarrow> slot_input d s t"
| BumpState: "bump_state d v n s = Inr (w, t) \<Longrightarrow> slot_input d s t"
| ForceBump: "force_bump_state d v s = Inr (w, t) \<Longrightarrow> slot_input d s t"
| StopNomination: "slot_input d s (stop_nomination s)"
| RestoreValidated: "slot_input d s (restore_fully_validated s)"

text \<open>
  Catchup may force a value on a slot, and a node restores a slot from its own statements, which
  accept only values they vote for.
\<close>

inductive slot_reachable :: "scp_driver \<Rightarrow> slot \<Rightarrow> bool" for d where
  New: "slot_reachable d (new_slot idx local qs is_validator)"
| Input: "slot_reachable d s \<Longrightarrow> slot_input d s t \<Longrightarrow> slot_reachable d t"
| Force: "slot_reachable d s \<Longrightarrow> slot_reachable d (force_externalize v s)"
| Restore: "slot_reachable d s \<Longrightarrow> set_state_from_envelope d env s = Inr (w, t) \<Longrightarrow>
    (\<And>nom. nomination_of env = Some nom \<Longrightarrow> set (accepted nom) \<subseteq> set (votes nom)) \<Longrightarrow> slot_reachable d t"

subsection \<open>Inputs settle the slot\<close>

lemma settled_core: "slot_settled s \<Longrightarrow> slot_core s" "slot_settled s \<Longrightarrow> handed_over s"
  by (simp_all add: slot_settled_def)

lemma process_ballot_envelope_core:
  assumes "process_ballot_envelope d env s = Inr (r, t)" "slot_core s"
  shows "slot_core t"
proof (cases "t = s")
  case False
  let ?ctx = "slot_ctx d s" and ?s1 = "sync_composite_candidate s"
  let ?val = "validate_statement_values ?ctx (env_statement env)"
  from assms(1) False obtain b where
    b: "Ballot_Machine.process_envelope ?ctx env ?val (sl_ballot ?s1) = Inr (r, b)"
    and t: "t = (if r \<noteq> EnvInvalid \<and> clears_fully_validated ?val \<and> sl_externalized_value ?s1 = None
                 then set_fully_validated False (put_ballot b ?s1) else put_ballot b ?s1)"
    by (auto simp: process_ballot_envelope_def Let_def split: if_splits sum.splits)
  have core: "slot_core ?s1" using assms(2) by (rule sync_composite_core)
  then have rec: "record_core (put_ballot b ?s1)"
    using put_ballot_record process_envelope_run [OF b] by (simp add: slot_core_def)
  show ?thesis
  proof (cases "r \<noteq> EnvInvalid \<and> clears_fully_validated ?val \<and> sl_externalized_value ?s1 = None")
    case True
    with rec set_fully_validated_record set_fully_validated_flags show ?thesis
      by (simp add: t slot_core_def)
  next
    case False
    note unclear = False
    have "flags_agree (put_ballot b ?s1)"
    proof (cases "r = EnvInvalid")
      case True
      with b ballot_rejects have "b = sl_ballot ?s1" by blast
      with core show ?thesis by (simp add: slot_core_def flags_agree_def)
    next
      case False
      let ?b2 = "(sl_ballot ?s1)\<lparr>fully_validated := stored_flag ?val (sl_ballot ?s1),
        latest_envelopes := AList.update (st_node_id (env_statement env)) env (latest_envelopes (sl_ballot ?s1))\<rparr>"
      have "clears_fully_validated ?val \<Longrightarrow> phase (sl_ballot ?s1) = PhaseExternalize"
        using unclear False core by (auto simp: slot_core_defs get_externalized_value_def split: if_splits)
      then have "stored_flag ?val (sl_ballot ?s1) = fully_validated (sl_ballot ?s1)"
        by (auto simp: stored_flag_def)
      then have "flags_agree (put_ballot ?b2 ?s1)"
        using core by (simp add: slot_core_def flags_agree_def)
      moreover have "record_core (put_ballot ?b2 ?s1)"
        using core process_envelope_stored(1) [OF b False]
        by (intro put_ballot_record [where ctx = ?ctx]) (auto simp: slot_core_def ballot_run_def)
      ultimately have "slot_core (put_ballot ?b2 ?s1)" by (simp add: slot_core_def)
      from own_run_flags [OF this, of ?ctx b] process_envelope_stored(2) [OF b False]
      show ?thesis by simp
    qed
    moreover have "t = put_ballot b ?s1" unfolding t using unclear by (rule if_not_P)
    ultimately show ?thesis using rec by (simp add: slot_core_def)
  qed
qed (use assms(2) in simp)

lemma process_nomination_envelope_core:
  assumes "process_nomination_envelope d env s = Inr (r, t)" "slot_core s"
  shows "slot_core t"
proof -
  from assms(1) obtain n where n: "Nomination.process_envelope (slot_ctx d s) env (sl_nomination s) = Inr (r, n)"
    and t: "t = put_nomination n s"
    by (auto simp: process_nomination_envelope_def split: sum.splits)
  from assms(2) have "nom_steps (slot_ctx d s) (sl_nomination s) n"
    by (intro process_envelope_steps [OF n]) (simp add: slot_core_defs)
  with assms(2) show ?thesis unfolding t by (rule put_nomination_core)
qed

lemma push_envelope_core: "slot_core s \<Longrightarrow> slot_core (push_envelope env s)"
  by (rule slot_core_frame) (simp_all add: push_envelope_def slot_core_defs flags_agree_def Let_def)

lemma process_envelope_settles:
  assumes "process_envelope d env s = Inr (r, t)" "slot_core s"
  shows "slot_settled t"
proof -
  from assms(1) obtain s1 where
    s1: "(if is_nomination (st_pledges (env_statement env))
          then process_nomination_envelope d env s else process_ballot_envelope d env s) = Inr (r, s1)"
    and rest: "bindE (check_nomination_to_ballot d (if r \<noteq> EnvInvalid then push_envelope env s1 else s1))
      (\<lambda>s3. Inr (r, run_post_emit_bookkeeping s3)) = Inr (r, t)"
    unfolding process_envelope_def by (auto simp: bindE_Inr_iff)
  from s1 assms(2) have "slot_core s1"
    using process_nomination_envelope_core process_ballot_envelope_core by (auto split: if_splits)
  then have "slot_core (if r \<noteq> EnvInvalid then push_envelope env s1 else s1)"
    using push_envelope_core by simp
  with rest show ?thesis
    using check_nomination_to_ballot_core by (auto simp: bindE_Inr_iff intro: bookkeeping_settles)
qed

lemma nominate_settles:
  assumes "nominate d v prev timedout s = Inr (w, t)" "slot_settled s"
  shows "slot_settled t"
proof (cases "sl_is_validator s \<and> \<not> Slot.is_externalized s")
  case False
  with assms show ?thesis by (auto simp: nominate_def split: if_splits)
next
  case True
  let ?s1 = "s\<lparr>sl_nomination_started := True\<rparr>"
  from assms(1) True obtain n s2 where
    n: "Nomination.nominate (slot_ctx d ?s1) v prev timedout (sl_nomination ?s1) = Inr (w, n)"
    and s2: "check_nomination_to_ballot d (put_nomination n ?s1) = Inr s2"
    and t: "t = arm_nomination_timer d (run_post_emit_bookkeeping s2)"
    by (auto simp: nominate_def Let_def bindE_Inr_iff split: sum.splits)
  have core: "slot_core ?s1"
    using settled_core(1) [OF assms(2)] by (rule slot_core_frame) (use assms(2) in \<open>simp_all add: slot_settled_def slot_core_defs flags_agree_def\<close>)
  then have "nom_steps (slot_ctx d ?s1) (sl_nomination ?s1) n"
    by (intro nominate_steps [OF n]) (simp add: slot_core_defs)
  from put_nomination_core [OF core this] check_nomination_to_ballot_core [OF s2]
  have settled: "slot_settled (run_post_emit_bookkeeping s2)" by (intro bookkeeping_settles) simp_all
  moreover have "slot_settled (slot_notify e u)" if "slot_settled u" for e u
    using that slot_notify_core heard_nodes_cong [of "slot_notify e u" u]
    by (simp add: slot_settled_def handed_over_def)
  ultimately show ?thesis by (simp add: t arm_nomination_timer_def Let_def)
qed

lemma after_ballot_settles:
  assumes "after_ballot r s = Inr (w, t)" "slot_core s" "handed_over s"
    and "\<And>b. r = Inr (w, b) \<Longrightarrow> own_run ctx (sl_ballot s) b"
  shows "slot_settled t"
proof -
  from assms(1) obtain b where b: "r = Inr (w, b)" "t = run_post_emit_bookkeeping (put_ballot b s)"
    by (auto simp: after_ballot_def lift_ballot_def split: sum.splits)
  with put_ballot_core [OF assms(2) assms(4)] assms(3) show ?thesis
    by (auto intro: bookkeeping_settles)
qed

lemma slot_input_settles:
  assumes "slot_input d s t" "slot_settled s"
  shows "slot_settled t"
  using assms
proof (induction rule: slot_input.induct)
  case (Envelope env s r t)
  then show ?case using process_envelope_settles settled_core(1) by blast
next
  case (Nominate v prev timedout s w t)
  then show ?case using nominate_settles by blast
next
  case (BallotTimeout s w t)
  show ?case
  proof (cases "sl_is_validator s")
    case True
    let ?s1 = "slot_notify (TimerExpiredNotice (sl_slot_index s) BallotTimer) s"
    have "after_ballot (bump_timeout (slot_ctx d ?s1) (np_latest_composite (sl_nomination ?s1)) (sl_ballot ?s1)) ?s1
        = Inr (w, t)"
      using BallotTimeout(1) True by (simp add: bump_ballot_on_timeout_def Let_def)
    then show ?thesis
      by (rule after_ballot_settles)
        (use settled_core [OF BallotTimeout(2)] slot_notify_core bump_timeout_run in \<open>auto simp: handed_over_def\<close>)
  qed (use BallotTimeout in \<open>simp add: bump_ballot_on_timeout_def\<close>)
next
  case (Abandon n s w t)
  let ?s1 = "sync_composite_candidate s"
  have ho: "handed_over ?s1"
    by (rule handed_over_frame [OF settled_core(2) [OF Abandon(2)]])
      (simp_all add: sync_composite_candidate_def protocol_setters)
  have "after_ballot (Ballot_Machine.abandon_ballot (emit_now (slot_ctx d ?s1)) (slot_ctx d ?s1) n (sl_ballot ?s1)) ?s1
      = Inr (w, t)"
    using Abandon(1) by (simp add: Slot.abandon_ballot_def Let_def)
  then show ?case
    using sync_composite_core [OF settled_core(1) [OF Abandon(2)]] ho
    by (rule after_ballot_settles) (rule emitted.abandon_ballot_run)
next
  case (BumpState v n s w t)
  then have "after_ballot (Ballot_Machine.bump_state (emit_now (slot_ctx d s)) (slot_ctx d s) v n (sl_ballot s)) s
      = Inr (w, t)"
    by (simp add: Slot.bump_state_def Let_def)
  then show ?case
    using settled_core [OF BumpState(2)] by (rule after_ballot_settles) (rule emitted.bump_state_run(1))
next
  case (ForceBump v s w t)
  then have "after_ballot (bump (slot_ctx d s) v True (sl_ballot s)) s = Inr (w, t)"
    by (simp add: force_bump_state_def)
  then show ?case
    using settled_core [OF ForceBump(2)] by (rule after_ballot_settles) (rule bump_run)
next
  case (StopNomination s)
  have "slot_core (stop_nomination s)"
    using settled_core(1) [OF StopNomination] by (rule slot_core_frame)
      (use StopNomination in \<open>simp_all add: stop_nomination_def protocol_setters slot_settled_def slot_core_defs flags_agree_def slot_notify_def\<close>)
  moreover have "heard_nodes (stop_nomination s) = heard_nodes s"
    by (rule heard_nodes_cong) (simp_all add: stop_nomination_def protocol_setters)
  ultimately show ?case
    using StopNomination by (simp add: slot_settled_def handed_over_def stop_nomination_def protocol_setters)
next
  case (RestoreValidated s)
  show ?case
  proof (cases "sl_fully_validated s")
    case False
    let ?t = "restore_fully_validated s"
    have f: "np_votes (emit_deferred n) = np_votes n" "np_accepted (emit_deferred n) = np_accepted n"
      "np_latest_nominations (emit_deferred n) = np_latest_nominations n"
      "np_fully_validated (emit_deferred n) = np_fully_validated n"
      "np_latest_composite (emit_deferred n) = np_latest_composite n" for n
      by (simp_all add: emit_deferred_def split: option.splits)
    have g: "needs_stop_nomination (send_latest_envelope b) = needs_stop_nomination b"
      "needs_clear_slot_validation (send_latest_envelope b) = needs_clear_slot_validation b"
      "fully_validated (send_latest_envelope b) = fully_validated b" for b
      by (simp_all add: send_latest_envelope_def notify_def split: option.splits)
    have same: "current_ballot (sl_ballot ?t) = current_ballot (sl_ballot s)" "phase (sl_ballot ?t) = phase (sl_ballot s)"
      "latest_envelopes (sl_ballot ?t) = latest_envelopes (sl_ballot s)"
      "current_message_level (sl_ballot ?t) = current_message_level (sl_ballot s)"
      "needs_stop_nomination (sl_ballot ?t) = needs_stop_nomination (sl_ballot s)"
      "needs_clear_slot_validation (sl_ballot ?t) = needs_clear_slot_validation (sl_ballot s)"
      "np_votes (sl_nomination ?t) = np_votes (sl_nomination s)"
      "np_accepted (sl_nomination ?t) = np_accepted (sl_nomination s)"
      "np_latest_nominations (sl_nomination ?t) = np_latest_nominations (sl_nomination s)"
      "np_latest_composite (sl_nomination ?t) = np_latest_composite (sl_nomination s)"
      "flags_agree ?t"
      "sl_local_quorum_set ?t = sl_local_quorum_set s" "sl_externalized_value ?t = sl_externalized_value s"
      "sl_got_v_blocking ?t = sl_got_v_blocking s"
      using False RestoreValidated
      by (simp_all add: restore_fully_validated_def f g set_fully_validated_def protocol_setters slot_settled_def
          flags_agree_def Let_def)
    have "slot_core ?t" by (rule slot_core_frame [OF settled_core(1) [OF RestoreValidated]]) (simp_all add: same)
    moreover have "get_externalized_value (sl_ballot ?t) = get_externalized_value (sl_ballot s)"
      by (simp add: get_externalized_value_def same)
    moreover have "heard_nodes ?t = heard_nodes s" by (rule heard_nodes_cong) (simp_all add: same)
    ultimately show ?thesis using RestoreValidated by (simp add: slot_settled_def handed_over_def same)
  qed (use RestoreValidated in \<open>simp add: restore_fully_validated_def\<close>)
qed

lemma is_v_blocking_nonempty: "\<not> is_v_blocking q {}"
proof (induction q)
  case (ScpQuorumSet th vs inner)
  then have "filter (\<lambda>i. is_v_blocking i {}) inner = []" by (simp add: filter_empty_conv)
  then show ?case by (simp add: Let_def)
qed

lemma new_slot_settled: "slot_settled (new_slot idx local qs is_validator)"
proof -
  have "heard_nodes (new_slot idx local qs is_validator) = {}"
    by (simp add: heard_nodes_def has_latest_message_from_def new_slot_def protocol_setters
        new_ballot_protocol_def new_nomination_protocol_def)
  then show ?thesis
    using is_v_blocking_nonempty
    by (simp add: slot_settled_def slot_core_defs flags_agree_def handed_over_def new_slot_def protocol_setters new_ballot_protocol_def
        new_nomination_protocol_def active_when_final_def accepted_voted_def get_externalized_value_def)
qed

lemma force_externalize_settled:
  assumes "slot_settled s"
  shows "slot_settled (force_externalize v s)"
proof -
  have "heard_nodes (force_externalize v s) = heard_nodes s"
    by (rule heard_nodes_cong)
      (simp_all add: force_externalize_def Ballot.force_externalize_def set_fully_validated_def protocol_setters Let_def)
  with assms show ?thesis
    by (simp add: slot_settled_def slot_core_defs flags_agree_def handed_over_def force_externalize_def Ballot.force_externalize_def
        set_fully_validated_def protocol_setters active_when_final_def accepted_voted_def get_externalized_value_def Let_def)
qed

lemma bump_to_fresh_ballot:
  assumes "current_ballot s = None"
  shows "current_ballot (snd (bump_to_ballot ctx b True s)) = Some b"
    "current_message_level (snd (bump_to_ballot ctx b True s)) = current_message_level s"
    "needs_stop_nomination (snd (bump_to_ballot ctx b True s)) = needs_stop_nomination s"
    "needs_clear_slot_validation (snd (bump_to_ballot ctx b True s)) = needs_clear_slot_validation s"
    "latest_envelopes (snd (bump_to_ballot ctx b True s)) = latest_envelopes s"
    "fully_validated (snd (bump_to_ballot ctx b True s)) = fully_validated s"
  using assms by (simp_all add: bump_to_ballot_def notify_def Let_def split: option.split)

lemma restore_pledges_fields:
  assumes "current_ballot s = None" "\<not> is_nomination pl"
  shows "current_ballot (restore_pledges ctx pl s) \<noteq> None"
    "current_message_level (restore_pledges ctx pl s) = current_message_level s"
    "needs_stop_nomination (restore_pledges ctx pl s) = needs_stop_nomination s"
    "needs_clear_slot_validation (restore_pledges ctx pl s) = needs_clear_slot_validation s"
    "latest_envelopes (restore_pledges ctx pl s) = latest_envelopes s"
    "fully_validated (restore_pledges ctx pl s) = fully_validated s"
  using assms by (cases pl; simp add: restore_pledges_def bump_to_fresh_ballot Let_def)+

lemma ballot_restore_fields:
  assumes "Ballot_Machine.set_state_from_envelope ctx env b = Inr b'"
  shows "current_ballot b = None" "current_ballot b' \<noteq> None" "current_message_level b' = current_message_level b"
    "needs_stop_nomination b' = needs_stop_nomination b"
    "needs_clear_slot_validation b' = needs_clear_slot_validation b"
    "latest_envelopes b' = AList.update (st_node_id (env_statement env)) env (latest_envelopes b)"
    "fully_validated b' = fully_validated b"
  using assms
  by (auto simp: Ballot_Machine.set_state_from_envelope_def restore_pledges_fields
      restore_pledges_fields(1) [unfolded not_None_eq] Let_def split: if_splits)

lemma restore_settled:
  assumes "set_state_from_envelope d env s = Inr (w, t)" "slot_settled s"
    and "\<And>nom. nomination_of env = Some nom \<Longrightarrow> set (accepted nom) \<subseteq> set (votes nom)"
  shows "slot_settled t"
proof (cases "st_node_id (env_statement env) \<noteq> sl_local_node_id s \<or> st_slot_index (env_statement env) \<noteq> sl_slot_index s")
  case True
  with assms(1,2) show ?thesis by (auto simp: set_state_from_envelope_def)
next
  case False
  let ?n = "st_node_id (env_statement env)"
  note core = settled_core [OF assms(2)]
  text \<open>The restored slot before the v-blocking check.\<close>
  obtain u where u: "slot_core u" "handed_over u" "\<not> needs_stop_nomination (sl_ballot u)"
      "\<not> needs_clear_slot_validation (sl_ballot u)"
      "sl_externalized_value u = get_externalized_value (sl_ballot u)"
    and heard: "heard_nodes s \<subseteq> heard_nodes u" "has_latest_message_from ?n s \<or> \<not> w \<Longrightarrow> heard_nodes u = heard_nodes s"
    and got: "sl_got_v_blocking u = sl_got_v_blocking s" "sl_local_quorum_set u = sl_local_quorum_set s"
    and t: "t = (if w \<and> \<not> has_latest_message_from ?n s then maybe_set_got_v_blocking u else u)"
  proof (cases "nomination_of env")
    case (Some nom)
    then have pl: "is_nomination (st_pledges (env_statement env))"
      by (cases "st_pledges (env_statement env)") simp_all
    obtain r n where n: "Nomination.set_state_from_envelope env (sl_nomination s) = (r, n)" by force
    let ?u = "s\<lparr>sl_nomination := n\<rparr>"
    have r: "w = r" "t = (if w \<and> \<not> has_latest_message_from ?n s then maybe_set_got_v_blocking ?u else ?u)"
      using assms(1) False pl n by (auto simp: set_state_from_envelope_def Let_def)
    have fields: "np_latest_nominations n = (if r then AList.update ?n env (np_latest_nominations (sl_nomination s))
        else np_latest_nominations (sl_nomination s))"
      "np_fully_validated n = np_fully_validated (sl_nomination s)"
      "np_latest_composite n = np_latest_composite (sl_nomination s)" "accepted_voted n"
      using n Some assms(3) core(1)
      by (auto simp: Nomination.set_state_from_envelope_def accepted_voted_def slot_core_defs split: if_splits)
    have hears: "heard_nodes s \<subseteq> heard_nodes ?u"
      "has_latest_message_from ?n s \<or> \<not> w \<Longrightarrow> heard_nodes ?u = heard_nodes s"
      by (auto simp: heard_nodes_def has_latest_message_from_def fields r update_conv' split: if_splits)
    moreover have "slot_core ?u" "handed_over ?u"
      using core fields is_v_blocking_mono [OF _ hears(1)] by (auto simp: slot_core_defs flags_agree_def handed_over_def)
    ultimately show ?thesis using that [of ?u] r(2) assms(2) by (simp add: slot_settled_def)
  next
    case None
    then have pl: "\<not> is_nomination (st_pledges (env_statement env))"
      by (cases "st_pledges (env_statement env)") simp_all
    from assms(1) False pl obtain b where
      b: "Ballot_Machine.set_state_from_envelope (slot_ctx d s) env (sl_ballot s) = Inr b"
      and r: w "t = (if w \<and> \<not> has_latest_message_from ?n s
        then maybe_set_got_v_blocking (sync_externalized_value_from_ballot (put_ballot b s))
        else sync_externalized_value_from_ballot (put_ballot b s))"
      by (auto simp: set_state_from_envelope_def Let_def split: sum.splits)
    let ?u = "sync_externalized_value_from_ballot (put_ballot b s)"
    note f = ballot_restore_fields [OF b]
    have sync: "sl_ballot ?u = b" "sl_nomination ?u = sl_nomination s" "sl_local_quorum_set ?u = sl_local_quorum_set s"
      "sl_fully_validated ?u = sl_fully_validated s" "sl_got_v_blocking ?u = sl_got_v_blocking s"
      by (simp_all add: sync_externalized_value_from_ballot_def split: option.split)
    have "get_externalized_value (sl_ballot s) = None"
      using f(1) by (simp add: get_externalized_value_def)
    then have "sl_externalized_value s = None" using assms(2) by (simp add: slot_settled_def)
    then have ext: "sl_externalized_value ?u = get_externalized_value b"
      by (simp add: sync_externalized_value_from_ballot_def Ballot.is_externalized_def get_externalized_value_def
          split: option.split)
    have hears: "heard_nodes s \<subseteq> heard_nodes ?u"
      "has_latest_message_from ?n s \<or> \<not> w \<Longrightarrow> heard_nodes ?u = heard_nodes s"
      using r(1) by (auto simp: heard_nodes_def has_latest_message_from_def sync f(6) update_conv')
    moreover have "flags_agree ?u"
      using core(1) assms(2) f(5,7) sync by (simp add: slot_core_def flags_agree_def slot_settled_def)
    moreover have "record_core ?u" "handed_over ?u"
      using core f sync ext is_v_blocking_mono [OF _ hears(1)]
      by (auto simp: slot_core_defs handed_over_def active_when_final_def)
    ultimately show ?thesis
      using that [of ?u] r(2) assms(2) f sync ext by (simp add: slot_settled_def slot_core_def)
  qed
  show ?thesis
  proof (cases "w \<and> \<not> has_latest_message_from ?n s")
    case True
    have "slot_core (maybe_set_got_v_blocking u)" "heard_nodes (maybe_set_got_v_blocking u) = heard_nodes u"
      using u(1) heard_nodes_cong [of "maybe_set_got_v_blocking u" u]
      by (auto simp: slot_core_defs flags_agree_def maybe_set_got_v_blocking_def)
    with True t u maybe_set_got [of u] show ?thesis
      by (simp add: slot_settled_def handed_over_def slot_core_defs)
  next
    case False
    with t u heard(2) got assms(2) show ?thesis by (auto simp: slot_settled_def)
  qed
qed

lemma slot_reachable_settled: "slot_reachable d s \<Longrightarrow> slot_settled s"
proof (induction rule: slot_reachable.induct)
  case (Restore s env w t)
  then show ?case using restore_settled by blast
qed (auto intro: new_slot_settled slot_input_settles force_externalize_settled)

text \<open>
  C23. After every operation the slot's own record is what its protocols say: its externalised value
  is the ballot protocol's, its validation flag is that of the nomination and of the ballot protocol,
  it has heard from a v-blocking set exactly when the nodes with a stored message form one, the
  ballot protocol's requests to stop nomination and to clear validation have been carried out, and a
  composite candidate has been handed to the ballot protocol. The operations are those of
  \<open>slot_reachable\<close>: every slot input, forced externalisation, and restoring a statement of the node,
  where a restored nomination accepts only values it votes for, as the node's own nominations do.
\<close>

theorem slot_record_matches_protocols:
  assumes "slot_reachable d s"
  shows "sl_externalized_value s = get_externalized_value (sl_ballot s) \<and>
    np_fully_validated (sl_nomination s) = sl_fully_validated s \<and>
    fully_validated (sl_ballot s) = sl_fully_validated s \<and>
    (sl_got_v_blocking s \<longleftrightarrow> is_v_blocking (sl_local_quorum_set s) (heard_nodes s)) \<and>
    \<not> needs_stop_nomination (sl_ballot s) \<and> \<not> needs_clear_slot_validation (sl_ballot s) \<and>
    (np_latest_composite (sl_nomination s) \<noteq> None \<longrightarrow> has_active_ballot s)"
  using slot_reachable_settled [OF assms]
  by (simp add: slot_settled_def slot_core_defs flags_agree_def handed_over_def has_active_ballot_def)

text \<open>A validator that is its own quorum nominates and externalises in one call.\<close>

definition solo_slot :: slot where
  "solo_slot = snd (projr (nominate solo_driver [5] [9] False (new_slot 7 [1] (simple_quorum_set 1 [[1]]) True)))"

lemma solo_slot_nominate:
  "nominate solo_driver [5] [9] False (new_slot 7 [1] (simple_quorum_set 1 [[1]]) True) = Inr (True, solo_slot)"
  unfolding solo_slot_def by (rule Inr_TrueI) code_simp+

lemma solo_slot_reachable: "slot_reachable solo_driver solo_slot"
  using solo_slot_nominate by (blast intro: slot_reachable.New slot_reachable.Input slot_input.Nominate)

theorem slot_record_matches_protocols_witness:
  "get_externalized_value (sl_ballot solo_slot) = Some [5] \<and>
   is_v_blocking (sl_local_quorum_set solo_slot) (heard_nodes solo_slot)"
proof -
  have "sl_externalized_value solo_slot = Some [5]" "sl_got_v_blocking solo_slot" by code_simp+
  with slot_record_matches_protocols [OF solo_slot_reachable] show ?thesis by simp
qed

section \<open>Externalisation is final\<close>

definition keeps_value :: "slot \<Rightarrow> slot \<Rightarrow> bool" where
  "keeps_value s t \<longleftrightarrow> (sl_externalized_value s \<noteq> None \<longrightarrow> sl_externalized_value t = sl_externalized_value s)"

lemma bookkeeping_keeps_value: "keeps_value s (run_post_emit_bookkeeping s)"
proof -
  have "sl_externalized_value (stop_if_needed (propagate_ballot_clear_slot_validation s)) = sl_externalized_value s"
    by (simp add: stop_if_needed_def propagate_ballot_clear_slot_validation_def slot_notify_def Let_def split: prod.split)
  then show ?thesis
    by (auto simp: keeps_value_def run_post_emit_bookkeeping_alt maybe_record_externalization_def)
qed

lemma after_ballot_keeps_value:
  assumes "after_ballot r s = Inr (w, t)"
  shows "keeps_value s t"
proof -
  from assms obtain b where "t = run_post_emit_bookkeeping (put_ballot b s)"
    by (auto simp: after_ballot_def lift_ballot_def split: sum.splits)
  with bookkeeping_keeps_value [of "put_ballot b s"] show ?thesis by (simp add: keeps_value_def)
qed

lemma check_nomination_to_ballot_keeps_value:
  "check_nomination_to_ballot d s = Inr t \<Longrightarrow> sl_externalized_value t = sl_externalized_value s"
  by (auto simp: check_nomination_to_ballot_def lift_ballot_def Let_def split: if_splits option.splits sum.splits)

lemma process_part_keeps_value:
  "process_nomination_envelope d env s = Inr (r, t) \<Longrightarrow> sl_externalized_value t = sl_externalized_value s"
  "process_ballot_envelope d env s = Inr (r, t) \<Longrightarrow> sl_externalized_value t = sl_externalized_value s"
  by (auto simp: process_nomination_envelope_def process_ballot_envelope_def sync_composite_candidate_def
      set_fully_validated_def Let_def split: if_splits sum.splits)

lemma process_envelope_keeps_value:
  assumes "process_envelope d env s = Inr (r, t)"
  shows "keeps_value s t"
proof -
  from assms obtain s1 s3 where
    s1: "(if is_nomination (st_pledges (env_statement env))
          then process_nomination_envelope d env s else process_ballot_envelope d env s) = Inr (r, s1)"
    and s3: "check_nomination_to_ballot d (if r \<noteq> EnvInvalid then push_envelope env s1 else s1) = Inr s3"
    and t: "t = run_post_emit_bookkeeping s3"
    unfolding process_envelope_def by (auto simp: bindE_Inr_iff)
  from s1 have "sl_externalized_value s1 = sl_externalized_value s"
    using process_part_keeps_value by (auto split: if_splits)
  moreover have "sl_externalized_value (push_envelope env s1) = sl_externalized_value s1"
    by (simp add: push_envelope_def Let_def)
  ultimately have "sl_externalized_value s3 = sl_externalized_value s"
    using check_nomination_to_ballot_keeps_value [OF s3] by (simp split: if_splits)
  with bookkeeping_keeps_value [of s3] show ?thesis by (simp add: keeps_value_def t)
qed

lemma slot_input_keeps_value: "slot_input d s t \<Longrightarrow> keeps_value s t"
proof (induction rule: slot_input.induct)
  case (Envelope env s r t)
  then show ?case by (rule process_envelope_keeps_value)
next
  case (Nominate v prev timedout s w t)
  then show ?case by (auto simp: nominate_def keeps_value_def Slot.is_externalized_def split: if_splits)
next
  case (BallotTimeout s w t)
  then show ?case
    by (auto simp: bump_ballot_on_timeout_def keeps_value_def Let_def split: if_splits dest!: after_ballot_keeps_value)
next
  case (Abandon n s w t)
  then show ?case
    by (auto simp: Slot.abandon_ballot_def keeps_value_def sync_composite_candidate_def Let_def dest!: after_ballot_keeps_value)
next
  case (BumpState v n s w t)
  then show ?case by (simp add: Slot.bump_state_def Let_def after_ballot_keeps_value)
next
  case (ForceBump v s w t)
  then show ?case by (simp add: force_bump_state_def after_ballot_keeps_value)
qed (simp_all add: keeps_value_def stop_nomination_def restore_fully_validated_def set_fully_validated_def
    slot_notify_def Let_def)

text \<open>
  C24. Externalisation is final: once a slot has an externalised value, no envelope, timeout,
  nomination or bump changes it, in the slot or in its ballot protocol, and nominating is refused.
\<close>

theorem externalized_value_final:
  assumes "slot_reachable d s" "sl_externalized_value s = Some v" "slot_input d s t"
  shows "sl_externalized_value t = Some v \<and> get_externalized_value (sl_ballot t) = Some v \<and>
    nominate d x prev timedout t = Inr (False, t)"
proof -
  have v: "sl_externalized_value t = Some v"
    using slot_input_keeps_value [OF assms(3)] assms(2) by (simp add: keeps_value_def)
  have "slot_settled t"
    using slot_input_settles [OF assms(3) slot_reachable_settled [OF assms(1)]] .
  then have "sl_externalized_value t = get_externalized_value (sl_ballot t)" by (simp only: slot_settled_def)
  with v show ?thesis by (simp add: nominate_def Slot.is_externalized_def)
qed

theorem externalized_value_final_witness:
  "sl_externalized_value (stop_nomination solo_slot) = Some [5]"
proof -
  have "sl_externalized_value solo_slot = Some [5]" by code_simp
  from externalized_value_final [OF solo_slot_reachable this slot_input.StopNomination] show ?thesis by blast
qed

section \<open>Rejected envelopes\<close>

lemma nomination_rejects:
  assumes "Nomination.process_envelope ctx env n = Inr (EnvInvalid, n')"
  shows "n' = n"
proof -
  have "process_stored ctx m nom s \<noteq> Inr (EnvInvalid, t)" for m nom s t
    by (auto simp: process_stored_def Let_def bindE_Inr_iff split: if_splits prod.splits)
  with assms show ?thesis
    by (auto simp: Nomination.process_envelope_def Let_def split: if_splits option.splits)
qed

text \<open>A settled slot has nothing left for the bookkeeping to do.\<close>

lemma bookkeeping_idle:
  assumes "slot_settled s"
  shows "run_post_emit_bookkeeping s = s"
proof -
  have b: "(sl_ballot s)\<lparr>needs_clear_slot_validation := False\<rparr> = sl_ballot s"
    "(sl_ballot s)\<lparr>needs_stop_nomination := False\<rparr> = sl_ballot s"
    using assms by (simp_all add: slot_settled_def)
  have "propagate_ballot_clear_slot_validation s = s" "stop_if_needed s = s"
    using assms by (simp_all add: propagate_ballot_clear_slot_validation_def stop_if_needed_def protocol_setters b slot_settled_def)
  moreover have "maybe_record_externalization s = s"
    using assms by (auto simp: maybe_record_externalization_def slot_settled_def)
  moreover have "maybe_set_got_v_blocking s = s"
    using assms by (simp add: maybe_set_got_v_blocking_def slot_settled_def)
  ultimately show ?thesis by (simp add: run_post_emit_bookkeeping_alt)
qed

lemma check_nomination_idle: "handed_over s \<Longrightarrow> check_nomination_to_ballot d s = Inr s"
  by (auto simp: check_nomination_to_ballot_def handed_over_def split: option.split)

lemma put_same [simp]: "put_nomination (sl_nomination s) s = s" "put_ballot (sl_ballot s) s = s"
  by (simp_all add: put_nomination_def put_ballot_def)

text \<open>
  C25. An envelope that is answered with \<open>Invalid\<close> leaves no trace: the slot is unchanged, its history
  and its log included, except that the ballot protocol may have been shown the current composite.
\<close>

theorem rejected_envelope_leaves_no_trace:
  assumes "slot_reachable d s" "process_envelope d env s = Inr (EnvInvalid, t)"
  shows "t = s \<or> t = sync_composite_candidate s"
proof -
  note settled = slot_reachable_settled [OF assms(1)]
  from assms(2) obtain s1 where
    s1: "(if is_nomination (st_pledges (env_statement env))
          then process_nomination_envelope d env s else process_ballot_envelope d env s) = Inr (EnvInvalid, s1)"
    and t: "bindE (check_nomination_to_ballot d s1) (\<lambda>s3. Inr (EnvInvalid, run_post_emit_bookkeeping s3)) = Inr (EnvInvalid, t)"
    unfolding process_envelope_def by (auto simp: bindE_Inr_iff)
  have "s1 = s \<or> s1 = sync_composite_candidate s"
    using s1 by (auto simp: process_nomination_envelope_def process_ballot_envelope_def Let_def
        split: if_splits sum.splits dest: ballot_rejects nomination_rejects)
  moreover have "slot_settled (sync_composite_candidate s)"
  proof -
    have "heard_nodes (sync_composite_candidate s) = heard_nodes s"
      by (rule heard_nodes_cong) (simp_all add: sync_composite_candidate_def protocol_setters)
    with settled sync_composite_core [OF settled_core(1) [OF settled]] show ?thesis
      by (simp add: slot_settled_def handed_over_def sync_composite_candidate_def protocol_setters
          get_externalized_value_def)
  qed
  ultimately have "slot_settled s1" using settled by blast
  with t check_nomination_idle [OF settled_core(2)] bookkeeping_idle have "t = s1" by simp
  with \<open>s1 = s \<or> s1 = sync_composite_candidate s\<close> show ?thesis by simp
qed

text \<open>A peer's prepare statement with counter zero is not sane.\<close>

definition zero_ballot_envelope :: scp_envelope where
  "zero_ballot_envelope = \<lparr>env_statement = \<lparr>st_node_id = [2], st_slot_index = 7, st_pledges = Prepare
     \<lparr>prep_quorum_set_hash = [7], prep_ballot = ScpBallot 0 [5], prep_prepared = None, prep_prepared_prime = None,
      prep_n_c = 0, prep_n_h = 0\<rparr>\<rparr>, env_signature = []\<rparr>"

theorem rejected_envelope_leaves_no_trace_witness:
  "snd (projr (process_envelope solo_driver zero_ballot_envelope solo_slot)) \<in> {solo_slot, sync_composite_candidate solo_slot}"
proof -
  let ?r = "process_envelope solo_driver zero_ballot_envelope solo_slot"
  have "\<not> isl ?r" "fst (projr ?r) = EnvInvalid" by code_simp+
  then have "?r = Inr (EnvInvalid, snd (projr ?r))" by (cases ?r) auto
  from rejected_envelope_leaves_no_trace [OF solo_slot_reachable this] show ?thesis by blast
qed

section \<open>Every input returns\<close>

text \<open>
  Self-emission of a nomination ends when the values the driver extracts from finitely many values
  are finitely many, extraction from extracted ones included.
\<close>

definition finite_extraction :: "slot_context \<Rightarrow> bool" where
  "finite_extraction ctx \<longleftrightarrow> (\<forall>W. finite W \<longrightarrow> (\<exists>U. extraction_closed ctx U \<and> W \<subseteq> U))"

definition stored_values :: "nomination_protocol \<Rightarrow> scp_value set" where
  "stored_values s = set (np_votes s) \<union> set (np_accepted s) \<union>
     (\<Union>(n, env) \<in> set (np_latest_nominations s). \<Union>(nomination_values ` set_option (nomination_of env)))"

lemma stored_values_finite: "finite (stored_values s)"
  by (auto simp: stored_values_def)

lemma stored_values_within:
  assumes "stored_values s \<subseteq> U"
  shows "values_in U s" "stored_values_in U s"
proof -
  show "values_in U s" using assms by (auto simp: values_in_def stored_values_def)
  have "nomination_values nom \<subseteq> U" if "map_of (np_latest_nominations s) n = Some env" "nomination_of env = Some nom" for n env nom
  proof -
    from that(1) have "(n, env) \<in> set (np_latest_nominations s)" by (rule map_of_SomeD)
    then have "\<Union>(nomination_values ` set_option (nomination_of env)) \<subseteq> stored_values s"
      unfolding stored_values_def by blast
    with that(2) assms show ?thesis by auto
  qed
  then show "stored_values_in U s" unfolding stored_values_in_def by blast
qed

lemma finite_extraction_closed:
  assumes "finite_extraction ctx" "finite W"
  obtains U where "extraction_closed ctx U" "W \<subseteq> U" "values_in U s" "stored_values_in U s"
proof -
  from assms stored_values_finite [of s] obtain U where "extraction_closed ctx U" "W \<union> stored_values s \<subseteq> U"
    unfolding finite_extraction_def by (meson finite_UnI)
  with stored_values_within [of s U] that show thesis by simp
qed

lemma nomination_envelope_returns:
  assumes "finite_extraction ctx"
  shows "\<exists>w t. Nomination.process_envelope ctx env s = Inr (w, t)"
proof -
  let ?W = "\<Union>(nomination_values ` set_option (nomination_of env))"
  have "finite ?W" by auto
  then obtain U where "extraction_closed ctx U" "?W \<subseteq> U" "values_in U s"
    by (rule finite_extraction_closed [OF assms, where s = s])
  then show ?thesis using process_envelope_returns [of ctx U s env] by auto
qed

lemma nomination_returns:
  assumes "finite_extraction ctx" "Nomination.nominate ctx v prev timedout s = Inl f"
  shows "f = LeaderLoopStuck"
proof -
  let ?W = "insert v (set_option (drv_strip_all_upgrades (driver ctx) v))"
  have "finite ?W" by simp
  then obtain U where "extraction_closed ctx U" "?W \<subseteq> U" "values_in U s" "stored_values_in U s"
    by (rule finite_extraction_closed [OF assms(1), where s = s])
  then have "Nomination.nominate ctx v prev timedout s \<noteq> Inl EmissionDiverges"
    by (intro nominate_returns) auto
  with assms(2) show ?thesis by (cases f) auto
qed

lemma after_ballot_limit:
  "after_ballot r s = Inl f \<Longrightarrow> (\<And>g. r = Inl g \<Longrightarrow> g = TransitionLimit) \<Longrightarrow> f = BallotFault TransitionLimit"
  by (auto simp: after_ballot_def lift_ballot_def bindE_Inl_iff split: sum.splits)

lemma check_nomination_limit:
  assumes "check_nomination_to_ballot d s = Inl f" "slot_core s"
  shows "f = BallotFault TransitionLimit"
  using assms
  by (auto simp: check_nomination_to_ballot_def lift_ballot_def slot_core_defs Let_def bindE_Inl_iff
      split: if_splits option.splits sum.splits dest: bump_fault)

lemma process_envelope_limit:
  assumes f: "process_envelope d env s = Inl f" and core: "slot_core s" and "finite_extraction (slot_ctx d s)"
  shows "f = BallotFault TransitionLimit"
proof -
  have level: "current_message_level (sl_ballot s) = 0" using core by (simp add: slot_core_defs)
  let ?part = "if is_nomination (st_pledges (env_statement env))
        then process_nomination_envelope d env s else process_ballot_envelope d env s"
  from f consider "?part = Inl f" | r s1 where "?part = Inr (r, s1)"
      "check_nomination_to_ballot d (if r \<noteq> EnvInvalid then push_envelope env s1 else s1) = Inl f"
    unfolding process_envelope_def by (auto simp: bindE_Inl_iff)
  then show ?thesis
  proof cases
    case 1
    obtain w n where "Nomination.process_envelope (slot_ctx d s) env (sl_nomination s) = Inr (w, n)"
      using nomination_envelope_returns [OF assms(3)] by blast
    with 1 level show ?thesis
      by (auto simp: process_nomination_envelope_def process_ballot_envelope_def sync_composite_candidate_def
          set_composite_candidate_def Let_def split: if_splits sum.splits dest: process_envelope_fault)
  next
    case 2
    have "slot_core s1"
      using 2(1) core process_nomination_envelope_core process_ballot_envelope_core by (auto split: if_splits)
    then have "slot_core (if r \<noteq> EnvInvalid then push_envelope env s1 else s1)" by (simp add: push_envelope_core)
    from check_nomination_limit [OF 2(2) this] show ?thesis .
  qed
qed

lemma nominate_limit:
  assumes f: "nominate d v prev timedout s = Inl f" and core: "slot_core s" and "finite_extraction (slot_ctx d s)"
  shows "f = BallotFault TransitionLimit \<or> f = NominationFault LeaderLoopStuck"
proof -
  let ?s1 = "s\<lparr>sl_nomination_started := True\<rparr>"
  have ctx: "slot_ctx d ?s1 = slot_ctx d s" by (simp add: slot_ctx_def)
  have core1: "slot_core ?s1"
    using core by (rule slot_core_frame) (use core in \<open>simp_all add: slot_core_defs flags_agree_def\<close>)
  from f consider g where "f = NominationFault g" "Nomination.nominate (slot_ctx d ?s1) v prev timedout (sl_nomination ?s1) = Inl g"
    | w nn where "Nomination.nominate (slot_ctx d ?s1) v prev timedout (sl_nomination ?s1) = Inr (w, nn)"
      "check_nomination_to_ballot d (put_nomination nn ?s1) = Inl f"
    by (auto simp: nominate_def Let_def bindE_Inl_iff split: if_splits sum.splits)
  then show ?thesis
  proof cases
    case 1
    then show ?thesis using nomination_returns [OF assms(3)] unfolding ctx by blast
  next
    case 2
    have "nom_steps (slot_ctx d ?s1) (sl_nomination ?s1) nn"
      using core by (intro nominate_steps [OF 2(1)]) (simp add: slot_core_defs)
    from check_nomination_limit [OF 2(2) put_nomination_core [OF core1 this]] show ?thesis ..
  qed
qed

lemma restore_fault_iff:
  "set_state_from_envelope d env s = Inl f \<longleftrightarrow>
     f = RestoreFault AlreadyStarted \<and> st_node_id (env_statement env) = sl_local_node_id s \<and>
     st_slot_index (env_statement env) = sl_slot_index s \<and>
     \<not> is_nomination (st_pledges (env_statement env)) \<and> has_active_ballot s"
  by (auto simp: set_state_from_envelope_def Ballot_Machine.set_state_from_envelope_def has_active_ballot_def
      Let_def split: sum.splits prod.splits if_splits)

text \<open>
  C26. Every input of a reachable slot comes back or stops at a limit of the source. Bumps, timeouts,
  abandoned ballots and envelopes stop at the fifty nested transitions of the ballot protocol only,
  nominations also when the leader election finds no leader; that self-emission of a nomination ends
  rests on the driver extracting finitely many values from finitely many. Restoring a statement stops
  in one case, the \<open>expect\<close> of the source: a ballot statement of this node for this slot when a
  ballot is already set. No \<open>unwrap\<close> fails.
\<close>

theorem slot_inputs_return:
  assumes "slot_reachable d s" "finite_extraction (slot_ctx d s)"
  shows "(\<forall>f. process_envelope d env s = Inl f \<longrightarrow> f = BallotFault TransitionLimit) \<and>
    (\<forall>f. nominate d v prev timedout s = Inl f \<longrightarrow>
       f = BallotFault TransitionLimit \<or> f = NominationFault LeaderLoopStuck) \<and>
    (\<forall>f. bump_ballot_on_timeout d s = Inl f \<longrightarrow> f = BallotFault TransitionLimit) \<and>
    (\<forall>f. abandon_ballot d n s = Inl f \<longrightarrow> f = BallotFault TransitionLimit) \<and>
    (\<forall>f. bump_state d v n s = Inl f \<longrightarrow> f = BallotFault TransitionLimit) \<and>
    (\<forall>f. force_bump_state d v s = Inl f \<longrightarrow> f = BallotFault TransitionLimit) \<and>
    (\<forall>f. set_state_from_envelope d env s = Inl f \<longleftrightarrow>
       f = RestoreFault AlreadyStarted \<and> st_node_id (env_statement env) = sl_local_node_id s \<and>
       st_slot_index (env_statement env) = sl_slot_index s \<and>
       \<not> is_nomination (st_pledges (env_statement env)) \<and> has_active_ballot s)"
proof (intro conjI allI)
  note settled = slot_reachable_settled [OF assms(1)]
  note core = settled_core(1) [OF settled]
  have level: "current_message_level (sl_ballot s) = 0" using core by (simp add: slot_core_defs)
  fix f
  show "process_envelope d env s = Inl f \<longrightarrow> f = BallotFault TransitionLimit"
    using process_envelope_limit core assms(2) by blast
  show "nominate d v prev timedout s = Inl f \<longrightarrow> f = BallotFault TransitionLimit \<or> f = NominationFault LeaderLoopStuck"
    using nominate_limit core assms(2) by blast
  show "bump_ballot_on_timeout d s = Inl f \<longrightarrow> f = BallotFault TransitionLimit"
    using level
    by (auto simp: bump_ballot_on_timeout_def Let_def split: if_splits dest!: after_ballot_limit
        dest: bump_timeout_fault)
  show "abandon_ballot d n s = Inl f \<longrightarrow> f = BallotFault TransitionLimit"
    unfolding Slot.abandon_ballot_def Let_def
    by (rule impI, erule after_ballot_limit)
      (erule emitted_safe.abandon_ballot_fault,
        simp add: level_zero_fits level sync_composite_candidate_def set_composite_candidate_def)
  show "bump_state d v n s = Inl f \<longrightarrow> f = BallotFault TransitionLimit"
    unfolding Slot.bump_state_def Let_def
    by (rule impI, erule after_ballot_limit) (erule emitted_safe.bump_state_fault, simp add: level_zero_fits level)
  show "force_bump_state d v s = Inl f \<longrightarrow> f = BallotFault TransitionLimit"
    unfolding force_bump_state_def
    by (rule impI, erule after_ballot_limit) (erule bump_fault, rule level)
  show "set_state_from_envelope d env s = Inl f \<longleftrightarrow>
       f = RestoreFault AlreadyStarted \<and> st_node_id (env_statement env) = sl_local_node_id s \<and>
       st_slot_index (env_statement env) = sl_slot_index s \<and>
       \<not> is_nomination (st_pledges (env_statement env)) \<and> has_active_ballot s"
    by (rule restore_fault_iff)
qed

theorem slot_inputs_return_witness:
  "bump_ballot_on_timeout solo_driver solo_slot \<noteq> Inl (BallotFault UnwrapNone) \<and>
   process_envelope solo_driver zero_ballot_envelope solo_slot \<noteq> Inl (NominationFault EmissionDiverges)"
proof -
  have "finite_extraction (slot_ctx solo_driver solo_slot)"
    by (auto simp: finite_extraction_def extraction_closed_def slot_ctx_def solo_driver_def)
  note returns = slot_inputs_return [OF solo_slot_reachable this]
  have "bump_ballot_on_timeout solo_driver solo_slot = Inl f \<Longrightarrow> f = BallotFault TransitionLimit" for f
    using returns by blast
  moreover have "process_envelope solo_driver zero_ballot_envelope solo_slot = Inl f \<Longrightarrow> f = BallotFault TransitionLimit" for f
    using returns by blast
  ultimately show ?thesis by fastforce
qed

end
