(* ===== verification/Amounts.thy ===== *)
theory Amounts
  imports Prelude "HOL-Library.Signed_Division"
begin

text \<open>
  The signed integers of the ledger code, as integers with their range: \<open>i64\<close> amounts, \<open>i32\<close> price
  components and \<open>i128\<close> intermediate results. Casts and unchecked operations wrap, as in a release
  build; checked and saturating operations are those of \<open>core::num\<close>. Signed division truncates
  (\<open>sdiv\<close>). The second half holds the facts on floors, ceilings and integer square roots that the
  arithmetic of offers and pools shares.
\<close>

type_synonym i32 = int
type_synonym i64 = int
type_synonym i128 = int
type_synonym u128 = int

section \<open>Ranges, casts and checked operations\<close>

definition i64_max :: i64 where
  "i64_max = 9223372036854775807"

definition i64_min :: i64 where
  "i64_min = - 9223372036854775808"

definition i128_max :: i128 where
  "i128_max = 170141183460469231731687303715884105727"

text \<open>The value an expression has when its exact value is \<open>x\<close> and its type has \<open>half\<close> negative values.\<close>

definition wrap_signed :: "int \<Rightarrow> int \<Rightarrow> int" where
  "wrap_signed half x = (x + half) mod (2 * half) - half"

abbreviation as_i64 :: "int \<Rightarrow> i64" where
  "as_i64 \<equiv> wrap_signed 9223372036854775808"

abbreviation as_i128 :: "int \<Rightarrow> i128" where
  "as_i128 \<equiv> wrap_signed 170141183460469231731687303715884105728"

abbreviation as_u128 :: "int \<Rightarrow> u128" where
  "as_u128 x \<equiv> x mod 340282366920938463463374607431768211456"

definition i64_checked :: "int \<Rightarrow> i64 option" where
  "i64_checked x = (if i64_min \<le> x \<and> x \<le> i64_max then Some x else None)"

definition i64_saturating :: "int \<Rightarrow> i64" where
  "i64_saturating x = max i64_min (min x i64_max)"

definition i128_saturating :: "int \<Rightarrow> i128" where
  "i128_saturating x = max (- i128_max - 1) (min x i128_max)"

definition in_amount :: "i64 \<Rightarrow> bool" where
  "in_amount x \<longleftrightarrow> 0 \<le> x \<and> x \<le> i64_max"

named_theorems range_defs "the limits of the machine integers"

lemmas range_limits [range_defs] = i64_max_def i64_min_def i128_max_def in_amount_def

lemma wrap_signed_id: "- half \<le> x \<Longrightarrow> x < half \<Longrightarrow> wrap_signed half x = x"
  by (simp add: wrap_signed_def)

lemma as_i64_id: "i64_min \<le> x \<Longrightarrow> x \<le> i64_max \<Longrightarrow> as_i64 x = x"
  by (rule wrap_signed_id) (simp_all add: range_defs)

lemma as_i64_amount: "in_amount x \<Longrightarrow> as_i64 x = x"
  by (rule as_i64_id) (simp_all add: range_defs)

lemma wrap_signed_0 [simp]: "0 < half \<Longrightarrow> wrap_signed half 0 = 0"
  by (rule wrap_signed_id) simp_all

lemma as_i128_id: "- i128_max \<le> x \<Longrightarrow> x \<le> i128_max \<Longrightarrow> as_i128 x = x"
  by (rule wrap_signed_id) (simp_all add: range_defs)

lemma i128_saturating_id: "- i128_max \<le> x \<Longrightarrow> x \<le> i128_max \<Longrightarrow> i128_saturating x = x"
  by (simp add: i128_saturating_def)

lemma i64_checked_Some: "i64_checked x = Some y \<longleftrightarrow> y = x \<and> i64_min \<le> x \<and> x \<le> i64_max"
  by (auto simp: i64_checked_def)

text \<open>A product of an amount and an amount, a price component or a constant fits \<open>i128\<close>.\<close>

lemma amount_product:
  assumes "in_amount a" "in_amount b"
  shows "0 \<le> a * b" "a * b \<le> i64_max * i64_max"
proof -
  show "0 \<le> a * b" using assms by (simp add: in_amount_def)
  show "a * b \<le> i64_max * i64_max" using assms by (intro mult_mono) (auto simp: in_amount_def)
qed

lemma amount_product_fits: "in_amount a \<Longrightarrow> in_amount b \<Longrightarrow> a * b \<le> i128_max"
  using amount_product(2) [of a b] by (simp add: i64_max_def i128_max_def)

section \<open>Floors and ceilings\<close>

lemma sdiv_nonneg: "0 \<le> n \<Longrightarrow> 0 < d \<Longrightarrow> n sdiv d = n div (d :: int)"
  by (auto simp: signed_divide_int_def sgn_if)

lemma floor_spec:
  assumes "0 < (d :: int)"
  shows "n div d * d \<le> n" "n < n div d * d + d"
proof -
  have "n = n div d * d + n mod d" by simp
  moreover have "0 \<le> n mod d" "n mod d < d" using assms by simp_all
  ultimately show "n div d * d \<le> n" "n < n div d * d + d" by linarith+
qed

lemma ceiling_spec:
  assumes "0 < (d :: int)"
  shows "n \<le> (n + d - 1) div d * d" "(n + d - 1) div d * d < n + d"
  using floor_spec [OF assms, of "n + d - 1"] by simp_all

lemma less_floor:
  assumes "0 < (d :: int)" "q * d < r * d + d"
  shows "q \<le> r"
proof -
  have "q * d < (r + 1) * d" using assms(2) by (simp add: distrib_right)
  with assms(1) show ?thesis by (simp add: mult_less_cancel_right)
qed

lemma floor_le: "0 < (d :: int) \<Longrightarrow> n \<le> q * d \<Longrightarrow> n div d \<le> q"
  using floor_spec(1) [of d n] by (intro less_floor [of d]) auto

lemma floor_ge: "0 < (d :: int) \<Longrightarrow> q * d \<le> n \<Longrightarrow> q \<le> n div d"
  using floor_spec(2) [of d n] by (intro less_floor [of d]) auto

lemma floor_eqI: "0 < (d :: int) \<Longrightarrow> q * d \<le> n \<Longrightarrow> n < q * d + d \<Longrightarrow> n div d = q"
proof -
  assume d: "0 < d" and "q * d \<le> n" "n < q * d + d"
  with floor_spec(1) [OF d, of n] have "n div d \<le> q" by (intro less_floor [OF d]) linarith
  with floor_ge [OF d \<open>q * d \<le> n\<close>] show ?thesis by simp
qed

lemma ceiling_le: "0 < (d :: int) \<Longrightarrow> n \<le> q * d \<Longrightarrow> (n + d - 1) div d \<le> q"
  using floor_spec(1) [of d "n + d - 1"] by (intro less_floor [of d]) auto

lemma le_floor_iff: "0 < (d :: int) \<Longrightarrow> q \<le> n div d \<longleftrightarrow> q * d \<le> n"
  using floor_ge [of d q n] floor_spec(1) [of d n] mult_right_mono [of q "n div d" d] by linarith

lemma ceiling_le_iff: "0 < (d :: int) \<Longrightarrow> (n + d - 1) div d \<le> q \<longleftrightarrow> n \<le> q * d"
  using ceiling_le [of d n q] ceiling_spec(1) [of d n] mult_right_mono [of "(n + d - 1) div d" q d] by linarith

lemma floor_nonneg: "0 \<le> (n :: int) \<Longrightarrow> 0 < d \<Longrightarrow> 0 \<le> n div d"
  by (simp add: pos_imp_zdiv_nonneg_iff)

end
