(* ===== verification/Exchange.thy ===== *)
theory Exchange
  imports Amounts
begin

text \<open>
  The arithmetic of the order book (\<open>crates/tx/src/operations/execute/offer_exchange.rs\<close>): how much of
  the wheat an offer sells, and of the sheep it buys, changes hands when it is crossed. A price is the
  sheep paid for one wheat, \<open>price_n / price_d\<close>.
\<close>

section \<open>Prices, rounding modes and results\<close>

record price =
  price_n :: i32
  price_d :: i32

datatype rounding_type = Normal | PathPaymentStrictSend | PathPaymentStrictReceive

record exchange_result =
  num_wheat_received :: i64
  num_sheep_send :: i64
  wheat_stays :: bool

datatype exchange_error = Overflow | InvalidPrice | InvalidAmount | PriceError

datatype round = Down | Up

section \<open>Arithmetic\<close>

text \<open>\<open>i128::saturating_mul\<close> of two \<open>i64\<close> values.\<close>

definition big_multiply :: "i64 \<Rightarrow> i64 \<Rightarrow> i128" where
  "big_multiply lhs rhs = i128_saturating (lhs * rhs)"

definition big_divide_or_throw :: "i128 \<Rightarrow> i128 \<Rightarrow> round \<Rightarrow> exchange_error + i64" where
  "big_divide_or_throw n d rnd =
     (if d \<le> 0 then Inl InvalidPrice
      else
        let v = (case rnd of
                   Down \<Rightarrow> n sdiv d
                 | Up \<Rightarrow> if n = 0 then 0 else as_i128 (as_i128 (n + d) - 1) sdiv d)
        in if v > i64_max then Inl Overflow else Inr (as_i64 v))"

definition calculate_offer_value :: "i32 \<Rightarrow> i32 \<Rightarrow> i64 \<Rightarrow> i64 \<Rightarrow> i128" where
  "calculate_offer_value n d max_send max_receive =
     min (big_multiply max_send n) (big_multiply max_receive d)"

definition check_price_error_bound :: "price \<Rightarrow> i64 \<Rightarrow> i64 \<Rightarrow> bool \<Rightarrow> exchange_error + unit" where
  "check_price_error_bound p wheat_receive sheep_send can_favor_wheat =
     (case (i64_checked (100 * price_n p), i64_checked (100 * price_d p)) of
        (Some err_n, Some err_d) \<Rightarrow>
          let lhs = big_multiply wheat_receive err_n; rhs = big_multiply sheep_send err_d in
          if can_favor_wheat \<and> rhs > lhs then Inr ()
          else
            let abs_diff = as_i128 (if lhs > rhs then lhs - rhs else rhs - lhs);
                cap = big_multiply wheat_receive (price_n p)
            in if abs_diff \<le> cap then Inr () else Inl PriceError
      | _ \<Rightarrow> Inl Overflow)"

section \<open>Exchange without price error bounds\<close>

text \<open>The two amounts before the final check: an expression of the source for each case.\<close>

definition stays_amounts :: "price \<Rightarrow> i128 \<Rightarrow> i128 \<Rightarrow> i64 \<Rightarrow> i64 \<Rightarrow> rounding_type \<Rightarrow> exchange_error + (i64 \<times> i64)" where
  "stays_amounts p wheat_value sheep_value max_sheep_send max_sheep_receive rnd =
     (if rnd = PathPaymentStrictSend
      then bindE (big_divide_or_throw (min wheat_value sheep_value) (price_n p) Down) (\<lambda>wheat_receive.
             Inr (wheat_receive, min max_sheep_send max_sheep_receive))
      else if price_n p > price_d p \<or> rnd = PathPaymentStrictReceive
      then bindE (big_divide_or_throw sheep_value (price_n p) Down) (\<lambda>wheat_receive.
           bindE (big_divide_or_throw (as_i128 (wheat_receive * price_n p)) (price_d p) Up) (\<lambda>sheep_send.
             Inr (wheat_receive, sheep_send)))
      else bindE (big_divide_or_throw sheep_value (price_d p) Down) (\<lambda>sheep_send.
           bindE (big_divide_or_throw (as_i128 (sheep_send * price_d p)) (price_n p) Down) (\<lambda>wheat_receive.
             Inr (wheat_receive, sheep_send))))"

definition taken_amounts :: "price \<Rightarrow> i128 \<Rightarrow> exchange_error + (i64 \<times> i64)" where
  "taken_amounts p wheat_value =
     (if price_n p > price_d p
      then bindE (big_divide_or_throw wheat_value (price_n p) Down) (\<lambda>wheat_receive.
           bindE (big_divide_or_throw (as_i128 (wheat_receive * price_n p)) (price_d p) Down) (\<lambda>sheep_send.
             Inr (wheat_receive, sheep_send)))
      else bindE (big_divide_or_throw wheat_value (price_d p) Down) (\<lambda>sheep_send.
           bindE (big_divide_or_throw (as_i128 (sheep_send * price_d p)) (price_n p) Up) (\<lambda>wheat_receive.
             Inr (wheat_receive, sheep_send))))"

definition exchange_v10_without_price_error_thresholds ::
  "price \<Rightarrow> i64 \<Rightarrow> i64 \<Rightarrow> i64 \<Rightarrow> i64 \<Rightarrow> rounding_type \<Rightarrow> exchange_error + exchange_result" where
  "exchange_v10_without_price_error_thresholds p max_wheat_send max_wheat_receive max_sheep_send max_sheep_receive rnd =
     (if price_n p \<le> 0 \<or> price_d p \<le> 0 then Inl InvalidPrice
      else
        let wheat_value = calculate_offer_value (price_n p) (price_d p) max_wheat_send max_sheep_receive;
            sheep_value = calculate_offer_value (price_d p) (price_n p) max_sheep_send max_wheat_receive;
            stays = (wheat_value > sheep_value)
        in bindE
             (if stays then stays_amounts p wheat_value sheep_value max_sheep_send max_sheep_receive rnd
              else taken_amounts p wheat_value)
             (\<lambda>(wheat_receive, sheep_send).
                if wheat_receive < 0 \<or> wheat_receive > min max_wheat_receive max_wheat_send
                   \<or> sheep_send < 0 \<or> sheep_send > min max_sheep_receive max_sheep_send
                then Inl InvalidAmount
                else Inr \<lparr>num_wheat_received = wheat_receive, num_sheep_send = sheep_send, wheat_stays = stays\<rparr>))"

section \<open>Exchange with price error bounds\<close>

definition no_trade :: "exchange_result \<Rightarrow> exchange_result" where
  "no_trade res = res\<lparr>num_wheat_received := 0, num_sheep_send := 0\<rparr>"

definition exchange_v10 ::
  "price \<Rightarrow> i64 \<Rightarrow> i64 \<Rightarrow> i64 \<Rightarrow> i64 \<Rightarrow> rounding_type \<Rightarrow> exchange_error + exchange_result" where
  "exchange_v10 p max_wheat_send max_wheat_receive max_sheep_send max_sheep_receive rnd =
     bindE (exchange_v10_without_price_error_thresholds p max_wheat_send max_wheat_receive max_sheep_send
              max_sheep_receive rnd) (\<lambda>res.
       if num_wheat_received res > 0 \<and> num_sheep_send res > 0
       then
         let wheat_value = big_multiply (num_wheat_received res) (price_n p);
             sheep_value = big_multiply (num_sheep_send res) (price_d p)
         in
           if wheat_stays res \<and> sheep_value < wheat_value then Inl InvalidAmount
           else if \<not> wheat_stays res \<and> sheep_value > wheat_value then Inl InvalidAmount
           else if rnd = Normal
           then (case check_price_error_bound p (num_wheat_received res) (num_sheep_send res) False of
                   Inl _ \<Rightarrow> Inr (no_trade res)
                 | Inr _ \<Rightarrow> Inr res)
           else bindE (check_price_error_bound p (num_wheat_received res) (num_sheep_send res) True) (\<lambda>_. Inr res)
       else if rnd = PathPaymentStrictSend then Inr (res\<lparr>num_wheat_received := 0\<rparr>)
       else Inr (no_trade res))"

definition adjust_offer_amount :: "price \<Rightarrow> i64 \<Rightarrow> i64 \<Rightarrow> exchange_error + i64" where
  "adjust_offer_amount p max_wheat_send max_sheep_receive =
     bindE (exchange_v10 p max_wheat_send i64_max i64_max max_sheep_receive Normal)
       (\<lambda>res. Inr (num_wheat_received res))"

definition quote_offer_strict_send ::
  "price \<Rightarrow> i64 \<Rightarrow> i64 \<Rightarrow> i64 option \<Rightarrow> i64 option \<Rightarrow> exchange_error + exchange_result" where
  "quote_offer_strict_send p amount max_send max_wheat_send max_sheep_receive =
     (if amount \<le> 0 \<or> max_send < 0 then Inl InvalidAmount
      else
        let maker_wheat = min amount (max (case max_wheat_send of Some w \<Rightarrow> w | None \<Rightarrow> i64_max) 0);
            maker_sheep = max (case max_sheep_receive of Some w \<Rightarrow> w | None \<Rightarrow> i64_max) 0
        in bindE (adjust_offer_amount p maker_wheat maker_sheep) (\<lambda>adjusted.
             exchange_v10 p adjusted i64_max max_send maker_sheep PathPaymentStrictSend))"

end
