(* ===== verification/Exchange_Correct.thy ===== *)
theory Exchange_Correct
  imports Exchange
begin

text \<open>
  Crossing an offer never fails on valid inputs, respects the four limits, rounds in favour of the
  offer that stays in the book, and moves amounts whose ratio is within one percent of the price.
\<close>

section \<open>The arithmetic on valid inputs\<close>

definition valid_price :: "price \<Rightarrow> bool" where
  "valid_price p \<longleftrightarrow> 0 < price_n p \<and> price_n p \<le> 2147483647 \<and> 0 < price_d p \<and> price_d p \<le> 2147483647"

lemma valid_price_amount:
  assumes "valid_price p"
  shows "in_amount (price_n p)" "in_amount (price_d p)" "0 < price_n p" "0 < price_d p"
    "price_n p \<le> 2147483647" "price_d p \<le> 2147483647"
  using assms by (simp_all add: valid_price_def range_defs)

lemma big_multiply_exact: "in_amount a \<Longrightarrow> in_amount b \<Longrightarrow> big_multiply a b = a * b"
  using amount_product [of a b] amount_product_fits [of a b]
  by (simp add: big_multiply_def i128_saturating_id i128_max_def)

lemma big_divide_down:
  assumes "0 \<le> n" "0 < d" "in_amount (n div d)"
  shows "big_divide_or_throw n d Down = Inr (n div d)"
  using assms as_i64_amount [OF assms(3)]
  by (simp add: big_divide_or_throw_def sdiv_nonneg in_amount_def Let_def)

lemma big_divide_up:
  assumes "0 \<le> n" "0 < d" "in_amount ((n + d - 1) div d)" "n + d \<le> i128_max"
  shows "big_divide_or_throw n d Up = Inr ((n + d - 1) div d)"
proof -
  have "as_i128 (n + d) = n + d" "as_i128 (n + d - 1) = n + d - 1"
    using assms(1,2,4) by (auto intro!: as_i128_id simp: i128_max_def)
  moreover have "(n + d - 1) div d = 0" if "n = 0" using that assms(2) by simp
  ultimately show ?thesis
    using assms as_i64_amount [OF assms(3)]
    by (simp add: big_divide_or_throw_def sdiv_nonneg in_amount_def Let_def)
qed

text \<open>An amount rounded in either direction, from a product that an amount bounds.\<close>

lemma divide_down:
  assumes "0 \<le> n" "0 < d" "n \<le> m * d" "in_amount m"
  shows "big_divide_or_throw n d Down = Inr (n div d)" "0 \<le> n div d" "n div d \<le> m"
proof -
  show le: "n div d \<le> m" using assms(2,3) by (rule floor_le)
  show ge: "0 \<le> n div d" using assms(1,2) by (rule floor_nonneg)
  show "big_divide_or_throw n d Down = Inr (n div d)"
    using le ge assms by (intro big_divide_down) (auto simp: in_amount_def)
qed

lemma divide_up:
  assumes "0 \<le> n" "0 < d" "d \<le> 2147483647" "n \<le> m * d" "in_amount m"
  shows "big_divide_or_throw n d Up = Inr ((n + d - 1) div d)" "0 \<le> (n + d - 1) div d" "(n + d - 1) div d \<le> m"
proof -
  show le: "(n + d - 1) div d \<le> m" using assms(2,4) by (rule ceiling_le)
  show ge: "0 \<le> (n + d - 1) div d" using assms(1,2) by (intro floor_nonneg) auto
  have "m * d \<le> i64_max * i64_max"
    using assms by (intro amount_product(2)) (auto simp: in_amount_def i64_max_def)
  then have "n + d \<le> i128_max" using assms(3,4) by (simp add: i64_max_def i128_max_def)
  then show "big_divide_or_throw n d Up = Inr ((n + d - 1) div d)"
    using le ge assms by (intro big_divide_up) (auto simp: in_amount_def)
qed

lemma product_wraps_not: "in_amount a \<Longrightarrow> in_amount b \<Longrightarrow> as_i128 (a * b) = a * b"
  using amount_product(1) [of a b] amount_product_fits [of a b] by (intro as_i128_id) (simp_all add: i128_max_def)

section \<open>The two amounts\<close>

lemma stays_amounts_ok:
  assumes p: "valid_price p" and amounts: "in_amount mws" "in_amount mwr" "in_amount mss" "in_amount msr"
    and less: "sv < wv" and wv: "wv = min (mws * price_n p) (msr * price_d p)"
    and sv: "sv = min (mss * price_d p) (mwr * price_n p)"
  obtains w s where "stays_amounts p wv sv mss msr rnd = Inr (w, s)"
    "0 \<le> w" "w \<le> mwr" "w \<le> mws" "0 \<le> s" "s \<le> msr" "s \<le> mss" "w * price_n p \<le> s * price_d p"
    "price_n p > price_d p \<Longrightarrow> rnd \<noteq> PathPaymentStrictSend \<Longrightarrow>
       w = sv div price_n p \<and> s = (w * price_n p + price_d p - 1) div price_d p"
proof -
  let ?n = "price_n p" and ?d = "price_d p"
  note v = valid_price_amount [OF p]
  have s0: "0 \<le> sv" using amounts v by (simp add: sv in_amount_def)
  have le: "sv \<le> mss * ?d" "sv \<le> mwr * ?n" "sv \<le> mws * ?n" "sv \<le> msr * ?d" using less wv sv by auto
  note wheat = divide_down [OF s0 v(3) le(2) amounts(2)] divide_down(3) [OF s0 v(3) le(3) amounts(1)]
  note sheep = divide_down [OF s0 v(4) le(4) amounts(4)] divide_down(3) [OF s0 v(4) le(1) amounts(3)]
  consider (strict) "rnd = PathPaymentStrictSend"
    | (up) "rnd \<noteq> PathPaymentStrictSend" "?n > ?d \<or> rnd = PathPaymentStrictReceive"
    | (down) "rnd \<noteq> PathPaymentStrictSend" "\<not> (?n > ?d \<or> rnd = PathPaymentStrictReceive)" by blast
  then show thesis
  proof cases
    case strict
    have "sv div ?n * ?n \<le> sv" using v(3) by (rule floor_spec)
    with le have "sv div ?n * ?n \<le> min mss msr * ?d" by (simp add: min_def)
    with strict wheat less amounts show thesis
      by (intro that [of "sv div ?n" "min mss msr"]) (simp_all add: stays_amounts_def min_absorb2 in_amount_def)
  next
    case up
    let ?w = "sv div ?n"
    have w: "in_amount ?w" using wheat amounts by (auto simp: in_amount_def)
    have "?w * ?n \<le> sv" using v(3) by (rule floor_spec)
    with le have b: "?w * ?n \<le> mss * ?d" "?w * ?n \<le> msr * ?d" by simp_all
    have n0: "0 \<le> ?w * ?n" using w v by (simp add: in_amount_def)
    note s = divide_up [OF n0 v(4,6) b(1) amounts(3)] divide_up(3) [OF n0 v(4,6) b(2) amounts(4)]
      ceiling_spec(1) [OF v(4), of "?w * ?n"]
    from up wheat s product_wraps_not [OF w v(1)] show thesis
      by (intro that [of ?w "(?w * ?n + ?d - 1) div ?d"]) (simp_all add: stays_amounts_def)
  next
    case down
    let ?s = "sv div ?d"
    have s: "in_amount ?s" using sheep amounts by (auto simp: in_amount_def)
    have "?s * ?d \<le> sv" using v(4) by (rule floor_spec)
    with le have b: "?s * ?d \<le> mwr * ?n" "?s * ?d \<le> mws * ?n" by simp_all
    have n0: "0 \<le> ?s * ?d" using s v by (simp add: in_amount_def)
    note w = divide_down [OF n0 v(3) b(1) amounts(2)] divide_down(3) [OF n0 v(3) b(2) amounts(1)]
      floor_spec(1) [OF v(3), of "?s * ?d"]
    from down sheep w product_wraps_not [OF s v(2)] show thesis
      by (intro that [of "?s * ?d div ?n" ?s]) (simp_all add: stays_amounts_def)
  qed
qed

lemma taken_amounts_ok:
  assumes p: "valid_price p" and amounts: "in_amount mws" "in_amount mwr" "in_amount mss" "in_amount msr"
    and less: "wv \<le> sv" and wv: "wv = min (mws * price_n p) (msr * price_d p)"
    and sv: "sv = min (mss * price_d p) (mwr * price_n p)"
  obtains w s where "taken_amounts p wv = Inr (w, s)"
    "0 \<le> w" "w \<le> mwr" "w \<le> mws" "0 \<le> s" "s \<le> msr" "s \<le> mss" "s * price_d p \<le> w * price_n p"
    "if price_n p > price_d p then w = wv div price_n p \<and> s = w * price_n p div price_d p
     else s = wv div price_d p \<and> w = (s * price_d p + price_n p - 1) div price_n p"
proof -
  let ?n = "price_n p" and ?d = "price_d p"
  note v = valid_price_amount [OF p]
  have w0: "0 \<le> wv" using amounts v by (simp add: wv in_amount_def)
  have le: "wv \<le> mss * ?d" "wv \<le> mwr * ?n" "wv \<le> mws * ?n" "wv \<le> msr * ?d" using less wv sv by auto
  note wheat = divide_down [OF w0 v(3) le(2) amounts(2)] divide_down(3) [OF w0 v(3) le(3) amounts(1)]
  note sheep = divide_down [OF w0 v(4) le(4) amounts(4)] divide_down(3) [OF w0 v(4) le(1) amounts(3)]
  show thesis
  proof (cases "?n > ?d")
    case True
    let ?w = "wv div ?n"
    have w: "in_amount ?w" using wheat amounts by (auto simp: in_amount_def)
    have "?w * ?n \<le> wv" using v(3) by (rule floor_spec)
    with le have b: "?w * ?n \<le> mss * ?d" "?w * ?n \<le> msr * ?d" by simp_all
    have n0: "0 \<le> ?w * ?n" using w v by (simp add: in_amount_def)
    note s = divide_down [OF n0 v(4) b(1) amounts(3)] divide_down(3) [OF n0 v(4) b(2) amounts(4)]
      floor_spec(1) [OF v(4), of "?w * ?n"]
    from True wheat s product_wraps_not [OF w v(1)] show thesis
      by (intro that [of ?w "?w * ?n div ?d"]) (simp_all add: taken_amounts_def)
  next
    case False
    let ?s = "wv div ?d"
    have s: "in_amount ?s" using sheep amounts by (auto simp: in_amount_def)
    have "?s * ?d \<le> wv" using v(4) by (rule floor_spec)
    with le have b: "?s * ?d \<le> mwr * ?n" "?s * ?d \<le> mws * ?n" by simp_all
    have n0: "0 \<le> ?s * ?d" using s v by (simp add: in_amount_def)
    note w = divide_up [OF n0 v(3,5) b(1) amounts(2)] divide_up(3) [OF n0 v(3,5) b(2) amounts(1)]
      ceiling_spec(1) [OF v(3), of "?s * ?d"]
    from False sheep w product_wraps_not [OF s v(2)] show thesis
      by (intro that [of "(?s * ?d + ?n - 1) div ?n" ?s]) (simp_all add: taken_amounts_def)
  qed
qed

section \<open>Limits and rounding\<close>

lemma offer_value:
  "in_amount a \<Longrightarrow> in_amount b \<Longrightarrow> in_amount n \<Longrightarrow> in_amount d \<Longrightarrow>
   calculate_offer_value n d a b = min (a * n) (b * d)"
  by (simp add: calculate_offer_value_def big_multiply_exact)

lemma exchange_result:
  assumes p: "valid_price p" and amounts: "in_amount mws" "in_amount mwr" "in_amount mss" "in_amount msr"
    and wv: "wv = min (mws * price_n p) (msr * price_d p)"
    and sv: "sv = min (mss * price_d p) (mwr * price_n p)"
  obtains w s where
    "exchange_v10_without_price_error_thresholds p mws mwr mss msr rnd =
       Inr \<lparr>num_wheat_received = w, num_sheep_send = s, wheat_stays = sv < wv\<rparr>"
    "0 \<le> w" "w \<le> mwr" "w \<le> mws" "0 \<le> s" "s \<le> msr" "s \<le> mss"
    "if sv < wv then w * price_n p \<le> s * price_d p else s * price_d p \<le> w * price_n p"
    "\<not> sv < wv \<Longrightarrow> if price_n p > price_d p then w = wv div price_n p \<and> s = w * price_n p div price_d p
       else s = wv div price_d p \<and> w = (s * price_d p + price_n p - 1) div price_n p"
    "sv < wv \<Longrightarrow> price_n p > price_d p \<Longrightarrow> rnd \<noteq> PathPaymentStrictSend \<Longrightarrow>
       w = sv div price_n p \<and> s = (w * price_n p + price_d p - 1) div price_d p"
proof -
  note v = valid_price_amount [OF p]
  have vals: "calculate_offer_value (price_n p) (price_d p) mws msr = wv"
    "calculate_offer_value (price_d p) (price_n p) mss mwr = sv"
    using amounts v by (simp_all add: offer_value wv sv)
  note unfolded = exchange_v10_without_price_error_thresholds_def vals Let_def
  show thesis
  proof (cases "sv < wv")
    case True
    obtain w s where "stays_amounts p wv sv mss msr rnd = Inr (w, s)" "0 \<le> w" "w \<le> mwr" "w \<le> mws" "0 \<le> s"
      "s \<le> msr" "s \<le> mss" "w * price_n p \<le> s * price_d p"
      "price_n p > price_d p \<Longrightarrow> rnd \<noteq> PathPaymentStrictSend \<Longrightarrow>
         w = sv div price_n p \<and> s = (w * price_n p + price_d p - 1) div price_d p"
      using stays_amounts_ok [OF p amounts True wv sv, of rnd] by blast
    with True v show ?thesis by (intro that [of w s]) (simp_all add: unfolded not_less)
  next
    case False
    then have "wv \<le> sv" by simp
    from taken_amounts_ok [OF p amounts this wv sv] obtain w s where
      "taken_amounts p wv = Inr (w, s)" "0 \<le> w" "w \<le> mwr" "w \<le> mws" "0 \<le> s" "s \<le> msr" "s \<le> mss"
      "s * price_d p \<le> w * price_n p"
      "if price_n p > price_d p then w = wv div price_n p \<and> s = w * price_n p div price_d p
       else s = wv div price_d p \<and> w = (s * price_d p + price_n p - 1) div price_n p" by blast
    with False v show ?thesis by (intro that [of w s]) (simp_all add: unfolded not_less)
  qed
qed

text \<open>
  What an exchange keeps to: both amounts stay within what either side sends and receives, the offer
  stays exactly when it is worth more than the taker's side, and rounding favours the seller of the
  wheat if the wheat stays and the seller of the sheep if it does not.
\<close>

definition exchange_fair :: "price \<Rightarrow> i64 \<Rightarrow> i64 \<Rightarrow> i64 \<Rightarrow> i64 \<Rightarrow> exchange_result \<Rightarrow> bool" where
  "exchange_fair p max_wheat_send max_wheat_receive max_sheep_send max_sheep_receive res \<longleftrightarrow>
     num_wheat_received res \<in> {0..min max_wheat_send max_wheat_receive} \<and>
     num_sheep_send res \<in> {0..min max_sheep_send max_sheep_receive} \<and>
     (wheat_stays res \<longleftrightarrow> min (max_sheep_send * price_d p) (max_wheat_receive * price_n p)
        < min (max_wheat_send * price_n p) (max_sheep_receive * price_d p)) \<and>
     (if wheat_stays res then num_wheat_received res * price_n p \<le> num_sheep_send res * price_d p
      else num_sheep_send res * price_d p \<le> num_wheat_received res * price_n p)"

lemma exchange_fair_reduced:
  assumes "exchange_fair p mws mwr mss msr res" "valid_price p"
  shows "exchange_fair p mws mwr mss msr (no_trade res)"
    "num_wheat_received res = 0 \<or> num_sheep_send res = 0 \<Longrightarrow>
       exchange_fair p mws mwr mss msr (res\<lparr>num_wheat_received := 0\<rparr>)"
  using assms by (auto simp: exchange_fair_def no_trade_def valid_price_def split: if_splits)

section \<open>The price error\<close>

text \<open>The difference of the two sides is at most a hundredth of the wheat's value.\<close>

definition within_error :: "price \<Rightarrow> i64 \<Rightarrow> i64 \<Rightarrow> bool" where
  "within_error p w s \<longleftrightarrow> \<bar>100 * (w * price_n p - s * price_d p)\<bar> \<le> w * price_n p"

lemma check_price_error_bound_iff:
  assumes p: "valid_price p" and amounts: "in_amount w" "in_amount s"
  shows "check_price_error_bound p w s favour =
    (if favour \<and> w * price_n p < s * price_d p \<or> within_error p w s then Inr () else Inl PriceError)"
proof -
  note v = valid_price_amount [OF p]
  have e: "in_amount (100 * price_n p)" "in_amount (100 * price_d p)" using v by (auto simp: range_defs)
  have checked: "i64_checked (100 * price_n p) = Some (100 * price_n p)"
    "i64_checked (100 * price_d p) = Some (100 * price_d p)" using v by (auto simp: i64_checked_def range_defs)
  let ?l = "w * (100 * price_n p)" and ?r = "s * (100 * price_d p)"
  note pr = amount_product [OF amounts(1) e(1)] amount_product [OF amounts(2) e(2)]
  have "as_i128 (if ?l > ?r then ?l - ?r else ?r - ?l) = \<bar>?l - ?r\<bar>"
    using pr by (subst as_i128_id) (auto simp: i64_max_def i128_max_def)
  moreover have "?l - ?r = 100 * (w * price_n p - s * price_d p)" by (simp add: algebra_simps)
  moreover have "?l < ?r \<longleftrightarrow> w * price_n p < s * price_d p" by (simp add: algebra_simps)
  ultimately show ?thesis
    using amounts e v by (simp add: check_price_error_bound_def checked big_multiply_exact Let_def within_error_def)
qed

lemma exchange_v10_alt:
  assumes "valid_price p" "in_amount mws" "in_amount mwr" "in_amount mss" "in_amount msr"
    and ex: "exchange_v10_without_price_error_thresholds p mws mwr mss msr rnd = Inr res"
  shows "exchange_v10 p mws mwr mss msr rnd =
    (if num_wheat_received res > 0 \<and> num_sheep_send res > 0
     then if within_error p (num_wheat_received res) (num_sheep_send res) then Inr res
          else if rnd = Normal then Inr (no_trade res)
          else if num_wheat_received res * price_n p < num_sheep_send res * price_d p then Inr res
          else Inl PriceError
     else if rnd = PathPaymentStrictSend then Inr (res\<lparr>num_wheat_received := 0\<rparr>)
     else Inr (no_trade res))"
proof -
  note v = valid_price_amount [OF assms(1)]
  let ?wv = "min (mws * price_n p) (msr * price_d p)" and ?sv = "min (mss * price_d p) (mwr * price_n p)"
  obtain w s where res: "Inr res = Inr \<lparr>num_wheat_received = w, num_sheep_send = s, wheat_stays = ?sv < ?wv\<rparr>"
    and bounds: "0 \<le> w" "w \<le> mwr" "0 \<le> s" "s \<le> msr"
    and favours: "if ?sv < ?wv then w * price_n p \<le> s * price_d p else s * price_d p \<le> w * price_n p"
    by (rule exchange_result [OF assms(1-5) refl refl, of rnd]) (simp add: ex)
  have amounts: "in_amount (num_wheat_received res)" "in_amount (num_sheep_send res)"
    using res bounds assms(3,5) by (simp_all add: in_amount_def)
  have side: "if wheat_stays res then num_wheat_received res * price_n p \<le> num_sheep_send res * price_d p
       else num_sheep_send res * price_d p \<le> num_wheat_received res * price_n p"
    using res favours by simp
  let ?w = "num_wheat_received res" and ?s = "num_sheep_send res"
  have sides: "big_multiply ?w (price_n p) = ?w * price_n p" "big_multiply ?s (price_d p) = ?s * price_d p"
    using amounts v by (simp_all add: big_multiply_exact)
  have wrong: "\<not> (wheat_stays res \<and> ?s * price_d p < ?w * price_n p)"
    "\<not> (\<not> wheat_stays res \<and> ?w * price_n p < ?s * price_d p)"
    using side by (auto split: if_splits)
  note bound = check_price_error_bound_iff [OF assms(1) amounts]
  show ?thesis
    unfolding exchange_v10_def ex bindE_simps Let_def sides if_not_P [OF wrong(1)] if_not_P [OF wrong(2)] bound
    by simp
qed

text \<open>
  C27. On a valid price and non-negative limits the exchange before the price error check always
  succeeds: neither an overflow nor the final range check can fail. Its amounts, and those of every
  exchange that \<open>exchange_v10\<close> reports, respect all four limits, the offer stays exactly when it is
  worth more than the taker's side, and the rounding favours the side that stays: the wheat's seller if
  the wheat stays, the taker if it does not.
\<close>

theorem exchange_within_limits:
  assumes "valid_price p" "in_amount max_wheat_send" "in_amount max_wheat_receive"
    "in_amount max_sheep_send" "in_amount max_sheep_receive"
  shows "(\<exists>res. exchange_v10_without_price_error_thresholds p max_wheat_send max_wheat_receive
        max_sheep_send max_sheep_receive rnd = Inr res \<and>
      exchange_fair p max_wheat_send max_wheat_receive max_sheep_send max_sheep_receive res) \<and>
    (\<forall>res. exchange_v10 p max_wheat_send max_wheat_receive max_sheep_send max_sheep_receive rnd = Inr res \<longrightarrow>
      exchange_fair p max_wheat_send max_wheat_receive max_sheep_send max_sheep_receive res)"
proof -
  obtain res where res: "exchange_v10_without_price_error_thresholds p max_wheat_send max_wheat_receive
        max_sheep_send max_sheep_receive rnd = Inr res"
    and fair: "exchange_fair p max_wheat_send max_wheat_receive max_sheep_send max_sheep_receive res"
    by (rule exchange_result [OF assms refl refl, of rnd]) (auto simp: exchange_fair_def split: if_splits)
  have "num_wheat_received res = 0 \<or> num_sheep_send res = 0"
    if "\<not> (num_wheat_received res > 0 \<and> num_sheep_send res > 0)"
    using fair that by (auto simp: exchange_fair_def)
  with exchange_fair_reduced [OF fair assms(1)] fair
  have "\<forall>r. exchange_v10 p max_wheat_send max_wheat_receive max_sheep_send max_sheep_receive rnd = Inr r \<longrightarrow>
      exchange_fair p max_wheat_send max_wheat_receive max_sheep_send max_sheep_receive r"
    unfolding exchange_v10_alt [OF assms res] by (auto split: if_splits)
  with res fair show ?thesis by blast
qed

theorem exchange_within_limits_witness:
  "\<exists>res. exchange_v10_without_price_error_thresholds \<lparr>price_n = 3, price_d = 7\<rparr> 1000 i64_max 50 i64_max
       PathPaymentStrictReceive = Inr res \<and> num_wheat_received res \<le> 1000 \<and> num_sheep_send res \<le> 50"
  using exchange_within_limits [of "\<lparr>price_n = 3, price_d = 7\<rparr>" 1000 i64_max 50 i64_max PathPaymentStrictReceive]
  by (auto simp: valid_price_def range_defs exchange_fair_def)

text \<open>
  C28. With the price error bound, crossing an offer at normal rounding never fails, and the only
  failure of a path payment is that the price error is too large. What is exchanged is within the limits
  and, when both amounts are positive, within one percent of the price, except that a path payment may pay
  the offer better; otherwise no wheat moves, and outside of strict send no sheep either.
\<close>

theorem exchange_price_error:
  assumes "valid_price p" "in_amount max_wheat_send" "in_amount max_wheat_receive"
    "in_amount max_sheep_send" "in_amount max_sheep_receive"
  shows "case exchange_v10 p max_wheat_send max_wheat_receive max_sheep_send max_sheep_receive rnd of
      Inl e \<Rightarrow> e = PriceError \<and> rnd \<noteq> Normal
    | Inr res \<Rightarrow>
        num_wheat_received res \<in> {0..min max_wheat_send max_wheat_receive} \<and>
        num_sheep_send res \<in> {0..min max_sheep_send max_sheep_receive} \<and>
        (if num_wheat_received res > 0
         then num_sheep_send res > 0 \<and>
           (within_error p (num_wheat_received res) (num_sheep_send res) \<or>
            rnd \<noteq> Normal \<and> num_wheat_received res * price_n p < num_sheep_send res * price_d p)
         else num_sheep_send res = 0 \<or> rnd = PathPaymentStrictSend)"
proof -
  obtain w s stays where ex: "exchange_v10_without_price_error_thresholds p max_wheat_send max_wheat_receive
        max_sheep_send max_sheep_receive rnd = Inr \<lparr>num_wheat_received = w, num_sheep_send = s, wheat_stays = stays\<rparr>"
    and "0 \<le> w" "w \<le> max_wheat_receive" "w \<le> max_wheat_send" "0 \<le> s" "s \<le> max_sheep_receive" "s \<le> max_sheep_send"
    by (rule exchange_result [OF assms refl refl, of rnd]) simp
  with assms(2-) show ?thesis
    unfolding exchange_v10_alt [OF assms ex] by (simp add: no_trade_def in_amount_def)
qed

theorem exchange_price_error_witness:
  "exchange_v10 \<lparr>price_n = 3, price_d = 7\<rparr> 1000 i64_max 10 i64_max PathPaymentStrictReceive \<noteq> Inl InvalidAmount"
  using exchange_price_error [of "\<lparr>price_n = 3, price_d = 7\<rparr>" 1000 i64_max 10 i64_max PathPaymentStrictReceive]
  by (auto simp: valid_price_def range_defs)

section \<open>Adjusting an offer\<close>

text \<open>What an unlimited taker gets from an offer, as a function of the two values.\<close>

definition accepted_wheat :: "price \<Rightarrow> i64 \<Rightarrow> i64 \<Rightarrow> i64" where
  "accepted_wheat p w s = (if w > 0 \<and> s > 0 \<and> within_error p w s then w else 0)"

lemma adjust_taken:
  assumes p: "valid_price p" and amounts: "in_amount mws" "in_amount msr"
    and wv: "wv = min (mws * price_n p) (msr * price_d p)"
    and taken: "wv \<le> i64_max * max 1 (min (price_n p) (price_d p))"
  shows "if price_n p > price_d p
    then adjust_offer_amount p mws msr = Inr (accepted_wheat p (wv div price_n p) (wv div price_n p * price_n p div price_d p))
    else adjust_offer_amount p mws msr =
      Inr (accepted_wheat p ((wv div price_d p * price_d p + price_n p - 1) div price_n p) (wv div price_d p))"
proof -
  note v = valid_price_amount [OF p]
  have m: "in_amount i64_max" by (simp add: range_defs)
  have sv: "min (i64_max * price_d p) (i64_max * price_n p) = i64_max * max 1 (min (price_n p) (price_d p))"
    using v by (auto simp: min_def max_def i64_max_def)
  obtain w s where ex: "exchange_v10_without_price_error_thresholds p mws i64_max i64_max msr Normal =
       Inr \<lparr>num_wheat_received = w, num_sheep_send = s, wheat_stays = False\<rparr>"
    and ws: "if price_n p > price_d p then w = wv div price_n p \<and> s = w * price_n p div price_d p
       else s = wv div price_d p \<and> w = (s * price_d p + price_n p - 1) div price_n p"
    by (rule exchange_result [OF p amounts(1) m m amounts(2) wv refl, of Normal]) (use taken in \<open>simp_all add: sv\<close>)
  have "adjust_offer_amount p mws msr = Inr (accepted_wheat p w s)"
    unfolding adjust_offer_amount_def exchange_v10_alt [OF p amounts(1) m m amounts(2) ex]
    by (simp add: accepted_wheat_def no_trade_def)
  with ws show ?thesis by (simp split: if_splits)
qed

lemma adjust_stays:
  assumes p: "valid_price p" and amounts: "in_amount mws" "in_amount msr"
    and less: "price_d p < price_n p" "i64_max * price_d p < min (mws * price_n p) (msr * price_d p)"
  shows "let w = i64_max * price_d p div price_n p
    in w \<le> mws \<and> adjust_offer_amount p mws msr =
         Inr (accepted_wheat p w ((w * price_n p + price_d p - 1) div price_d p))"
proof -
  note v = valid_price_amount [OF p]
  have m: "in_amount i64_max" by (simp add: range_defs)
  have sv: "min (i64_max * price_d p) (i64_max * price_n p) = i64_max * price_d p"
    using less(1) by (simp add: min_def i64_max_def)
  obtain w s where ex: "exchange_v10_without_price_error_thresholds p mws i64_max i64_max msr Normal =
       Inr \<lparr>num_wheat_received = w, num_sheep_send = s, wheat_stays = True\<rparr>" and "w \<le> mws"
    and ws: "w = i64_max * price_d p div price_n p \<and> s = (w * price_n p + price_d p - 1) div price_d p"
    by (rule exchange_result [OF p amounts(1) m m amounts(2) refl refl, of Normal])
      (use less in \<open>simp_all add: sv\<close>)
  moreover have "adjust_offer_amount p mws msr = Inr (accepted_wheat p w s)"
    unfolding adjust_offer_amount_def exchange_v10_alt [OF p amounts(1) m m amounts(2) ex]
    by (simp add: accepted_wheat_def no_trade_def)
  ultimately show ?thesis by (simp add: Let_def)
qed

lemma accepted_wheat_cases:
  obtains "accepted_wheat p w s = 0" | "accepted_wheat p w s = w" "0 < w" "0 < s" "within_error p w s"
  by (cases "0 < w \<and> 0 < s \<and> within_error p w s") (simp_all add: accepted_wheat_def)

lemma adjust_zero:
  assumes "valid_price p" "in_amount msr"
  shows "adjust_offer_amount p 0 msr = Inr 0"
proof -
  note v = valid_price_amount [OF assms(1)]
  have "min (0 * price_n p) (msr * price_d p) = 0" using v assms(2) by (simp add: in_amount_def)
  from adjust_taken [OF assms(1) _ assms(2) this [symmetric]] show ?thesis
    using v by (auto simp: range_defs accepted_wheat_def split: if_splits)
qed

text \<open>The adjusted amount is again what an unlimited taker gets, in the three cases.\<close>

lemma readjust_wheat:
  assumes p: "valid_price p" and msr: "in_amount msr" and w: "in_amount w"
    and less: "price_d p < price_n p" and fits: "w * price_n p \<le> msr * price_d p" "w * price_n p \<le> i64_max * price_d p"
  shows "adjust_offer_amount p w msr = Inr (accepted_wheat p w (w * price_n p div price_d p))"
proof -
  note v = valid_price_amount [OF p]
  have wv: "w * price_n p = min (w * price_n p) (msr * price_d p)" using fits(1) by simp
  have "max 1 (min (price_n p) (price_d p)) = price_d p" using v less by simp
  with adjust_taken [OF p w msr wv] fits(2) less v show ?thesis by simp
qed

lemma readjust_sheep:
  assumes p: "valid_price p" and msr: "in_amount msr" and w: "in_amount w" and s: "in_amount s" "s \<le> msr"
    and le: "price_n p \<le> price_d p" and ceil: "w = (s * price_d p + price_n p - 1) div price_n p"
  shows "adjust_offer_amount p w msr = Inr (accepted_wheat p w s)"
proof -
  note v = valid_price_amount [OF p]
  let ?wv = "min (w * price_n p) (msr * price_d p)"
  have sd: "s * price_d p \<le> w * price_n p" "w * price_n p < s * price_d p + price_n p"
    unfolding ceil using ceiling_spec [OF v(3)] by simp_all
  have "s * price_d p \<le> msr * price_d p" using s(2) v by simp
  with sd have "s * price_d p \<le> ?wv" "?wv < s * price_d p + price_d p" using le by simp_all
  then have q: "?wv div price_d p = s" by (rule floor_eqI [OF v(4)])
  have "max 1 (min (price_n p) (price_d p)) = price_n p" using v le by simp
  moreover have "w * price_n p \<le> i64_max * price_n p" using w v by (simp add: in_amount_def)
  ultimately show ?thesis using adjust_taken [OF p w msr refl] le q by (simp add: ceil)
qed

text \<open>At the largest amounts rounding cannot exceed the price error.\<close>

lemma large_trade_accepted:
  assumes "valid_price p"
  defines "w \<equiv> i64_max * price_d p div price_n p"
  shows "accepted_wheat p w (w * price_n p div price_d p) = w"
proof -
  let ?n = "price_n p" and ?d = "price_d p" and ?s = "w * price_n p div price_d p"
  note v = valid_price_amount [OF assms(1)]
  have "i64_max * ?d < w * ?n + ?n" unfolding w_def using v(3) by (rule floor_spec)
  then have large: "100 * ?d \<le> w * ?n" using v by (simp add: i64_max_def)
  have "0 \<le> w" unfolding w_def using v by (intro floor_nonneg) (simp_all add: i64_max_def)
  moreover have "w \<noteq> 0" using large v by auto
  ultimately have "0 < w" by simp
  moreover have "100 \<le> ?s" using v(4) large by (rule floor_ge)
  moreover have "?s * ?d \<le> w * ?n" "w * ?n < ?s * ?d + ?d" using floor_spec [OF v(4)] by blast+
  then have "within_error p w ?s" using large by (simp add: within_error_def)
  ultimately show ?thesis by (simp add: accepted_wheat_def)
qed

text \<open>
  C29. Adjusting an offer's amount to what can be crossed always succeeds, never raises the amount, and is
  idempotent: an adjusted offer is not adjusted again.
\<close>

theorem adjust_offer_amount_idempotent:
  assumes p: "valid_price p" and amounts: "in_amount max_wheat_send" "in_amount max_sheep_receive"
  shows "\<exists>a. adjust_offer_amount p max_wheat_send max_sheep_receive = Inr a \<and> 0 \<le> a \<and> a \<le> max_wheat_send \<and>
    adjust_offer_amount p a max_sheep_receive = Inr a"
proof -
  let ?n = "price_n p" and ?d = "price_d p" and ?wv = "min (max_wheat_send * price_n p) (max_sheep_receive * price_d p)"
  note v = valid_price_amount [OF p]
  have w0: "0 \<le> ?wv" using amounts v by (simp add: in_amount_def)
  note wheat = divide_down(2,3) [OF w0 v(3) min.cobounded1 amounts(1)]
  note sheep = divide_down(2,3) [OF w0 v(4) min.cobounded2 amounts(2)]
  have idem: ?thesis
    if "adjust_offer_amount p max_wheat_send max_sheep_receive = Inr (accepted_wheat p w s)" "0 \<le> w" "w \<le> max_wheat_send"
      "0 < w \<Longrightarrow> 0 < s \<Longrightarrow> within_error p w s \<Longrightarrow> adjust_offer_amount p w max_sheep_receive = Inr w" for w s
    using that adjust_zero [OF p amounts(2)] amounts
    by (cases rule: accepted_wheat_cases [of p w s]) (auto simp: in_amount_def)
  show ?thesis
  proof (cases "?n > ?d")
    case False
    let ?s = "?wv div ?d" let ?w = "(?s * ?d + ?n - 1) div ?n"
    have "?wv \<le> i64_max * ?n" using amounts v by (auto simp: in_amount_def min_le_iff_disj)
    then have first: "adjust_offer_amount p max_wheat_send max_sheep_receive = Inr (accepted_wheat p ?w ?s)"
      using adjust_taken [OF p amounts refl] False v by simp
    have "?s * ?d \<le> max_wheat_send * ?n" using floor_spec(1) [OF v(4), of ?wv] by simp
    then have le: "?w \<le> max_wheat_send" using v(3) by (rule ceiling_le [rotated])
    have s: "in_amount ?s" "?s \<le> max_sheep_receive" using sheep amounts by (auto simp: in_amount_def)
    have "0 \<le> ?s * ?d" using s v by (simp add: in_amount_def)
    then have w: "0 \<le> ?w" using v(3) by (intro floor_nonneg) linarith+
    show ?thesis
      using readjust_sheep [OF p amounts(2) _ s _ refl] False w le amounts
      by (intro idem [OF first w le]) (simp add: in_amount_def accepted_wheat_def)
  next
    case True
    show ?thesis
    proof (cases "?wv \<le> i64_max * ?d")
      case fits: True
      let ?w = "?wv div ?n"
      have first: "adjust_offer_amount p max_wheat_send max_sheep_receive = Inr (accepted_wheat p ?w (?w * ?n div ?d))"
        using adjust_taken [OF p amounts refl] True v fits by simp
      have le: "?w * ?n \<le> ?wv" using v(3) by (rule floor_spec)
      have "?w * ?n \<le> max_sheep_receive * ?d" "?w * ?n \<le> i64_max * ?d"
        using order_trans [OF le min.cobounded2] order_trans [OF le fits] .
      from readjust_wheat [OF p amounts(2) _ True this] show ?thesis
        using wheat amounts by (intro idem [OF first]) (simp_all add: in_amount_def accepted_wheat_def)
    next
      case False
      let ?w = "i64_max * ?d div ?n"
      from adjust_stays [OF p amounts True] False have le: "?w \<le> max_wheat_send" and
        first: "adjust_offer_amount p max_wheat_send max_sheep_receive = Inr (accepted_wheat p ?w ((?w * ?n + ?d - 1) div ?d))"
        by (simp_all add: Let_def not_le)
      have w: "0 \<le> ?w" using v by (intro floor_nonneg) (simp_all add: i64_max_def)
      have "?w * ?n \<le> i64_max * ?d" using v(3) by (rule floor_spec)
      moreover from this False have "?w * ?n \<le> max_sheep_receive * ?d" by simp
      ultimately have "adjust_offer_amount p ?w max_sheep_receive = Inr (accepted_wheat p ?w (?w * ?n div ?d))"
        using w le amounts True by (intro readjust_wheat [OF p amounts(2)]) (simp_all add: in_amount_def)
      with large_trade_accepted [OF p] show ?thesis by (intro idem [OF first w le]) simp
    qed
  qed
qed

theorem adjust_offer_amount_idempotent_witness:
  "\<exists>a. adjust_offer_amount \<lparr>price_n = 3, price_d = 7\<rparr> 1000 50 = Inr a \<and> a \<le> 1000 \<and>
     adjust_offer_amount \<lparr>price_n = 3, price_d = 7\<rparr> a 50 = Inr a"
  using adjust_offer_amount_idempotent [of "\<lparr>price_n = 3, price_d = 7\<rparr>" 1000 50]
  by (auto simp: valid_price_def range_defs)

end
