(* ===== verification/Ledger_State.thy ===== *)
theory Ledger_State
  imports Amounts
begin

text \<open>
  The ledger entries that the classic operations move money between: accounts, trustlines and
  liquidity pools, the checked balance arithmetic of \<open>crates/common/src/checked_types.rs\<close>, and the shared
  helpers of \<open>crates/tx/src/operations/execute/mod.rs\<close> and \<open>crates/tx/src/state\<close>.

  Entries carry the fields that balances depend on; the snapshots, deltas and change records that
  \<open>LedgerStateManager\<close> keeps for rollback and metadata are left out, so a mutable reference is an update of
  the entry's map.
\<close>

section \<open>Assets and entries\<close>

type_synonym account_id = bytes
type_synonym pool_id = bytes

datatype asset = Native | CreditAlphanum4 bytes account_id | CreditAlphanum12 bytes account_id

datatype trustline_asset =
  TlNative | TlAlphanum4 bytes account_id | TlAlphanum12 bytes account_id | PoolShare pool_id

fun asset_to_trustline_asset :: "asset \<Rightarrow> trustline_asset" where
  "asset_to_trustline_asset Native = TlNative"
| "asset_to_trustline_asset (CreditAlphanum4 code issuer) = TlAlphanum4 code issuer"
| "asset_to_trustline_asset (CreditAlphanum12 code issuer) = TlAlphanum12 code issuer"

fun issuer_for_asset :: "asset \<Rightarrow> account_id option" where
  "issuer_for_asset Native = None"
| "issuer_for_asset (CreditAlphanum4 code issuer) = Some issuer"
| "issuer_for_asset (CreditAlphanum12 code issuer) = Some issuer"

record liabilities =
  buying :: i64
  selling :: i64

text \<open>The extensions: \<open>V1\<close> holds liabilities, and in its own extension the sponsorship counts of
  an account (sponsored, sponsoring) or the number of pools a trustline is used by.\<close>

datatype account_ext = AccV0 | AccV1 liabilities "(u32 \<times> u32) option"
datatype trustline_ext = TlV0 | TlV1 liabilities "i32 option"

record account_entry =
  acc_balance :: i64
  acc_num_sub_entries :: u32
  acc_ext :: account_ext

record trustline_entry =
  tl_balance :: i64
  tl_limit :: i64
  tl_flags :: u32
  tl_ext :: trustline_ext

record pool_entry =
  asset_a :: asset
  asset_b :: asset
  pool_fee :: i32
  reserve_a :: i64
  reserve_b :: i64
  total_pool_shares :: i64

record ledger =
  accounts :: "account_id \<rightharpoonup> account_entry"
  trustlines :: "account_id \<times> trustline_asset \<rightharpoonup> trustline_entry"
  liquidity_pools :: "pool_id \<rightharpoonup> pool_entry"
  base_reserve :: i64

abbreviation get_trustline :: "account_id \<Rightarrow> asset \<Rightarrow> ledger \<Rightarrow> trustline_entry option" where
  "get_trustline a as l \<equiv> trustlines l (a, asset_to_trustline_asset as)"

abbreviation put_account :: "account_id \<Rightarrow> account_entry \<Rightarrow> ledger \<Rightarrow> ledger" where
  "put_account a e l \<equiv> l\<lparr>accounts := (accounts l)(a \<mapsto> e)\<rparr>"

abbreviation put_trustline :: "account_id \<Rightarrow> trustline_asset \<Rightarrow> trustline_entry \<Rightarrow> ledger \<Rightarrow> ledger" where
  "put_trustline a as e l \<equiv> l\<lparr>trustlines := (trustlines l)((a, as) \<mapsto> e)\<rparr>"

abbreviation put_pool :: "pool_id \<Rightarrow> pool_entry \<Rightarrow> ledger \<Rightarrow> ledger" where
  "put_pool p e l \<equiv> l\<lparr>liquidity_pools := (liquidity_pools l)(p \<mapsto> e)\<rparr>"

section \<open>Checked balances\<close>

datatype balance_error = BalanceOverflow | BalanceUnderflow | LiabilityViolation | ExceedsLimit

datatype tx_error = TxInternal | TxBalance balance_error | TxPanic

definition account_liabilities :: "account_entry \<Rightarrow> liabilities" where
  "account_liabilities a = (case acc_ext a of AccV0 \<Rightarrow> \<lparr>buying = 0, selling = 0\<rparr> | AccV1 l _ \<Rightarrow> l)"

definition trustline_liabilities :: "trustline_entry \<Rightarrow> liabilities" where
  "trustline_liabilities t = (case tl_ext t of TlV0 \<Rightarrow> \<lparr>buying = 0, selling = 0\<rparr> | TlV1 l _ \<Rightarrow> l)"

text \<open>\<open>checked\<close> with the error of \<open>ok_or\<close>.\<close>

definition checked_or :: "'e \<Rightarrow> int \<Rightarrow> 'e + i64" where
  "checked_or e x = (case i64_checked x of None \<Rightarrow> Inl e | Some y \<Rightarrow> Inr y)"

definition add_account_balance :: "i64 \<Rightarrow> account_entry \<Rightarrow> balance_error + account_entry" where
  "add_account_balance delta a =
     (if delta < 0 then Inl BalanceUnderflow
      else bindE (checked_or BalanceOverflow (acc_balance a + delta)) (\<lambda>new_balance.
           bindE (checked_or BalanceOverflow (i64_max - buying (account_liabilities a))) (\<lambda>ceiling.
             if new_balance > ceiling then Inl LiabilityViolation
             else Inr (a\<lparr>acc_balance := new_balance\<rparr>))))"

definition add_trustline_balance :: "i64 \<Rightarrow> trustline_entry \<Rightarrow> balance_error + trustline_entry" where
  "add_trustline_balance delta t =
     (if delta < 0 then Inl BalanceUnderflow
      else bindE (checked_or BalanceOverflow (tl_limit t - tl_balance t)) (\<lambda>headroom.
           if delta > headroom then Inl ExceedsLimit
           else bindE (checked_or BalanceOverflow (tl_balance t + delta)) (\<lambda>new_balance.
                bindE (checked_or BalanceOverflow (tl_limit t - buying (trustline_liabilities t))) (\<lambda>ceiling.
                  if new_balance > ceiling then Inl LiabilityViolation
                  else Inr (t\<lparr>tl_balance := new_balance\<rparr>)))))"

definition sub_account_balance :: "i64 \<Rightarrow> account_entry \<Rightarrow> balance_error + account_entry" where
  "sub_account_balance amount a =
     (if amount < 0 then Inl BalanceUnderflow
      else bindE (checked_or BalanceUnderflow (acc_balance a - amount)) (\<lambda>new_balance.
             if new_balance < 0 then Inl BalanceUnderflow else Inr (a\<lparr>acc_balance := new_balance\<rparr>)))"

definition sub_trustline_balance :: "i64 \<Rightarrow> trustline_entry \<Rightarrow> balance_error + trustline_entry" where
  "sub_trustline_balance amount t =
     (if amount < 0 then Inl BalanceUnderflow
      else bindE (checked_or BalanceUnderflow (tl_balance t - amount)) (\<lambda>new_balance.
             if new_balance < 0 then Inl BalanceUnderflow else Inr (t\<lparr>tl_balance := new_balance\<rparr>)))"

text \<open>\<open>add_checked_i64\<close>, with its two names \<open>add_pool_reserve\<close> and \<open>add_pool_shares\<close>.\<close>

definition add_checked_i64 :: "i64 \<Rightarrow> i64 \<Rightarrow> balance_error + i64" where
  "add_checked_i64 delta x =
     bindE (checked_or BalanceOverflow (x + delta)) (\<lambda>new_val.
       if new_val < 0 then Inl BalanceUnderflow else Inr new_val)"

section \<open>Authorisation and available balances\<close>

definition is_trustline_authorized :: "u32 \<Rightarrow> bool" where
  "is_trustline_authorized flags \<longleftrightarrow> and flags 1 \<noteq> 0"

definition is_authorized_to_maintain_liabilities :: "u32 \<Rightarrow> bool" where
  "is_authorized_to_maintain_liabilities flags \<longleftrightarrow> and flags 3 \<noteq> 0"

definition trustline_balance_after_liabilities :: "trustline_entry \<Rightarrow> i64" where
  "trustline_balance_after_liabilities t =
     i64_saturating (tl_balance t - selling (trustline_liabilities t))"

definition sponsorship_counts :: "account_entry \<Rightarrow> i64 \<times> i64" where
  "sponsorship_counts a =
     (case acc_ext a of
        AccV1 _ (Some (sponsored, sponsoring)) \<Rightarrow> (uint sponsoring, uint sponsored)
      | _ \<Rightarrow> (0, 0))"

definition minimum_balance_with_counts :: "i64 \<Rightarrow> i64 \<Rightarrow> i64 \<Rightarrow> ledger \<Rightarrow> tx_error + i64" where
  "minimum_balance_with_counts num_sub_entries num_sponsoring num_sponsored l =
     (let effective_entries = 2 + num_sub_entries + num_sponsoring - num_sponsored in
      if effective_entries < 0 then Inl TxInternal
      else Inr (as_i64 (effective_entries * base_reserve l)))"

definition minimum_balance_for_account :: "account_entry \<Rightarrow> i64 \<Rightarrow> ledger \<Rightarrow> tx_error + i64" where
  "minimum_balance_for_account a additional l =
     (let num_sub_entries = uint (acc_num_sub_entries a) + additional in
      if num_sub_entries < 0 then Inl TxInternal
      else case sponsorship_counts a of (num_sponsoring, num_sponsored) \<Rightarrow>
             minimum_balance_with_counts num_sub_entries num_sponsoring num_sponsored l)"

definition can_buy_at_most :: "account_id \<Rightarrow> asset \<Rightarrow> ledger \<Rightarrow> i64" where
  "can_buy_at_most source as l =
     (if as = Native
      then (case accounts l source of
              None \<Rightarrow> 0
            | Some a \<Rightarrow> max (as_i64 (as_i64 (i64_max - acc_balance a) - buying (account_liabilities a))) 0)
      else if issuer_for_asset as = Some source then i64_max
      else case get_trustline source as l of
             None \<Rightarrow> 0
           | Some t \<Rightarrow>
               if \<not> is_authorized_to_maintain_liabilities (tl_flags t) then 0
               else max (as_i64 (as_i64 (tl_limit t - tl_balance t) - buying (trustline_liabilities t))) 0)"

section \<open>Liabilities\<close>

definition update_liabilities :: "i64 \<Rightarrow> i64 \<Rightarrow> liabilities \<Rightarrow> tx_error + liabilities" where
  "update_liabilities buying_delta selling_delta lb =
     bindE (checked_or TxInternal (buying lb + buying_delta)) (\<lambda>new_buying.
     bindE (checked_or TxInternal (selling lb + selling_delta)) (\<lambda>new_selling.
       if new_buying < 0 \<or> new_selling < 0 then Inl TxInternal
       else Inr (lb\<lparr>buying := new_buying, selling := new_selling\<rparr>)))"

text \<open>\<open>ensure_account_liabilities\<close> and \<open>ensure_trustline_liabilities\<close>, with the update of what they return.\<close>

definition set_account_liabilities :: "liabilities \<Rightarrow> account_entry \<Rightarrow> account_entry" where
  "set_account_liabilities lb a =
     a\<lparr>acc_ext := (case acc_ext a of AccV0 \<Rightarrow> AccV1 lb None | AccV1 _ e \<Rightarrow> AccV1 lb e)\<rparr>"

definition set_trustline_liabilities :: "liabilities \<Rightarrow> trustline_entry \<Rightarrow> trustline_entry" where
  "set_trustline_liabilities lb t =
     t\<lparr>tl_ext := (case tl_ext t of TlV0 \<Rightarrow> TlV1 lb None | TlV1 _ e \<Rightarrow> TlV1 lb e)\<rparr>"

definition apply_one_liability ::
  "account_id \<Rightarrow> asset \<Rightarrow> i64 \<Rightarrow> i64 \<Rightarrow> ledger \<Rightarrow> tx_error + ledger" where
  "apply_one_liability acc as buying_delta selling_delta l =
     (if as = Native
      then (case accounts l acc of
              None \<Rightarrow> Inl TxInternal
            | Some a \<Rightarrow> bindE (update_liabilities buying_delta selling_delta (account_liabilities a))
                         (\<lambda>lb. Inr (put_account acc (set_account_liabilities lb a) l)))
      else if issuer_for_asset as = Some acc then Inr l
      else case get_trustline acc as l of
             None \<Rightarrow> Inl TxInternal
           | Some t \<Rightarrow> bindE (update_liabilities buying_delta selling_delta (trustline_liabilities t))
                        (\<lambda>lb. Inr (put_trustline acc (asset_to_trustline_asset as) (set_trustline_liabilities lb t) l)))"

definition apply_liabilities_delta ::
  "account_id \<Rightarrow> asset \<Rightarrow> asset \<Rightarrow> i64 \<Rightarrow> i64 \<Rightarrow> ledger \<Rightarrow> tx_error + ledger" where
  "apply_liabilities_delta acc sell_asset buy_asset selling_delta buying_delta l =
     bindE (apply_one_liability acc sell_asset 0 selling_delta l)
       (apply_one_liability acc buy_asset buying_delta 0)"

definition apply_balance_delta :: "account_id \<Rightarrow> asset \<Rightarrow> i64 \<Rightarrow> ledger \<Rightarrow> tx_error + ledger" where
  "apply_balance_delta acc as amount l =
     (if as = Native
      then (case accounts l acc of
              None \<Rightarrow> Inl TxInternal
            | Some a \<Rightarrow> bindE (checked_or TxInternal (acc_balance a + amount)) (\<lambda>new_balance.
                         if new_balance < 0 then Inl TxInternal
                         else Inr (put_account acc (a\<lparr>acc_balance := new_balance\<rparr>) l)))
      else if issuer_for_asset as = Some acc then Inr l
      else case get_trustline acc as l of
             None \<Rightarrow> Inl TxInternal
           | Some t \<Rightarrow> bindE (checked_or TxInternal (tl_balance t + amount)) (\<lambda>new_balance.
                        if new_balance < 0 \<or> new_balance > tl_limit t then Inl TxInternal
                        else Inr (put_trustline acc (asset_to_trustline_asset as) (t\<lparr>tl_balance := new_balance\<rparr>) l)))"

end
