(* ===== verification/Liquidity_Pool.thy ===== *)
theory Liquidity_Pool
  imports Ledger_State Exchange
begin

text \<open>
  Constant-product liquidity pools: deposits and withdrawals
  (\<open>crates/tx/src/operations/execute/liquidity_pool.rs\<close>) and the exchange of a path payment with a pool
  (\<open>compute_pool_exchange\<close>, \<open>exchange_with_pool\<close> and \<open>apply_pool_exchange\<close> of \<open>path_payment.rs\<close>).
\<close>

section \<open>Operations and results\<close>

datatype deposit_code =
  DepositSuccess | DepositMalformed | DepositNoTrust | DepositNotAuthorized | DepositUnderfunded
| DepositLineFull | DepositBadPrice | DepositPoolFull | DepositTrustlineFrozen

datatype withdraw_code =
  WithdrawSuccess | WithdrawMalformed | WithdrawNoTrust | WithdrawUnderfunded | WithdrawLineFull
| WithdrawUnderMinimum | WithdrawTrustlineFrozen

record deposit_op =
  dep_pool_id :: pool_id
  max_amount_a :: i64
  max_amount_b :: i64
  min_price :: price
  max_price :: price

record withdraw_op =
  wd_pool_id :: pool_id
  wd_amount :: i64
  min_amount_a :: i64
  min_amount_b :: i64

text \<open>Of the ledger context: which trustline keys are frozen (\<open>FrozenKeyConfig::is_key_frozen\<close>).\<close>

record ledger_context =
  is_key_frozen :: "account_id \<times> trustline_asset \<Rightarrow> bool"

section \<open>Arithmetic\<close>

text \<open>\<open>big_divide\<close> asserts a positive denominator and answers 0 on overflow, \<open>big_divide_checked\<close> answers
  \<open>None\<close>. The panic is the outer failure.\<close>

definition divide_rounded :: "i64 \<Rightarrow> i64 \<Rightarrow> i64 \<Rightarrow> round \<Rightarrow> i128" where
  "divide_rounded a b c rnd =
     (let numerator = as_i128 (a * b) in
      case rnd of
        Down \<Rightarrow> numerator sdiv c
      | Up \<Rightarrow> if numerator = 0 then 0 else as_i128 (as_i128 (numerator + c) - 1) sdiv c)"

definition big_divide :: "i64 \<Rightarrow> i64 \<Rightarrow> i64 \<Rightarrow> round \<Rightarrow> tx_error + i64" where
  "big_divide a b c rnd =
     (if \<not> c > 0 then Inl TxPanic
      else let result = divide_rounded a b c rnd in
           if result > i64_max then Inr 0 else Inr (as_i64 result))"

definition big_divide_checked :: "i64 \<Rightarrow> i64 \<Rightarrow> i64 \<Rightarrow> round \<Rightarrow> tx_error + i64 option" where
  "big_divide_checked a b c rnd =
     (if \<not> c > 0 then Inl TxPanic
      else let result = divide_rounded a b c rnd in
           if result > i64_max then Inr None else Inr (Some (as_i64 result)))"

lemma midpoint:
  assumes "low \<le> (high :: int)"
  shows "low \<le> (low + high) sdiv 2" "(low + high) sdiv 2 \<le> high"
  using assms by (auto simp: signed_divide_int_def sgn_if split: if_splits)

text \<open>The binary search of \<open>big_square_root\<close>.\<close>

function square_root_loop :: "i128 \<Rightarrow> i128 \<Rightarrow> i128 \<Rightarrow> i128" where
  "square_root_loop product low high =
     (if low \<le> high
      then
        let mid = (low + high) sdiv 2; sq = as_i128 (mid * mid)
        in if sq = product then mid
           else if sq < product then square_root_loop product (mid + 1) high
           else square_root_loop product low (mid - 1)
      else max high 0)"
  by pat_completeness auto

termination
  by (relation "measure (\<lambda>(product, low, high). nat (high - low + 1))") (auto dest: midpoint)

declare square_root_loop.simps [simp del]

definition big_square_root :: "i64 \<Rightarrow> i64 \<Rightarrow> i64" where
  "big_square_root a b =
     (let product = as_i128 (a * b) in as_i64 (square_root_loop product 0 (min product i64_max)))"

definition is_bad_price :: "i64 \<Rightarrow> i64 \<Rightarrow> price \<Rightarrow> price \<Rightarrow> bool" where
  "is_bad_price amount_a amount_b minp maxp =
     (if amount_a = 0 \<or> amount_b = 0 then True
      else as_i128 (amount_a * price_d minp) < as_i128 (amount_b * price_n minp)
        \<or> as_i128 (amount_a * price_d maxp) > as_i128 (amount_b * price_n maxp))"

section \<open>Deposits\<close>

definition is_issuer :: "account_id \<Rightarrow> asset \<Rightarrow> bool" where
  "is_issuer source as \<longleftrightarrow> issuer_for_asset as = Some source"

definition available_native_balance :: "account_id \<Rightarrow> ledger \<Rightarrow> tx_error + i64" where
  "available_native_balance source l =
     (case accounts l source of
        None \<Rightarrow> Inr 0
      | Some a \<Rightarrow> bindE (minimum_balance_for_account a 0 l) (\<lambda>min_balance.
          Inr (i64_saturating (i64_saturating (acc_balance a - min_balance) - selling (account_liabilities a)))))"

definition resolve_deposit_asset :: "account_id \<Rightarrow> asset \<Rightarrow> ledger \<Rightarrow> deposit_code + i64" where
  "resolve_deposit_asset source as l =
     (if as = Native
      then (case available_native_balance source l of
              Inl _ \<Rightarrow> Inl DepositUnderfunded
            | Inr available \<Rightarrow> Inr available)
      else if is_issuer source as then Inr i64_max
      else case get_trustline source as l of
             None \<Rightarrow> Inl DepositNoTrust
           | Some t \<Rightarrow> if \<not> is_trustline_authorized (tl_flags t) then Inl DepositNotAuthorized
                       else Inr (trustline_balance_after_liabilities t))"

definition debit_asset :: "account_id \<Rightarrow> asset \<Rightarrow> i64 \<Rightarrow> ledger \<Rightarrow> deposit_code + ledger" where
  "debit_asset source as amount l =
     (if as = Native
      then (case accounts l source of
              None \<Rightarrow> Inr l
            | Some a \<Rightarrow>
                if acc_balance a < amount then Inl DepositUnderfunded
                else case sub_account_balance amount a of
                       Inl _ \<Rightarrow> Inl DepositUnderfunded
                     | Inr a' \<Rightarrow> Inr (put_account source a' l))
      else if is_issuer source as then Inr l
      else case get_trustline source as l of
             None \<Rightarrow> Inr l
           | Some t \<Rightarrow>
               if tl_balance t < amount then Inl DepositUnderfunded
               else case sub_trustline_balance amount t of
                      Inl _ \<Rightarrow> Inl DepositUnderfunded
                    | Inr t' \<Rightarrow> Inr (put_trustline source (asset_to_trustline_asset as) t' l))"

datatype deposit_outcome = Deposited i64 i64 i64 | Refused deposit_code

definition deposit_into_empty_pool ::
  "i64 \<Rightarrow> i64 \<Rightarrow> i64 \<Rightarrow> i64 \<Rightarrow> i64 \<Rightarrow> price \<Rightarrow> price \<Rightarrow> deposit_outcome" where
  "deposit_into_empty_pool max_a max_b available_a available_b share_limit minp maxp =
     (if available_a < max_a \<or> available_b < max_b then Refused DepositUnderfunded
      else if is_bad_price max_a max_b minp maxp then Refused DepositBadPrice
      else let shares = big_square_root max_a max_b in
           if share_limit < shares then Refused DepositLineFull
           else Deposited max_a max_b shares)"

definition min_among_valid :: "i64 option \<Rightarrow> i64 option \<Rightarrow> tx_error + i64" where
  "min_among_valid x y =
     (case (x, y) of
        (Some a, Some b) \<Rightarrow> Inr (min a b)
      | (Some a, None) \<Rightarrow> Inr a
      | (None, Some b) \<Rightarrow> Inr b
      | (None, None) \<Rightarrow> Inl TxPanic)"

definition deposit_into_non_empty_pool ::
  "i64 \<Rightarrow> i64 \<Rightarrow> i64 \<Rightarrow> i64 \<Rightarrow> i64 \<Rightarrow> i64 \<Rightarrow> i64 \<Rightarrow> i64 \<Rightarrow> price \<Rightarrow> price \<Rightarrow> tx_error + deposit_outcome" where
  "deposit_into_non_empty_pool max_a max_b available_a available_b share_limit ra rb total_shares minp maxp =
     bindE (big_divide_checked total_shares max_a ra Down) (\<lambda>shares_a.
     bindE (big_divide_checked total_shares max_b rb Down) (\<lambda>shares_b.
     bindE (min_among_valid shares_a shares_b) (\<lambda>pool_shares.
     bindE (big_divide pool_shares ra total_shares Up) (\<lambda>amount_a.
     bindE (big_divide pool_shares rb total_shares Up) (\<lambda>amount_b.
       Inr (if available_a < amount_a \<or> available_b < amount_b then Refused DepositUnderfunded
            else if is_bad_price amount_a amount_b minp maxp then Refused DepositBadPrice
            else if share_limit < pool_shares then Refused DepositLineFull
            else Deposited amount_a amount_b pool_shares))))))"

definition frozen_asset :: "ledger_context \<Rightarrow> account_id \<Rightarrow> asset \<Rightarrow> bool" where
  "frozen_asset ctx source as \<longleftrightarrow> as \<noteq> Native \<and> is_key_frozen ctx (source, asset_to_trustline_asset as)"

definition malformed_deposit :: "deposit_op \<Rightarrow> bool" where
  "malformed_deposit op \<longleftrightarrow>
     max_amount_a op \<le> 0 \<or> max_amount_b op \<le> 0 \<or>
     price_n (min_price op) \<le> 0 \<or> price_d (min_price op) \<le> 0 \<or>
     price_n (max_price op) \<le> 0 \<or> price_d (max_price op) \<le> 0 \<or>
     as_i128 (price_n (min_price op) * price_d (max_price op))
       > as_i128 (price_d (min_price op) * price_n (max_price op))"

text \<open>The reserves and the shares after a deposit of \<open>a\<close> and \<open>b\<close> for \<open>s\<close> shares.\<close>

definition add_to_pool :: "i64 \<Rightarrow> i64 \<Rightarrow> i64 \<Rightarrow> pool_entry \<Rightarrow> tx_error + pool_entry" where
  "add_to_pool a b s pool =
     (case add_checked_i64 a (reserve_a pool) of Inl e \<Rightarrow> Inl (TxBalance e) | Inr ra \<Rightarrow>
      case add_checked_i64 b (reserve_b pool) of Inl e \<Rightarrow> Inl (TxBalance e) | Inr rb \<Rightarrow>
      case add_checked_i64 s (total_pool_shares pool) of Inl e \<Rightarrow> Inl (TxBalance e) | Inr t \<Rightarrow>
        Inr (pool\<lparr>reserve_a := ra, reserve_b := rb, total_pool_shares := t\<rparr>))"

text \<open>\<open>if let Some(..) = get_liquidity_pool_mut(..)\<close> with the three updates, and the same for the share trustline.\<close>

definition update_pool :: "pool_id \<Rightarrow> i64 \<Rightarrow> i64 \<Rightarrow> i64 \<Rightarrow> ledger \<Rightarrow> tx_error + ledger" where
  "update_pool pid a b s l =
     (case liquidity_pools l pid of
        None \<Rightarrow> Inr l
      | Some p \<Rightarrow> bindE (add_to_pool a b s p) (\<lambda>p'. Inr (put_pool pid p' l)))"

definition credit_pool_shares :: "account_id \<Rightarrow> pool_id \<Rightarrow> i64 \<Rightarrow> ledger \<Rightarrow> tx_error + ledger" where
  "credit_pool_shares source pid s l =
     (case trustlines l (source, PoolShare pid) of
        None \<Rightarrow> Inr l
      | Some t \<Rightarrow> (case add_trustline_balance s t of
          Inl _ \<Rightarrow> Inl TxInternal
        | Inr t' \<Rightarrow> Inr (put_trustline source (PoolShare pid) t' l)))"

definition debit_pool_shares :: "account_id \<Rightarrow> pool_id \<Rightarrow> i64 \<Rightarrow> ledger \<Rightarrow> tx_error + ledger" where
  "debit_pool_shares source pid s l =
     (case trustlines l (source, PoolShare pid) of
        None \<Rightarrow> Inr l
      | Some t \<Rightarrow> (case sub_trustline_balance s t of
          Inl e \<Rightarrow> Inl (TxBalance e)
        | Inr t' \<Rightarrow> Inr (put_trustline source (PoolShare pid) t' l)))"

definition pool_full :: "pool_entry \<Rightarrow> i64 \<Rightarrow> i64 \<Rightarrow> i64 \<Rightarrow> bool" where
  "pool_full pool a b s \<longleftrightarrow>
     as_i64 (i64_max - reserve_a pool) < a \<or> as_i64 (i64_max - reserve_b pool) < b
     \<or> as_i64 (i64_max - total_pool_shares pool) < s"

definition settle_deposit ::
  "deposit_op \<Rightarrow> account_id \<Rightarrow> pool_entry \<Rightarrow> i64 \<Rightarrow> i64 \<Rightarrow> i64 \<Rightarrow> ledger \<Rightarrow> tx_error + (deposit_code \<times> ledger)" where
  "settle_deposit op source pool a b s l =
     (if pool_full pool a b s then Inr (DepositPoolFull, l)
      else case debit_asset source (asset_a pool) a l of
        Inl code \<Rightarrow> Inr (code, l)
      | Inr l1 \<Rightarrow> (case debit_asset source (asset_b pool) b l1 of
          Inl code \<Rightarrow> Inr (code, l1)
        | Inr l2 \<Rightarrow>
            bindE (credit_pool_shares source (dep_pool_id op) s l2) (\<lambda>l3.
            bindE (update_pool (dep_pool_id op) a b s l3) (\<lambda>l4. Inr (DepositSuccess, l4)))))"

text \<open>The two branches on \<open>total_shares == 0\<close>.\<close>

definition compute_deposit ::
  "deposit_op \<Rightarrow> pool_entry \<Rightarrow> trustline_entry \<Rightarrow> i64 \<Rightarrow> i64 \<Rightarrow> tx_error + deposit_outcome" where
  "compute_deposit op pool share_line available_a available_b =
     (let share_limit = i64_saturating (tl_limit share_line - tl_balance share_line) in
      if total_pool_shares pool = 0
      then Inr (deposit_into_empty_pool (max_amount_a op) (max_amount_b op) available_a available_b
                  share_limit (min_price op) (max_price op))
      else deposit_into_non_empty_pool (max_amount_a op) (max_amount_b op) available_a available_b
             share_limit (reserve_a pool) (reserve_b pool) (total_pool_shares pool) (min_price op) (max_price op))"

definition execute_liquidity_pool_deposit ::
  "ledger_context \<Rightarrow> deposit_op \<Rightarrow> account_id \<Rightarrow> ledger \<Rightarrow> tx_error + (deposit_code \<times> ledger)" where
  "execute_liquidity_pool_deposit ctx op source l =
     (if malformed_deposit op then Inr (DepositMalformed, l)
      else case liquidity_pools l (dep_pool_id op) of
        None \<Rightarrow> Inr (DepositNoTrust, l)
      | Some pool \<Rightarrow> (case trustlines l (source, PoolShare (dep_pool_id op)) of
          None \<Rightarrow> Inr (DepositNoTrust, l)
        | Some share_line \<Rightarrow> (case resolve_deposit_asset source (asset_a pool) l of
            Inl code \<Rightarrow> Inr (code, l)
          | Inr available_a \<Rightarrow> (case resolve_deposit_asset source (asset_b pool) l of
              Inl code \<Rightarrow> Inr (code, l)
            | Inr available_b \<Rightarrow>
                if frozen_asset ctx source (asset_a pool) \<or> frozen_asset ctx source (asset_b pool)
                then Inr (DepositTrustlineFrozen, l)
                else
                  bindE (compute_deposit op pool share_line available_a available_b)
                    (\<lambda>outcome. case outcome of
                        Refused code \<Rightarrow> Inr (code, l)
                      | Deposited a b s \<Rightarrow> settle_deposit op source pool a b s l)))))"

section \<open>Withdrawals\<close>

definition get_pool_withdrawal_amount :: "i64 \<Rightarrow> i64 \<Rightarrow> i64 \<Rightarrow> tx_error + i64" where
  "get_pool_withdrawal_amount amount total_shares reserve = big_divide amount reserve total_shares Down"

datatype asset_check = CreditOk | CreditNoTrust | CreditLineFull

definition can_credit_asset :: "account_id \<Rightarrow> asset \<Rightarrow> i64 \<Rightarrow> ledger \<Rightarrow> asset_check" where
  "can_credit_asset source as amount l =
     (if as = Native
      then (case accounts l source of
              None \<Rightarrow> CreditNoTrust
            | Some a \<Rightarrow>
                if as_i64 (i64_max - acc_balance a) < amount then CreditLineFull
                else if as_i64 (acc_balance a + amount) > as_i64 (i64_max - buying (account_liabilities a))
                then CreditLineFull else CreditOk)
      else if is_issuer source as then CreditOk
      else case get_trustline source as l of
             None \<Rightarrow> CreditNoTrust
           | Some t \<Rightarrow>
               if \<not> is_authorized_to_maintain_liabilities (tl_flags t) then CreditLineFull
               else if as_i64 (tl_limit t - tl_balance t) < amount then CreditLineFull
               else if as_i64 (tl_balance t + amount) > as_i64 (tl_limit t - buying (trustline_liabilities t))
               then CreditLineFull else CreditOk)"

datatype withdraw_check = WithdrawOk | BelowMinimum | NoRoom

definition try_add_asset_balance ::
  "account_id \<Rightarrow> asset \<Rightarrow> i64 \<Rightarrow> i64 \<Rightarrow> ledger \<Rightarrow> tx_error + withdraw_check" where
  "try_add_asset_balance source as min_amount withdraw_amount l =
     (if withdraw_amount < min_amount then Inr BelowMinimum
      else case can_credit_asset source as withdraw_amount l of
             CreditOk \<Rightarrow> Inr WithdrawOk
           | CreditLineFull \<Rightarrow> Inr NoRoom
           | CreditNoTrust \<Rightarrow> Inl TxPanic)"

definition credit_asset :: "account_id \<Rightarrow> asset \<Rightarrow> i64 \<Rightarrow> ledger \<Rightarrow> ledger" where
  "credit_asset source as amount l =
     (if as = Native
      then (case accounts l source of
              None \<Rightarrow> l
            | Some a \<Rightarrow> (case add_account_balance amount a of Inl _ \<Rightarrow> l | Inr a' \<Rightarrow> put_account source a' l))
      else if is_issuer source as then l
      else case get_trustline source as l of
             None \<Rightarrow> l
           | Some t \<Rightarrow> (case add_trustline_balance amount t of
               Inl _ \<Rightarrow> l
             | Inr t' \<Rightarrow> put_trustline source (asset_to_trustline_asset as) t' l))"

text \<open>What a check that did not pass answers.\<close>

fun withdraw_refusal :: "withdraw_check \<Rightarrow> withdraw_code option" where
  "withdraw_refusal WithdrawOk = None"
| "withdraw_refusal BelowMinimum = Some WithdrawUnderMinimum"
| "withdraw_refusal NoRoom = Some WithdrawLineFull"

definition settle_withdrawal ::
  "withdraw_op \<Rightarrow> account_id \<Rightarrow> pool_entry \<Rightarrow> i64 \<Rightarrow> i64 \<Rightarrow> ledger \<Rightarrow> tx_error + (withdraw_code \<times> ledger)" where
  "settle_withdrawal op source pool a b l =
     (let l2 = credit_asset source (asset_b pool) b (credit_asset source (asset_a pool) a l)
      in bindE (debit_pool_shares source (wd_pool_id op) (wd_amount op) l2) (\<lambda>l3.
         bindE (update_pool (wd_pool_id op) (- a) (- b) (- wd_amount op) l3) (\<lambda>l4. Inr (WithdrawSuccess, l4))))"

definition execute_liquidity_pool_withdraw ::
  "ledger_context \<Rightarrow> withdraw_op \<Rightarrow> account_id \<Rightarrow> ledger \<Rightarrow> tx_error + (withdraw_code \<times> ledger)" where
  "execute_liquidity_pool_withdraw ctx op source l =
     (if wd_amount op \<le> 0 \<or> min_amount_a op < 0 \<or> min_amount_b op < 0 then Inr (WithdrawMalformed, l)
      else case liquidity_pools l (wd_pool_id op) of
        None \<Rightarrow> Inr (WithdrawNoTrust, l)
      | Some pool \<Rightarrow> (case trustlines l (source, PoolShare (wd_pool_id op)) of
          None \<Rightarrow> Inr (WithdrawNoTrust, l)
        | Some t \<Rightarrow>
            if as_i64 (tl_balance t - selling (trustline_liabilities t)) < wd_amount op
            then Inr (WithdrawUnderfunded, l)
            else if frozen_asset ctx source (asset_a pool) \<or> frozen_asset ctx source (asset_b pool)
            then Inr (WithdrawTrustlineFrozen, l)
            else
              bindE (get_pool_withdrawal_amount (wd_amount op) (total_pool_shares pool) (reserve_a pool)) (\<lambda>a.
              bindE (get_pool_withdrawal_amount (wd_amount op) (total_pool_shares pool) (reserve_b pool)) (\<lambda>b.
              bindE (try_add_asset_balance source (asset_a pool) (min_amount_a op) a l) (\<lambda>check_a.
                case withdraw_refusal check_a of
                  Some code \<Rightarrow> Inr (code, l)
                | None \<Rightarrow>
                    bindE (try_add_asset_balance source (asset_b pool) (min_amount_b op) b l) (\<lambda>check_b.
                      case withdraw_refusal check_b of
                        Some code \<Rightarrow> Inr (code, l)
                      | None \<Rightarrow> settle_withdrawal op source pool a b l))))))"

section \<open>Exchanges with a pool\<close>

definition max_bps :: i64 where
  "max_bps = 10000"

definition liquidity_pool_fee :: i64 where
  "liquidity_pool_fee = 30"

text \<open>The cast of an \<open>i64\<close> to \<open>u64\<close>.\<close>

abbreviation u64_of :: "i64 \<Rightarrow> int" where
  "u64_of x \<equiv> x mod 18446744073709551616"

text \<open>\<open>hugeDivide\<close>: \<open>a * b / c\<close> with the quotient and the remainder of \<open>b\<close> apart.\<close>

definition huge_divide_down :: "u128 \<Rightarrow> u128 \<Rightarrow> u128 \<Rightarrow> u128" where
  "huge_divide_down a b c = as_u128 (as_u128 (a * (b div c)) + as_u128 (a * (b mod c)) div c)"

definition huge_divide_up :: "u128 \<Rightarrow> u128 \<Rightarrow> u128 \<Rightarrow> u128" where
  "huge_divide_up a b c =
     (let ar = as_u128 (a * (b mod c)); up = ar div c + (if ar mod c > 0 then 1 else 0)
      in as_u128 (as_u128 (a * (b div c)) + up))"

text \<open>The amounts to and from the pool, \<open>None\<close> when the source answers \<open>Ok(false)\<close>.\<close>

definition exchange_with_pool ::
  "i64 \<Rightarrow> i64 \<Rightarrow> i64 \<Rightarrow> i64 \<Rightarrow> i64 \<Rightarrow> rounding_type \<Rightarrow> tx_error + (i64 \<times> i64) option" where
  "exchange_with_pool reserves_to max_send reserves_from max_receive fee_bps rnd =
     (if \<not> (0 \<le> fee_bps \<and> fee_bps < max_bps) then Inl TxInternal
      else if reserves_to \<le> 0 \<or> reserves_from \<le> 0 then Inl TxInternal
      else case rnd of
        PathPaymentStrictSend \<Rightarrow>
          if max_receive \<noteq> i64_max then Inl TxInternal
          else if max_send > i64_max - reserves_to then Inr None
          else
            let to_pool = max_send;
                c = as_u128 (as_u128 (max_bps * reserves_to) + as_u128 ((max_bps - fee_bps) * u64_of to_pool));
                b = as_u128 (reserves_from * u64_of to_pool)
            in if c = 0 then Inr None
               else
                 let v = huge_divide_down (max_bps - fee_bps) b c in
                 if v > i64_max then Inr None
                 else if as_i64 v > reserves_from \<or> as_i64 v = 0 then Inr None
                 else Inr (Some (to_pool, as_i64 v))
      | PathPaymentStrictReceive \<Rightarrow>
          if max_send \<noteq> i64_max then Inl TxInternal
          else if max_receive \<ge> reserves_from then Inr None
          else
            let from_pool = max_receive;
                b = as_u128 (reserves_to * u64_of from_pool);
                c = as_u128 (u64_of (as_i64 (reserves_from - from_pool)) * (max_bps - fee_bps))
            in if c = 0 then Inr None
               else
                 let v = huge_divide_up max_bps b c in
                 if v > i64_max then Inr None
                 else if as_i64 v \<le> i64_max - reserves_to then Inr (Some (as_i64 v, from_pool)) else Inr None
      | Normal \<Rightarrow> Inr None)"

record pool_exchange =
  px_pool_id :: pool_id
  px_send :: i64
  px_recv :: i64

text \<open>\<open>pool_id_for_assets\<close> hashes the XDR of the pool's parameters: the function \<open>pool_id_of\<close> is a parameter.\<close>

definition compute_pool_exchange ::
  "(asset \<Rightarrow> asset \<Rightarrow> pool_id) \<Rightarrow> asset \<Rightarrow> i64 \<Rightarrow> asset \<Rightarrow> i64 \<Rightarrow> rounding_type \<Rightarrow> ledger
    \<Rightarrow> tx_error + pool_exchange option" where
  "compute_pool_exchange pool_id_of send_asset max_send recv_asset max_recv rnd l =
     (let pid = pool_id_of send_asset recv_asset in
      case liquidity_pools l pid of
        None \<Rightarrow> Inr None
      | Some pool \<Rightarrow>
          if reserve_a pool \<le> 0 \<or> reserve_b pool \<le> 0 then Inr None
          else
            bindE (if send_asset = asset_a pool \<and> recv_asset = asset_b pool
                   then exchange_with_pool (reserve_a pool) max_send (reserve_b pool) max_recv liquidity_pool_fee rnd
                   else if send_asset = asset_b pool \<and> recv_asset = asset_a pool
                   then exchange_with_pool (reserve_b pool) max_send (reserve_a pool) max_recv liquidity_pool_fee rnd
                   else Inr None)
              (\<lambda>r. Inr (map_option (\<lambda>(s, v). \<lparr>px_pool_id = pid, px_send = s, px_recv = v\<rparr>) r)))"

definition apply_pool_exchange ::
  "(asset \<Rightarrow> asset \<Rightarrow> pool_id) \<Rightarrow> asset \<Rightarrow> asset \<Rightarrow> i64 \<Rightarrow> i64 \<Rightarrow> ledger \<Rightarrow> tx_error + (bool \<times> ledger)" where
  "apply_pool_exchange pool_id_of send_asset recv_asset to_pool from_pool l =
     (let pid = pool_id_of send_asset recv_asset in
      case liquidity_pools l pid of
        None \<Rightarrow> Inr (False, l)
      | Some pool \<Rightarrow>
          if send_asset = asset_a pool \<and> recv_asset = asset_b pool
          then bindE (checked_or TxInternal (reserve_a pool + to_pool)) (\<lambda>ra.
               bindE (checked_or TxInternal (reserve_b pool - from_pool)) (\<lambda>rb.
                 Inr (True, put_pool pid (pool\<lparr>reserve_a := ra, reserve_b := rb\<rparr>) l)))
          else if send_asset = asset_b pool \<and> recv_asset = asset_a pool
          then bindE (checked_or TxInternal (reserve_b pool + to_pool)) (\<lambda>rb.
               bindE (checked_or TxInternal (reserve_a pool - from_pool)) (\<lambda>ra.
                 Inr (True, put_pool pid (pool\<lparr>reserve_b := rb, reserve_a := ra\<rparr>) l)))
          else Inr (False, l))"

end
