(* ===== verification/Liquidity_Pool_Safety.thy ===== *)
theory Liquidity_Pool_Safety
  imports Liquidity_Pool Exchange_Correct
begin

text \<open>
  The pool's arithmetic is exact, its shares stay backed by its reserves, deposits and withdrawals
  never dilute the other shareholders and move exactly what they book, exchanges respect the
  constant product with the fee, and a refused operation changes nothing.
\<close>

section \<open>Square roots and quotients\<close>

lemma square_root_loop_spec:
  assumes "0 \<le> product" "0 \<le> low" "low \<le> high + 1" "high \<le> i64_max"
    "low = 0 \<or> (low - 1) * (low - 1) < product" "product < (high + 1) * (high + 1)"
  shows "let r = square_root_loop product low high
    in 0 \<le> r \<and> r \<le> i64_max \<and> r * r \<le> product \<and> product < (r + 1) * (r + 1)"
  using assms
proof (induction product low high rule: square_root_loop.induct)
  case (1 product low high)
  show ?case
  proof (cases "low \<le> high")
    case True
    define mid where "mid = (low + high) sdiv 2"
    have mid: "low \<le> mid" "mid \<le> high" using midpoint [OF True] by (simp_all add: mid_def)
    with 1(4,6) have amount: "in_amount mid" by (simp add: in_amount_def)
    then have sq: "as_i128 (mid * mid) = mid * mid" by (rule product_wraps_not [OF _ amount])
    note step = square_root_loop.simps [of product low high, folded mid_def, unfolded Let_def sq]
    consider "mid * mid = product" | "mid * mid < product" | "mid * mid > product" by linarith
    then show ?thesis
    proof cases
      case 1
      with True amount step show ?thesis by (auto simp: in_amount_def Let_def algebra_simps)
    next
      case 2
      have "let r = square_root_loop product (mid + 1) high
        in 0 \<le> r \<and> r \<le> i64_max \<and> r * r \<le> product \<and> product < (r + 1) * (r + 1)"
        using 1(1) [OF True mid_def refl] 2 1(3-8) mid sq by simp
      with 2 True step show ?thesis by (simp add: Let_def)
    next
      case 3
      then have "mid \<noteq> 0" using 1(3) by auto
      have "let r = square_root_loop product low (mid - 1)
        in 0 \<le> r \<and> r \<le> i64_max \<and> r * r \<le> product \<and> product < (r + 1) * (r + 1)"
        using 1(2) [OF True mid_def refl] 3 1(3-8) mid sq \<open>mid \<noteq> 0\<close> by simp
      with 3 True step show ?thesis by (simp add: Let_def)
    qed
  next
    case False
    then have low: "low = high + 1" using 1(5) by simp
    have "high \<noteq> - 1" using 1(3,8) by auto
    with low 1(4) have "0 \<le> high" "low \<noteq> 0" by auto
    moreover from this have "square_root_loop product low high = high"
      using False by (simp add: square_root_loop.simps [of product low high])
    ultimately show ?thesis using low 1(6-8) by (simp add: Let_def)
  qed
qed

lemma square_root_exact:
  assumes "in_amount a" "in_amount b"
  shows "0 \<le> big_square_root a b \<and> big_square_root a b * big_square_root a b \<le> a * b \<and>
    a * b < (big_square_root a b + 1) * (big_square_root a b + 1)"
proof -
  have "in_amount (min (a * b) i64_max)" using amount_product [OF assms] by (simp add: in_amount_def i64_max_def)
  moreover have "a * b < (min (a * b) i64_max + 1) * (min (a * b) i64_max + 1)"
  proof (cases "a * b \<le> i64_max")
    case True
    have "0 \<le> (a * b) * (a * b)" by simp
    then have "a * b < (a * b + 1) * (a * b + 1)" using amount_product(1) [OF assms] by (simp add: algebra_simps)
    with True show ?thesis by (simp add: min_absorb1)
  next
    case False
    then have "min (a * b) i64_max = i64_max" by simp
    with amount_product(2) [OF assms] show ?thesis by (simp only:) (simp add: i64_max_def)
  qed
  ultimately have "let r = square_root_loop (a * b) 0 (min (a * b) i64_max)
    in 0 \<le> r \<and> r \<le> i64_max \<and> r * r \<le> a * b \<and> a * b < (r + 1) * (r + 1)"
    using amount_product(1) [OF assms] by (intro square_root_loop_spec) (simp_all add: in_amount_def)
  then show ?thesis
    using product_wraps_not [OF assms]
    by (simp add: big_square_root_def Let_def as_i64_amount in_amount_def)
qed

text \<open>
  C30. The binary search of \<open>big_square_root\<close> finds the integer square root of the product of two
  amounts, without overflow.
\<close>

theorem big_square_root_correct:
  assumes "in_amount a" "in_amount b"
  shows "0 \<le> big_square_root a b \<and> big_square_root a b * big_square_root a b \<le> a * b \<and>
    a * b < (big_square_root a b + 1) * (big_square_root a b + 1)"
  using assms by (rule square_root_exact)

theorem big_square_root_correct_witness:
  "0 \<le> big_square_root 1000 2001 \<and> big_square_root 1000 2001 * big_square_root 1000 2001 \<le> 2001000"
  using big_square_root_correct [of 1000 2001] by (simp add: range_defs)

lemma divide_rounded_exact:
  assumes "in_amount a" "in_amount b" "0 < c" "c \<le> i64_max"
  shows "divide_rounded a b c Down = a * b div c" "divide_rounded a b c Up = (a * b + c - 1) div c"
proof -
  note pr = amount_product [OF assms(1,2)] product_wraps_not [OF assms(1,2)]
  have "as_i128 (a * b + c) = a * b + c" "as_i128 (a * b + c - 1) = a * b + c - 1"
    using pr assms(3,4) by (auto intro!: as_i128_id simp: i64_max_def i128_max_def)
  moreover have "(c - 1) div c = 0" using assms(3) by simp
  ultimately show "divide_rounded a b c Down = a * b div c" "divide_rounded a b c Up = (a * b + c - 1) div c"
    using pr assms(3) by (simp_all add: divide_rounded_def sdiv_nonneg Let_def)
qed

section \<open>Shares and reserves\<close>

text \<open>What the entry of a pool satisfies: shares are backed by the geometric mean of the reserves.\<close>

definition pool_ok :: "pool_entry \<Rightarrow> bool" where
  "pool_ok p \<longleftrightarrow> in_amount (reserve_a p) \<and> in_amount (reserve_b p) \<and> in_amount (total_pool_shares p) \<and>
     total_pool_shares p * total_pool_shares p \<le> reserve_a p * reserve_b p \<and>
     (total_pool_shares p = 0 \<longrightarrow> reserve_a p = 0 \<and> reserve_b p = 0) \<and> asset_a p \<noteq> asset_b p"

lemma pool_ok_positive:
  assumes "pool_ok p" "total_pool_shares p \<noteq> 0"
  shows "0 < total_pool_shares p" "0 < reserve_a p" "0 < reserve_b p"
proof -
  have t: "0 < total_pool_shares p" using assms by (simp add: pool_ok_def in_amount_def)
  then have "0 < total_pool_shares p * total_pool_shares p" by simp
  then have "0 < reserve_a p * reserve_b p" using assms(1) by (simp only: pool_ok_def) linarith
  moreover have "0 \<le> reserve_a p" "0 \<le> reserve_b p" using assms(1) by (simp_all add: pool_ok_def in_amount_def)
  ultimately show "0 < total_pool_shares p" "0 < reserve_a p" "0 < reserve_b p"
    using t by (simp_all add: zero_less_mult_iff)
qed

text \<open>If each reserve changes at least in proportion to the shares, so does the product.\<close>

lemma proportional_product:
  assumes "0 \<le> ra" "0 \<le> rb" "0 \<le> (t :: int)" "0 \<le> t'" "ra * t' \<le> ra' * t" "rb * t' \<le> rb' * t"
  shows "ra * rb * (t' * t') \<le> ra' * rb' * (t * t)"
proof -
  have "0 \<le> ra * t'" "0 \<le> rb * t'" using assms(1,2,4) by simp_all
  moreover from this assms(5) have "0 \<le> ra' * t" by linarith
  ultimately have "(ra * t') * (rb * t') \<le> (ra' * t) * (rb' * t)" using mult_mono [OF assms(5,6)] by blast
  then show ?thesis by (simp add: ac_simps)
qed

lemma backed_shares:
  assumes "0 < (t :: int)" "t * t \<le> p" "p * (t' * t') \<le> p' * (t * t)"
  shows "t' * t' \<le> p'"
proof -
  have "(t * t) * (t' * t') \<le> p * (t' * t')" using assms(2) by (rule mult_right_mono) simp
  with assms(3) have "(t' * t') * (t * t) \<le> p' * (t * t)" by (simp add: ac_simps)
  moreover have "0 < t * t" using assms(1) by simp
  ultimately show ?thesis using mult_right_le_imp_le by blast
qed

text \<open>How the product per share and the backing evolve when a pool entry changes.\<close>

definition pool_grows :: "pool_entry \<Rightarrow> pool_entry \<Rightarrow> bool" where
  "pool_grows p p' \<longleftrightarrow>
     reserve_a p * reserve_b p * (total_pool_shares p' * total_pool_shares p')
       \<le> reserve_a p' * reserve_b p' * (total_pool_shares p * total_pool_shares p)"

lemma pool_grows_ok:
  assumes ok: "pool_ok p" "total_pool_shares p \<noteq> 0" and grows: "pool_grows p p'"
    and bounds: "in_amount (reserve_a p')" "in_amount (reserve_b p')" "in_amount (total_pool_shares p')"
    and same: "asset_a p' = asset_a p" "asset_b p' = asset_b p"
    and empty: "total_pool_shares p' = 0 \<longrightarrow> reserve_a p' = 0 \<and> reserve_b p' = 0"
  shows "pool_ok p'"
proof -
  have "total_pool_shares p' * total_pool_shares p' \<le> reserve_a p' * reserve_b p'"
    using backed_shares [of "total_pool_shares p" "reserve_a p * reserve_b p"] grows ok pool_ok_positive [OF ok]
    by (simp add: pool_grows_def pool_ok_def)
  with ok(1) bounds same empty show ?thesis by (simp add: pool_ok_def)
qed

section \<open>The amounts of a deposit\<close>

lemma big_divide_checked_down:
  assumes "in_amount a" "in_amount b" "0 < c" "c \<le> i64_max"
  shows "big_divide_checked a b c Down =
    Inr (if a * b div c > i64_max then None else Some (a * b div c))"
proof -
  have "0 \<le> a * b div c" using amount_product(1) [OF assms(1,2)] assms(3) by (rule floor_nonneg)
  then have "a * b div c \<le> i64_max \<Longrightarrow> as_i64 (a * b div c) = a * b div c"
    by (intro as_i64_amount) (simp add: in_amount_def)
  then show ?thesis using assms(3) by (simp add: big_divide_checked_def divide_rounded_exact [OF assms] Let_def)
qed

lemma big_divide_amount:
  assumes "in_amount a" "in_amount b" "0 < c" "c \<le> i64_max"
  shows "big_divide a b c Down = Inr (if a * b div c > i64_max then 0 else a * b div c)"
    "big_divide a b c Up = Inr (if (a * b + c - 1) div c > i64_max then 0 else (a * b + c - 1) div c)"
proof -
  have "0 \<le> a * b div c" "0 \<le> (a * b + c - 1) div c"
    using amount_product(1) [OF assms(1,2)] assms(3) by (auto intro!: floor_nonneg)
  then have "q \<le> i64_max \<Longrightarrow> as_i64 q = q" if "q = a * b div c \<or> q = (a * b + c - 1) div c" for q
    using that by (intro as_i64_amount) (auto simp: in_amount_def)
  then show "big_divide a b c Down = Inr (if a * b div c > i64_max then 0 else a * b div c)"
    "big_divide a b c Up = Inr (if (a * b + c - 1) div c > i64_max then 0 else (a * b + c - 1) div c)"
    using assms(3) by (simp_all add: big_divide_def divide_rounded_exact [OF assms] Let_def)
qed

lemma shares_in_range:
  assumes "in_amount t" "in_amount m" "0 < r" "r \<le> i64_max" "t \<le> r"
  shows "\<not> t * m div r > i64_max"
proof -
  have "t * m \<le> m * r" using assms(2,5) by (simp add: in_amount_def mult.commute mult_left_mono)
  with assms(3) have "t * m div r \<le> m" by (intro floor_le) simp_all
  with assms(2) show ?thesis by (simp add: in_amount_def)
qed

lemma deposit_into_non_empty_result:
  assumes ok: "pool_ok p" "total_pool_shares p \<noteq> 0" and m: "in_amount ma" "in_amount mb"
  obtains r where "deposit_into_non_empty_pool ma mb av_a av_b lim (reserve_a p) (reserve_b p) (total_pool_shares p) minp maxp = Inr r"
    "\<And>a b s. r = Deposited a b s \<Longrightarrow> in_amount a \<and> in_amount b \<and> in_amount s \<and> a \<le> av_a \<and> b \<le> av_b \<and> s \<le> lim \<and>
       s * reserve_a p \<le> a * total_pool_shares p \<and> s * reserve_b p \<le> b * total_pool_shares p \<and> 0 < a \<and> 0 < b \<and>
       a \<le> ma \<and> b \<le> mb"
    "\<And>c. r = Refused c \<Longrightarrow> c \<noteq> DepositSuccess"
proof -
  let ?t = "total_pool_shares p" and ?ra = "reserve_a p" and ?rb = "reserve_b p"
  note pos = pool_ok_positive [OF ok]
  have am: "in_amount ?t" "in_amount ?ra" "in_amount ?rb" "?ra \<le> i64_max" "?rb \<le> i64_max" "?t \<le> i64_max"
    using ok(1) by (simp_all add: pool_ok_def in_amount_def)
  define sa where "sa = (if ?t * ma div ?ra > i64_max then None else Some (?t * ma div ?ra))"
  define sb where "sb = (if ?t * mb div ?rb > i64_max then None else Some (?t * mb div ?rb))"
  have "?t \<le> ?ra \<or> ?t \<le> ?rb"
  proof (rule ccontr)
    assume "\<not> (?t \<le> ?ra \<or> ?t \<le> ?rb)"
    then have "?ra * ?rb < ?t * ?t" using pos by (intro mult_strict_mono) auto
    with ok(1) show False by (simp add: pool_ok_def)
  qed
  then have "sa \<noteq> None \<or> sb \<noteq> None"
    using shares_in_range [OF am(1) m(1) pos(2) am(4)] shares_in_range [OF am(1) m(2) pos(3) am(5)]
    by (auto simp: sa_def sb_def)
  moreover have "in_amount x" if "sa = Some x \<or> sb = Some x" for x
    using that amount_product(1) [OF am(1) m(1)] amount_product(1) [OF am(1) m(2)] pos
    by (auto simp: sa_def sb_def in_amount_def split: if_splits intro: floor_nonneg)
  ultimately obtain s where s: "min_among_valid sa sb = Inr s" "in_amount s"
    by (cases sa; cases sb) (auto simp: min_among_valid_def min_def)
  have s_le: "s * ?ra \<le> ?t * ma" "s * ?rb \<le> ?t * mb"
  proof -
    have "s \<le> ?t * ma div ?ra" "s \<le> ?t * mb div ?rb"
      using s unfolding sa_def sb_def in_amount_def by (auto simp: min_among_valid_def split: if_splits)
    then show "s * ?ra \<le> ?t * ma" "s * ?rb \<le> ?t * mb" using pos le_floor_iff by simp_all
  qed
  have up: "\<exists>x. big_divide s r ?t Up = Inr x \<and> in_amount x \<and> (x \<noteq> 0 \<longrightarrow> s * r \<le> x * ?t) \<and> x \<le> mx"
    if "in_amount r" "s * r \<le> ?t * mx" "0 \<le> mx" for r mx
  proof -
    have "(s * r + ?t - 1) div ?t \<le> mx" using that(2) ceiling_le_iff [OF pos(1)] by (simp add: mult.commute)
    moreover have "0 \<le> (s * r + ?t - 1) div ?t" using amount_product(1) [OF s(2) that(1)] pos(1) by (intro floor_nonneg) auto
    moreover have "s * r \<le> (s * r + ?t - 1) div ?t * ?t" using ceiling_spec(1) [OF pos(1)] .
    ultimately show ?thesis
      using big_divide_amount(2) [OF s(2) that(1) pos(1) am(6)] that(3) by (auto simp: in_amount_def i64_max_def)
  qed
  have "0 \<le> ma" "0 \<le> mb" using m by (simp_all add: in_amount_def)
  then obtain a b where a: "big_divide s ?ra ?t Up = Inr a" "in_amount a" "a \<noteq> 0 \<Longrightarrow> s * ?ra \<le> a * ?t" "a \<le> ma"
    and b: "big_divide s ?rb ?t Up = Inr b" "in_amount b" "b \<noteq> 0 \<Longrightarrow> s * ?rb \<le> b * ?t" "b \<le> mb"
    using up [OF am(2) s_le(1)] up [OF am(3) s_le(2)] by blast
  define r where "r = (if av_a < a \<or> av_b < b then Refused DepositUnderfunded
            else if is_bad_price a b minp maxp then Refused DepositBadPrice
            else if lim < s then Refused DepositLineFull else Deposited a b s)"
  show thesis
  proof (rule that [of r])
    show "deposit_into_non_empty_pool ma mb av_a av_b lim ?ra ?rb ?t minp maxp = Inr r"
      using big_divide_checked_down [OF am(1) m(1) pos(2) am(4), folded sa_def]
        big_divide_checked_down [OF am(1) m(2) pos(3) am(5), folded sb_def] s a b
      by (simp add: deposit_into_non_empty_pool_def r_def)
    fix x y z assume "r = Deposited x y z"
    moreover from this have "a \<noteq> 0 \<and> b \<noteq> 0" by (auto simp: r_def is_bad_price_def split: if_splits)
    ultimately show "in_amount x \<and> in_amount y \<and> in_amount z \<and> x \<le> av_a \<and> y \<le> av_b \<and> z \<le> lim \<and>
       z * ?ra \<le> x * ?t \<and> z * ?rb \<le> y * ?t \<and> 0 < x \<and> 0 < y \<and> x \<le> ma \<and> y \<le> mb"
      using a b s by (auto simp: r_def in_amount_def split: if_splits)
  qed (auto simp: r_def split: if_splits)
qed

section \<open>What the operations do to a pool\<close>

lemma checked_or_Inr: "checked_or e x = Inr y \<longleftrightarrow> y = x \<and> i64_min \<le> x \<and> x \<le> i64_max"
  by (auto simp: checked_or_def i64_checked_def)

lemma checked_or_amount: "in_amount x \<Longrightarrow> checked_or e x = Inr x"
  by (simp add: checked_or_Inr range_defs)

lemma add_checked_i64_eq:
  "add_checked_i64 d x =
     (if in_amount (x + d) then Inr (x + d)
      else Inl (if i64_min \<le> x + d \<and> x + d \<le> i64_max then BalanceUnderflow else BalanceOverflow))"
  by (simp add: add_checked_i64_def checked_or_def i64_checked_def range_defs)

lemma add_to_pool_Inr:
  "add_to_pool a b s p = Inr p' \<longleftrightarrow>
     p\<lparr>reserve_a := reserve_a p + a, reserve_b := reserve_b p + b, total_pool_shares := total_pool_shares p + s\<rparr> = p' \<and>
     in_amount (reserve_a p + a) \<and> in_amount (reserve_b p + b) \<and> in_amount (total_pool_shares p + s)"
  by (simp add: add_to_pool_def add_checked_i64_eq)

lemma debit_asset_pools: "debit_asset source as amount l = Inr l' \<Longrightarrow> liquidity_pools l' = liquidity_pools l"
  by (auto simp: debit_asset_def split: if_splits option.splits sum.splits)

lemma credit_asset_pools [simp]: "liquidity_pools (credit_asset source as amount l) = liquidity_pools l"
  by (auto simp: credit_asset_def split: option.splits sum.splits)

lemma pool_shares_pools:
  "credit_pool_shares source pid s l = Inr l' \<Longrightarrow> liquidity_pools l' = liquidity_pools l"
  "debit_pool_shares source pid s l = Inr l' \<Longrightarrow> liquidity_pools l' = liquidity_pools l"
  by (auto simp: credit_pool_shares_def debit_pool_shares_def split: option.splits sum.splits)

text \<open>An update of the pool entry \<open>p\<close>, when it is there.\<close>

lemma update_pool_Inr:
  assumes "update_pool pid a b s l = Inr l'" "liquidity_pools l pid = Some p"
  obtains p' where "add_to_pool a b s p = Inr p'" "l' = put_pool pid p' l"
  using assms by (auto simp: update_pool_def bindE_Inr_iff)

lemma settle_deposit_cases:
  assumes "settle_deposit op source pool a b s l = Inr (code, l')" "liquidity_pools l (dep_pool_id op) = Some p"
  obtains (refused) "code \<noteq> DepositSuccess" "liquidity_pools l' = liquidity_pools l"
  | (settled) p' where "code = DepositSuccess" "add_to_pool a b s p = Inr p'"
      "liquidity_pools l' = (liquidity_pools l)(dep_pool_id op \<mapsto> p')"
proof -
  have debit_codes: "debit_asset source x n k = Inl c \<Longrightarrow> c \<noteq> DepositSuccess" for x n k c
    by (auto simp: debit_asset_def split: if_splits option.splits sum.splits)
  note step = assms(1) [unfolded settle_deposit_def]
  show thesis
  proof (cases "pool_full pool a b s")
    case True
    with step refused show ?thesis by simp
  next
    case False
    show ?thesis
    proof (cases "debit_asset source (asset_a pool) a l")
      case (Inl c)
      with step False refused debit_codes [OF Inl] show ?thesis by simp
    next
      case (Inr l1)
      note l1 = debit_asset_pools [OF Inr] and step1 = step [unfolded if_not_P [OF False] Inr sum.case]
      show ?thesis
      proof (cases "debit_asset source (asset_b pool) b l1")
        case (Inl c)
        with step1 l1 refused debit_codes [OF Inl] show ?thesis by simp
      next
        case (Inr l2)
        from step1 Inr obtain l3 where l3: "credit_pool_shares source (dep_pool_id op) s l2 = Inr l3"
          and l4: "update_pool (dep_pool_id op) a b s l3 = Inr l'" and code: "code = DepositSuccess"
          by (auto simp: bindE_Inr_iff)
        have pools: "liquidity_pools l3 = liquidity_pools l"
          using pool_shares_pools(1) [OF l3] debit_asset_pools [OF Inr] l1 by simp
        with assms(2) obtain p' where "add_to_pool a b s p = Inr p'" "l' = put_pool (dep_pool_id op) p' l3"
          using update_pool_Inr [OF l4] by metis
        with settled code pools show ?thesis by simp
      qed
    qed
  qed
qed

lemma settle_withdrawal_cases:
  assumes "settle_withdrawal op source pool a b l = Inr (code, l')" "liquidity_pools l (wd_pool_id op) = Some p"
  obtains p' where "code = WithdrawSuccess" "add_to_pool (- a) (- b) (- wd_amount op) p = Inr p'"
    "liquidity_pools l' = (liquidity_pools l)(wd_pool_id op \<mapsto> p')"
proof -
  from assms(1) obtain l3 where l3: "debit_pool_shares source (wd_pool_id op) (wd_amount op)
        (credit_asset source (asset_b pool) b (credit_asset source (asset_a pool) a l)) = Inr l3"
    and l4: "update_pool (wd_pool_id op) (- a) (- b) (- wd_amount op) l3 = Inr l'" and code: "code = WithdrawSuccess"
    by (auto simp: settle_withdrawal_def Let_def bindE_Inr_iff)
  have pools: "liquidity_pools l3 = liquidity_pools l" using pool_shares_pools(2) [OF l3] by simp
  with assms(2) obtain p' where "add_to_pool (- a) (- b) (- wd_amount op) p = Inr p'" "l' = put_pool (wd_pool_id op) p' l3"
    using update_pool_Inr [OF l4] by metis
  with that code pools show thesis by simp
qed

section \<open>Exchanging with a pool\<close>

lemma huge_divide_split:
  fixes a b c :: int
  assumes "0 < c"
  shows "a * (b div c) + a * (b mod c) div c = a * b div c"
    "a * (b div c) + (a * (b mod c) + c - 1) div c = (a * b + c - 1) div c"
proof -
  have "a * b = a * (b div c) * c + a * (b mod c)"
    using mult_div_mod_eq [of c b] by (metis distrib_left mult.assoc mult.commute)
  then have "a * b div c = (a * (b mod c) + (a * (b div c)) * c) div c"
    "(a * b + c - 1) div c = ((a * (b mod c) + c - 1) + (a * (b div c)) * c) div c" by (simp_all add: algebra_simps)
  with assms show "a * (b div c) + a * (b mod c) div c = a * b div c"
    "a * (b div c) + (a * (b mod c) + c - 1) div c = (a * b + c - 1) div c"
    by simp_all
qed

lemma div_ceil_eq:
  assumes "0 < (c :: int)" "0 \<le> n"
  shows "n div c + (if n mod c > 0 then 1 else 0) = (n + c - 1) div c"
proof (cases "n mod c > 0")
  case True
  have eq: "n = n div c * c + n mod c" and less: "n mod c < c" using assms(1) by simp_all
  have "(n + c - 1) div c = n div c + 1"
    by (rule floor_eqI [OF assms(1)]; unfold distrib_right mult_1; use eq less True in linarith)
  with True show ?thesis by simp
next
  case False
  then have "n mod c = 0" using pos_mod_sign [OF assms(1), of n] by linarith
  then have "n = n div c * c" by (metis add.right_neutral div_mult_mod_eq)
  then have "(n + c - 1) div c = n div c" using assms(1) by (intro floor_eqI) linarith+
  with False show ?thesis by simp
qed

text \<open>Without overflow of \<open>u128\<close>, the quotient is exact.\<close>

lemma u128_id: "0 \<le> x \<Longrightarrow> x < 340282366920938463463374607431768211456 \<Longrightarrow> as_u128 x = x"
  by simp

lemma huge_divide_exact:
  assumes "0 \<le> a" "a \<le> 10000" "0 \<le> b" "b \<le> m * c" "0 < c" "c \<le> 10000 * (2 * i64_max)"
    and m: "10000 * m \<le> 2 * i64_max * i64_max"
  shows "huge_divide_down a b c = a * b div c" "huge_divide_up a b c = (a * b + c - 1) div c"
proof -
  have q: "0 \<le> b div c" "b div c \<le> m" using assms by (auto intro: floor_nonneg floor_le)
  have r: "0 \<le> b mod c" "b mod c < c" using assms(5) by simp_all
  have aq: "0 \<le> a * (b div c)" "a * (b div c) \<le> 2 * i64_max * i64_max"
    using mult_mono [OF assms(2) q(2)] assms(1) q(1) m by simp_all
  have ar: "0 \<le> a * (b mod c)" "a * (b mod c) \<le> 10000 * c"
    using assms(1) r mult_mono [OF assms(2), of "b mod c" c] by simp_all
  have up: "0 \<le> (a * (b mod c) + c - 1) div c" "(a * (b mod c) + c - 1) div c \<le> 10000"
    using ar assms(5) by (auto intro: floor_nonneg ceiling_le)
  have down: "0 \<le> a * (b mod c) div c" "a * (b mod c) div c \<le> 10000"
    using ar assms(5) by (auto intro: floor_nonneg floor_le)
  have u: "as_u128 (a * (b div c)) = a * (b div c)" "as_u128 (a * (b mod c)) = a * (b mod c)"
    using aq ar assms(6) by (auto intro!: u128_id simp: i64_max_def)
  have "huge_divide_down a b c = as_u128 (a * (b div c) + a * (b mod c) div c)"
    by (simp only: huge_divide_down_def u)
  also have "\<dots> = a * (b div c) + a * (b mod c) div c"
    using aq down by (intro u128_id) (simp_all add: i64_max_def)
  also have "\<dots> = a * b div c" using assms(5) by (rule huge_divide_split)
  finally show "huge_divide_down a b c = a * b div c" .
  have "huge_divide_up a b c = as_u128 (a * (b div c) + (a * (b mod c) + c - 1) div c)"
    unfolding huge_divide_up_def Let_def u div_ceil_eq [OF assms(5) ar(1)] ..
  also have "\<dots> = a * (b div c) + (a * (b mod c) + c - 1) div c"
    using aq up by (intro u128_id) (simp_all add: i64_max_def)
  also have "\<dots> = (a * b + c - 1) div c" using assms(5) by (rule huge_divide_split)
  finally show "huge_divide_up a b c = (a * b + c - 1) div c" .
qed

text \<open>A trade of \<open>x\<close> for \<open>y\<close> that the pool accepts: the product of the reserves does not decrease when the
  fee of 30 basis points is taken off what comes in.\<close>

definition acceptable_trade :: "i64 \<Rightarrow> i64 \<Rightarrow> i64 \<Rightarrow> i64 \<Rightarrow> bool" where
  "acceptable_trade to_reserve from_reserve x y \<longleftrightarrow>
     max_bps * (to_reserve * y) \<le> (max_bps - liquidity_pool_fee) * (x * (from_reserve - y))"

lemma acceptable_trade_product:
  assumes "acceptable_trade rt rf x y" "0 \<le> rt" "0 \<le> y"
  shows "rt * rf \<le> (rt + x) * (rf - y)"
proof -
  have "0 \<le> rt * y" using assms(2,3) by simp
  with assms(1) have "rt * y \<le> x * (rf - y)" by (simp add: acceptable_trade_def max_bps_def liquidity_pool_fee_def)
  then show ?thesis by (simp add: algebra_simps)
qed

lemma u64_of_amount [simp]: "in_amount x \<Longrightarrow> u64_of x = x"
  by (simp add: in_amount_def i64_max_def)

lemma strict_send_exchange:
  assumes rt: "0 < rt" "rt \<le> i64_max" and rf: "0 < rf" "rf \<le> i64_max" and x: "in_amount x" "x \<le> i64_max - rt"
  defines "v \<equiv> (max_bps - liquidity_pool_fee) * (rf * x) div (max_bps * rt + (max_bps - liquidity_pool_fee) * x)"
  shows "exchange_with_pool rt x rf i64_max liquidity_pool_fee PathPaymentStrictSend =
      Inr (if v = 0 then None else Some (x, v))"
    "acceptable_trade rt rf x y \<longleftrightarrow> y \<le> v" "0 \<le> v" "v < rf"
proof -
  let ?c = "max_bps * rt + (max_bps - liquidity_pool_fee) * x"
  have am: "in_amount rt" "in_amount rf" using rt rf by (simp_all add: in_amount_def)
  have c: "0 < ?c" "?c \<le> 10000 * (2 * i64_max)"
    using rt x by (auto simp: max_bps_def liquidity_pool_fee_def in_amount_def)
  note rfx = amount_product [OF am(2) x(1)]
  have "rf * x \<le> rf * ?c" using rf rt x
    by (intro mult_left_mono) (auto simp: max_bps_def liquidity_pool_fee_def in_amount_def)
  then have exact: "huge_divide_down (max_bps - liquidity_pool_fee) (rf * x) ?c = v"
    unfolding v_def using c rfx(1) rf
    by (intro huge_divide_exact(1) [where m = rf]) (simp_all add: max_bps_def liquidity_pool_fee_def i64_max_def)
  show v0: "0 \<le> v" unfolding v_def using c(1) rfx(1)
    by (intro floor_nonneg) (simp_all add: max_bps_def liquidity_pool_fee_def)
  have "(max_bps - liquidity_pool_fee) * (rf * x) < rf * ?c"
    using rt rf by (simp add: max_bps_def liquidity_pool_fee_def algebra_simps)
  with floor_spec(1) [OF c(1), of "(max_bps - liquidity_pool_fee) * (rf * x)", folded v_def]
  have "v * ?c < rf * ?c" by linarith
  then show v1: "v < rf" using c(1) by (simp add: mult_less_cancel_right)
  have u: "as_u128 (rf * x) = rf * x"
    "as_u128 (as_u128 (max_bps * rt) + as_u128 ((max_bps - liquidity_pool_fee) * x)) = ?c"
    using rfx c rt x by (simp_all add: i64_max_def max_bps_def liquidity_pool_fee_def in_amount_def)
  have "as_i64 v = v" using v0 v1 rf by (intro as_i64_amount) (simp add: in_amount_def)
  then show "exchange_with_pool rt x rf i64_max liquidity_pool_fee PathPaymentStrictSend =
      Inr (if v = 0 then None else Some (x, v))"
    using rt rf x v0 v1 c(1)
    by (simp add: exchange_with_pool_def Let_def u u64_of_amount exact) (simp add: max_bps_def liquidity_pool_fee_def)
  show "acceptable_trade rt rf x y \<longleftrightarrow> y \<le> v"
  proof -
    have "acceptable_trade rt rf x y \<longleftrightarrow> y * ?c \<le> (max_bps - liquidity_pool_fee) * (rf * x)"
      by (simp add: acceptable_trade_def max_bps_def liquidity_pool_fee_def algebra_simps)
    also have "\<dots> \<longleftrightarrow> y \<le> v" unfolding v_def by (rule le_floor_iff [OF c(1), symmetric])
    finally show ?thesis .
  qed
qed

lemma strict_receive_exchange:
  assumes rt: "0 < rt" "rt \<le> i64_max" and rf: "rf \<le> i64_max" and y: "0 \<le> y" "y < rf"
  defines "v \<equiv> (max_bps * (rt * y) + (rf - y) * (max_bps - liquidity_pool_fee) - 1)
       div ((rf - y) * (max_bps - liquidity_pool_fee))"
  shows "exchange_with_pool rt i64_max rf y liquidity_pool_fee PathPaymentStrictReceive =
      Inr (if v \<le> i64_max - rt then Some (v, y) else None)"
    "acceptable_trade rt rf x y \<longleftrightarrow> v \<le> x" "0 \<le> v"
proof -
  let ?c = "(rf - y) * (max_bps - liquidity_pool_fee)"
  have am: "in_amount rt" "in_amount y" "in_amount (rf - y)" using rt rf y by (simp_all add: in_amount_def)
  have c: "0 < ?c" "?c \<le> 10000 * (2 * i64_max)" "9970 \<le> ?c"
    using rf y by (auto simp: max_bps_def liquidity_pool_fee_def)
  note rty = amount_product [OF am(1,2)]
  let ?m = "rt * y div 9970 + 1"
  have "rt * y \<le> ?m * 9970" using floor_spec(2) [of 9970 "rt * y"] by (simp add: distrib_right)
  also have "\<dots> \<le> ?m * ?c" using c(3) rty(1) by (intro mult_left_mono) (auto intro: floor_nonneg add_nonneg_nonneg)
  finally have le: "rt * y \<le> ?m * ?c" .
  have m: "10000 * ?m \<le> 2 * i64_max * i64_max"
    using floor_spec(1) [of 9970 "rt * y"] rty(2) by (simp add: i64_max_def)
  have exact: "huge_divide_up max_bps (rt * y) ?c = v"
    unfolding v_def using c rty(1) le m
    by (intro huge_divide_exact(2) [where m = ?m]) (simp_all add: max_bps_def)
  show v0: "0 \<le> v" unfolding v_def using c(1) rty(1) by (intro floor_nonneg) (simp_all add: max_bps_def)
  have u: "as_u128 (rt * y) = rt * y" "as_i64 (rf - y) = rf - y" "as_u128 ?c = ?c"
    using rty c am by (simp_all add: i64_max_def as_i64_amount)
  have "v \<le> i64_max \<Longrightarrow> as_i64 v = v" using v0 by (intro as_i64_amount) (simp add: in_amount_def)
  then show "exchange_with_pool rt i64_max rf y liquidity_pool_fee PathPaymentStrictReceive =
      Inr (if v \<le> i64_max - rt then Some (v, y) else None)"
    using rt rf y v0 c(1) am
    by (simp add: exchange_with_pool_def Let_def u u64_of_amount exact) (simp add: max_bps_def liquidity_pool_fee_def)
  have "acceptable_trade rt rf x y \<longleftrightarrow> max_bps * (rt * y) \<le> x * ?c"
    by (simp add: acceptable_trade_def ac_simps)
  then show "acceptable_trade rt rf x y \<longleftrightarrow> v \<le> x" unfolding v_def by (simp only: ceiling_le_iff [OF c(1)])
qed

lemma exchange_with_pool_result:
  assumes "0 < to_reserve" "to_reserve \<le> i64_max" "0 < from_reserve" "from_reserve \<le> i64_max"
    and "in_amount max_send" "in_amount max_receive"
    and "exchange_with_pool to_reserve max_send from_reserve max_receive liquidity_pool_fee rnd = Inr (Some (x, y))"
  shows "acceptable_trade to_reserve from_reserve x y \<and>
    to_reserve * from_reserve \<le> (to_reserve + x) * (from_reserve - y) \<and>
    x \<in> {0..max_send} \<and> to_reserve + x \<le> i64_max \<and> y \<in> {0..max_receive} \<and> y < from_reserve \<and>
    (rnd = PathPaymentStrictSend \<longrightarrow> x = max_send \<and> (\<forall>y'. acceptable_trade to_reserve from_reserve x y' \<longrightarrow> y' \<le> y)) \<and>
    (rnd = PathPaymentStrictReceive \<longrightarrow> y = max_receive \<and> (\<forall>x'. acceptable_trade to_reserve from_reserve x' y \<longrightarrow> x \<le> x'))"
proof (cases rnd)
  case Normal
  with assms(7) show ?thesis by (simp add: exchange_with_pool_def split: if_splits)
next
  case PathPaymentStrictSend
  with assms(7) have send: "max_receive = i64_max" "max_send \<le> i64_max - to_reserve"
    by (auto simp: exchange_with_pool_def split: if_splits)
  note sx = strict_send_exchange [OF assms(1-5) send(2)]
  have xy: "x = max_send" "y \<noteq> 0"
    and v: "y = (max_bps - liquidity_pool_fee) * (from_reserve * max_send)
      div (max_bps * to_reserve + (max_bps - liquidity_pool_fee) * max_send)"
    using assms(7) sx(1) unfolding PathPaymentStrictSend send(1) by (auto split: if_splits)
  have "acceptable_trade to_reserve from_reserve x y" using sx(2) v xy by blast
  with acceptable_trade_product [OF this] sx(3,4) [folded v] sx(2) [folded v] send assms(1-6) xy PathPaymentStrictSend
  show ?thesis by (simp add: in_amount_def)
next
  case PathPaymentStrictReceive
  with assms(7) have recv: "max_send = i64_max" "max_receive < from_reserve"
    by (auto simp: exchange_with_pool_def split: if_splits)
  have "0 \<le> max_receive" using assms(6) by (simp add: in_amount_def)
  note rx = strict_receive_exchange [OF assms(1,2,4) this recv(2)]
  let ?v = "(max_bps * (to_reserve * max_receive) + (from_reserve - max_receive) * (max_bps - liquidity_pool_fee) - 1)
       div ((from_reserve - max_receive) * (max_bps - liquidity_pool_fee))"
  have xy: "y = max_receive" "x = ?v" "x \<le> i64_max - to_reserve"
    using assms(7) rx(1) unfolding PathPaymentStrictReceive recv(1) by (auto split: if_splits)
  have "acceptable_trade to_reserve from_reserve x y" using rx(2) xy by blast
  with acceptable_trade_product [OF this] rx(3) [folded xy(2)] rx(2) [folded xy(2)] recv assms(1-6) xy PathPaymentStrictReceive
  show ?thesis by (simp add: in_amount_def)
qed

text \<open>
  C31. What a path payment exchanges with a pool is exact: sending a fixed amount yields the most, and
  receiving a fixed amount costs the least, that the constant product with the fee allows; the product
  of the reserves never decreases, no 128-bit intermediate result overflows and the reserves stay in range.
\<close>

theorem pool_exchange_optimal:
  assumes "0 < to_reserve" "to_reserve \<le> i64_max" "0 < from_reserve" "from_reserve \<le> i64_max"
    and "in_amount max_send" "in_amount max_receive"
    and "exchange_with_pool to_reserve max_send from_reserve max_receive liquidity_pool_fee rnd = Inr (Some (x, y))"
  shows "acceptable_trade to_reserve from_reserve x y \<and>
    to_reserve * from_reserve \<le> (to_reserve + x) * (from_reserve - y) \<and>
    x \<in> {0..max_send} \<and> to_reserve + x \<le> i64_max \<and> y \<in> {0..max_receive} \<and> y < from_reserve \<and>
    (rnd = PathPaymentStrictSend \<longrightarrow> x = max_send \<and> (\<forall>y'. acceptable_trade to_reserve from_reserve x y' \<longrightarrow> y' \<le> y)) \<and>
    (rnd = PathPaymentStrictReceive \<longrightarrow> y = max_receive \<and> (\<forall>x'. acceptable_trade to_reserve from_reserve x' y \<longrightarrow> x \<le> x'))"
  using assms by (rule exchange_with_pool_result)

theorem pool_exchange_optimal_witness:
  "exchange_with_pool 1000000 1000 2000000 i64_max liquidity_pool_fee PathPaymentStrictSend = Inr (Some (1000, 1992)) \<and>
   1000000 * 2000000 \<le> (1000000 + 1000) * (2000000 - (1992 :: int)) \<and> \<not> acceptable_trade 1000000 2000000 1000 1993"
proof -
  have ex: "exchange_with_pool 1000000 1000 2000000 i64_max liquidity_pool_fee PathPaymentStrictSend = Inr (Some (1000, 1992))"
    by code_simp
  from pool_exchange_optimal [OF _ _ _ _ _ _ ex] ex show ?thesis by (force simp: range_defs)
qed

section \<open>Pools along the operations\<close>

definition pools_ok :: "ledger \<Rightarrow> bool" where
  "pools_ok l \<longleftrightarrow> (\<forall>pid p. liquidity_pools l pid = Some p \<longrightarrow> pool_ok p)"

text \<open>A deposit, a withdrawal or an exchange with a pool that the code runs to the end.\<close>

inductive pool_step :: "(asset \<Rightarrow> asset \<Rightarrow> pool_id) \<Rightarrow> ledger \<Rightarrow> ledger \<Rightarrow> bool" for pool_id_of where
  Deposit: "max_amount_a op \<le> i64_max \<Longrightarrow> max_amount_b op \<le> i64_max \<Longrightarrow>
    execute_liquidity_pool_deposit ctx op source l = Inr (code, l') \<Longrightarrow> pool_step pool_id_of l l'"
| Withdraw: "wd_amount op \<le> i64_max \<Longrightarrow>
    execute_liquidity_pool_withdraw ctx op source l = Inr (code, l') \<Longrightarrow> pool_step pool_id_of l l'"
| Exchange: "in_amount max_send \<Longrightarrow> in_amount max_recv \<Longrightarrow>
    compute_pool_exchange pool_id_of send_asset max_send recv_asset max_recv rnd l = Inr (Some px) \<Longrightarrow>
    apply_pool_exchange pool_id_of send_asset recv_asset (px_send px) (px_recv px) l = Inr (True, l') \<Longrightarrow>
    pool_step pool_id_of l l'"

text \<open>The pools after a step: at most one entry changes, to one that is in order and worth as much per share.\<close>

definition pools_grow :: "ledger \<Rightarrow> ledger \<Rightarrow> bool" where
  "pools_grow l l' \<longleftrightarrow> (\<forall>pid. liquidity_pools l' pid = liquidity_pools l pid \<or>
     (\<exists>p p'. liquidity_pools l pid = Some p \<and> liquidity_pools l' pid = Some p' \<and> pool_ok p' \<and> pool_grows p p'))"

lemma pools_grow_same: "liquidity_pools l' = liquidity_pools l \<Longrightarrow> pools_grow l l'"
  by (simp add: pools_grow_def)

lemma pools_grow_update:
  "liquidity_pools l pid = Some p \<Longrightarrow> liquidity_pools l' = (liquidity_pools l)(pid \<mapsto> p') \<Longrightarrow>
   pool_ok p' \<Longrightarrow> pool_grows p p' \<Longrightarrow> pools_grow l l'"
  by (simp add: pools_grow_def)

lemma pools_grow_ok: "pools_grow l l' \<Longrightarrow> pools_ok l \<Longrightarrow> pools_ok l'"
  by (metis (mono_tags, lifting) pools_grow_def pools_ok_def option.inject)

lemma deposit_amount_cases:
  assumes ok: "pool_ok p" and m: "in_amount (max_amount_a op)" "in_amount (max_amount_b op)"
  obtains r where
    "compute_deposit op p line av_a av_b = Inr r"
    "\<And>c. r = Refused c \<Longrightarrow> c \<noteq> DepositSuccess"
    "\<And>a b s. r = Deposited a b s \<Longrightarrow> in_amount a \<and> in_amount b \<and> 0 \<le> s \<and> a \<le> av_a \<and> b \<le> av_b \<and>
       s \<le> i64_saturating (tl_limit line - tl_balance line) \<and> 0 < a \<and> 0 < b \<and>
       a \<le> max_amount_a op \<and> b \<le> max_amount_b op \<and>
       (if total_pool_shares p = 0 then s * s \<le> a * b \<and> 0 < s
        else s * reserve_a p \<le> a * total_pool_shares p \<and> s * reserve_b p \<le> b * total_pool_shares p)"
proof (cases "total_pool_shares p = 0")
  case False
  show thesis
  proof (rule deposit_into_non_empty_result [OF ok False m, of av_a av_b
      "i64_saturating (tl_limit line - tl_balance line)" "min_price op" "max_price op"])
  qed (rule that, use False in \<open>auto simp: compute_deposit_def Let_def in_amount_def\<close>)
next
  case True
  let ?ma = "max_amount_a op" and ?mb = "max_amount_b op"
  let ?s = "big_square_root ?ma ?mb"
  have root: "0 \<le> ?s" "?s * ?s \<le> ?ma * ?mb" "?ma * ?mb < (?s + 1) * (?s + 1)"
    using square_root_exact [OF m] by simp_all
  have "0 < ?s" if "0 < ?ma" "0 < ?mb"
  proof (rule ccontr)
    assume "\<not> 0 < ?s"
    with root have "?ma * ?mb < 1" by simp
    moreover have "0 < ?ma * ?mb" using that by simp
    ultimately show False by simp
  qed
  with True root m show thesis
    by (intro that [of "deposit_into_empty_pool ?ma ?mb av_a av_b
        (i64_saturating (tl_limit line - tl_balance line)) (min_price op) (max_price op)"])
      (auto simp: compute_deposit_def deposit_into_empty_pool_def is_bad_price_def Let_def in_amount_def split: if_splits)
qed

lemma deposit_grows:
  assumes ok: "pool_ok p" and add: "add_to_pool a b s p = Inr p'" and "0 < a" "0 < b" "0 \<le> s"
    and amounts: "if total_pool_shares p = 0 then s * s \<le> a * b \<and> 0 < s
        else s * reserve_a p \<le> a * total_pool_shares p \<and> s * reserve_b p \<le> b * total_pool_shares p"
  shows "pool_ok p' \<and> pool_grows p p'"
proof (cases "total_pool_shares p = 0")
  case True
  with ok have "reserve_a p = 0" "reserve_b p = 0" by (simp_all add: pool_ok_def)
  with True add amounts ok show ?thesis by (auto simp: add_to_pool_Inr pool_ok_def pool_grows_def)
next
  case False
  have p': "reserve_a p' = reserve_a p + a" "reserve_b p' = reserve_b p + b"
    "total_pool_shares p' = total_pool_shares p + s" "asset_a p' = asset_a p" "asset_b p' = asset_b p"
    "in_amount (reserve_a p')" "in_amount (reserve_b p')" "in_amount (total_pool_shares p')"
    using add by (auto simp: add_to_pool_Inr)
  note pos = pool_ok_positive [OF ok False]
  have "pool_grows p p'"
    unfolding pool_grows_def using amounts False pos assms(5)
    by (intro proportional_product) (simp_all add: p' algebra_simps)
  with pool_grows_ok [OF ok False this] p' pos assms(5) show ?thesis by simp
qed

lemma withdrawal_grows:
  assumes ok: "pool_ok p" "total_pool_shares p \<noteq> 0" and add: "add_to_pool (- a) (- b) (- w) p = Inr p'" and w: "0 < w"
    and a: "a = w * reserve_a p div total_pool_shares p" and b: "b = w * reserve_b p div total_pool_shares p"
  shows "pool_ok p' \<and> pool_grows p p'"
proof -
  let ?t = "total_pool_shares p"
  have p': "reserve_a p' = reserve_a p - a" "reserve_b p' = reserve_b p - b" "total_pool_shares p' = ?t - w"
    "asset_a p' = asset_a p" "asset_b p' = asset_b p"
    "in_amount (reserve_a p')" "in_amount (reserve_b p')" "in_amount (total_pool_shares p')"
    using add by (auto simp: add_to_pool_Inr)
  note pos = pool_ok_positive [OF ok]
  have le: "a * ?t \<le> w * reserve_a p" "b * ?t \<le> w * reserve_b p"
    unfolding a b using floor_spec(1) [OF pos(1)] by blast+
  have "pool_grows p p'"
    unfolding pool_grows_def using le pos p'(8)
    by (intro proportional_product) (simp_all add: p' algebra_simps in_amount_def)
  moreover have "?t = w \<longrightarrow> a = reserve_a p \<and> b = reserve_b p" using pos(1) unfolding a b by auto
  ultimately show ?thesis using pool_grows_ok [OF ok] p' by simp
qed

lemma deposit_pools_grow:
  assumes ok: "pools_ok l" and m: "max_amount_a op \<le> i64_max" "max_amount_b op \<le> i64_max"
    and ex: "execute_liquidity_pool_deposit ctx op source l = Inr (code, l')"
  shows "pools_grow l l'"
proof (cases "l' = l")
  case False
  have wf: "\<not> malformed_deposit op" using ex False by (auto simp: execute_liquidity_pool_deposit_def)
  with m have m': "in_amount (max_amount_a op)" "in_amount (max_amount_b op)"
    by (auto simp: malformed_deposit_def in_amount_def)
  from ex wf False obtain p share_line av_a av_b where p: "liquidity_pools l (dep_pool_id op) = Some p"
    and ex': "bindE (compute_deposit op p share_line av_a av_b)
        (\<lambda>outcome. case outcome of
             Refused code \<Rightarrow> Inr (code, l)
           | Deposited a b s \<Rightarrow> settle_deposit op source p a b s l) = Inr (code, l')"
    by (auto simp: execute_liquidity_pool_deposit_def split: option.splits sum.splits if_splits)
  have okp: "pool_ok p" using ok p by (auto simp: pools_ok_def)
  obtain r where r: "compute_deposit op p share_line av_a av_b = Inr r"
    and amounts: "\<And>a b s. r = Deposited a b s \<Longrightarrow> 0 \<le> s \<and> 0 < a \<and> 0 < b \<and>
       (if total_pool_shares p = 0 then s * s \<le> a * b \<and> 0 < s
        else s * reserve_a p \<le> a * total_pool_shares p \<and> s * reserve_b p \<le> b * total_pool_shares p)"
    by (rule deposit_amount_cases [OF okp m', of share_line av_a av_b]) blast
  with ex' False obtain a b s where abs: "r = Deposited a b s" and settle: "settle_deposit op source p a b s l = Inr (code, l')"
    by (cases r) simp_all
  note ab = amounts [OF abs]
  from settle p show ?thesis
  proof (cases rule: settle_deposit_cases)
    case refused
    then show ?thesis by (intro pools_grow_same)
  next
    case (settled p')
    have "pool_ok p' \<and> pool_grows p p'" using deposit_grows [OF okp settled(2)] ab by blast
    with pools_grow_update [OF p settled(3)] show ?thesis by blast
  qed
qed (simp add: pools_grow_def)

lemma withdraw_pools_grow:
  assumes ok: "pools_ok l" and m: "wd_amount op \<le> i64_max"
    and ex: "execute_liquidity_pool_withdraw ctx op source l = Inr (code, l')"
  shows "pools_grow l l'"
proof (cases "l' = l")
  case False
  from ex False have w: "0 < wd_amount op" by (auto simp: execute_liquidity_pool_withdraw_def split: if_splits)
  from ex False obtain p a b where p: "liquidity_pools l (wd_pool_id op) = Some p"
    and a: "get_pool_withdrawal_amount (wd_amount op) (total_pool_shares p) (reserve_a p) = Inr a"
    and b: "get_pool_withdrawal_amount (wd_amount op) (total_pool_shares p) (reserve_b p) = Inr b"
    and settle: "settle_withdrawal op source p a b l = Inr (code, l')"
    by (auto simp: execute_liquidity_pool_withdraw_def Let_def bindE_Inr_iff split: option.splits if_splits)
  have okp: "pool_ok p" using ok p by (auto simp: pools_ok_def)
  have t: "0 < total_pool_shares p" using a by (auto simp: get_pool_withdrawal_amount_def big_divide_def split: if_splits)
  obtain p' where add: "add_to_pool (- a) (- b) (- wd_amount op) p = Inr p'"
    and l': "liquidity_pools l' = (liquidity_pools l)(wd_pool_id op \<mapsto> p')"
    using settle_withdrawal_cases [OF settle p] by blast
  have le: "wd_amount op \<le> total_pool_shares p" using add by (simp add: add_to_pool_Inr in_amount_def)
  have share: "big_divide (wd_amount op) r (total_pool_shares p) Down = Inr (wd_amount op * r div total_pool_shares p)"
    if "in_amount r" for r
  proof -
    have "wd_amount op * r \<le> r * total_pool_shares p"
      using le that by (simp add: in_amount_def mult.commute mult_left_mono)
    then have "wd_amount op * r div total_pool_shares p \<le> r" using t by (intro floor_le)
    with that big_divide_amount(1) [of "wd_amount op" r "total_pool_shares p"] w m t okp show ?thesis
      by (simp add: in_amount_def pool_ok_def)
  qed
  have "a = wd_amount op * reserve_a p div total_pool_shares p" "b = wd_amount op * reserve_b p div total_pool_shares p"
    using a b share [of "reserve_a p"] share [of "reserve_b p"] okp
    by (simp_all add: get_pool_withdrawal_amount_def pool_ok_def)
  with withdrawal_grows [OF okp _ add w] t have "pool_ok p' \<and> pool_grows p p'" by simp
  with pools_grow_update [OF p l'] show ?thesis by blast
qed (simp add: pools_grow_def)

lemma exchange_pools_grow:
  assumes ok: "pools_ok l" and m: "in_amount max_send" "in_amount max_recv"
    and px: "compute_pool_exchange pool_id_of send_asset max_send recv_asset max_recv rnd l = Inr (Some px)"
    and ap: "apply_pool_exchange pool_id_of send_asset recv_asset (px_send px) (px_recv px) l = Inr (True, l')"
  shows "pools_grow l l'"
proof -
  let ?pid = "pool_id_of send_asset recv_asset"
  from px obtain p where p: "liquidity_pools l ?pid = Some p" and pos: "0 < reserve_a p" "0 < reserve_b p"
    by (auto simp: compute_pool_exchange_def Let_def split: option.splits if_splits)
  have okp: "pool_ok p" using ok p by (auto simp: pools_ok_def)
  have le: "reserve_a p \<le> i64_max" "reserve_b p \<le> i64_max" using okp by (simp_all add: pool_ok_def in_amount_def)
  have t: "total_pool_shares p \<noteq> 0" using okp pos by (auto simp: pool_ok_def)
  from okp have ne: "asset_a p \<noteq> asset_b p" by (simp add: pool_ok_def)
  note px' = px [unfolded compute_pool_exchange_def Let_def p option.case] and ap' = ap [unfolded apply_pool_exchange_def Let_def p option.case]
  consider (ab) "send_asset = asset_a p" "recv_asset = asset_b p" | (ba) "send_asset = asset_b p" "recv_asset = asset_a p"
    using ap' by (auto split: if_splits)
  then have "\<exists>p'. liquidity_pools l' = (liquidity_pools l)(?pid \<mapsto> p') \<and> pool_ok p' \<and> pool_grows p p'"
  proof cases
    case ab
    with px' pos have "exchange_with_pool (reserve_a p) max_send (reserve_b p) max_recv liquidity_pool_fee rnd
        = Inr (Some (px_send px, px_recv px))"
      by (auto simp: bindE_Inr_iff)
    from exchange_with_pool_result [OF pos(1) le(1) pos(2) le(2) m this]
    have tr: "reserve_a p * reserve_b p \<le> (reserve_a p + px_send px) * (reserve_b p - px_recv px)"
      "0 \<le> px_send px" "reserve_a p + px_send px \<le> i64_max" "0 \<le> px_recv px" "px_recv px < reserve_b p"
      by simp_all
    let ?p' = "p\<lparr>reserve_a := reserve_a p + px_send px, reserve_b := reserve_b p - px_recv px\<rparr>"
    have "liquidity_pools l' = (liquidity_pools l)(?pid \<mapsto> ?p')"
      using ap' ab by (auto simp: bindE_Inr_iff checked_or_Inr)
    moreover have grows: "pool_grows p ?p'"
      using tr(1) by (simp add: pool_grows_def mult_right_mono)
    moreover have "pool_ok ?p'"
      using pool_grows_ok [OF okp t grows] tr le pos okp t by (simp add: in_amount_def pool_ok_def)
    ultimately show ?thesis by blast
  next
    case ba
    with px' pos ne have "exchange_with_pool (reserve_b p) max_send (reserve_a p) max_recv liquidity_pool_fee rnd
        = Inr (Some (px_send px, px_recv px))"
      by (auto simp: bindE_Inr_iff)
    from exchange_with_pool_result [OF pos(2) le(2) pos(1) le(1) m this]
    have tr: "reserve_b p * reserve_a p \<le> (reserve_b p + px_send px) * (reserve_a p - px_recv px)"
      "0 \<le> px_send px" "reserve_b p + px_send px \<le> i64_max" "0 \<le> px_recv px" "px_recv px < reserve_a p"
      by simp_all
    let ?p' = "p\<lparr>reserve_b := reserve_b p + px_send px, reserve_a := reserve_a p - px_recv px\<rparr>"
    have "liquidity_pools l' = (liquidity_pools l)(?pid \<mapsto> ?p')"
      using ap' ba ne by (auto simp: bindE_Inr_iff checked_or_Inr)
    moreover have grows: "pool_grows p ?p'"
      using mult_right_mono [OF tr(1), of "total_pool_shares p * total_pool_shares p"]
      by (simp add: pool_grows_def ac_simps)
    moreover have "pool_ok ?p'"
      using pool_grows_ok [OF okp t grows] tr le pos okp t by (simp add: in_amount_def pool_ok_def)
    ultimately show ?thesis by blast
  qed
  then show ?thesis using pools_grow_update [OF p] by blast
qed

lemma pool_step_grows: "pool_step pool_id_of l l' \<Longrightarrow> pools_ok l \<Longrightarrow> pools_grow l l'"
  by (induction rule: pool_step.induct) (auto intro: deposit_pools_grow withdraw_pools_grow exchange_pools_grow)

lemma pool_steps_ok: "(pool_step pool_id_of)\<^sup>*\<^sup>* l l' \<Longrightarrow> pools_ok l \<Longrightarrow> pools_ok l'"
  by (induction rule: rtranclp_induct) (auto intro: pools_grow_ok pool_step_grows)

lemma pools_growD:
  assumes "pools_grow l l'" "liquidity_pools l pid = Some p"
  obtains p' where "liquidity_pools l' pid = Some p'" "pool_grows p p'"
proof (cases "liquidity_pools l' pid = liquidity_pools l pid")
  case True
  with assms(2) that [of p] show thesis by (simp add: pool_grows_def)
next
  case False
  with assms that show thesis unfolding pools_grow_def by (metis option.inject)
qed

text \<open>
  C32. Whatever deposits, withdrawals and exchanges are run, every pool's shares stay backed: their
  square is at most the product of the reserves, all three stay non-negative 64-bit amounts, and a pool without
  shares is empty. No step removes a pool or lowers the value of a share, measured by the product of the
  reserves over the square of the shares.
\<close>

theorem pool_shares_backed:
  assumes "(pool_step pool_id_of)\<^sup>*\<^sup>* l0 l" "pools_ok l0" "pool_step pool_id_of l l'"
    and "liquidity_pools l pid = Some p"
  shows "pools_ok l' \<and> (\<exists>p'. liquidity_pools l' pid = Some p' \<and> pool_grows p p')"
  using pool_step_grows [OF assms(3) pool_steps_ok [OF assms(1,2)]] pool_steps_ok [OF assms(1,2)] assms(4)
  by (meson pools_growD pools_grow_ok)

text \<open>A pool of the native asset and a credit asset, and an account that holds both and shares of the pool.\<close>

definition sample_asset :: asset where
  "sample_asset = CreditAlphanum4 [85, 83, 68, 0] [7]"

definition sample_pool :: pool_entry where
  "sample_pool = \<lparr>asset_a = Native, asset_b = sample_asset, pool_fee = 30,
     reserve_a = 1000, reserve_b = 4000, total_pool_shares = 2000\<rparr>"

definition sample_ledger :: ledger where
  "sample_ledger = \<lparr>accounts = [[1] \<mapsto> \<lparr>acc_balance = 100000, acc_num_sub_entries = 3, acc_ext = AccV0\<rparr>],
     trustlines = [([1], asset_to_trustline_asset sample_asset) \<mapsto> \<lparr>tl_balance = 50000, tl_limit = 90000, tl_flags = 1, tl_ext = TlV0\<rparr>,
       ([1], PoolShare [9]) \<mapsto> \<lparr>tl_balance = 2000, tl_limit = 90000, tl_flags = 1, tl_ext = TlV0\<rparr>],
     liquidity_pools = [[9] \<mapsto> sample_pool], base_reserve = 50\<rparr>"

definition sample_deposit :: deposit_op where
  "sample_deposit = \<lparr>dep_pool_id = [9], max_amount_a = 101, max_amount_b = 401,
     min_price = \<lparr>price_n = 1, price_d = 5\<rparr>, max_price = \<lparr>price_n = 1, price_d = 3\<rparr>\<rparr>"

definition no_frozen_keys :: ledger_context where
  "no_frozen_keys = \<lparr>is_key_frozen = (\<lambda>_. False)\<rparr>"

definition sample_after :: ledger where
  "sample_after = snd (projr (execute_liquidity_pool_deposit no_frozen_keys sample_deposit [1] sample_ledger))"

lemma sample_deposit_runs:
  "execute_liquidity_pool_deposit no_frozen_keys sample_deposit [1] sample_ledger = Inr (DepositSuccess, sample_after)"
proof -
  let ?r = "execute_liquidity_pool_deposit no_frozen_keys sample_deposit [1] sample_ledger"
  have "\<not> isl ?r" "fst (projr ?r) = DepositSuccess" by code_simp+
  then show ?thesis unfolding sample_after_def by (cases ?r) auto
qed

lemma sample_pools_ok: "pools_ok sample_ledger"
  by (simp add: pools_ok_def sample_ledger_def sample_pool_def sample_asset_def pool_ok_def range_defs)

theorem pool_shares_backed_witness:
  "pools_ok sample_after \<and> map_option total_pool_shares (liquidity_pools sample_after [9]) = Some 2200"
proof -
  have step: "pool_step (\<lambda>_ _. [9]) sample_ledger sample_after"
    using sample_deposit_runs by (intro pool_step.Deposit) (simp_all add: sample_deposit_def i64_max_def)
  have "map_option total_pool_shares (liquidity_pools sample_after [9]) = Some 2200" by code_simp
  moreover have "liquidity_pools sample_ledger [9] = Some sample_pool" by (simp add: sample_ledger_def)
  from pool_shares_backed [OF rtranclp.rtrancl_refl sample_pools_ok step this] have "pools_ok sample_after" by blast
  ultimately show ?thesis by blast
qed

end
