(* ===== verification/Pool_Accounting.thy ===== *)
theory Pool_Accounting
  imports Liquidity_Pool_Safety
begin

text \<open>
  What deposits and withdrawals do to the ledger around a pool: money moves between the source's
  balances and the reserves without loss, and an operation that is refused changes nothing.
\<close>

section \<open>Entries in order\<close>

definition liabilities_ok :: "liabilities \<Rightarrow> bool" where
  "liabilities_ok lb \<longleftrightarrow> in_amount (buying lb) \<and> in_amount (selling lb)"

definition account_ok :: "account_entry \<Rightarrow> bool" where
  "account_ok a \<longleftrightarrow> in_amount (acc_balance a) \<and> liabilities_ok (account_liabilities a)"

definition trustline_ok :: "trustline_entry \<Rightarrow> bool" where
  "trustline_ok t \<longleftrightarrow> in_amount (tl_balance t) \<and> in_amount (tl_limit t) \<and> liabilities_ok (trustline_liabilities t)"

definition ledger_ok :: "ledger \<Rightarrow> bool" where
  "ledger_ok l \<longleftrightarrow> (\<forall>n a. accounts l n = Some a \<longrightarrow> account_ok a) \<and>
     (\<forall>k t. trustlines l k = Some t \<longrightarrow> trustline_ok t) \<and> pools_ok l \<and>
     0 \<le> base_reserve l \<and> base_reserve l \<le> 536870912"

text \<open>The source's balance of an asset, and its shares of a pool.\<close>

definition held :: "account_id \<Rightarrow> asset \<Rightarrow> ledger \<Rightarrow> i64" where
  "held source as l =
     (if as = Native then (case accounts l source of None \<Rightarrow> 0 | Some a \<Rightarrow> acc_balance a)
      else case get_trustline source as l of None \<Rightarrow> 0 | Some t \<Rightarrow> tl_balance t)"

definition shares_held :: "account_id \<Rightarrow> pool_id \<Rightarrow> ledger \<Rightarrow> i64" where
  "shares_held source pid l = (case trustlines l (source, PoolShare pid) of None \<Rightarrow> 0 | Some t \<Rightarrow> tl_balance t)"

text \<open>A change of the source's balance of one asset by \<open>n\<close> (an issuer has no balance of its own asset).\<close>

definition moves :: "account_id \<Rightarrow> asset \<Rightarrow> i64 \<Rightarrow> ledger \<Rightarrow> ledger \<Rightarrow> bool" where
  "moves source as n l l' \<longleftrightarrow>
     liquidity_pools l' = liquidity_pools l \<and>
     (as \<noteq> Native \<longrightarrow> accounts l' = accounts l) \<and> (as = Native \<longrightarrow> trustlines l' = trustlines l) \<and>
     (\<forall>n. n \<noteq> source \<longrightarrow> accounts l' n = accounts l n) \<and>
     (\<forall>k. k \<noteq> (source, asset_to_trustline_asset as) \<longrightarrow> trustlines l' k = trustlines l k) \<and>
     (\<not> is_issuer source as \<longrightarrow> held source as l' = held source as l + n)"

lemma trustline_asset_eq: "asset_to_trustline_asset x = asset_to_trustline_asset y \<longleftrightarrow> x = y"
  by (cases x; cases y) simp_all

lemma trustline_asset_not_share [simp]:
  "asset_to_trustline_asset x \<noteq> PoolShare pid" "PoolShare pid \<noteq> asset_to_trustline_asset x"
  by (cases x; simp)+

lemma moves_other:
  assumes "moves source as n l l'" "x \<noteq> as"
  shows "x = Native \<Longrightarrow> accounts l' = accounts l" "x \<noteq> Native \<Longrightarrow> get_trustline source x l' = get_trustline source x l"
    "trustlines l' (source, PoolShare pid) = trustlines l (source, PoolShare pid)" "held source x l' = held source x l"
  using assms by (auto simp: moves_def held_def trustline_asset_eq)

section \<open>Debits\<close>

lemma minimum_balance_nonneg:
  assumes "minimum_balance_for_account a 0 l = Inr m" "0 \<le> base_reserve l" "base_reserve l \<le> 536870912"
  shows "0 \<le> m"
proof -
  obtain x y where c: "sponsorship_counts a = (x, y)" by force
  then have xy: "x < 4294967296" "0 \<le> y"
    using uint_lt2p [where ?'a = 32] by (auto simp: sponsorship_counts_def split: account_ext.splits option.splits)
  let ?e = "2 + uint (acc_num_sub_entries a) + x - y"
  from assms(1) c have e: "0 \<le> ?e" "m = as_i64 (?e * base_reserve l)"
    by (auto simp: minimum_balance_for_account_def minimum_balance_with_counts_def Let_def split: if_splits)
  have "uint (acc_num_sub_entries a) < 4294967296" using uint_lt2p [of "acc_num_sub_entries a"] by simp
  with xy have "?e \<le> 8589934592" by linarith
  with e(1) assms(2,3) have "?e * base_reserve l \<le> 8589934592 * 536870912" by (intro mult_mono) simp_all
  moreover have "0 \<le> ?e * base_reserve l" using e(1) assms(2) by simp
  ultimately show ?thesis unfolding e(2) by (subst as_i64_id) (simp_all add: range_defs)
qed

lemma saturating_sub_le: "0 \<le> x \<Longrightarrow> i64_min \<le> y \<Longrightarrow> i64_saturating (y - x) \<le> y"
  by (simp add: i64_saturating_def range_defs)

lemma saturating_ge_min: "i64_min \<le> i64_saturating x"
  by (simp add: i64_saturating_def)

lemma available_le_held:
  assumes ok: "ledger_ok l" and av: "resolve_deposit_asset source as l = Inr av" and iss: "\<not> is_issuer source as" and "0 < av"
  shows "av \<le> held source as l" "if as = Native then accounts l source \<noteq> None else get_trustline source as l \<noteq> None"
proof -
  have "av \<le> held source as l \<and> (if as = Native then accounts l source \<noteq> None else get_trustline source as l \<noteq> None)"
  proof (cases "as = Native")
    case True
    from av True have av': "available_native_balance source l = Inr av"
      by (simp add: resolve_deposit_asset_def split: sum.splits)
    with \<open>0 < av\<close> obtain a m where a: "accounts l source = Some a" and m: "minimum_balance_for_account a 0 l = Inr m"
      and eq: "av = i64_saturating (i64_saturating (acc_balance a - m) - selling (account_liabilities a))"
      by (auto simp: available_native_balance_def bindE_Inr_iff split: option.splits)
    have okl: "account_ok a" "0 \<le> base_reserve l" "base_reserve l \<le> 536870912" using ok a by (auto simp: ledger_ok_def)
    have "av \<le> i64_saturating (acc_balance a - m)"
      unfolding eq using okl(1) by (intro saturating_sub_le saturating_ge_min) (simp add: account_ok_def liabilities_ok_def in_amount_def)
    also have "\<dots> \<le> acc_balance a"
      using minimum_balance_nonneg [OF m okl(2,3)] okl(1)
      by (intro saturating_sub_le) (simp_all add: account_ok_def range_defs)
    finally show ?thesis using True a by (simp add: held_def)
  next
    case False
    with av iss obtain t where t: "get_trustline source as l = Some t" and eq: "av = trustline_balance_after_liabilities t"
      by (auto simp: resolve_deposit_asset_def split: option.splits if_splits)
    have "trustline_ok t" using ok t by (auto simp: ledger_ok_def)
    then have "av \<le> tl_balance t"
      unfolding eq trustline_balance_after_liabilities_def
      by (intro saturating_sub_le) (simp_all add: trustline_ok_def liabilities_ok_def range_defs)
    with False t show ?thesis by (simp add: held_def)
  qed
  then show "av \<le> held source as l" "if as = Native then accounts l source \<noteq> None else get_trustline source as l \<noteq> None"
    by blast+
qed

lemma debit_asset_moves:
  assumes n: "0 < n" "n \<le> held source as l \<or> is_issuer source as" "held source as l \<le> i64_max"
    and there: "is_issuer source as \<or> (if as = Native then accounts l source \<noteq> None else get_trustline source as l \<noteq> None)"
  obtains l' where "debit_asset source as n l = Inr l'" "moves source as (- n) l l'"
proof (cases "is_issuer source as")
  case True
  then have "as \<noteq> Native" by (auto simp: is_issuer_def)
  with True that [of l] show ?thesis by (simp add: debit_asset_def moves_def)
next
  case False
  show ?thesis
  proof (cases "as = Native")
    case True
    with there False obtain a where a: "accounts l source = Some a" by auto
    have "sub_account_balance n a = Inr (a\<lparr>acc_balance := acc_balance a - n\<rparr>)"
      using n False True a by (auto simp: sub_account_balance_def held_def checked_or_amount in_amount_def)
    with True False a n that show ?thesis
      by (auto simp: debit_asset_def moves_def held_def)
  next
    case nat: False
    with there False obtain t where t: "get_trustline source as l = Some t" by auto
    have "sub_trustline_balance n t = Inr (t\<lparr>tl_balance := tl_balance t - n\<rparr>)"
      using n False nat t by (auto simp: sub_trustline_balance_def held_def checked_or_amount in_amount_def)
    with nat False t n that show ?thesis
      by (auto simp: debit_asset_def moves_def held_def)
  qed
qed

section \<open>Settling a deposit\<close>

text \<open>What a deposit of \<open>a\<close> and \<open>b\<close> for \<open>s\<close> shares does to a ledger; with negative amounts, a withdrawal.\<close>

definition pool_transfer ::
  "account_id \<Rightarrow> pool_id \<Rightarrow> pool_entry \<Rightarrow> i64 \<Rightarrow> i64 \<Rightarrow> i64 \<Rightarrow> ledger \<Rightarrow> ledger \<Rightarrow> bool" where
  "pool_transfer source pid p a b s l l' \<longleftrightarrow>
     liquidity_pools l' = (liquidity_pools l)(pid \<mapsto>
       p\<lparr>reserve_a := reserve_a p + a, reserve_b := reserve_b p + b, total_pool_shares := total_pool_shares p + s\<rparr>) \<and>
     (\<not> is_issuer source (asset_a p) \<longrightarrow> held source (asset_a p) l' = held source (asset_a p) l - a) \<and>
     (\<not> is_issuer source (asset_b p) \<longrightarrow> held source (asset_b p) l' = held source (asset_b p) l - b) \<and>
     shares_held source pid l' = shares_held source pid l + s \<and>
     (\<forall>n k. n \<noteq> source \<longrightarrow> accounts l' n = accounts l n \<and> trustlines l' (n, k) = trustlines l (n, k))"

text \<open>The same, in three steps: two balances, the shares, the pool.\<close>

lemma moves_twice:
  assumes "moves source x m l l1" "moves source y n l1 l2" "x \<noteq> y"
  shows "liquidity_pools l2 = liquidity_pools l"
    "\<not> is_issuer source x \<Longrightarrow> held source x l2 = held source x l + m"
    "\<not> is_issuer source y \<Longrightarrow> held source y l2 = held source y l + n"
    "trustlines l2 (source, PoolShare pid) = trustlines l (source, PoolShare pid)"
    "u \<noteq> source \<Longrightarrow> accounts l2 u = accounts l u" "u \<noteq> source \<Longrightarrow> trustlines l2 (u, k) = trustlines l (u, k)"
  using assms moves_other [OF assms(1)] moves_other [OF assms(2)] by (auto simp: moves_def)

lemma pool_transferI:
  assumes m: "moves source (asset_a p) (- a) l l1" "moves source (asset_b p) (- b) l1 l2" "asset_a p \<noteq> asset_b p"
    and l3: "l3 = put_trustline source (PoolShare pid) t' l2" "trustlines l (source, PoolShare pid) = Some t"
      "tl_balance t' = tl_balance t + s"
    and l4: "add_to_pool a b s p = Inr p'" "l4 = put_pool pid p' l3"
  shows "pool_transfer source pid p a b s l l4"
  using moves_twice [OF m] l3 l4 by (auto simp: pool_transfer_def held_def shares_held_def add_to_pool_Inr)

lemma credit_shares:
  assumes t: "trustlines l (source, PoolShare pid) = Some t" "trustline_ok t"
    and s: "0 \<le> s" "s \<le> i64_saturating (tl_limit t - tl_balance t)"
  obtains (credited) t' where "credit_pool_shares source pid s l = Inr (put_trustline source (PoolShare pid) t' l)"
      "tl_balance t' = tl_balance t + s"
  | (reserved) "credit_pool_shares source pid s l = Inl TxInternal" "buying (trustline_liabilities t) \<noteq> 0"
proof -
  note ok = t(2) [unfolded trustline_ok_def liabilities_ok_def in_amount_def]
  have lim: "s \<le> tl_limit t - tl_balance t"
    using s(2) ok by (simp add: i64_saturating_def i64_max_def i64_min_def split: if_splits)
  have "checked_or BalanceOverflow (tl_limit t - tl_balance t) = Inr (tl_limit t - tl_balance t)"
    "checked_or BalanceOverflow (tl_balance t + s) = Inr (tl_balance t + s)"
    "checked_or BalanceOverflow (tl_limit t - buying (trustline_liabilities t)) = Inr (tl_limit t - buying (trustline_liabilities t))"
    using ok lim s(1) by (auto simp: checked_or_Inr i64_max_def i64_min_def)
  then have add: "add_trustline_balance s t =
      (if tl_balance t + s > tl_limit t - buying (trustline_liabilities t) then Inl LiabilityViolation
       else Inr (t\<lparr>tl_balance := tl_balance t + s\<rparr>))"
    using s(1) lim by (simp add: add_trustline_balance_def)
  show thesis
  proof (cases "tl_balance t + s > tl_limit t - buying (trustline_liabilities t)")
    case True
    then have "buying (trustline_liabilities t) \<noteq> 0" using lim by auto
    with True add t(1) show thesis by (intro reserved) (simp_all add: credit_pool_shares_def)
  next
    case False
    with add t(1) show thesis
      by (intro credited [of "t\<lparr>tl_balance := tl_balance t + s\<rparr>"]) (simp_all add: credit_pool_shares_def)
  qed
qed

text \<open>Neither debit can fail, so nothing is left half done.\<close>

lemma settle_deposit_result:
  assumes ok: "ledger_ok l" and p: "liquidity_pools l (dep_pool_id op) = Some p"
    and t: "trustlines l (source, PoolShare (dep_pool_id op)) = Some t"
    and res: "resolve_deposit_asset source (asset_a p) l = Inr av_a" "resolve_deposit_asset source (asset_b p) l = Inr av_b"
    and a: "0 < a" "a \<le> av_a" "a \<le> i64_max" and b: "0 < b" "b \<le> av_b" "b \<le> i64_max"
    and s: "0 \<le> s" "s \<le> i64_saturating (tl_limit t - tl_balance t)"
  obtains (full) "settle_deposit op source p a b s l = Inr (DepositPoolFull, l)"
  | (reserved) "settle_deposit op source p a b s l = Inl TxInternal" "buying (trustline_liabilities t) \<noteq> 0"
  | (settled) l' where "settle_deposit op source p a b s l = Inr (DepositSuccess, l')"
      "pool_transfer source (dep_pool_id op) p a b s l l'"
proof (cases "pool_full p a b s")
  case True
  then show thesis by (intro full) (simp add: settle_deposit_def)
next
  case False
  have okp: "pool_ok p" and okt: "trustline_ok t" using ok p t by (auto simp: ledger_ok_def pools_ok_def)
  then have ne: "asset_a p \<noteq> asset_b p" by (simp add: pool_ok_def)
  have avail: "n \<le> held source x l \<or> is_issuer source x" "held source x l \<le> i64_max"
    "is_issuer source x \<or> (if x = Native then accounts l source \<noteq> None else get_trustline source x l \<noteq> None)"
    if "resolve_deposit_asset source x l = Inr av" "0 < n" "n \<le> av" for x av n
  proof -
    show "held source x l \<le> i64_max"
      using ok unfolding ledger_ok_def held_def account_ok_def trustline_ok_def in_amount_def
      by (auto split: option.splits simp: i64_max_def)
    show "n \<le> held source x l \<or> is_issuer source x"
      using available_le_held(1) [OF ok that(1)] that by force
    show "is_issuer source x \<or> (if x = Native then accounts l source \<noteq> None else get_trustline source x l \<noteq> None)"
      using available_le_held(2) [OF ok that(1)] that by linarith
  qed
  obtain l1 where l1: "debit_asset source (asset_a p) a l = Inr l1" "moves source (asset_a p) (- a) l l1"
    using debit_asset_moves [OF a(1) avail [OF res(1) a(1,2)]] by blast
  have same: "held source (asset_b p) l1 = held source (asset_b p) l"
    "(if asset_b p = Native then accounts l1 source \<noteq> None else get_trustline source (asset_b p) l1 \<noteq> None) =
     (if asset_b p = Native then accounts l source \<noteq> None else get_trustline source (asset_b p) l \<noteq> None)"
    using moves_other [OF l1(2) ne [symmetric]] by auto
  obtain l2 where l2: "debit_asset source (asset_b p) b l1 = Inr l2" "moves source (asset_b p) (- b) l1 l2"
    using debit_asset_moves [OF b(1), of source "asset_b p" l1] avail [OF res(2) b(1,2)] unfolding same by blast
  have t2: "trustlines l2 (source, PoolShare (dep_pool_id op)) = Some t"
    using t moves_twice(4) [OF l1(2) l2(2) ne] by simp
  note step = settle_deposit_def [of op source p a b s l, unfolded if_not_P [OF False] l1(1) l2(1) sum.case]
  have "\<exists>p'. add_to_pool a b s p = Inr p'"
    using False okp a b s(1) by (auto simp: add_to_pool_Inr pool_full_def pool_ok_def in_amount_def as_i64_amount)
  then obtain p' where p': "add_to_pool a b s p = Inr p'" by blast
  from t2 okt s show thesis
  proof (cases rule: credit_shares)
    case (credited t')
    define l3 where "l3 = put_trustline source (PoolShare (dep_pool_id op)) t' l2"
    have "liquidity_pools l3 (dep_pool_id op) = Some p" using p moves_twice(1) [OF l1(2) l2(2) ne] by (simp add: l3_def)
    with p' have "update_pool (dep_pool_id op) a b s l3 = Inr (put_pool (dep_pool_id op) p' l3)" by (simp add: update_pool_def)
    with step credited(1) l3_def
    have "settle_deposit op source p a b s l = Inr (DepositSuccess, put_pool (dep_pool_id op) p' l3)" by simp
    moreover have "pool_transfer source (dep_pool_id op) p a b s l (put_pool (dep_pool_id op) p' l3)"
      using pool_transferI [OF l1(2) l2(2) ne l3_def t credited(2) p' refl] .
    ultimately show thesis by (rule settled)
  next
    case reserved': reserved
    with step show thesis by (intro reserved) simp_all
  qed
qed

section \<open>Deposits and withdrawals\<close>

lemma resolve_code: "resolve_deposit_asset source x l = Inl c \<Longrightarrow> c \<noteq> DepositSuccess"
  by (auto simp: resolve_deposit_asset_def split: if_splits option.splits sum.splits)

lemma deposit_cases:
  assumes ok: "ledger_ok l" and m: "max_amount_a op \<le> i64_max" "max_amount_b op \<le> i64_max"
  obtains (refused) code where "execute_liquidity_pool_deposit ctx op source l = Inr (code, l)" "code \<noteq> DepositSuccess"
  | (reserved) t where "execute_liquidity_pool_deposit ctx op source l = Inl TxInternal"
      "trustlines l (source, PoolShare (dep_pool_id op)) = Some t" "buying (trustline_liabilities t) \<noteq> 0"
  | (settled) p a b s l' where "execute_liquidity_pool_deposit ctx op source l = Inr (DepositSuccess, l')"
      "liquidity_pools l (dep_pool_id op) = Some p" "pool_transfer source (dep_pool_id op) p a b s l l'"
      "0 < a" "a \<le> max_amount_a op" "0 < b" "b \<le> max_amount_b op" "0 \<le> s"
proof (cases "\<exists>code. execute_liquidity_pool_deposit ctx op source l = Inr (code, l) \<and> code \<noteq> DepositSuccess")
  case True
  then show thesis using refused by blast
next
  case goes: False
  note step = execute_liquidity_pool_deposit_def [of ctx op source l]
  have wf: "\<not> malformed_deposit op" using goes by (auto simp: step)
  with m have m': "in_amount (max_amount_a op)" "in_amount (max_amount_b op)"
    by (auto simp: malformed_deposit_def in_amount_def)
  from wf goes obtain p where p: "liquidity_pools l (dep_pool_id op) = Some p"
    by (cases "liquidity_pools l (dep_pool_id op)") (auto simp: step)
  from wf p goes obtain t where t: "trustlines l (source, PoolShare (dep_pool_id op)) = Some t"
    by (cases "trustlines l (source, PoolShare (dep_pool_id op))") (auto simp: step)
  from wf p t goes resolve_code obtain av_a where av_a: "resolve_deposit_asset source (asset_a p) l = Inr av_a"
    by (cases "resolve_deposit_asset source (asset_a p) l") (auto simp: step)
  from wf p t av_a goes resolve_code obtain av_b where av_b: "resolve_deposit_asset source (asset_b p) l = Inr av_b"
    by (cases "resolve_deposit_asset source (asset_b p) l") (auto simp: step)
  from wf p t av_a av_b goes have nf: "\<not> (frozen_asset ctx source (asset_a p) \<or> frozen_asset ctx source (asset_b p))"
    by (auto simp: step)
  have okp: "pool_ok p" using ok p by (auto simp: ledger_ok_def pools_ok_def)
  obtain r where r: "compute_deposit op p t av_a av_b = Inr r" "\<And>c. r = Refused c \<Longrightarrow> c \<noteq> DepositSuccess"
    and amounts: "\<And>a b s. r = Deposited a b s \<Longrightarrow> in_amount a \<and> in_amount b \<and> 0 \<le> s \<and> a \<le> av_a \<and> b \<le> av_b \<and>
       s \<le> i64_saturating (tl_limit t - tl_balance t) \<and> 0 < a \<and> 0 < b \<and> a \<le> max_amount_a op \<and> b \<le> max_amount_b op"
    by (rule deposit_amount_cases [OF okp m', of t av_a av_b]) blast
  have settle: "execute_liquidity_pool_deposit ctx op source l =
      (case r of Refused code \<Rightarrow> Inr (code, l) | Deposited a b s \<Rightarrow> settle_deposit op source p a b s l)"
    unfolding step using wf p t av_a av_b nf r(1) by simp
  with goes r(2) obtain a b s where abs: "r = Deposited a b s" by (cases r) auto
  from amounts [OF abs] have ab: "0 < a" "a \<le> av_a" "a \<le> i64_max" "0 < b" "b \<le> av_b" "b \<le> i64_max"
    "0 \<le> s" "s \<le> i64_saturating (tl_limit t - tl_balance t)" "a \<le> max_amount_a op" "b \<le> max_amount_b op"
    by (simp_all add: in_amount_def)
  from ok p t av_a av_b ab(1-8) show thesis
  proof (cases rule: settle_deposit_result)
    case full
    with settle abs goes show thesis by simp
  next
    case r': reserved
    with settle abs t show thesis by (intro reserved) simp_all
  next
    case s': (settled l')
    with settle abs have "execute_liquidity_pool_deposit ctx op source l = Inr (DepositSuccess, l')" by simp
    from this p s'(2) ab(1,9,4,10,7) show thesis by (rule settled)
  qed
qed

text \<open>A credit that was checked succeeds, although the code ignores its error.\<close>

lemma credit_asset_moves:
  assumes ok: "ledger_ok l" and n: "in_amount n" and check: "can_credit_asset source as n l = CreditOk"
  shows "moves source as n l (credit_asset source as n l)"
proof (cases "as = Native")
  case True
  with check obtain a where a: "accounts l source = Some a" by (auto simp: can_credit_asset_def split: option.splits)
  have aok: "in_amount (acc_balance a)" "in_amount (buying (account_liabilities a))"
    using ok a by (auto simp: ledger_ok_def account_ok_def liabilities_ok_def)
  have w: "as_i64 (i64_max - acc_balance a) = i64_max - acc_balance a"
    "as_i64 (i64_max - buying (account_liabilities a)) = i64_max - buying (account_liabilities a)"
    using aok by (auto intro!: as_i64_amount simp: in_amount_def)
  have room: "n \<le> i64_max - acc_balance a" using check True a w by (auto simp: can_credit_asset_def split: if_splits)
  then have "as_i64 (acc_balance a + n) = acc_balance a + n" using aok n by (intro as_i64_amount) (simp add: in_amount_def)
  then have "acc_balance a + n \<le> i64_max - buying (account_liabilities a)"
    using check True a w room by (auto simp: can_credit_asset_def split: if_splits)
  moreover have "checked_or BalanceOverflow (acc_balance a + n) = Inr (acc_balance a + n)"
    "checked_or BalanceOverflow (i64_max - buying (account_liabilities a)) = Inr (i64_max - buying (account_liabilities a))"
    using room aok n by (auto intro!: checked_or_amount simp: in_amount_def)
  ultimately have "add_account_balance n a = Inr (a\<lparr>acc_balance := acc_balance a + n\<rparr>)"
    using n by (simp add: add_account_balance_def in_amount_def)
  with True a show ?thesis by (auto simp: credit_asset_def moves_def held_def)
next
  case nat: False
  show ?thesis
  proof (cases "is_issuer source as")
    case True
    with nat show ?thesis by (simp add: credit_asset_def moves_def)
  next
    case False
    with nat check obtain t where t: "get_trustline source as l = Some t" by (auto simp: can_credit_asset_def split: option.splits)
    have tok: "in_amount (tl_balance t)" "in_amount (tl_limit t)" "in_amount (buying (trustline_liabilities t))"
      using ok t by (auto simp: ledger_ok_def trustline_ok_def liabilities_ok_def)
    have w: "as_i64 (tl_limit t - tl_balance t) = tl_limit t - tl_balance t"
      "as_i64 (tl_limit t - buying (trustline_liabilities t)) = tl_limit t - buying (trustline_liabilities t)"
      using tok by (auto intro!: as_i64_id simp: range_defs)
    have room: "n \<le> tl_limit t - tl_balance t"
      using check nat False t w by (auto simp: can_credit_asset_def split: if_splits)
    then have "as_i64 (tl_balance t + n) = tl_balance t + n" using tok n by (intro as_i64_amount) (simp add: in_amount_def)
    then have "tl_balance t + n \<le> tl_limit t - buying (trustline_liabilities t)"
      using check nat False t w room by (auto simp: can_credit_asset_def split: if_splits)
    moreover have "checked_or BalanceOverflow (tl_balance t + n) = Inr (tl_balance t + n)"
      "checked_or BalanceOverflow (tl_limit t - tl_balance t) = Inr (tl_limit t - tl_balance t)"
      "checked_or BalanceOverflow (tl_limit t - buying (trustline_liabilities t)) = Inr (tl_limit t - buying (trustline_liabilities t))"
      using room tok n by (auto simp: checked_or_Inr range_defs)
    ultimately have "add_trustline_balance n t = Inr (t\<lparr>tl_balance := tl_balance t + n\<rparr>)"
      using n room by (simp add: add_trustline_balance_def in_amount_def)
    with nat False t show ?thesis by (auto simp: credit_asset_def moves_def held_def)
  qed
qed

lemma withdrawal_amount:
  assumes "in_amount w" "in_amount r" "0 < t" "t \<le> i64_max"
  obtains x where "get_pool_withdrawal_amount w t r = Inr x" "in_amount x"
proof -
  have "0 \<le> w * r div t" using amount_product(1) [OF assms(1,2)] assms(3) by (rule floor_nonneg)
  with big_divide_amount(1) [OF assms] that show thesis
    by (auto simp: get_pool_withdrawal_amount_def in_amount_def i64_max_def)
qed

lemma withdraw_refusal_None: "withdraw_refusal c = None \<longleftrightarrow> c = WithdrawOk"
  by (cases c) simp_all

lemma withdraw_refusal_Some: "withdraw_refusal c = Some code \<Longrightarrow> code \<noteq> WithdrawSuccess"
  by (cases c) auto

lemma checked_credit:
  assumes "try_add_asset_balance source x m n l = Inr c" "withdraw_refusal c = None"
  shows "m \<le> n" "can_credit_asset source x n l = CreditOk"
  using assms by (auto simp: try_add_asset_balance_def withdraw_refusal_None split: if_splits asset_check.splits)

text \<open>The entry that holds the source's balance of an asset.\<close>

definition can_hold :: "account_id \<Rightarrow> asset \<Rightarrow> ledger \<Rightarrow> bool" where
  "can_hold source as l \<longleftrightarrow> is_issuer source as \<or>
     (if as = Native then accounts l source \<noteq> None else get_trustline source as l \<noteq> None)"

lemma is_issuer_Native [simp]: "\<not> is_issuer source Native"
  by (simp add: is_issuer_def)

lemma can_credit_asset_cong:
  "(x = Native \<Longrightarrow> accounts l1 = accounts l) \<Longrightarrow> (x \<noteq> Native \<Longrightarrow> get_trustline source x l1 = get_trustline source x l) \<Longrightarrow>
   can_credit_asset source x n l1 = can_credit_asset source x n l"
  by (cases "x = Native") (simp_all add: can_credit_asset_def)

lemma try_add_fault: "try_add_asset_balance source x m n l = Inl e \<Longrightarrow> e = TxPanic \<and> \<not> can_hold source x l"
  by (auto simp: try_add_asset_balance_def can_credit_asset_def can_hold_def
      split: if_splits asset_check.splits option.splits)

lemma settle_withdrawal_result:
  assumes ok: "ledger_ok l" and p: "liquidity_pools l (wd_pool_id op) = Some p"
    and t: "trustlines l (source, PoolShare (wd_pool_id op)) = Some t" "0 < wd_amount op" "wd_amount op \<le> tl_balance t"
    and a: "in_amount a" "can_credit_asset source (asset_a p) a l = CreditOk"
    and b: "in_amount b" "can_credit_asset source (asset_b p) b l = CreditOk"
  obtains (settled) l' where "settle_withdrawal op source p a b l = Inr (WithdrawSuccess, l')"
      "pool_transfer source (wd_pool_id op) p (- a) (- b) (- wd_amount op) l l'"
  | (drained) e where "settle_withdrawal op source p a b l = Inl e"
      "add_to_pool (- a) (- b) (- wd_amount op) p = Inl e"
proof -
  let ?pid = "wd_pool_id op" and ?w = "wd_amount op"
  define l1 l2 where "l1 = credit_asset source (asset_a p) a l" and "l2 = credit_asset source (asset_b p) b l1"
  have ne: "asset_a p \<noteq> asset_b p" using ok p by (auto simp: ledger_ok_def pools_ok_def pool_ok_def)
  have m1: "moves source (asset_a p) (- (- a)) l l1"
    using credit_asset_moves [OF ok a] by (simp add: l1_def)
  note other = moves_other [OF m1 ne [symmetric]]
  have "can_credit_asset source (asset_b p) b l1 = CreditOk"
    using b(2) can_credit_asset_cong [of "asset_b p" l1 l source b] other by simp
  moreover have "ledger_ok l1"
  proof -
    have bal: "in_amount (acc_balance x)" if "add_account_balance a y = Inr x" "account_ok y" for x y
      using that a(1) by (auto simp: add_account_balance_def bindE_Inr_iff checked_or_Inr account_ok_def in_amount_def split: if_splits)
    have tbal: "in_amount (tl_balance x)" if "add_trustline_balance a y = Inr x" "trustline_ok y" for x y
      using that a(1) by (auto simp: add_trustline_balance_def bindE_Inr_iff checked_or_Inr trustline_ok_def in_amount_def split: if_splits)
    have lb: "account_liabilities x = account_liabilities y" if "add_account_balance a y = Inr x" for x y
      using that by (auto simp: add_account_balance_def bindE_Inr_iff account_liabilities_def split: if_splits)
    have tlb: "trustline_liabilities x = trustline_liabilities y \<and> tl_limit x = tl_limit y" if "add_trustline_balance a y = Inr x" for x y
      using that by (auto simp: add_trustline_balance_def bindE_Inr_iff trustline_liabilities_def split: if_splits)
    show ?thesis
      using ok bal tbal lb tlb unfolding ledger_ok_def l1_def credit_asset_def pools_ok_def
      by (auto simp: account_ok_def trustline_ok_def split: option.splits sum.splits if_splits)
  qed
  ultimately have m2: "moves source (asset_b p) (- (- b)) l1 l2"
    using credit_asset_moves [OF _ b(1)] by (simp add: l2_def)
  have t2: "trustlines l2 (source, PoolShare ?pid) = Some t" using t moves_twice(4) [OF m1 m2 ne] by simp
  have "in_amount (tl_balance t)" using ok t(1) by (auto simp: ledger_ok_def trustline_ok_def)
  then have "checked_or BalanceUnderflow (tl_balance t - ?w) = Inr (tl_balance t - ?w)"
    using t(2,3) by (intro checked_or_amount) (simp add: in_amount_def)
  then have "sub_trustline_balance ?w t = Inr (t\<lparr>tl_balance := tl_balance t - ?w\<rparr>)"
    using t(2,3) by (simp add: sub_trustline_balance_def)
  moreover define l3 where "l3 = put_trustline source (PoolShare ?pid) (t\<lparr>tl_balance := tl_balance t - ?w\<rparr>) l2"
  ultimately have l3: "debit_pool_shares source ?pid ?w l2 = Inr l3" using t2 by (simp add: debit_pool_shares_def)
  have p3: "liquidity_pools l3 ?pid = Some p" using p moves_twice(1) [OF m1 m2 ne] by (simp add: l3_def)
  have step: "settle_withdrawal op source p a b l =
      bindE (update_pool ?pid (- a) (- b) (- ?w) l3) (\<lambda>l4. Inr (WithdrawSuccess, l4))"
    using l3 by (simp add: settle_withdrawal_def Let_def l1_def l2_def)
  show thesis
  proof (cases "add_to_pool (- a) (- b) (- ?w) p")
    case (Inl e)
    with p3 step show thesis by (intro drained) (simp_all add: update_pool_def)
  next
    case (Inr p')
    with p3 step have "settle_withdrawal op source p a b l = Inr (WithdrawSuccess, put_pool ?pid p' l3)" by (simp add: update_pool_def)
    moreover have "pool_transfer source ?pid p (- a) (- b) (- ?w) l (put_pool ?pid p' l3)"
      by (rule pool_transferI [OF m1 m2 ne l3_def t(1) _ Inr refl]) simp
    ultimately show thesis by (rule settled)
  qed
qed

lemma can_credit_holds: "can_credit_asset source x n l = CreditOk \<Longrightarrow> can_hold source x l"
  by (auto simp: can_credit_asset_def can_hold_def split: if_splits option.splits)

lemma no_refusal: "(\<forall>x. withdraw_refusal c = Some x \<longrightarrow> x = WithdrawSuccess \<and> Q) \<longleftrightarrow> withdraw_refusal c = None"
  by (cases c) auto

text \<open>A withdrawal that was not refused has passed both checks.\<close>

lemma withdraw_run:
  assumes run: "execute_liquidity_pool_withdraw ctx op source l = Inr (code, l')" "code = WithdrawSuccess \<or> l' \<noteq> l"
    and p: "liquidity_pools l (wd_pool_id op) = Some p"
  obtains a b where "settle_withdrawal op source p a b l = Inr (code, l')"
    "can_hold source (asset_a p) l" "can_hold source (asset_b p) l"
proof -
  from run p obtain a b ca cb where "settle_withdrawal op source p a b l = Inr (code, l')"
    "try_add_asset_balance source (asset_a p) (min_amount_a op) a l = Inr ca" "withdraw_refusal ca = None"
    "try_add_asset_balance source (asset_b p) (min_amount_b op) b l = Inr cb" "withdraw_refusal cb = None"
    unfolding execute_liquidity_pool_withdraw_def
    by (auto simp: bindE_Inr_iff no_refusal split: option.splits if_splits dest: withdraw_refusal_Some)
  with that show thesis using can_credit_holds checked_credit(2) by metis
qed

lemma withdraw_cases:
  assumes ok: "ledger_ok l" and w: "wd_amount op \<le> i64_max"
  obtains (refused) code where "execute_liquidity_pool_withdraw ctx op source l = Inr (code, l)" "code \<noteq> WithdrawSuccess"
  | (failed) e p where "execute_liquidity_pool_withdraw ctx op source l = Inl e" "liquidity_pools l (wd_pool_id op) = Some p"
      "total_pool_shares p < wd_amount op \<or> \<not> can_hold source (asset_a p) l \<or> \<not> can_hold source (asset_b p) l"
  | (settled) p a b l' where "execute_liquidity_pool_withdraw ctx op source l = Inr (WithdrawSuccess, l')"
      "liquidity_pools l (wd_pool_id op) = Some p"
      "pool_transfer source (wd_pool_id op) p (- a) (- b) (- wd_amount op) l l'"
      "min_amount_a op \<le> a" "min_amount_b op \<le> b"
proof (cases "\<exists>code. execute_liquidity_pool_withdraw ctx op source l = Inr (code, l) \<and> code \<noteq> WithdrawSuccess")
  case True
  then show thesis using refused by blast
next
  case goes: False
  note step = execute_liquidity_pool_withdraw_def [of ctx op source l]
  have wf: "\<not> (wd_amount op \<le> 0 \<or> min_amount_a op < 0 \<or> min_amount_b op < 0)" using goes by (auto simp: step)
  from wf goes obtain p where p: "liquidity_pools l (wd_pool_id op) = Some p"
    by (cases "liquidity_pools l (wd_pool_id op)") (auto simp: step)
  from wf p goes obtain t where t: "trustlines l (source, PoolShare (wd_pool_id op)) = Some t"
    by (cases "trustlines l (source, PoolShare (wd_pool_id op))") (auto simp: step)
  have okp: "pool_ok p" and okt: "trustline_ok t" using ok p t by (auto simp: ledger_ok_def pools_ok_def)
  have "as_i64 (tl_balance t - selling (trustline_liabilities t)) = tl_balance t - selling (trustline_liabilities t)"
    using okt by (intro as_i64_id) (simp_all add: trustline_ok_def liabilities_ok_def range_defs)
  moreover have funded: "\<not> as_i64 (tl_balance t - selling (trustline_liabilities t)) < wd_amount op"
    using wf p t goes by (auto simp: step)
  ultimately have bal: "wd_amount op \<le> tl_balance t"
    using okt by (simp add: trustline_ok_def liabilities_ok_def in_amount_def)
  have nf: "\<not> (frozen_asset ctx source (asset_a p) \<or> frozen_asset ctx source (asset_b p))"
    using wf p t goes funded by (auto simp: step)
  note step' = step [unfolded if_not_P [OF wf] p t option.case if_not_P [OF funded] if_not_P [OF nf]]
  show thesis
  proof (cases "total_pool_shares p < wd_amount op")
    case True
    show thesis
    proof (cases "execute_liquidity_pool_withdraw ctx op source l")
      case (Inl e)
      with p True failed show thesis by blast
    next
      case (Inr r)
      obtain code l' where r: "r = (code, l')" by force
      from Inr goes have "code = WithdrawSuccess \<or> l' \<noteq> l" by (auto simp: r)
      then obtain a b where "settle_withdrawal op source p a b l = Inr (code, l')"
        using withdraw_run [OF Inr [unfolded r] _ p] by blast
      from settle_withdrawal_cases [OF this p] True show thesis by (auto simp: add_to_pool_Inr in_amount_def)
    qed
  next
    case False
    then have pos: "0 < total_pool_shares p" "total_pool_shares p \<le> i64_max" "in_amount (wd_amount op)"
      "in_amount (reserve_a p)" "in_amount (reserve_b p)"
      using wf w okp by (auto simp: pool_ok_def in_amount_def)
    obtain a where a: "get_pool_withdrawal_amount (wd_amount op) (total_pool_shares p) (reserve_a p) = Inr a" "in_amount a"
      using withdrawal_amount [OF pos(3,4,1,2)] by blast
    obtain b where b: "get_pool_withdrawal_amount (wd_amount op) (total_pool_shares p) (reserve_b p) = Inr b" "in_amount b"
      using withdrawal_amount [OF pos(3,5,1,2)] by blast
    show thesis
    proof (cases "can_hold source (asset_a p) l \<and> can_hold source (asset_b p) l")
      case can: True
      obtain ca where ca: "try_add_asset_balance source (asset_a p) (min_amount_a op) a l = Inr ca"
        using can try_add_fault by (cases "try_add_asset_balance source (asset_a p) (min_amount_a op) a l") blast+
      obtain cb where cb: "try_add_asset_balance source (asset_b p) (min_amount_b op) b l = Inr cb"
        using can try_add_fault by (cases "try_add_asset_balance source (asset_b p) (min_amount_b op) b l") blast+
      have none: "withdraw_refusal ca = None" "withdraw_refusal cb = None"
        using goes withdraw_refusal_Some unfolding step' a(1) b(1) bindE_simps ca cb
        by (auto split: option.splits)
      note ca' = checked_credit [OF ca none(1)] and cb' = checked_credit [OF cb none(2)]
      have run: "execute_liquidity_pool_withdraw ctx op source l = settle_withdrawal op source p a b l"
        unfolding step' a(1) b(1) bindE_simps ca cb none by simp
      have "0 < wd_amount op" using wf by simp
      from ok p t this bal a(2) ca'(2) b(2) cb'(2) show thesis
      proof (cases rule: settle_withdrawal_result)
        case s': (settled l')
        from run s'(1) have "execute_liquidity_pool_withdraw ctx op source l = Inr (WithdrawSuccess, l')" by simp
        from this p s'(2) ca'(1) cb'(1) show thesis by (rule settled)
      next
        case (drained e)
        have part: "wd_amount op * r div total_pool_shares p \<le> r" if "0 \<le> r" for r
          using that False pos(1) by (intro floor_le) (simp_all add: mult.commute mult_left_mono)
        have "a \<le> reserve_a p" "b \<le> reserve_b p"
          using a(1) b(1) big_divide_amount(1) [OF pos(3,4,1,2)] big_divide_amount(1) [OF pos(3,5,1,2)] part pos(4,5)
          by (auto simp: get_pool_withdrawal_amount_def in_amount_def split: if_splits)
        then have "\<exists>p'. add_to_pool (- a) (- b) (- wd_amount op) p = Inr p'"
          using a(2) b(2) pos wf False okp by (auto simp: add_to_pool_Inr in_amount_def pool_ok_def)
        with drained show thesis by simp
      qed
    next
      case cannot: False
      show thesis
      proof (cases "execute_liquidity_pool_withdraw ctx op source l")
        case (Inl e)
        with p cannot failed show thesis by blast
      next
        case (Inr r)
        obtain code l' where r: "r = (code, l')" by force
        from Inr goes have "code = WithdrawSuccess \<or> l' \<noteq> l" by (auto simp: r)
        then show thesis using withdraw_run [OF Inr [unfolded r] _ p] cannot by blast
      qed
    qed
  qed
qed

section \<open>What the two operations promise\<close>

text \<open>
  C33. A deposit or a withdrawal that is refused leaves the ledger as it was, whatever the reason. A deposit
  never panics; it fails with an internal error only if the line that holds the shares has buying
  liabilities. A withdrawal fails only if it redeems more shares than the pool has issued or if the
  source has no account or trustline for an asset of the pool.
\<close>

theorem refused_pool_operation_changes_nothing:
  assumes "ledger_ok l" "max_amount_a dep \<le> i64_max" "max_amount_b dep \<le> i64_max" "wd_amount wd \<le> i64_max"
  shows "(case execute_liquidity_pool_deposit ctx dep source l of
            Inr (code, l') \<Rightarrow> code \<noteq> DepositSuccess \<longrightarrow> l' = l
          | Inl e \<Rightarrow> e = TxInternal \<and> (\<exists>t. trustlines l (source, PoolShare (dep_pool_id dep)) = Some t \<and>
              buying (trustline_liabilities t) \<noteq> 0)) \<and>
         (case execute_liquidity_pool_withdraw ctx wd source l of
            Inr (code, l') \<Rightarrow> code \<noteq> WithdrawSuccess \<longrightarrow> l' = l
          | Inl e \<Rightarrow> (\<exists>p. liquidity_pools l (wd_pool_id wd) = Some p \<and> (total_pool_shares p < wd_amount wd \<or>
              \<not> can_hold source (asset_a p) l \<or> \<not> can_hold source (asset_b p) l)))"
proof
  show "case execute_liquidity_pool_deposit ctx dep source l of
            Inr (code, l') \<Rightarrow> code \<noteq> DepositSuccess \<longrightarrow> l' = l
          | Inl e \<Rightarrow> e = TxInternal \<and> (\<exists>t. trustlines l (source, PoolShare (dep_pool_id dep)) = Some t \<and>
              buying (trustline_liabilities t) \<noteq> 0)"
    by (rule deposit_cases [OF assms(1-3), of ctx source]) auto
  show "case execute_liquidity_pool_withdraw ctx wd source l of
            Inr (code, l') \<Rightarrow> code \<noteq> WithdrawSuccess \<longrightarrow> l' = l
          | Inl e \<Rightarrow> (\<exists>p. liquidity_pools l (wd_pool_id wd) = Some p \<and> (total_pool_shares p < wd_amount wd \<or>
              \<not> can_hold source (asset_a p) l \<or> \<not> can_hold source (asset_b p) l))"
    by (rule withdraw_cases [OF assms(1,4), of ctx source]) auto
qed

text \<open>The sample ledger, with a withdrawal that asks for more than it gets and one that is granted.\<close>

definition sample_withdrawal :: "i64 \<Rightarrow> withdraw_op" where
  "sample_withdrawal least = \<lparr>wd_pool_id = [9], wd_amount = 500, min_amount_a = least, min_amount_b = 0\<rparr>"

lemma sample_ledger_ok: "ledger_ok sample_ledger"
  using sample_pools_ok
  by (auto simp: ledger_ok_def sample_ledger_def account_ok_def trustline_ok_def liabilities_ok_def
      account_liabilities_def trustline_liabilities_def range_defs split: if_splits)

theorem refused_pool_operation_changes_nothing_witness:
  "execute_liquidity_pool_withdraw no_frozen_keys (sample_withdrawal 251) [1] sample_ledger
     = Inr (WithdrawUnderMinimum, sample_ledger)"
proof -
  let ?r = "execute_liquidity_pool_withdraw no_frozen_keys (sample_withdrawal 251) [1] sample_ledger"
  have "\<not> isl ?r" "fst (projr ?r) = WithdrawUnderMinimum" by code_simp+
  then obtain l' where "?r = Inr (WithdrawUnderMinimum, l')" by (cases ?r) auto
  with refused_pool_operation_changes_nothing [OF sample_ledger_ok, where dep = sample_deposit and wd = "sample_withdrawal 251"
      and ctx = no_frozen_keys and source = "[1]"]
  show ?thesis by (simp add: sample_deposit_def sample_withdrawal_def i64_max_def)
qed

text \<open>
  C34. On every well-formed ledger money is neither made nor lost, by a deposit, the one that starts an
  empty pool included, or by a withdrawal: what a successful deposit adds to the reserves is exactly what the source's
  balances lose (an issuer's own asset apart, which has no balance), positive and within the limits the
  source gave, and the shares the pool issues are those the source receives; a withdrawal does the
  reverse, pays at least the minimum amounts, and none of its credits is dropped.
\<close>

theorem pool_operations_conserve:
  assumes "ledger_ok l"
  shows "(execute_liquidity_pool_deposit ctx dep source l = Inr (DepositSuccess, l') \<longrightarrow>
           max_amount_a dep \<le> i64_max \<longrightarrow> max_amount_b dep \<le> i64_max \<longrightarrow>
           (\<exists>p a b s. liquidity_pools l (dep_pool_id dep) = Some p \<and>
             pool_transfer source (dep_pool_id dep) p a b s l l' \<and>
             a \<in> {1..max_amount_a dep} \<and> b \<in> {1..max_amount_b dep} \<and> 0 \<le> s)) \<and>
         (execute_liquidity_pool_withdraw ctx wd source l = Inr (WithdrawSuccess, l') \<longrightarrow>
           wd_amount wd \<le> i64_max \<longrightarrow>
           (\<exists>p a b. liquidity_pools l (wd_pool_id wd) = Some p \<and>
             pool_transfer source (wd_pool_id wd) p (- a) (- b) (- wd_amount wd) l l' \<and>
             min_amount_a wd \<le> a \<and> min_amount_b wd \<le> b))"
proof (intro conjI impI)
  assume deposit: "execute_liquidity_pool_deposit ctx dep source l = Inr (DepositSuccess, l')"
    "max_amount_a dep \<le> i64_max" "max_amount_b dep \<le> i64_max"
  show "\<exists>p a b s. liquidity_pools l (dep_pool_id dep) = Some p \<and>
           pool_transfer source (dep_pool_id dep) p a b s l l' \<and>
           a \<in> {1..max_amount_a dep} \<and> b \<in> {1..max_amount_b dep} \<and> 0 \<le> s"
    using deposit(1) by (rule_tac deposit_cases [OF assms deposit(2,3), of ctx source]) force+
next
  assume withdrawal: "execute_liquidity_pool_withdraw ctx wd source l = Inr (WithdrawSuccess, l')"
    "wd_amount wd \<le> i64_max"
  show "\<exists>p a b. liquidity_pools l (wd_pool_id wd) = Some p \<and>
           pool_transfer source (wd_pool_id wd) p (- a) (- b) (- wd_amount wd) l l' \<and>
           min_amount_a wd \<le> a \<and> min_amount_b wd \<le> b"
    using withdrawal(1) by (rule_tac withdraw_cases [OF assms withdrawal(2), of ctx source]) force+
qed

theorem pool_operations_conserve_witness:
  "(\<exists>a b s. a \<in> {1..101} \<and> b \<in> {1..401} \<and> pool_transfer [1] [9] sample_pool a b s sample_ledger sample_after) \<and>
   (\<exists>l2. execute_liquidity_pool_withdraw no_frozen_keys (sample_withdrawal 250) [1] sample_ledger = Inr (WithdrawSuccess, l2) \<and>
     (\<exists>a b. 250 \<le> a \<and> pool_transfer [1] [9] sample_pool (- a) (- b) (- 500) sample_ledger l2))"
proof
  note conserve = pool_operations_conserve [OF sample_ledger_ok, of no_frozen_keys sample_deposit "[1]"]
  have "liquidity_pools sample_ledger [9] = Some sample_pool" by (simp add: sample_ledger_def)
  with conserve sample_deposit_runs
  show "\<exists>a b s. a \<in> {1..101} \<and> b \<in> {1..401} \<and> pool_transfer [1] [9] sample_pool a b s sample_ledger sample_after"
    by (fastforce simp: sample_deposit_def i64_max_def)
  let ?r = "execute_liquidity_pool_withdraw no_frozen_keys (sample_withdrawal 250) [1] sample_ledger"
  have "\<not> isl ?r" "fst (projr ?r) = WithdrawSuccess" by code_simp+
  then obtain l2 where r: "?r = Inr (WithdrawSuccess, l2)" by (cases ?r) auto
  with conserve [of l2 "sample_withdrawal 250"]
  show "\<exists>l2. ?r = Inr (WithdrawSuccess, l2) \<and>
     (\<exists>a b. 250 \<le> a \<and> pool_transfer [1] [9] sample_pool (- a) (- b) (- 500) sample_ledger l2)"
    by (simp add: sample_withdrawal_def sample_ledger_def i64_max_def) blast
qed

end
