(* ===== verification/Bucket_Entries.thy ===== *)
theory Bucket_Entries
  imports Prelude "HOL-Library.Option_ord"
begin

text \<open>
  Buckets and their entries (\<open>crates/bucket/src/entry.rs\<close>, \<open>bucket.rs\<close>).

  The XDR types \<open>LedgerKey\<close> and \<open>LedgerEntry\<close> come from a third-party crate: a key is a type parameter with
  its derived total order, an entry the fields that make up its key (\<open>entry_to_key\<close>) and the rest. A
  bucket's hash matters here only as to whether it is zero; a computed SHA-256 digest is taken not to be.
  A disk-backed bucket holds the same entries and index as one in memory; reads that fail are not modelled,
  the branches of the merge loop that pass their errors on are.
\<close>

section \<open>Entries\<close>

record ('k, 'v) ledger_entry =
  entry_to_key :: 'k
  entry_data :: 'v

datatype bucket_list_type = LiveList | HotArchiveList
datatype metadata_ext = MetaV0 | MetaV1 bucket_list_type

record bucket_metadata =
  ledger_version :: u32
  meta_ext :: metadata_ext

datatype ('k, 'v) bucket_entry =
  Metaentry bucket_metadata
| Initentry "('k, 'v) ledger_entry"
| Liveentry "('k, 'v) ledger_entry"
| Deadentry 'k

datatype bucket_error = BucketMerge | BucketCorruption | BucketIo | BucketPanic

fun entry_key :: "('k, 'v) bucket_entry \<Rightarrow> 'k option" where
  "entry_key (Liveentry e) = Some (entry_to_key e)"
| "entry_key (Initentry e) = Some (entry_to_key e)"
| "entry_key (Deadentry k) = Some k"
| "entry_key (Metaentry m) = None"

fun is_metadata :: "('k, 'v) bucket_entry \<Rightarrow> bool" where
  "is_metadata (Metaentry m) = True"
| "is_metadata _ = False"

fun is_dead :: "('k, 'v) bucket_entry \<Rightarrow> bool" where
  "is_dead (Deadentry k) = True"
| "is_dead _ = False"

fun is_init :: "('k, 'v) bucket_entry \<Rightarrow> bool" where
  "is_init (Initentry e) = True"
| "is_init _ = False"

definition compare_keys :: "'k :: linorder \<Rightarrow> 'k \<Rightarrow> ordering" where
  "compare_keys a b = cmp a b"

definition compare_entries :: "('k :: linorder, 'v) bucket_entry \<Rightarrow> ('k, 'v) bucket_entry \<Rightarrow> ordering" where
  "compare_entries a b =
     (case (entry_key a, entry_key b) of
        (Some ka, Some kb) \<Rightarrow> compare_keys ka kb
      | (None, Some _) \<Rightarrow> Less
      | (Some _, None) \<Rightarrow> Greater
      | (None, None) \<Rightarrow> Equal)"

text \<open>The loop over adjacent pairs (\<open>windows(2)\<close>).\<close>

fun assert_sorted_no_duplicates :: "('k :: linorder, 'v) bucket_entry list \<Rightarrow> bucket_error + unit" where
  "assert_sorted_no_duplicates (x # y # es) =
     (if compare_entries x y \<noteq> Less then Inl BucketMerge else assert_sorted_no_duplicates (y # es))"
| "assert_sorted_no_duplicates _ = Inr ()"

section \<open>The streaming validator\<close>

record 'k validator =
  prev_key :: "'k option"
  seen_keyed :: bool
  seen_metadata :: bool

definition new_validator :: "'k validator" where
  "new_validator = \<lparr>prev_key = None, seen_keyed = False, seen_metadata = False\<rparr>"

definition validate_key :: "'k :: linorder option \<Rightarrow> 'k validator \<Rightarrow> bucket_error + 'k validator" where
  "validate_key key v =
     (case key of
        Some k \<Rightarrow>
          (case prev_key v of
             Some prev \<Rightarrow>
               if compare_keys prev k \<noteq> Less then Inl BucketCorruption
               else Inr (v\<lparr>seen_keyed := True, prev_key := Some k\<rparr>)
           | None \<Rightarrow> Inr (v\<lparr>seen_keyed := True, prev_key := Some k\<rparr>))
      | None \<Rightarrow>
          if seen_keyed v then Inl BucketCorruption
          else if seen_metadata v then Inl BucketCorruption
          else Inr (v\<lparr>seen_metadata := True\<rparr>))"

definition validate :: "('k :: linorder, 'v) bucket_entry \<Rightarrow> 'k validator \<Rightarrow> bucket_error + 'k validator" where
  "validate e v = validate_key (entry_key e) v"

text \<open>The loop of \<open>from_parts\<close> over all entries.\<close>

fun validate_all :: "('k :: linorder, 'v) bucket_entry list \<Rightarrow> 'k validator \<Rightarrow> bucket_error + 'k validator" where
  "validate_all [] v = Inr v"
| "validate_all (e # es) v = bindE (validate e v) (validate_all es)"

section \<open>Buckets\<close>

datatype ('k, 'v) level_zero_state =
  NoEntries
| Separate "('k, 'v) bucket_entry list"
| SharedWithStorage nat

record ('k, 'v) bucket =
  hash_is_zero :: bool
  storage :: "('k, 'v) bucket_entry list"
  key_index :: "'k \<rightharpoonup> nat"
  level_zero :: "('k, 'v) level_zero_state"

text \<open>The loop that fills the index while the entries are hashed.\<close>

fun index_from :: "nat \<Rightarrow> ('k, 'v) bucket_entry list \<Rightarrow> ('k \<rightharpoonup> nat) \<Rightarrow> ('k \<rightharpoonup> nat)" where
  "index_from idx [] m = m"
| "index_from idx (e # es) m =
     index_from (Suc idx) es (case entry_key e of Some k \<Rightarrow> m(k \<mapsto> idx) | None \<Rightarrow> m)"

definition metadata_prefix :: "('k, 'v) bucket_entry list \<Rightarrow> nat" where
  "metadata_prefix es = length (takeWhile is_metadata es)"

definition bucket_empty :: "('k, 'v) bucket" where
  "bucket_empty = \<lparr>hash_is_zero = True, storage = [], key_index = Map.empty, level_zero = SharedWithStorage 0\<rparr>"

definition from_sorted_entries :: "('k :: linorder, 'v) bucket_entry list \<Rightarrow> bucket_error + ('k, 'v) bucket" where
  "from_sorted_entries es =
     bindE (assert_sorted_no_duplicates es) (\<lambda>_.
       Inr \<lparr>hash_is_zero = False, storage = es, key_index = index_from 0 es Map.empty, level_zero = NoEntries\<rparr>)"

definition from_entries :: "('k :: linorder, 'v) bucket_entry list \<Rightarrow> bucket_error + ('k, 'v) bucket" where
  "from_entries es = from_sorted_entries (sort_key entry_key es)"

definition from_parts ::
  "('k :: linorder, 'v) bucket_entry list \<Rightarrow> ('k \<rightharpoonup> nat) \<Rightarrow> nat \<Rightarrow> bucket_error + ('k, 'v) bucket" where
  "from_parts es index metadata_count =
     bindE (validate_all es new_validator) (\<lambda>_.
       Inr \<lparr>hash_is_zero = False, storage = es, key_index = index, level_zero = SharedWithStorage metadata_count\<rparr>)"

definition fresh_in_memory_only :: "('k :: linorder, 'v) bucket_entry list \<Rightarrow> bucket_error + ('k, 'v) bucket" where
  "fresh_in_memory_only es =
     bindE (assert_sorted_no_duplicates es) (\<lambda>_.
       Inr \<lparr>hash_is_zero = True, storage = es, key_index = Map.empty,
         level_zero = SharedWithStorage (metadata_prefix es)\<rparr>)"

definition from_sorted_entries_with_in_memory ::
  "('k :: linorder, 'v) bucket_entry list \<Rightarrow> bucket_error + ('k, 'v) bucket" where
  "from_sorted_entries_with_in_memory es =
     bindE (assert_sorted_no_duplicates es) (\<lambda>_.
       Inr \<lparr>hash_is_zero = False, storage = es, key_index = index_from 0 es Map.empty,
         level_zero = SharedWithStorage (metadata_prefix es)\<rparr>)"

definition is_empty_bucket :: "('k, 'v) bucket \<Rightarrow> bool" where
  "is_empty_bucket b \<longleftrightarrow> hash_is_zero b \<or> storage b = []"

text \<open>Iteration yields results, since a disk-backed bucket may fail to read.\<close>

definition bucket_iter :: "('k, 'v) bucket \<Rightarrow> (bucket_error + ('k, 'v) bucket_entry) list" where
  "bucket_iter b = map Inr (storage b)"

definition bucket_get :: "'k \<Rightarrow> ('k, 'v) bucket \<Rightarrow> ('k, 'v) bucket_entry option" where
  "bucket_get k b =
     (case key_index b k of
        None \<Rightarrow> None
      | Some idx \<Rightarrow> if idx < length (storage b) then Some (storage b ! idx) else None)"

definition get_entry :: "'k \<Rightarrow> ('k, 'v) bucket \<Rightarrow> ('k, 'v) ledger_entry option" where
  "get_entry k b =
     (case bucket_get k b of
        Some (Liveentry e) \<Rightarrow> Some e
      | Some (Initentry e) \<Rightarrow> Some e
      | _ \<Rightarrow> None)"

definition bucket_protocol_version :: "('k, 'v) bucket \<Rightarrow> u32 option" where
  "bucket_protocol_version b =
     (if is_empty_bucket b then None
      else case List.find is_metadata (storage b) of
             Some (Metaentry m) \<Rightarrow> Some (ledger_version m)
           | _ \<Rightarrow> None)"

definition has_in_memory_entries :: "('k, 'v) bucket \<Rightarrow> bool" where
  "has_in_memory_entries b \<longleftrightarrow> level_zero b \<noteq> NoEntries"

text \<open>A slice that starts past the end panics.\<close>

definition get_in_memory_entries :: "('k, 'v) bucket \<Rightarrow> bucket_error + ('k, 'v) bucket_entry list option" where
  "get_in_memory_entries b =
     (case level_zero b of
        NoEntries \<Rightarrow> Inr None
      | Separate es \<Rightarrow> Inr (Some es)
      | SharedWithStorage n \<Rightarrow> if n > length (storage b) then Inl BucketPanic else Inr (Some (drop n (storage b))))"

definition clear_in_memory_entries :: "('k, 'v) bucket \<Rightarrow> ('k, 'v) bucket" where
  "clear_in_memory_entries b = b\<lparr>level_zero := NoEntries\<rparr>"

section \<open>Sorted entries\<close>

text \<open>The order of entries is the order of their keys, metadata first.\<close>

abbreviation sorted_entries :: "('k :: linorder, 'v) bucket_entry list \<Rightarrow> bool" where
  "sorted_entries \<equiv> sorted_wrt (\<lambda>x y. entry_key x < entry_key y)"

lemma compare_entries_cmp: "compare_entries x y = cmp (entry_key x) (entry_key y)"
  by (auto simp: compare_entries_def compare_keys_def cmp_def split: option.splits)

lemma cmp_Less_iff: "cmp x y = Less \<longleftrightarrow> x < y" "cmp x y = Greater \<longleftrightarrow> y < x" "cmp x y = Equal \<longleftrightarrow> x = y"
  by (auto simp: cmp_def)

lemma transp_entry_order: "transp (\<lambda>x y. entry_key x < (entry_key y :: 'k :: linorder option))"
  by (auto intro: transpI)

lemma assert_sorted_iff: "assert_sorted_no_duplicates es = (if sorted_entries es then Inr () else Inl BucketMerge)"
proof (induction es rule: assert_sorted_no_duplicates.induct)
  case (1 x y es)
  then show ?case
    using sorted_wrt2 [OF transp_entry_order, of x y es] by (auto simp: compare_entries_cmp cmp_Less_iff)
qed simp_all

lemma metadata_key: "is_metadata e \<longleftrightarrow> entry_key e = None"
  by (cases e) simp_all

text \<open>The validator accepts the same lists: a key already seen bounds the rest from below.\<close>

lemma validate_all_iff:
  "validate_all es v = Inr v' \<Longrightarrow>
   (seen_keyed v \<longleftrightarrow> prev_key v \<noteq> None) \<Longrightarrow>
   sorted_entries es \<and> (seen_keyed v \<or> seen_metadata v \<longrightarrow> (\<forall>e\<in>set es. prev_key v < entry_key e))"
proof (induction es arbitrary: v)
  case (Cons e es)
  from Cons.prems(1) obtain v1 where v1: "validate e v = Inr v1" "validate_all es v1 = Inr v'"
    by (auto simp: bindE_Inr_iff)
  have inv: "seen_keyed v1 \<longleftrightarrow> prev_key v1 \<noteq> None"
    using v1(1) Cons.prems(2) by (auto simp: validate_def validate_key_def split: option.splits if_splits)
  have pk: "prev_key v1 = entry_key e" "seen_keyed v1 \<or> seen_metadata v1"
    using v1(1) Cons.prems(2) by (auto simp: validate_def validate_key_def split: option.splits if_splits)
  have lt: "seen_keyed v \<or> seen_metadata v \<Longrightarrow> prev_key v < entry_key e"
    using v1(1) Cons.prems(2)
    by (auto simp: validate_def validate_key_def compare_keys_def cmp_Less_iff split: option.splits if_splits)
  from Cons.IH [OF v1(2) inv] pk lt show ?case by (auto intro: less_trans)
qed simp

lemma validate_all_sorted:
  assumes "sorted_entries es"
  shows "\<exists>v'. validate_all es new_validator = Inr v'"
proof -
  have "\<exists>v'. validate_all es v = Inr v'"
    if "sorted_entries es" "seen_keyed v \<longleftrightarrow> prev_key v \<noteq> None"
      "seen_keyed v \<or> seen_metadata v \<Longrightarrow> (\<forall>e\<in>set es. prev_key v < entry_key e)" for v :: "'a validator"
    using that
  proof (induction es arbitrary: v)
    case (Cons e es)
    let ?v1 = "case entry_key e of Some k \<Rightarrow> v\<lparr>seen_keyed := True, prev_key := Some k\<rparr> | None \<Rightarrow> v\<lparr>seen_metadata := True\<rparr>"
    have v1: "validate e v = Inr ?v1"
      using Cons.prems(2,3)
      by (auto simp: validate_def validate_key_def compare_keys_def cmp_Less_iff split: option.splits)
    have "prev_key ?v1 = entry_key e \<and> (seen_keyed ?v1 \<longleftrightarrow> prev_key ?v1 \<noteq> None)"
      using Cons.prems(2,3) by (auto split: option.splits)
    then have "\<exists>v'. validate_all es ?v1 = Inr v'" using Cons.prems(1) by (intro Cons.IH) auto
    with v1 show ?case by simp
  qed simp
  from this [OF assms, of new_validator] show ?thesis by (simp add: new_validator_def)
qed

lemma validate_all_new: "(\<exists>v'. validate_all es new_validator = Inr v') \<longleftrightarrow> sorted_entries es"
  using validate_all_sorted validate_all_iff [of es new_validator] by (auto simp: new_validator_def)

end
