(* ===== verification/Bucket_Merge.thy ===== *)
theory Bucket_Merge
  imports Bucket_Entries
begin

text \<open>
  Merging buckets with the semantics of CAP-0020 (\<open>crates/bucket/src/merge.rs\<close>). Merge counters are
  instrumentation and left out. A closure \<open>FnMut(BucketEntry) -> Result<()>\<close> is a function on an explicit state.
\<close>

section \<open>Policies\<close>

datatype dead_entry_policy = KeepDead | RemoveDead
datatype init_entry_policy = Preserve | NormalizeToLive
datatype metadata_policy = InputDerived | CurrentProtocol

fun should_keep :: "dead_entry_policy \<Rightarrow> bool" where
  "should_keep KeepDead = True"
| "should_keep RemoveDead = False"

fun should_normalize :: "init_entry_policy \<Rightarrow> bool" where
  "should_normalize NormalizeToLive = True"
| "should_normalize Preserve = False"

record ('k, 'v) merge_options =
  keep_dead_entries :: dead_entry_policy
  max_protocol_version :: u32
  normalize_init_entries :: init_entry_policy
  shadow_buckets :: "('k, 'v) bucket list"
  opt_metadata_policy :: metadata_policy

section \<open>Entries\<close>

fun should_keep_entry :: "('k, 'v) bucket_entry \<Rightarrow> dead_entry_policy \<Rightarrow> bool" where
  "should_keep_entry (Deadentry k) keep = should_keep keep"
| "should_keep_entry _ keep = True"

fun normalize_entry :: "('k, 'v) bucket_entry \<Rightarrow> ('k, 'v) bucket_entry" where
  "normalize_entry (Initentry e) = Liveentry e"
| "normalize_entry other = other"

definition maybe_normalize_entry :: "('k, 'v) bucket_entry \<Rightarrow> init_entry_policy \<Rightarrow> ('k, 'v) bucket_entry" where
  "maybe_normalize_entry e norm = (if should_normalize norm then normalize_entry e else e)"

text \<open>A new INIT over an entry that is not DEAD panics.\<close>

fun merge_entries ::
  "('k, 'v) bucket_entry \<Rightarrow> ('k, 'v) bucket_entry \<Rightarrow> dead_entry_policy \<Rightarrow> bucket_error + ('k, 'v) bucket_entry option" where
  "merge_entries (Initentry _) (Deadentry _) keep = Inr None"
| "merge_entries (Deadentry _) (Initentry e) keep = Inr (Some (Liveentry e))"
| "merge_entries (Initentry _) (Liveentry e) keep = Inr (Some (Initentry e))"
| "merge_entries (Liveentry _) (Liveentry e) keep = Inr (Some (Liveentry e))"
| "merge_entries (Deadentry _) (Liveentry e) keep = Inr (Some (Liveentry e))"
| "merge_entries _ (Initentry _) keep = Inl BucketPanic"
| "merge_entries (Liveentry _) (Deadentry k) keep = Inr (if should_keep keep then Some (Deadentry k) else None)"
| "merge_entries (Deadentry _) (Deadentry k) keep = Inr (if should_keep keep then Some (Deadentry k) else None)"
| "merge_entries (Metaentry _) _ keep = Inr None"
| "merge_entries _ (Metaentry _) keep = Inr None"

section \<open>The merge loop\<close>

type_synonym ('k, 'v) entry_stream = "(bucket_error + ('k, 'v) bucket_entry) list"

fun not_metadata :: "bucket_error + ('k, 'v) bucket_entry \<Rightarrow> bool" where
  "not_metadata (Inl _) = True"
| "not_metadata (Inr e) = (\<not> is_metadata e)"

text \<open>What the loop does with an entry taken from the old or from the new side alone.\<close>

definition pass_old ::
  "dead_entry_policy \<Rightarrow> (('k, 'v) bucket_entry \<Rightarrow> 's \<Rightarrow> bucket_error + 's) \<Rightarrow> ('k, 'v) bucket_entry \<Rightarrow> 's \<Rightarrow> bucket_error + 's" where
  "pass_old keep emit e s = (if should_keep_entry e keep then emit e s else Inr s)"

definition pass_new ::
  "dead_entry_policy \<Rightarrow> init_entry_policy \<Rightarrow> (('k, 'v) bucket_entry \<Rightarrow> 's \<Rightarrow> bucket_error + 's)
    \<Rightarrow> ('k, 'v) bucket_entry \<Rightarrow> 's \<Rightarrow> bucket_error + 's" where
  "pass_new keep norm emit e s =
     (if should_keep_entry e keep then emit (maybe_normalize_entry e norm) s else Inr s)"

definition pass_both ::
  "dead_entry_policy \<Rightarrow> (('k, 'v) bucket_entry \<Rightarrow> 's \<Rightarrow> bucket_error + 's)
    \<Rightarrow> ('k, 'v) bucket_entry \<Rightarrow> ('k, 'v) bucket_entry \<Rightarrow> 's \<Rightarrow> bucket_error + 's" where
  "pass_both keep emit old new s =
     bindE (merge_entries old new keep) (\<lambda>merged. case merged of Some e \<Rightarrow> emit e s | None \<Rightarrow> Inr s)"

function merge_loop ::
  "dead_entry_policy \<Rightarrow> init_entry_policy \<Rightarrow> (('k :: linorder, 'v) bucket_entry \<Rightarrow> 's \<Rightarrow> bucket_error + 's)
    \<Rightarrow> ('k, 'v) entry_stream \<Rightarrow> ('k, 'v) entry_stream \<Rightarrow> 's \<Rightarrow> bucket_error + 's" where
  "merge_loop keep norm emit [] [] s = Inr s"
| "merge_loop keep norm emit (old # olds) [] s =
     bindE old (\<lambda>e. bindE (pass_old keep emit e s) (merge_loop keep norm emit olds []))"
| "merge_loop keep norm emit [] (new # news) s =
     bindE new (\<lambda>e. bindE (pass_new keep norm emit e s) (merge_loop keep norm emit [] news))"
| "merge_loop keep norm emit (old # olds) (new # news) s =
     bindE old (\<lambda>oe. bindE new (\<lambda>ne.
       case (entry_key oe, entry_key ne) of
         (Some ok, Some nk) \<Rightarrow>
           (case compare_keys ok nk of
              Less \<Rightarrow> bindE (pass_old keep emit oe s) (merge_loop keep norm emit olds (new # news))
            | Greater \<Rightarrow> bindE (pass_new keep norm emit ne s) (merge_loop keep norm emit (old # olds) news)
            | Equal \<Rightarrow> bindE (pass_both keep emit oe ne s) (merge_loop keep norm emit olds news))
       | (None, Some _) \<Rightarrow> merge_loop keep norm emit olds (new # news) s
       | (Some _, None) \<Rightarrow> merge_loop keep norm emit (old # olds) news s
       | (None, None) \<Rightarrow> merge_loop keep norm emit olds news s))"
  by pat_completeness auto

termination
  by (relation "measure (\<lambda>(_, _, _, olds, news, _). length olds + length news)") auto

definition two_pointer_merge ::
  "('k :: linorder, 'v) entry_stream \<Rightarrow> ('k, 'v) entry_stream \<Rightarrow> dead_entry_policy \<Rightarrow> init_entry_policy
    \<Rightarrow> (('k, 'v) bucket_entry \<Rightarrow> 's \<Rightarrow> bucket_error + 's) \<Rightarrow> 's \<Rightarrow> bucket_error + 's" where
  "two_pointer_merge old_iter new_iter keep norm emit s =
     merge_loop keep norm emit (filter not_metadata old_iter) (filter not_metadata new_iter) s"

section \<open>Output metadata\<close>

definition extract_metadata :: "('k, 'v) bucket_entry list \<Rightarrow> bucket_metadata option" where
  "extract_metadata es = (case List.find is_metadata es of Some (Metaentry m) \<Rightarrow> Some m | _ \<Rightarrow> None)"

text \<open>The metadata at the head of a stream, and the rest from the first other entry on.\<close>

fun advance_skip_metadata ::
  "bucket_metadata option \<Rightarrow> ('k, 'v) entry_stream \<Rightarrow> bucket_error + (bucket_metadata option \<times> ('k, 'v) entry_stream)" where
  "advance_skip_metadata meta [] = Inr (meta, [])"
| "advance_skip_metadata meta (Inl err # es) = Inl err"
| "advance_skip_metadata meta (Inr e # es) =
     (case e of Metaentry m \<Rightarrow> advance_skip_metadata (Some m) es | _ \<Rightarrow> Inr (meta, Inr e # es))"

text \<open>Protocols from 11 on carry metadata, from 23 on with the type of the list.\<close>

definition metadata_for :: "u32 \<Rightarrow> bucket_list_type \<Rightarrow> bucket_metadata option" where
  "metadata_for version ty =
     (if version \<ge> 11 then Some \<lparr>ledger_version = version, meta_ext = (if version \<ge> 23 then MetaV1 ty else MetaV0)\<rparr>
      else None)"

definition build_output_metadata ::
  "bucket_metadata option \<Rightarrow> bucket_metadata option \<Rightarrow> u32 \<Rightarrow> metadata_policy
    \<Rightarrow> bucket_error + (u32 \<times> ('k, 'v) bucket_entry option)" where
  "build_output_metadata old_meta new_meta max_version policy =
     bindE
       (case policy of
          InputDerived \<Rightarrow>
            let version = max (case old_meta of Some m \<Rightarrow> ledger_version m | None \<Rightarrow> 0)
                              (case new_meta of Some m \<Rightarrow> ledger_version m | None \<Rightarrow> 0)
            in if max_version > 0 \<and> version > max_version then Inl BucketMerge else Inr version
        | CurrentProtocol \<Rightarrow> Inr max_version)
       (\<lambda>version. Inr (version, map_option Metaentry (metadata_for version LiveList)))"

section \<open>Shadows\<close>

text \<open>A cursor is what is left of a shadow bucket, its current entry first.\<close>

type_synonym ('k, 'v) shadow_cursor = "('k, 'v) bucket_entry list"

definition next_non_meta :: "('k, 'v) bucket_entry list \<Rightarrow> ('k, 'v) shadow_cursor" where
  "next_non_meta es = dropWhile is_metadata es"

function advance_to_key_or_after :: "'k :: linorder \<Rightarrow> ('k, 'v) shadow_cursor \<Rightarrow> bool \<times> ('k, 'v) shadow_cursor" where
  "advance_to_key_or_after k [] = (False, [])"
| "advance_to_key_or_after k (e # es) =
     (case entry_key e of
        None \<Rightarrow> advance_to_key_or_after k (next_non_meta es)
      | Some ek \<Rightarrow>
          (case compare_keys ek k of
             Less \<Rightarrow> advance_to_key_or_after k (next_non_meta es)
           | Equal \<Rightarrow> (True, e # es)
           | Greater \<Rightarrow> (False, e # es)))"
  by pat_completeness auto

termination
  by (relation "measure (\<lambda>(k, es). length es)")
    (auto simp: next_non_meta_def intro: le_imp_less_Suc length_dropWhile_le)

fun shadowed_by :: "'k :: linorder \<Rightarrow> ('k, 'v) shadow_cursor list \<Rightarrow> bool \<times> ('k, 'v) shadow_cursor list" where
  "shadowed_by k [] = (False, [])"
| "shadowed_by k (c # cs) =
     (case advance_to_key_or_after k c of
        (True, c') \<Rightarrow> (True, c' # cs)
      | (False, c') \<Rightarrow> (case shadowed_by k cs of (found, cs') \<Rightarrow> (found, c' # cs')))"

definition is_shadowed ::
  "('k :: linorder, 'v) bucket_entry \<Rightarrow> ('k, 'v) shadow_cursor list \<Rightarrow> bool \<times> ('k, 'v) shadow_cursor list" where
  "is_shadowed e cursors = (case entry_key e of None \<Rightarrow> (False, cursors) | Some k \<Rightarrow> shadowed_by k cursors)"

definition maybe_put ::
  "('k :: linorder, 'v) bucket_entry \<Rightarrow> bool \<Rightarrow> ('k, 'v) shadow_cursor list
    \<Rightarrow> ('k, 'v) bucket_entry option \<times> ('k, 'v) shadow_cursor list" where
  "maybe_put e keep_lifecycle cursors =
     (if cursors \<noteq> [] \<and> \<not> (keep_lifecycle \<and> (is_init e \<or> is_dead e))
      then (case is_shadowed e cursors of (found, cursors') \<Rightarrow> (if found then None else Some e, cursors'))
      else (Some e, cursors))"

section \<open>Merging two buckets\<close>

text \<open>The closure of \<open>merge_with_shadows_impl\<close>: its state is the cursors and the vector \<open>merged\<close>.\<close>

definition put_merged ::
  "bool \<Rightarrow> ('k :: linorder, 'v) bucket_entry \<Rightarrow> ('k, 'v) shadow_cursor list \<times> ('k, 'v) bucket_entry list
    \<Rightarrow> bucket_error + (('k, 'v) shadow_cursor list \<times> ('k, 'v) bucket_entry list)" where
  "put_merged keep_lifecycle e s =
     (case s of (cursors, merged) \<Rightarrow>
        (case maybe_put e keep_lifecycle cursors of
           (Some e', cursors') \<Rightarrow> Inr (cursors', merged @ [e'])
         | (None, cursors') \<Rightarrow> Inr (cursors', merged)))"

definition merge_with_shadows_impl ::
  "('k :: linorder, 'v) bucket \<Rightarrow> ('k, 'v) bucket \<Rightarrow> ('k, 'v) bucket list \<Rightarrow> bool \<Rightarrow> ('k, 'v) merge_options
    \<Rightarrow> bucket_error + ('k, 'v) bucket" where
  "merge_with_shadows_impl old_bucket new_bucket shadows keep_lifecycle opts =
     (if is_empty_bucket new_bucket \<and> is_empty_bucket old_bucket then Inr bucket_empty
      else
        bindE (advance_skip_metadata None (bucket_iter old_bucket)) (\<lambda>(old_meta, old_rest).
        bindE (advance_skip_metadata None (bucket_iter new_bucket)) (\<lambda>(new_meta, new_rest).
        bindE (build_output_metadata old_meta new_meta (max_protocol_version opts) (opt_metadata_policy opts))
          (\<lambda>(_, output_meta).
        bindE (two_pointer_merge old_rest new_rest (keep_dead_entries opts) (normalize_init_entries opts)
                 (put_merged keep_lifecycle)
                 (map (\<lambda>b. next_non_meta (storage b)) shadows, case output_meta of Some m \<Rightarrow> [m] | None \<Rightarrow> []))
          (\<lambda>(_, merged).
             if merged = []
             then (case output_meta of Some m \<Rightarrow> from_sorted_entries [m] | None \<Rightarrow> Inr bucket_empty)
             else from_sorted_entries merged)))))"

definition merge_buckets ::
  "('k :: linorder, 'v) bucket \<Rightarrow> ('k, 'v) bucket \<Rightarrow> ('k, 'v) merge_options \<Rightarrow> bucket_error + ('k, 'v) bucket" where
  "merge_buckets old_bucket new_bucket opts =
     (let effective_shadows =
            (if shadow_buckets opts = [] \<or> max_protocol_version opts \<ge> 12 then [] else shadow_buckets opts);
          keep_lifecycle = (effective_shadows \<noteq> [] \<and> max_protocol_version opts \<ge> 11)
      in merge_with_shadows_impl old_bucket new_bucket effective_shadows keep_lifecycle opts)"

text \<open>What \<open>merge_buckets_to_file\<close> writes: the entries of the file, in order. Writing does not fail here.\<close>

definition merge_buckets_to_file ::
  "('k :: linorder, 'v) bucket \<Rightarrow> ('k, 'v) bucket \<Rightarrow> ('k, 'v) merge_options \<Rightarrow> bucket_error + ('k, 'v) bucket_entry list" where
  "merge_buckets_to_file old_bucket new_bucket opts =
     (if is_empty_bucket new_bucket \<and> is_empty_bucket old_bucket then Inr []
      else
        bindE (advance_skip_metadata None (bucket_iter old_bucket)) (\<lambda>(old_meta, old_rest).
        bindE (advance_skip_metadata None (bucket_iter new_bucket)) (\<lambda>(new_meta, new_rest).
        bindE (build_output_metadata old_meta new_meta (max_protocol_version opts) (opt_metadata_policy opts))
          (\<lambda>(_, output_meta).
             two_pointer_merge old_rest new_rest (keep_dead_entries opts) (normalize_init_entries opts)
               (\<lambda>e file. Inr (file @ [e])) (case output_meta of Some m \<Rightarrow> [m] | None \<Rightarrow> [])))))"

text \<open>The closure \<open>add_entry\<close> of \<open>merge_in_memory\<close> keeps the index, the entries and their number.\<close>

definition add_entry ::
  "('k, 'v) bucket_entry \<Rightarrow> ('k \<rightharpoonup> nat) \<times> ('k, 'v) bucket_entry list \<times> nat
    \<Rightarrow> bucket_error + (('k \<rightharpoonup> nat) \<times> ('k, 'v) bucket_entry list \<times> nat)" where
  "add_entry e s =
     (case s of (index, all_entries, entry_idx) \<Rightarrow>
        Inr (case entry_key e of
               Some k \<Rightarrow> (if \<not> is_metadata e then index(k \<mapsto> entry_idx) else index)
             | None \<Rightarrow> index,
             all_entries @ [e], entry_idx + 1))"

definition merge_in_memory ::
  "('k :: linorder, 'v) bucket \<Rightarrow> ('k, 'v) bucket \<Rightarrow> u32 \<Rightarrow> bucket_error + ('k, 'v) bucket" where
  "merge_in_memory old_bucket new_bucket max_version =
     (if \<not> has_in_memory_entries old_bucket \<or> \<not> has_in_memory_entries new_bucket then Inl BucketPanic
      else
        bindE (get_in_memory_entries old_bucket) (\<lambda>old_entries.
        bindE (get_in_memory_entries new_bucket) (\<lambda>new_entries.
          case (old_entries, new_entries) of
            (Some olds, Some news) \<Rightarrow>
              let output_meta = map_option Metaentry (metadata_for max_version LiveList);
                  metadata_count = (if output_meta \<noteq> None then 1 else 0)
              in bindE (case output_meta of
                          Some m \<Rightarrow> add_entry m (Map.empty, [], 0)
                        | None \<Rightarrow> Inr (Map.empty, [], 0)) (\<lambda>s.
                 bindE (two_pointer_merge (map Inr olds) (map Inr news) KeepDead Preserve add_entry s)
                   (\<lambda>(index, all_entries, _).
                      if all_entries = [] then Inr bucket_empty
                      else from_parts all_entries index metadata_count))
          | _ \<Rightarrow> Inl BucketPanic)))"

text \<open>\<open>MergeIterator::new\<close>: the entries it will yield.\<close>

definition merge_iterator ::
  "('k :: linorder, 'v) bucket \<Rightarrow> ('k, 'v) bucket \<Rightarrow> dead_entry_policy \<Rightarrow> u32 \<Rightarrow> bucket_error + ('k, 'v) bucket_entry list" where
  "merge_iterator old_bucket new_bucket keep max_version =
     bindE (build_output_metadata (extract_metadata (storage old_bucket)) (extract_metadata (storage new_bucket))
              max_version InputDerived) (\<lambda>(_, output_meta).
       two_pointer_merge (bucket_iter old_bucket) (bucket_iter new_bucket) keep NormalizeToLive
         (\<lambda>e merged. Inr (merged @ [e])) (case output_meta of Some m \<Rightarrow> [m] | None \<Rightarrow> []))"

fun merge_rest ::
  "dead_entry_policy \<Rightarrow> u32 \<Rightarrow> ('k :: linorder, 'v) bucket list \<Rightarrow> ('k, 'v) bucket \<Rightarrow> bucket_error + ('k, 'v) bucket" where
  "merge_rest keep max_version [] result = Inr result"
| "merge_rest keep max_version (b # bs) result =
     bindE (merge_buckets result b
       \<lparr>keep_dead_entries = keep, max_protocol_version = max_version, normalize_init_entries = NormalizeToLive,
        shadow_buckets = [], opt_metadata_policy = InputDerived\<rparr>) (merge_rest keep max_version bs)"

fun merge_multiple ::
  "('k :: linorder, 'v) bucket list \<Rightarrow> dead_entry_policy \<Rightarrow> u32 \<Rightarrow> bucket_error + ('k, 'v) bucket" where
  "merge_multiple [] keep max_version = Inr bucket_empty"
| "merge_multiple (b # bs) keep max_version = merge_rest keep max_version bs b"

end
