(* ===== verification/Bucket_Merge_Correct.thy ===== *)
theory Bucket_Merge_Correct
  imports Bucket_Merge "HOL-Library.Sublist"
begin

text \<open>
  Merging is correct: the output is a well-formed bucket, each key's entry is determined by the entries
  of the two inputs, and the four implementations of a merge agree.
\<close>

section \<open>The merge of two lists\<close>

text \<open>The reference: a merge of sorted lists without metadata.\<close>

fun merged ::
  "dead_entry_policy \<Rightarrow> init_entry_policy \<Rightarrow> ('k :: linorder, 'v) bucket_entry list \<Rightarrow> ('k, 'v) bucket_entry list
    \<Rightarrow> bucket_error + ('k, 'v) bucket_entry list" where
  "merged keep norm [] news = Inr (map (\<lambda>e. maybe_normalize_entry e norm) (filter (\<lambda>e. should_keep_entry e keep) news))"
| "merged keep norm olds [] = Inr (filter (\<lambda>e. should_keep_entry e keep) olds)"
| "merged keep norm (old # olds) (new # news) =
     (if entry_key old < entry_key new
      then bindE (merged keep norm olds (new # news)) (\<lambda>es. Inr (if should_keep_entry old keep then old # es else es))
      else if entry_key new < entry_key old
      then bindE (merged keep norm (old # olds) news)
             (\<lambda>es. Inr (if should_keep_entry new keep then maybe_normalize_entry new norm # es else es))
      else bindE (merge_entries old new keep) (\<lambda>m. bindE (merged keep norm olds news)
             (\<lambda>es. Inr (case m of Some e \<Rightarrow> e # es | None \<Rightarrow> es))))"

lemma merged_Nil2: "merged keep norm olds [] = Inr (filter (\<lambda>e. should_keep_entry e keep) olds)"
  by (cases olds) simp_all

lemma merged_Less:
  "entry_key old < entry_key new \<Longrightarrow> merged keep norm (old # olds) (new # news) =
     bindE (merged keep norm olds (new # news)) (\<lambda>es. Inr (if should_keep_entry old keep then old # es else es))"
  by simp

lemma merged_Greater:
  "entry_key new < entry_key old \<Longrightarrow> merged keep norm (old # olds) (new # news) =
     bindE (merged keep norm (old # olds) news)
       (\<lambda>es. Inr (if should_keep_entry new keep then maybe_normalize_entry new norm # es else es))"
  using order_less_not_sym [of "entry_key new" "entry_key old"] by simp

lemma merged_Equal:
  "entry_key old = entry_key new \<Longrightarrow> merged keep norm (old # olds) (new # news) =
     bindE (merge_entries old new keep) (\<lambda>m. bindE (merged keep norm olds news)
       (\<lambda>es. Inr (case m of Some e \<Rightarrow> e # es | None \<Rightarrow> es)))"
  by simp

lemma bindE_assoc [simp]: "bindE (bindE m f) g = bindE m (\<lambda>x. bindE (f x) g)"
  by (cases m) simp_all

lemma merge_entries_error: "merge_entries old new keep = Inl e \<Longrightarrow> e = BucketPanic \<and> is_init new \<and> \<not> is_dead old"
  by (cases "(old, new, keep)" rule: merge_entries.cases) auto

lemma merged_error: "merged keep norm olds news = Inl e \<Longrightarrow> e = BucketPanic"
  by (induction keep norm olds news rule: merged.induct)
    (auto simp: bindE_Inl_iff dest: merge_entries_error split: if_splits)

text \<open>With a closure that does not fail, the loop folds it over the merge of the two lists.\<close>

lemma merge_loop_merged:
  assumes "\<And>e s. emit e s = Inr (f e s)"
  shows "(\<forall>e\<in>set olds \<union> set news. \<not> is_metadata e) \<Longrightarrow>
    merge_loop keep norm emit (map Inr olds) (map Inr news) s
      = bindE (merged keep norm olds news) (\<lambda>es. Inr (fold f es s))"
proof (induction keep norm olds news arbitrary: s rule: merged.induct)
  case (1 keep norm news)
  then show ?case
    by (induction news arbitrary: s) (simp_all add: pass_new_def assms)
next
  case (2 keep norm old olds)
  have "merge_loop keep norm emit (map Inr es) [] s = Inr (fold f (filter (\<lambda>e. should_keep_entry e keep) es) s)" for es s
    by (induction es arbitrary: s) (simp_all add: pass_old_def assms)
  from this [of "old # olds"] show ?case by simp
next
  case (3 keep norm old olds new news)
  from 3(4) obtain ok nk where keys: "entry_key old = Some ok" "entry_key new = Some nk"
    by (auto simp: metadata_key)
  consider "ok < nk" | "nk < ok" | "ok = nk" by (meson linorder_less_linear)
  then show ?case
  proof cases
    case 1
    then have "compare_keys ok nk = Less" by (simp add: compare_keys_def cmp_Less_iff)
    with 1 3(1,4) keys show ?thesis by (simp add: pass_old_def assms)
  next
    case 2
    then have "compare_keys ok nk = Greater" "\<not> ok < nk" by (simp_all add: compare_keys_def cmp_Less_iff)
    with 2 3(2,4) keys show ?thesis by (simp add: pass_new_def assms)
  next
    case eq: 3
    then have "compare_keys ok nk = Equal" by (simp add: compare_keys_def cmp_Less_iff)
    with eq 3(3,4) keys show ?thesis
      by (cases "merge_entries old new keep") (auto simp: pass_both_def assms split: option.splits)
  qed
qed

section \<open>Keys\<close>

lemma should_keep_key: "should_keep_entry e KeepDead" "should_keep_entry e keep \<or> is_dead e"
  by (cases e; simp)+

lemma maybe_normalize_key [simp]: "entry_key (maybe_normalize_entry e norm) = entry_key e"
  by (cases e) (simp_all add: maybe_normalize_entry_def)

lemma merge_entries_key:
  "merge_entries old new keep = Inr (Some e) \<Longrightarrow> entry_key e = entry_key new"
  by (cases "(old, new, keep)" rule: merge_entries.cases) (auto split: if_splits)

lemma merged_keys:
  "merged keep norm olds news = Inr es \<Longrightarrow> e \<in> set es \<Longrightarrow> \<exists>x\<in>set olds \<union> set news. entry_key e = entry_key x"
proof (induction keep norm olds news arbitrary: es rule: merged.induct)
  case (3 keep norm old olds new news)
  then show ?case
    by (fastforce simp: bindE_Inr_iff dest: merge_entries_key split: if_splits option.splits)
qed (auto split: if_splits)

lemma merged_sorted:
  "merged keep norm olds news = Inr es \<Longrightarrow> sorted_entries olds \<Longrightarrow> sorted_entries news \<Longrightarrow> sorted_entries es"
proof (induction keep norm olds news arbitrary: es rule: merged.induct)
  case (1 keep norm news)
  then show ?case by (auto simp: sorted_wrt_map sorted_wrt_filter)
next
  case (2 keep norm old olds)
  then show ?case by (auto simp: sorted_wrt_filter)
next
  case (3 keep norm old olds new news)
  note sorted = 3(5,6)
  consider "entry_key old < entry_key new" | "entry_key new < entry_key old" | "entry_key old = entry_key new"
    by (meson linorder_less_linear)
  then show ?case
  proof cases
    case 1
    with 3(4) obtain r where r: "merged keep norm olds (new # news) = Inr r"
      and es: "es = (if should_keep_entry old keep then old # r else r)"
      by (auto simp: merged_Less [OF 1] bindE_Inr_iff simp del: merged.simps(3))
    from 3(1) [OF 1 r] sorted have "sorted_entries r" by simp
    moreover have "entry_key old < entry_key e" if "e \<in> set r" for e
      using merged_keys [OF r that] 1 sorted by (auto intro: less_trans)
    ultimately show ?thesis by (simp add: es)
  next
    case 2
    with 3(4) obtain r where r: "merged keep norm (old # olds) news = Inr r"
      and es: "es = (if should_keep_entry new keep then maybe_normalize_entry new norm # r else r)"
      by (auto simp: merged_Greater [OF 2] bindE_Inr_iff simp del: merged.simps(3))
    have "\<not> entry_key old < entry_key new" using 2 by simp
    from 3(2) [OF this 2 r] sorted have "sorted_entries r" by simp
    moreover have "entry_key new < entry_key e" if "e \<in> set r" for e
      using merged_keys [OF r that] 2 sorted by (auto intro: less_trans)
    ultimately show ?thesis by (simp add: es)
  next
    case eq: 3
    with 3(4) obtain m r where m: "merge_entries old new keep = Inr m" and r: "merged keep norm olds news = Inr r"
      and es: "es = (case m of Some e \<Rightarrow> e # r | None \<Rightarrow> r)"
      by (auto simp: merged_Equal bindE_Inr_iff simp del: merged.simps(3))
    have "\<not> entry_key old < entry_key new" "\<not> entry_key new < entry_key old" using eq by simp_all
    from 3(3) [OF this r] sorted have "sorted_entries r" by simp
    moreover have "entry_key new < entry_key e" if "e \<in> set r" for e
      using merged_keys [OF r that] eq sorted by auto
    ultimately show ?thesis using m by (auto simp: es dest: merge_entries_key split: option.splits)
  qed
qed

section \<open>The entry of a key\<close>

definition raw :: "('k, 'v) bucket_entry list \<Rightarrow> 'k \<Rightarrow> ('k, 'v) bucket_entry option" where
  "raw es k = List.find (\<lambda>e. entry_key e = Some k) es"

lemma raw_simps [simp]:
  "raw [] k = None" "raw (e # es) k = (if entry_key e = Some k then Some e else raw es k)"
  by (simp_all add: raw_def)

lemma raw_None: "raw es k = None \<longleftrightarrow> (\<forall>e\<in>set es. entry_key e \<noteq> Some k)"
  by (induction es) auto

lemma raw_Some: "raw es k = Some e \<Longrightarrow> e \<in> set es \<and> entry_key e = Some k"
  by (induction es) (auto split: if_splits)

lemma raw_below: "\<forall>e\<in>set es. x < entry_key e \<Longrightarrow> x = Some k \<Longrightarrow> raw es k = None"
  by (auto simp: raw_None)

text \<open>What the entries of a key in the old and in the new bucket are merged to.\<close>

definition merged_at ::
  "dead_entry_policy \<Rightarrow> init_entry_policy \<Rightarrow> ('k, 'v) bucket_entry option \<Rightarrow> ('k, 'v) bucket_entry option
    \<Rightarrow> ('k, 'v) bucket_entry option" where
  "merged_at keep norm old new =
     (case (old, new) of
        (None, None) \<Rightarrow> None
      | (Some x, None) \<Rightarrow> if should_keep_entry x keep then Some x else None
      | (None, Some y) \<Rightarrow> if should_keep_entry y keep then Some (maybe_normalize_entry y norm) else None
      | (Some x, Some y) \<Rightarrow> projr (merge_entries x y keep))"

lemma raw_filter_keep:
  "sorted_entries es \<Longrightarrow> raw (filter (\<lambda>e. should_keep_entry e keep) es) k = merged_at keep norm (raw es k) None"
  by (induction es) (auto simp: merged_at_def raw_None dest: raw_below split: option.splits)

lemma raw_filter_normalize:
  "sorted_entries es \<Longrightarrow>
   raw (map (\<lambda>e. maybe_normalize_entry e norm) (filter (\<lambda>e. should_keep_entry e keep) es)) k = merged_at keep norm None (raw es k)"
  by (induction es) (auto simp: merged_at_def raw_None dest: raw_below split: option.splits)

lemma raw_merged:
  "merged keep norm olds news = Inr es \<Longrightarrow> sorted_entries olds \<Longrightarrow> sorted_entries news \<Longrightarrow>
   (\<forall>e\<in>set olds \<union> set news. \<not> is_metadata e) \<Longrightarrow> raw es k = merged_at keep norm (raw olds k) (raw news k)"
proof (induction keep norm olds news arbitrary: es rule: merged.induct)
  case (1 keep norm news)
  then show ?case using raw_filter_normalize by auto
next
  case (2 keep norm old olds)
  then show ?case using raw_filter_keep [of "old # olds"] by auto
next
  case (3 keep norm old olds new news)
  note sorted = 3(5,6)
  consider "entry_key old < entry_key new" | "entry_key new < entry_key old" | "entry_key old = entry_key new"
    by (meson linorder_less_linear)
  then show ?case
  proof cases
    case 1
    with 3(4) obtain r where r: "merged keep norm olds (new # news) = Inr r"
      and es: "es = (if should_keep_entry old keep then old # r else r)"
      by (auto simp: merged_Less [OF 1] bindE_Inr_iff simp del: merged.simps(3))
    from 3(1) [OF 1 r] 3(7) sorted have IH: "raw r k = merged_at keep norm (raw olds k) (raw (new # news) k)" by simp
    show ?thesis
    proof (cases "entry_key old = Some k")
      case True
      have "raw (new # news) k = None" using 1 True sorted by (intro raw_below [of _ "entry_key old"]) (auto intro: less_trans)
      moreover have "raw olds k = None" using True sorted by (intro raw_below [of _ "entry_key old"]) auto
      ultimately show ?thesis using IH True by (auto simp: es merged_at_def split: option.splits)
    qed (use IH in \<open>simp add: es\<close>)
  next
    case 2
    with 3(4) obtain r where r: "merged keep norm (old # olds) news = Inr r"
      and es: "es = (if should_keep_entry new keep then maybe_normalize_entry new norm # r else r)"
      by (auto simp: merged_Greater [OF 2] bindE_Inr_iff simp del: merged.simps(3))
    have "\<not> entry_key old < entry_key new" using 2 by simp
    from 3(2) [OF this 2 r] 3(7) sorted have IH: "raw r k = merged_at keep norm (raw (old # olds) k) (raw news k)" by simp
    show ?thesis
    proof (cases "entry_key new = Some k")
      case True
      have "raw (old # olds) k = None" using 2 True sorted by (intro raw_below [of _ "entry_key new"]) (auto intro: less_trans)
      moreover have "raw news k = None" using True sorted by (intro raw_below [of _ "entry_key new"]) auto
      ultimately show ?thesis using IH True by (auto simp: es merged_at_def split: option.splits)
    qed (use IH in \<open>simp add: es\<close>)
  next
    case eq: 3
    with 3(4) obtain m r where m: "merge_entries old new keep = Inr m" and r: "merged keep norm olds news = Inr r"
      and es: "es = (case m of Some e \<Rightarrow> e # r | None \<Rightarrow> r)"
      by (auto simp: merged_Equal bindE_Inr_iff simp del: merged.simps(3))
    have "\<not> entry_key old < entry_key new" "\<not> entry_key new < entry_key old" using eq by simp_all
    from 3(3) [OF this r] 3(7) sorted have IH: "raw r k = merged_at keep norm (raw olds k) (raw news k)" by simp
    show ?thesis
    proof (cases "entry_key new = Some k")
      case True
      have "raw olds k = None" "raw news k = None"
        using True eq sorted by (auto intro!: raw_below [of _ "entry_key new"])
      then show ?thesis using IH True eq m
        by (auto simp: es merged_at_def dest: merge_entries_key split: option.splits)
    next
      case False
      then show ?thesis using IH eq m by (auto simp: es dest: merge_entries_key split: option.splits)
    qed
  qed
qed

text \<open>The merge fails only on a new INIT over an old entry that is not DEAD.\<close>

definition init_over_live :: "('k, 'v) bucket_entry option \<Rightarrow> ('k, 'v) bucket_entry option \<Rightarrow> bool" where
  "init_over_live old new \<longleftrightarrow> (\<exists>x y. old = Some x \<and> new = Some y \<and> is_init y \<and> \<not> is_dead x)"

lemma merged_fails:
  "merged keep norm olds news = Inl e \<Longrightarrow> sorted_entries olds \<Longrightarrow> sorted_entries news \<Longrightarrow>
   (\<forall>e\<in>set olds \<union> set news. \<not> is_metadata e) \<Longrightarrow> \<exists>k. init_over_live (raw olds k) (raw news k)"
proof (induction keep norm olds news rule: merged.induct)
  case (3 keep norm old olds new news)
  note sorted = 3(5,6)
  from 3(7) obtain ok nk where keys: "entry_key old = Some ok" "entry_key new = Some nk" by (auto simp: metadata_key)
  consider "ok < nk" | "nk < ok" | "ok = nk" by (meson linorder_less_linear)
  then show ?case
  proof cases
    case 1
    with 3(4) keys have "merged keep norm olds (new # news) = Inl e" by (simp add: bindE_Inl_iff)
    with 3(1) 1 keys 3(7) sorted obtain k where k: "init_over_live (raw olds k) (raw (new # news) k)" by auto
    then have "k \<noteq> ok" using 1 keys sorted by (auto simp: init_over_live_def dest!: raw_Some)
    with k keys show ?thesis by (intro exI [of _ k]) simp
  next
    case 2
    then have "entry_key new < entry_key old" using keys by simp
    with 3(4) have "merged keep norm (old # olds) news = Inl e"
      by (auto simp: merged_Greater bindE_Inl_iff simp del: merged.simps(3))
    moreover have "\<not> entry_key old < entry_key new" using 2 keys by simp
    ultimately have "\<exists>k. init_over_live (raw (old # olds) k) (raw news k)"
      using 3(2) 2 keys 3(7) sorted by simp
    then obtain k where k: "init_over_live (raw (old # olds) k) (raw news k)" by auto
    then have "k \<noteq> nk" using 2 keys sorted by (auto simp: init_over_live_def dest!: raw_Some)
    with k keys show ?thesis by (intro exI [of _ k]) simp
  next
    case eq: 3
    show ?thesis
    proof (cases "merge_entries old new keep")
      case (Inl x)
      with merge_entries_error [OF this] keys eq show ?thesis by (intro exI [of _ nk]) (simp add: init_over_live_def)
    next
      case (Inr m)
      with 3(4) eq keys have "merged keep norm olds news = Inl e" by (auto simp: bindE_Inl_iff)
      with 3(3) Inr eq keys 3(7) sorted obtain k where k: "init_over_live (raw olds k) (raw news k)" by auto
      then have "k \<noteq> nk" using keys sorted by (auto simp: init_over_live_def dest!: raw_Some)
      with k keys eq show ?thesis by (intro exI [of _ k]) simp
    qed
  qed
qed simp_all

end
