(* ===== verification/Bucket_Merge_Props.thy ===== *)
theory Bucket_Merge_Props
  imports Bucket_Merge_Correct
begin

text \<open>The properties of whole buckets that follow from the merge of two lists (C35 to C37).\<close>

section \<open>Well-formed buckets\<close>

definition bucket_wf :: "('k :: linorder, 'v) bucket \<Rightarrow> bool" where
  "bucket_wf b \<longleftrightarrow> sorted_entries (storage b) \<and> key_index b = index_from 0 (storage b) Map.empty \<and>
     (hash_is_zero b \<longrightarrow> storage b = []) \<and>
     (level_zero b = NoEntries \<or> level_zero b = SharedWithStorage (metadata_prefix (storage b)))"

abbreviation data :: "('k, 'v) bucket_entry list \<Rightarrow> ('k, 'v) bucket_entry list" where
  "data es \<equiv> filter (\<lambda>e. \<not> is_metadata e) es"

lemma sorted_tail_data: "sorted_entries (e # es) \<Longrightarrow> x \<in> set es \<Longrightarrow> \<not> is_metadata x"
  by (cases "entry_key x") (auto simp: metadata_key)

lemma sorted_tail_id: "sorted_entries (e # es) \<Longrightarrow> data es = es"
  using sorted_tail_data by (auto simp: filter_id_conv)

lemma sorted_data: "sorted_entries es \<Longrightarrow> sorted_entries (data es)"
  by (rule sorted_wrt_filter)

lemma raw_data: "raw (data es) k = raw es k"
  by (induction es) (auto simp: metadata_key)

lemma sorted_metadata_first:
  assumes "sorted_entries es" "\<forall>e\<in>set es. \<not> is_metadata e" "\<forall>e\<in>set ms. is_metadata e" "length ms \<le> 1"
  shows "sorted_entries (ms @ es)"
proof (cases ms)
  case (Cons m ms')
  with assms have "ms = [m]" "entry_key m = None" by (auto simp: metadata_key)
  with assms show ?thesis by (auto simp: metadata_key)
qed (use assms in simp)

lemma index_from_None: "raw es k = None \<Longrightarrow> index_from n es m k = m k"
  by (induction n es m rule: index_from.induct) (auto split: if_splits option.splits)

lemma index_from_Some:
  "raw es k = Some e \<Longrightarrow> sorted_entries es \<Longrightarrow> \<exists>i<length es. index_from n es m k = Some (n + i) \<and> es ! i = e"
proof (induction n es m rule: index_from.induct)
  case (2 n x es m)
  show ?case
  proof (cases "entry_key x = Some k")
    case True
    have "raw es k = None" using True 2(3) by (intro raw_below [of _ "entry_key x"]) auto
    with True 2(2) show ?thesis by (intro exI [of _ 0]) (simp add: index_from_None)
  next
    case False
    with 2 obtain i where "i < length es" "index_from (Suc n) es (case entry_key x of Some k \<Rightarrow> m(k \<mapsto> n) | None \<Rightarrow> m) k = Some (Suc n + i)"
      "es ! i = e" by auto
    then show ?thesis by (intro exI [of _ "Suc i"]) auto
  qed
qed simp

lemma bucket_get_raw:
  assumes "bucket_wf b"
  shows "bucket_get k b = raw (storage b) k"
proof (cases "raw (storage b) k")
  case None
  with assms show ?thesis by (simp add: bucket_get_def bucket_wf_def index_from_None)
next
  case (Some e)
  with assms index_from_Some [OF Some, of 0 Map.empty] show ?thesis
    by (auto simp: bucket_get_def bucket_wf_def)
qed

lemma bucket_empty_wf [simp]: "bucket_wf bucket_empty"
  by (simp add: bucket_wf_def bucket_empty_def metadata_prefix_def)

lemma from_sorted_entries_wf: "from_sorted_entries es = Inr b \<Longrightarrow> bucket_wf b \<and> storage b = es"
  by (auto simp: from_sorted_entries_def assert_sorted_iff bucket_wf_def bindE_Inr_iff split: if_splits)

section \<open>The closures, folded\<close>

definition put_step ::
  "bool \<Rightarrow> ('k :: linorder, 'v) bucket_entry \<Rightarrow> ('k, 'v) shadow_cursor list \<times> ('k, 'v) bucket_entry list
    \<Rightarrow> ('k, 'v) shadow_cursor list \<times> ('k, 'v) bucket_entry list" where
  "put_step kl e s = projr (put_merged kl e s)"

lemma put_merged_total: "put_merged kl e s = Inr (put_step kl e s)"
  by (auto simp: put_step_def put_merged_def split: prod.splits option.splits)

lemma put_step_empty: "put_step kl e ([], ms) = ([], ms @ [e])"
  by (simp add: put_step_def put_merged_def maybe_put_def)

lemma put_step_cases: "snd (put_step kl e (cs, ms)) = ms @ [e] \<or> snd (put_step kl e (cs, ms)) = ms"
  by (auto simp: put_step_def put_merged_def maybe_put_def split: prod.splits option.splits if_splits)

lemma fold_put_empty: "fold (put_step kl) es ([], ms) = ([], ms @ es)"
  by (induction es arbitrary: ms) (simp_all add: put_step_empty)

lemma fold_put_subseq: "\<exists>es'. snd (fold (put_step kl) es (cs, ms)) = ms @ es' \<and> subseq es' es"
proof (induction es arbitrary: cs ms)
  case (Cons e es)
  obtain cs1 ms1 where s: "put_step kl e (cs, ms) = (cs1, ms1)" by force
  from Cons obtain es' where es': "snd (fold (put_step kl) es (cs1, ms1)) = ms1 @ es'" "subseq es' es" by blast
  from put_step_cases [of kl e cs ms] s have "ms1 = ms @ [e] \<or> ms1 = ms" by simp
  with es' s show ?case by (auto intro: exI [of _ "e # es'"] exI [of _ es'])
qed simp

lemma subseq_set: "subseq xs ys \<Longrightarrow> set xs \<subseteq> set ys"
  by (induction rule: list_emb.induct) auto

lemma sorted_subseq: "subseq xs ys \<Longrightarrow> sorted_wrt P ys \<Longrightarrow> sorted_wrt P xs"
  by (induction rule: list_emb.induct) (auto dest: subseq_set)

lemma fold_push: "fold (\<lambda>e file. file @ [e]) es ms = ms @ es"
  by (induction es arbitrary: ms) simp_all

definition add_step ::
  "('k, 'v) bucket_entry \<Rightarrow> ('k \<rightharpoonup> nat) \<times> ('k, 'v) bucket_entry list \<times> nat \<Rightarrow> ('k \<rightharpoonup> nat) \<times> ('k, 'v) bucket_entry list \<times> nat" where
  "add_step e s = projr (add_entry e s)"

lemma add_entry_total: "add_entry e s = Inr (add_step e s)"
  by (auto simp: add_step_def add_entry_def split: prod.splits)

lemma fold_add: "fold add_step es (m, ms, n) = (index_from n es m, ms @ es, n + length es)"
  by (induction es arbitrary: m ms n)
    (auto simp: add_step_def add_entry_def metadata_key split: option.splits)

section \<open>The heads of the streams\<close>

lemma filter_not_metadata: "filter not_metadata (map Inr es) = map Inr (data es)"
  by (induction es) simp_all

lemma advance_skip_from:
  "\<exists>m rest. advance_skip_metadata meta (map Inr es) = Inr (m, rest) \<and> filter not_metadata rest = map Inr (data es)"
proof (induction es arbitrary: meta)
  case (Cons e es)
  then show ?case by (cases e) (simp_all add: filter_not_metadata)
qed simp

lemma advance_skip:
  assumes "sorted_entries es"
  obtains rest where "advance_skip_metadata None (map Inr es) = Inr (extract_metadata es, rest)"
    "filter not_metadata rest = map Inr (data es)"
proof (cases es)
  case Nil
  with that [of "[]"] show thesis by (simp add: extract_metadata_def)
next
  case (Cons e es')
  have none: "List.find is_metadata es' = None"
    using assms sorted_tail_data by (auto simp: find_None_iff Cons)
  show thesis
  proof (cases e)
    case (Metaentry m)
    have "advance_skip_metadata (Some m) (map Inr es') = Inr (Some m, map Inr es')"
    proof (cases es')
      case (Cons e2 es2)
      with assms \<open>es = e # es'\<close> have "\<not> is_metadata e2" using sorted_tail_data [of e es' e2] by simp
      with Cons show ?thesis by (cases e2) simp_all
    qed simp
    with Metaentry Cons that [of "map Inr es'"] show thesis by (simp add: extract_metadata_def filter_not_metadata)
  qed (use none Cons that [of "map Inr es"] in \<open>simp_all add: extract_metadata_def filter_not_metadata\<close>)
qed

lemma build_output_metadata_only:
  "build_output_metadata om nm v p = Inr (w, meta) \<Longrightarrow>
   (\<forall>e\<in>set (case meta of Some m \<Rightarrow> [m] | None \<Rightarrow> []). is_metadata e) \<and> length (case meta of Some m \<Rightarrow> [m] | None \<Rightarrow> []) \<le> 1"
  by (auto simp: build_output_metadata_def metadata_for_def bindE_Inr_iff split: if_splits option.splits)

abbreviation head_list :: "'a option \<Rightarrow> 'a list" where
  "head_list m \<equiv> (case m of Some x \<Rightarrow> [x] | None \<Rightarrow> [])"

text \<open>What a list of merged entries is packed into.\<close>

definition pack :: "('k :: linorder, 'v) bucket_entry list \<Rightarrow> ('k, 'v) bucket" where
  "pack es = (if es = [] then bucket_empty
     else \<lparr>hash_is_zero = False, storage = es, key_index = index_from 0 es Map.empty, level_zero = NoEntries\<rparr>)"

lemma pack_storage [simp]: "storage (pack es) = es"
  by (simp add: pack_def bucket_empty_def)

lemma pack_wf: "sorted_entries es \<Longrightarrow> bucket_wf (pack es)"
  by (simp add: pack_def bucket_wf_def bucket_empty_def metadata_prefix_def)

lemma from_sorted_pack: "sorted_entries es \<Longrightarrow> es \<noteq> [] \<Longrightarrow> from_sorted_entries es = Inr (pack es)"
  by (simp add: from_sorted_entries_def assert_sorted_iff pack_def)

section \<open>The result of a merge\<close>

lemma merged_data:
  assumes "merged keep norm olds news = Inr es" "\<forall>e\<in>set olds \<union> set news. \<not> is_metadata e"
  shows "\<forall>e\<in>set es. \<not> is_metadata e"
  using merged_keys [OF assms(1)] assms(2) unfolding metadata_key by metis

lemma merged_output_sorted:
  assumes "build_output_metadata om nm v p = Inr (w, meta)" "merged keep norm (data olds) (data news) = Inr es"
    and "sorted_entries olds" "sorted_entries news" "subseq es' es"
  shows "sorted_entries (head_list meta @ es')"
proof (rule sorted_metadata_first)
  show "\<forall>e\<in>set (head_list meta). is_metadata e" "length (head_list meta) \<le> 1"
    using build_output_metadata_only [OF assms(1)] by blast+
  have "\<forall>e\<in>set (data olds) \<union> set (data news). \<not> is_metadata e" by auto
  then show "\<forall>e\<in>set es'. \<not> is_metadata e" using merged_data [OF assms(2)] subseq_set [OF assms(5)] by blast
  show "sorted_entries es'"
    using sorted_subseq [OF assms(5)] merged_sorted [OF assms(2) sorted_data sorted_data] assms(3,4) by blast
qed

lemma merge_with_shadows_result:
  assumes "bucket_wf old" "bucket_wf new"
  shows "merge_with_shadows_impl old new shadows kl opts =
    (if is_empty_bucket new \<and> is_empty_bucket old then Inr bucket_empty
     else bindE (build_output_metadata (extract_metadata (storage old)) (extract_metadata (storage new))
                   (max_protocol_version opts) (opt_metadata_policy opts)) (\<lambda>(_, meta).
          bindE (merged (keep_dead_entries opts) (normalize_init_entries opts) (data (storage old)) (data (storage new)))
            (\<lambda>es. Inr (pack (snd (fold (put_step kl) es (map (\<lambda>b. next_non_meta (storage b)) shadows, head_list meta)))))))"
proof -
  have sorted: "sorted_entries (storage old)" "sorted_entries (storage new)" using assms by (simp_all add: bucket_wf_def)
  obtain r1 where r1: "advance_skip_metadata None (bucket_iter old) = Inr (extract_metadata (storage old), r1)"
    "filter not_metadata r1 = map Inr (data (storage old))"
    using advance_skip [OF sorted(1)] by (auto simp: bucket_iter_def)
  obtain r2 where r2: "advance_skip_metadata None (bucket_iter new) = Inr (extract_metadata (storage new), r2)"
    "filter not_metadata r2 = map Inr (data (storage new))"
    using advance_skip [OF sorted(2)] by (auto simp: bucket_iter_def)
  let ?cs = "map (\<lambda>b. next_non_meta (storage b)) shadows"
  let ?m = "merged (keep_dead_entries opts) (normalize_init_entries opts) (data (storage old)) (data (storage new))"
  let ?b = "build_output_metadata (extract_metadata (storage old)) (extract_metadata (storage new))
    (max_protocol_version opts) (opt_metadata_policy opts) :: bucket_error + (u32 \<times> ('a, 'b) bucket_entry option)"
  have loop: "two_pointer_merge r1 r2 (keep_dead_entries opts) (normalize_init_entries opts) (put_merged kl) s =
      bindE ?m (\<lambda>es. Inr (fold (put_step kl) es s))" for s
    unfolding two_pointer_merge_def r1(2) r2(2)
    by (rule merge_loop_merged [OF put_merged_total]) auto
  have packed: "(if ms = [] then (case meta of Some m \<Rightarrow> from_sorted_entries [m] | None \<Rightarrow> Inr bucket_empty)
      else from_sorted_entries ms) = Inr (pack ms)"
    if "?b = Inr (w, meta)" "?m = Inr es" "ms = snd (fold (put_step kl) es (?cs, head_list meta))" for w meta es ms
  proof -
    note given = that
    obtain es' where ms: "ms = head_list meta @ es'" "subseq es' es"
      using fold_put_subseq [of kl es ?cs "head_list meta"] given(3) by auto
    have "sorted_entries ms"
      unfolding ms(1) using given(1,2) sorted ms(2) by (rule merged_output_sorted)
    moreover have "ms = [] \<Longrightarrow> meta = None" using ms(1) by (cases meta) simp_all
    ultimately show ?thesis by (cases "ms = []") (simp_all add: from_sorted_pack, simp add: pack_def)
  qed
  show ?thesis
  proof (cases "is_empty_bucket new \<and> is_empty_bucket old")
    case False
    show ?thesis
    proof (cases ?b)
      case (Inl e)
      with False show ?thesis unfolding merge_with_shadows_impl_def by (simp add: r1 r2)
    next
      case b: (Inr w)
      obtain v meta where w: "w = (v, meta)" by force
      show ?thesis
      proof (cases ?m)
        case (Inl e)
        with False b w show ?thesis unfolding merge_with_shadows_impl_def by (simp add: r1 r2 loop)
      next
        case (Inr es)
        obtain cs ms where f: "fold (put_step kl) es (?cs, head_list meta) = (cs, ms)" by force
        from packed [of v meta es ms] b w Inr f have p: "(if ms = [] then (case meta of Some m \<Rightarrow> from_sorted_entries [m] | None \<Rightarrow> Inr bucket_empty)
          else from_sorted_entries ms) = Inr (pack ms)" by simp
        from b w Inr f show ?thesis
          unfolding merge_with_shadows_impl_def if_not_P [OF False] by (simp add: r1 r2 loop p [simplified])
      qed
    qed
  qed (simp add: merge_with_shadows_impl_def)
qed

text \<open>Without shadows that count, every entry of the merged list is kept.\<close>

lemma merge_buckets_result:
  assumes "bucket_wf old" "bucket_wf new" "shadow_buckets opts = [] \<or> max_protocol_version opts \<ge> 12"
  shows "merge_buckets old new opts =
    (if is_empty_bucket new \<and> is_empty_bucket old then Inr bucket_empty
     else bindE (build_output_metadata (extract_metadata (storage old)) (extract_metadata (storage new))
                   (max_protocol_version opts) (opt_metadata_policy opts)) (\<lambda>(_, meta).
          bindE (merged (keep_dead_entries opts) (normalize_init_entries opts) (data (storage old)) (data (storage new)))
            (\<lambda>es. Inr (pack (head_list meta @ es)))))"
proof -
  have "merge_buckets old new opts = merge_with_shadows_impl old new [] False opts"
    using assms(3) by (auto simp: merge_buckets_def Let_def)
  then show ?thesis by (simp add: merge_with_shadows_result [OF assms(1,2)] fold_put_empty)
qed

lemma raw_prefix: "\<forall>e\<in>set ms. is_metadata e \<Longrightarrow> raw (ms @ es) k = raw es k"
  by (induction ms) (auto simp: metadata_key)

lemma bucket_init_over_live:
  "init_over_live (raw (data es) k) (raw (data fs) k) \<longleftrightarrow> init_over_live (raw es k) (raw fs k)"
  by (simp add: raw_data)

section \<open>Properties\<close>

text \<open>
  C35. A merge of well-formed buckets, with any policies and shadows, yields a well-formed bucket: metadata
  at most once and first, keys strictly ascending, the index in agreement with the entries. It fails
  only when an input is of a newer protocol than allowed, or when the new bucket creates (INIT) an entry
  that the old one has not deleted, which the code answers with a panic.
\<close>

theorem merge_buckets_well_formed:
  assumes "bucket_wf old" "bucket_wf new"
  shows "case merge_buckets old new opts of
      Inr b \<Rightarrow> bucket_wf b
    | Inl e \<Rightarrow>
        e = BucketMerge \<and> opt_metadata_policy opts = InputDerived \<and>
          (\<exists>m. m \<in> {extract_metadata (storage old), extract_metadata (storage new)} \<and>
            (\<exists>x. m = Some x \<and> ledger_version x > max_protocol_version opts)) \<or>
        e = BucketPanic \<and> (\<exists>k. init_over_live (bucket_get k old) (bucket_get k new))"
proof -
  have storage_sorted: "sorted_entries (storage old)" "sorted_entries (storage new)"
    using assms by (simp_all add: bucket_wf_def)
  note sorted = storage_sorted [THEN sorted_data]
  obtain shadows kl where run: "merge_buckets old new opts = merge_with_shadows_impl old new shadows kl opts"
    by (auto simp: merge_buckets_def Let_def)
  note run = run [unfolded merge_with_shadows_result [OF assms]]
  let ?cs = "map (\<lambda>b. next_non_meta (storage b)) shadows"
  let ?m = "merged (keep_dead_entries opts) (normalize_init_entries opts) (data (storage old)) (data (storage new))"
  show ?thesis
  proof (cases "merge_buckets old new opts")
    case (Inr b)
    then consider "b = bucket_empty"
      | w meta es where "build_output_metadata (extract_metadata (storage old)) (extract_metadata (storage new))
          (max_protocol_version opts) (opt_metadata_policy opts) = Inr (w, meta)" "?m = Inr es"
        "b = pack (snd (fold (put_step kl) es (?cs, head_list meta)))"
      unfolding run by (auto simp: bindE_Inr_iff split: if_splits)
    then have "bucket_wf b"
    proof cases
      case 2
      obtain es' where es': "snd (fold (put_step kl) es (?cs, head_list meta)) = head_list meta @ es'" "subseq es' es"
        using fold_put_subseq [of kl es ?cs "head_list meta"] by auto
      have "sorted_entries (head_list meta @ es')"
        using 2(1,2) storage_sorted es'(2) by (rule merged_output_sorted)
      then show ?thesis by (simp add: 2(3) es' pack_wf)
    qed simp
    with Inr show ?thesis by simp
  next
    case (Inl e)
    then consider "build_output_metadata (extract_metadata (storage old)) (extract_metadata (storage new))
          (max_protocol_version opts) (opt_metadata_policy opts) = (Inl e :: bucket_error + (u32 \<times> ('a, 'b) bucket_entry option))"
      | "?m = Inl e"
      unfolding run by (auto simp: bindE_Inl_iff split: if_splits)
    then show ?thesis
    proof cases
      case 1
      then show ?thesis using Inl
        by (auto simp: build_output_metadata_def bindE_Inl_iff Let_def max_def
            split: metadata_policy.splits if_splits option.splits)
    next
      case 2
      have "\<forall>e\<in>set (data (storage old)) \<union> set (data (storage new)). \<not> is_metadata e" by auto
      from merged_fails [OF 2 sorted this] obtain k where "init_over_live (raw (storage old) k) (raw (storage new) k)"
        by (auto simp: raw_data)
      with merged_error [OF 2] Inl show ?thesis by (auto simp: bucket_get_raw assms)
    qed
  qed
qed

lemma merge_buckets_pointwise:
  assumes "bucket_wf old" "bucket_wf new" "shadow_buckets opts = [] \<or> max_protocol_version opts \<ge> 12"
    and "merge_buckets old new opts = Inr b"
  shows "bucket_get k b = merged_at (keep_dead_entries opts) (normalize_init_entries opts) (bucket_get k old) (bucket_get k new)"
proof (cases "is_empty_bucket new \<and> is_empty_bucket old")
  case True
  with assms(4) have "b = bucket_empty" by (simp add: merge_buckets_result [OF assms(1-3)])
  moreover have "storage old = []" "storage new = []" using True assms(1,2) by (auto simp: is_empty_bucket_def bucket_wf_def)
  ultimately show ?thesis
    by (simp add: bucket_get_raw assms(1,2) merged_at_def) (simp add: bucket_empty_def)
next
  case False
  with assms(4) obtain w meta es where meta: "build_output_metadata (extract_metadata (storage old)) (extract_metadata (storage new))
      (max_protocol_version opts) (opt_metadata_policy opts) = Inr (w, meta)"
    and es: "merged (keep_dead_entries opts) (normalize_init_entries opts) (data (storage old)) (data (storage new)) = Inr es"
    and b: "b = pack (head_list meta @ es)"
    by (auto simp: merge_buckets_result [OF assms(1-3)] bindE_Inr_iff)
  have storage_sorted: "sorted_entries (storage old)" "sorted_entries (storage new)"
    using assms(1,2) by (simp_all add: bucket_wf_def)
  note sorted = storage_sorted [THEN sorted_data]
  have wf: "bucket_wf b"
    unfolding b by (rule pack_wf, rule merged_output_sorted [OF meta es storage_sorted]) simp
  have no_meta: "\<forall>e\<in>set (data (storage old)) \<union> set (data (storage new)). \<not> is_metadata e" by auto
  have "raw (storage b) k = raw es k" using build_output_metadata_only [OF meta] by (simp add: b raw_prefix)
  also have "\<dots> = merged_at (keep_dead_entries opts) (normalize_init_entries opts) (raw (storage old) k) (raw (storage new) k)"
    using raw_merged [OF es sorted no_meta, of k] by (simp only: raw_data)
  finally show ?thesis by (simp add: bucket_get_raw wf assms(1,2))
qed

text \<open>The entry that a key has after a bucket was applied to a map of entries.\<close>

definition apply_entry ::
  "('k, 'v) bucket_entry option \<Rightarrow> ('k, 'v) ledger_entry option \<Rightarrow> ('k, 'v) ledger_entry option" where
  "apply_entry e x =
     (case e of
        Some (Liveentry y) \<Rightarrow> Some y
      | Some (Initentry y) \<Rightarrow> Some y
      | Some (Deadentry _) \<Rightarrow> None
      | _ \<Rightarrow> x)"

definition apply_bucket ::
  "('k, 'v) bucket \<Rightarrow> ('k \<rightharpoonup> ('k, 'v) ledger_entry) \<Rightarrow> ('k \<rightharpoonup> ('k, 'v) ledger_entry)" where
  "apply_bucket b m = (\<lambda>k. apply_entry (bucket_get k b) (m k))"

text \<open>The keys a bucket creates.\<close>

definition creates :: "('k, 'v) bucket \<Rightarrow> 'k \<Rightarrow> bool" where
  "creates b k \<longleftrightarrow> (\<exists>e. bucket_get k b = Some (Initentry e))"

lemma merged_legal:
  "merged keep norm olds news = Inr es \<Longrightarrow> sorted_entries olds \<Longrightarrow> sorted_entries news \<Longrightarrow>
   \<not> init_over_live (raw olds k) (raw news k)"
proof (induction keep norm olds news arbitrary: es rule: merged.induct)
  case (3 keep norm old olds new news)
  note sorted = 3(5,6)
  consider "entry_key old < entry_key new" | "entry_key new < entry_key old" | "entry_key old = entry_key new"
    by (meson linorder_less_linear)
  then show ?case
  proof cases
    case 1
    with 3(4) obtain r where r: "merged keep norm olds (new # news) = Inr r"
      by (auto simp: merged_Less bindE_Inr_iff simp del: merged.simps(3))
    from 3(1) [OF 1 r] sorted have IH: "\<not> init_over_live (raw olds k) (raw (new # news) k)" by simp
    have "entry_key old = Some k \<Longrightarrow> raw (new # news) k = None"
      using 1 sorted by (intro raw_below [of _ "entry_key old"]) (auto intro: less_trans)
    with IH show ?thesis by (cases "entry_key old = Some k") (simp_all add: init_over_live_def)
  next
    case 2
    with 3(4) obtain r where r: "merged keep norm (old # olds) news = Inr r"
      by (auto simp: merged_Greater bindE_Inr_iff simp del: merged.simps(3))
    have "\<not> entry_key old < entry_key new" using 2 by simp
    from 3(2) [OF this 2 r] sorted have IH: "\<not> init_over_live (raw (old # olds) k) (raw news k)" by simp
    have "entry_key new = Some k \<Longrightarrow> raw (old # olds) k = None"
      using 2 sorted by (intro raw_below [of _ "entry_key new"]) (auto intro: less_trans)
    with IH show ?thesis by (cases "entry_key new = Some k") (simp_all add: init_over_live_def)
  next
    case eq: 3
    with 3(4) obtain m r where m: "merge_entries old new keep = Inr m" and r: "merged keep norm olds news = Inr r"
      by (auto simp: merged_Equal bindE_Inr_iff simp del: merged.simps(3))
    have "\<not> entry_key old < entry_key new" "\<not> entry_key new < entry_key old" using eq by simp_all
    from 3(3) [OF this r] sorted have IH: "\<not> init_over_live (raw olds k) (raw news k)" by simp
    have "is_init new \<Longrightarrow> entry_key old \<noteq> None \<Longrightarrow> is_dead old"
      using m by (cases "(old, new, keep)" rule: merge_entries.cases) auto
    with IH eq show ?thesis by (auto simp: init_over_live_def)
  qed
qed (simp_all add: init_over_live_def)

lemma apply_merged_at:
  assumes "\<not> init_over_live x y" "\<And>e. x = Some e \<Longrightarrow> \<not> is_metadata e" "\<And>e. y = Some e \<Longrightarrow> \<not> is_metadata e"
    and "\<And>e. x = Some (Initentry e) \<Longrightarrow> m = None" "keep = RemoveDead \<Longrightarrow> m = None"
  shows "apply_entry (merged_at keep norm x y) m = apply_entry y (apply_entry x m)"
proof (cases x)
  case None
  with assms show ?thesis
    by (cases y; cases keep; cases norm; cases "the y")
      (auto simp: merged_at_def apply_entry_def maybe_normalize_entry_def)
next
  case x: (Some e)
  show ?thesis
  proof (cases y)
    case None
    with x assms show ?thesis by (cases e; cases keep) (auto simp: merged_at_def apply_entry_def)
  next
    case (Some f)
    with x assms show ?thesis
      by (cases e; cases f; cases keep) (auto simp: merged_at_def apply_entry_def init_over_live_def)
  qed
qed

lemma bucket_get_key: "bucket_wf b \<Longrightarrow> bucket_get k b = Some e \<Longrightarrow> \<not> is_metadata e"
  by (auto simp: bucket_get_raw metadata_key dest: raw_Some)

text \<open>A merge that succeeds met no INIT over an entry that is not DEAD.\<close>

lemma merge_buckets_legal:
  assumes wf: "bucket_wf old" "bucket_wf new" and sh: "shadow_buckets opts = [] \<or> max_protocol_version opts \<ge> 12"
    and run: "merge_buckets old new opts = Inr b"
  shows "\<not> init_over_live (bucket_get k old) (bucket_get k new)"
proof (cases "is_empty_bucket new \<and> is_empty_bucket old")
  case True
  then have "storage old = []" using wf(1) by (auto simp: is_empty_bucket_def bucket_wf_def)
  then show ?thesis by (simp add: bucket_get_raw wf init_over_live_def)
next
  case False
  with run obtain es where es: "merged (keep_dead_entries opts) (normalize_init_entries opts) (data (storage old)) (data (storage new)) = Inr es"
    by (auto simp: merge_buckets_result [OF wf sh] bindE_Inr_iff)
  have "sorted_entries (storage old)" "sorted_entries (storage new)" using wf by (simp_all add: bucket_wf_def)
  from merged_legal [OF es this [THEN sorted_data], of k] show ?thesis by (simp add: bucket_get_raw wf raw_data)
qed

lemma merge_buckets_composes:
  assumes wf: "bucket_wf old" "bucket_wf new" and sh: "shadow_buckets opts = [] \<or> max_protocol_version opts \<ge> 12"
    and run: "merge_buckets old new opts = Inr b"
    and below: "\<And>k. creates old k \<Longrightarrow> m k = None" "keep_dead_entries opts = RemoveDead \<Longrightarrow> m = Map.empty"
  shows "apply_bucket b m = apply_bucket new (apply_bucket old m)"
proof
  fix k
  show "apply_bucket b m k = apply_bucket new (apply_bucket old m) k"
    unfolding apply_bucket_def merge_buckets_pointwise [OF wf sh run]
  proof (rule apply_merged_at [OF merge_buckets_legal [OF assms(1-4)]])
    show "bucket_get k old = Some (Initentry e) \<Longrightarrow> m k = None" for e using below(1) by (auto simp: creates_def)
    show "keep_dead_entries opts = RemoveDead \<Longrightarrow> m k = None" using below(2) by simp
  qed (auto dest: bucket_get_key [OF wf(1)] bucket_get_key [OF wf(2)])
qed

text \<open>
  The table of CAP-0020, written out: what the entries a key has in the old and in the new bucket become.
  A tombstone that is not kept vanishes, and an INIT of the new bucket alone becomes LIVE where the
  output is to hold no INIT. The rows that are left out, an INIT over INIT or LIVE, cannot be merged.
\<close>

fun cap_0020_entry ::
  "dead_entry_policy \<Rightarrow> init_entry_policy \<Rightarrow> ('k, 'v) bucket_entry option \<Rightarrow> ('k, 'v) bucket_entry option
    \<Rightarrow> ('k, 'v) bucket_entry option" where
  "cap_0020_entry keep norm old None =
     (case old of Some (Deadentry k) \<Rightarrow> if keep = KeepDead then Some (Deadentry k) else None | _ \<Rightarrow> old)"
| "cap_0020_entry keep norm old (Some (Deadentry k)) =
     (case old of
        Some (Initentry _) \<Rightarrow> None
      | _ \<Rightarrow> if keep = KeepDead then Some (Deadentry k) else None)"
| "cap_0020_entry keep norm old (Some (Liveentry e)) =
     (case old of Some (Initentry _) \<Rightarrow> Some (Initentry e) | _ \<Rightarrow> Some (Liveentry e))"
| "cap_0020_entry keep norm old (Some (Initentry e)) =
     (case old of
        None \<Rightarrow> if norm = NormalizeToLive then Some (Liveentry e) else Some (Initentry e)
      | Some (Deadentry _) \<Rightarrow> Some (Liveentry e)
      | _ \<Rightarrow> None)"
| "cap_0020_entry keep norm old (Some (Metaentry m)) = None"

lemma merged_at_table:
  assumes "\<not> init_over_live x y" "\<And>e. x = Some e \<Longrightarrow> \<not> is_metadata e" "\<And>e. y = Some e \<Longrightarrow> \<not> is_metadata e"
  shows "merged_at keep norm x y = cap_0020_entry keep norm x y"
proof (cases x)
  case None
  with assms(3) show ?thesis
    by (cases y; cases keep; cases norm; cases "the y") (auto simp: merged_at_def maybe_normalize_entry_def)
next
  case x: (Some e)
  show ?thesis
  proof (cases y)
    case None
    with x show ?thesis by (cases e; cases keep) (auto simp: merged_at_def)
  next
    case (Some f)
    with x assms show ?thesis
      by (cases e; cases f; cases keep) (auto simp: merged_at_def init_over_live_def)
  qed
qed

text \<open>
  C36. A merged bucket stands for its two inputs one after the other: applied to any state of the ledger in
  which what the old bucket creates does not exist yet, it has the effect of the old bucket followed by the
  new one. Where tombstones are dropped this holds with nothing below. Each key's entry depends on the
  entries of that key only, by the table of CAP-0020, and no key has an INIT over an INIT or a LIVE entry.
  The buckets are well formed, and either no shadows are given or the protocol is at least 12, where
  shadows are ignored.
\<close>

theorem merge_buckets_compose:
  assumes "bucket_wf old" "bucket_wf new" "shadow_buckets opts = [] \<or> max_protocol_version opts \<ge> 12"
    and "merge_buckets old new opts = Inr b"
  shows "bucket_get k b =
      cap_0020_entry (keep_dead_entries opts) (normalize_init_entries opts) (bucket_get k old) (bucket_get k new) \<and>
    (creates new k \<longrightarrow> (\<forall>e. bucket_get k old = Some e \<longrightarrow> is_dead e)) \<and>
    (\<forall>m. (\<forall>k. creates old k \<longrightarrow> m k = None) \<and> (keep_dead_entries opts = RemoveDead \<longrightarrow> m = Map.empty) \<longrightarrow>
      apply_bucket b m = apply_bucket new (apply_bucket old m))"
proof (intro conjI)
  note legal = merge_buckets_legal [OF assms, of k]
  have "merged_at keep norm (bucket_get k old) (bucket_get k new) =
      cap_0020_entry keep norm (bucket_get k old) (bucket_get k new)" for keep norm
    by (rule merged_at_table [OF legal]) (auto dest: bucket_get_key [OF assms(1)] bucket_get_key [OF assms(2)])
  with merge_buckets_pointwise [OF assms, of k]
  show "bucket_get k b =
      cap_0020_entry (keep_dead_entries opts) (normalize_init_entries opts) (bucket_get k old) (bucket_get k new)"
    by simp
  show "creates new k \<longrightarrow> (\<forall>e. bucket_get k old = Some e \<longrightarrow> is_dead e)"
    using legal by (auto simp: creates_def init_over_live_def)
  show "\<forall>m. (\<forall>k. creates old k \<longrightarrow> m k = None) \<and> (keep_dead_entries opts = RemoveDead \<longrightarrow> m = Map.empty) \<longrightarrow>
      apply_bucket b m = apply_bucket new (apply_bucket old m)"
    by (intro allI impI merge_buckets_composes [OF assms]) simp_all
qed

section \<open>The other implementations\<close>

lemma two_pointer_push:
  "two_pointer_merge (map Inr olds) (map Inr news) keep norm (\<lambda>e file. Inr (file @ [e])) ms =
   bindE (merged keep norm (data olds) (data news)) (\<lambda>es. Inr (ms @ es))"
  unfolding two_pointer_merge_def filter_not_metadata
  by (subst merge_loop_merged [of _ "\<lambda>e file. file @ [e]"]) (auto simp: fold_push)

lemma two_pointer_rest_push:
  assumes "filter not_metadata r1 = map Inr (data olds)" "filter not_metadata r2 = map Inr (data news)"
  shows "two_pointer_merge r1 r2 keep norm (\<lambda>e file. Inr (file @ [e])) ms =
   bindE (merged keep norm (data olds) (data news)) (\<lambda>es. Inr (ms @ es))"
  using two_pointer_push [of olds news keep norm ms] assms by (simp add: two_pointer_merge_def filter_not_metadata)

lemma metadata_prefix_head:
  "\<forall>e\<in>set ms. is_metadata e \<Longrightarrow> \<forall>e\<in>set es. \<not> is_metadata e \<Longrightarrow> metadata_prefix (ms @ es) = length ms"
  by (induction ms) (auto simp: metadata_prefix_def takeWhile_eq_Nil_iff)

lemma in_memory_data:
  assumes "sorted_entries (storage b)" "level_zero b = SharedWithStorage (metadata_prefix (storage b))"
  shows "get_in_memory_entries b = Inr (Some (data (storage b)))"
proof -
  have "drop (metadata_prefix es) es = data es" if "sorted_entries es" for es :: "('a, 'b) bucket_entry list"
  proof (cases es)
    case (Cons e es')
    with that have d: "data es' = es'" and t: "takeWhile is_metadata es' = []"
      using sorted_tail_id [of e es'] sorted_tail_data [of e es'] by (auto simp: takeWhile_eq_Nil_iff)
    show ?thesis by (simp add: Cons d t metadata_prefix_def)
  qed (simp add: metadata_prefix_def)
  with assms show ?thesis
    by (simp add: get_in_memory_entries_def metadata_prefix_def not_less length_takeWhile_le)
qed

text \<open>A merge in memory is a merge with the current protocol, and keeps its entries at hand.\<close>

lemma merge_in_memory_result:
  assumes olds: "get_in_memory_entries old = Inr (Some olds)" "sorted_entries olds" "\<forall>e\<in>set olds. \<not> is_metadata e"
    and news: "get_in_memory_entries new = Inr (Some news)" "sorted_entries news" "\<forall>e\<in>set news. \<not> is_metadata e"
  shows "merge_in_memory old new v =
    bindE (merged KeepDead Preserve olds news) (\<lambda>es.
      let all = head_list (map_option Metaentry (metadata_for v LiveList)) @ es
      in Inr ((pack all)\<lparr>level_zero := SharedWithStorage (metadata_prefix all)\<rparr>))"
proof -
  define meta :: "('a, 'b) bucket_entry option" where "meta = map_option Metaentry (metadata_for v LiveList)"
  have has: "has_in_memory_entries old" "has_in_memory_entries new"
    using olds(1) news(1) by (auto simp: has_in_memory_entries_def get_in_memory_entries_def)
  have nometa: "data olds = olds" "data news = news" "\<forall>e\<in>set olds \<union> set news. \<not> is_metadata e"
    using olds(3) news(3) by (auto simp: filter_id_conv)
  have start: "(case meta of Some m \<Rightarrow> add_entry m (Map.empty, [], 0) | None \<Rightarrow> Inr (Map.empty, [], 0)) =
      (Inr (Map.empty, head_list meta, length (head_list meta)) :: bucket_error + _)"
    by (auto simp: add_entry_def metadata_for_def meta_def)
  note run = merge_in_memory_def [of old new v, folded meta_def, unfolded Let_def start]
  have loop: "two_pointer_merge (map Inr olds) (map Inr news) KeepDead Preserve add_entry s =
      bindE (merged KeepDead Preserve olds news) (\<lambda>es. Inr (fold add_step es s))" for s
    unfolding two_pointer_merge_def filter_not_metadata nometa
    by (rule merge_loop_merged [OF add_entry_total nometa(3)])
  show ?thesis
  proof (cases "merged KeepDead Preserve olds news")
    case (Inl e)
    then show ?thesis by (simp add: run has olds(1) news(1) loop)
  next
    case (Inr es)
    let ?all = "head_list meta @ es"
    have es: "sorted_entries es" "\<forall>e\<in>set es. \<not> is_metadata e"
      using merged_sorted [OF Inr olds(2) news(2)] merged_data [OF Inr nometa(3)] by blast+
    have ms: "\<forall>e\<in>set (head_list meta). is_metadata e" "length (head_list meta) \<le> 1"
      by (auto simp: metadata_for_def meta_def split: option.splits if_splits)
    have "sorted_entries ?all" using es ms by (intro sorted_metadata_first)
    then obtain v' where "validate_all ?all new_validator = Inr v'" using validate_all_new by blast
    moreover have "metadata_prefix ?all = (if meta \<noteq> None then 1 else 0)"
      using metadata_prefix_head [OF ms(1) es(2)] by (simp split: option.splits)
    moreover have "index_from (length (head_list meta)) es Map.empty = index_from 0 ?all Map.empty"
      by (auto simp: metadata_for_def meta_def)
    moreover have "meta = None \<or> (\<exists>m. meta = Some m)" by (cases meta) simp_all
    ultimately show ?thesis
      unfolding meta_def [symmetric]
      by (auto simp: run has olds(1) news(1) loop Inr fold_add from_parts_def pack_def Let_def
          bucket_empty_def metadata_prefix_def)
  qed
qed

lemma merge_to_file_result:
  assumes "bucket_wf old" "bucket_wf new"
  shows "merge_buckets_to_file old new opts =
    (if is_empty_bucket new \<and> is_empty_bucket old then Inr []
     else bindE (build_output_metadata (extract_metadata (storage old)) (extract_metadata (storage new))
                   (max_protocol_version opts) (opt_metadata_policy opts)) (\<lambda>(_, meta).
          bindE (merged (keep_dead_entries opts) (normalize_init_entries opts) (data (storage old)) (data (storage new)))
            (\<lambda>es. Inr (head_list meta @ es))))"
proof -
  have sorted: "sorted_entries (storage old)" "sorted_entries (storage new)" using assms by (simp_all add: bucket_wf_def)
  obtain r1 where r1: "advance_skip_metadata None (bucket_iter old) = Inr (extract_metadata (storage old), r1)"
    "filter not_metadata r1 = map Inr (data (storage old))"
    using advance_skip [OF sorted(1)] by (auto simp: bucket_iter_def)
  obtain r2 where r2: "advance_skip_metadata None (bucket_iter new) = Inr (extract_metadata (storage new), r2)"
    "filter not_metadata r2 = map Inr (data (storage new))"
    using advance_skip [OF sorted(2)] by (auto simp: bucket_iter_def)
  show ?thesis
    by (simp add: merge_buckets_to_file_def r1(1) r2(1) two_pointer_rest_push [OF r1(2) r2(2)])
qed

lemma merge_iterator_result:
  "merge_iterator old new keep v =
   bindE (build_output_metadata (extract_metadata (storage old)) (extract_metadata (storage new)) v InputDerived) (\<lambda>(_, meta).
     bindE (merged keep NormalizeToLive (data (storage old)) (data (storage new))) (\<lambda>es. Inr (head_list meta @ es)))"
  by (simp add: merge_iterator_def bucket_iter_def two_pointer_push)

lemma map_sum_bindE: "map_sum id f (bindE m g) = bindE m (\<lambda>x. map_sum id f (g x))"
  by (cases m) simp_all

lemma map_sum_case_prod: "map_sum id f (case p of (x, y) \<Rightarrow> g x y) = (case p of (x, y) \<Rightarrow> map_sum id f (g x y))"
  by (cases p) simp

lemma no_metadata_no_version: "build_output_metadata None None v InputDerived = Inr (0, None)"
  by (simp add: build_output_metadata_def metadata_for_def)

text \<open>
  C37. The implementations of a merge agree on well-formed buckets: streaming to a file writes the entries of the
  merge in memory, the merge iterator yields them, and the merge in memory of level 0 gives the same bucket,
  index and hash included, as the general merge under the current protocol (unless both inputs are empty, when
  it still writes metadata), with its entries kept at hand; all of them fail in the same cases.
\<close>

theorem merge_implementations_agree:
  assumes wf: "bucket_wf old" "bucket_wf new"
  shows "merge_buckets_to_file old new opts = map_sum id storage (merge_buckets old new (opts\<lparr>shadow_buckets := []\<rparr>)) \<and>
    merge_iterator old new keep v = map_sum id storage (merge_buckets old new
      \<lparr>keep_dead_entries = keep, max_protocol_version = v, normalize_init_entries = NormalizeToLive,
       shadow_buckets = [], opt_metadata_policy = InputDerived\<rparr>) \<and>
    (has_in_memory_entries old \<and> has_in_memory_entries new \<and> \<not> (is_empty_bucket new \<and> is_empty_bucket old) \<longrightarrow>
      merge_in_memory old new v = map_sum id (\<lambda>b. b\<lparr>level_zero := SharedWithStorage (metadata_prefix (storage b))\<rparr>)
        (merge_buckets old new \<lparr>keep_dead_entries = KeepDead, max_protocol_version = v, normalize_init_entries = Preserve,
           shadow_buckets = [], opt_metadata_policy = CurrentProtocol\<rparr>))"
proof (intro conjI impI)
  show "merge_buckets_to_file old new opts = map_sum id storage (merge_buckets old new (opts\<lparr>shadow_buckets := []\<rparr>))"
    by (simp add: merge_to_file_result [OF wf] merge_buckets_result [OF wf] map_sum_bindE map_sum_case_prod)
      (simp add: bucket_empty_def)
next
  let ?opts = "\<lparr>keep_dead_entries = keep, max_protocol_version = v, normalize_init_entries = NormalizeToLive,
       shadow_buckets = [], opt_metadata_policy = InputDerived\<rparr> :: ('a, 'b) merge_options"
  show "merge_iterator old new keep v = map_sum id storage (merge_buckets old new ?opts)"
  proof (cases "is_empty_bucket new \<and> is_empty_bucket old")
    case True
    then have "storage old = []" "storage new = []" using wf by (auto simp: is_empty_bucket_def bucket_wf_def)
    with True show ?thesis
      by (simp add: merge_iterator_result merge_buckets_result [OF wf] extract_metadata_def no_metadata_no_version)
        (simp add: bucket_empty_def)
  next
    case False
    have "merge_buckets old new ?opts =
        bindE (build_output_metadata (extract_metadata (storage old)) (extract_metadata (storage new)) v InputDerived)
          (\<lambda>(_, meta). bindE (merged keep NormalizeToLive (data (storage old)) (data (storage new)))
            (\<lambda>es. Inr (pack (head_list meta @ es))))"
      using False by (auto simp: merge_buckets_result [OF wf])
    then show ?thesis by (simp add: merge_iterator_result map_sum_bindE map_sum_case_prod)
  qed
next
  let ?opts = "\<lparr>keep_dead_entries = KeepDead, max_protocol_version = v, normalize_init_entries = Preserve,
           shadow_buckets = [], opt_metadata_policy = CurrentProtocol\<rparr> :: ('a, 'b) merge_options"
  assume has: "has_in_memory_entries old \<and> has_in_memory_entries new \<and> \<not> (is_empty_bucket new \<and> is_empty_bucket old)"
  have mem: "get_in_memory_entries old = Inr (Some (data (storage old)))" "get_in_memory_entries new = Inr (Some (data (storage new)))"
    using has wf by (auto simp: has_in_memory_entries_def bucket_wf_def intro!: in_memory_data)
  have sorted: "sorted_entries (data (storage old))" "sorted_entries (data (storage new))"
    using wf by (simp_all add: bucket_wf_def sorted_data)
  have run: "merge_buckets old new ?opts =
      bindE (build_output_metadata (extract_metadata (storage old)) (extract_metadata (storage new)) v CurrentProtocol)
        (\<lambda>(_, meta). bindE (merged KeepDead Preserve (data (storage old)) (data (storage new)))
          (\<lambda>es. Inr (pack (head_list meta @ es))))"
    unfolding merge_buckets_result [OF wf, of ?opts, simplified] using has by auto
  have build: "build_output_metadata (extract_metadata (storage old)) (extract_metadata (storage new)) v CurrentProtocol
      = Inr (v, map_option Metaentry (metadata_for v LiveList))"
    by (simp add: build_output_metadata_def)
  have "merge_in_memory old new v = bindE (merged KeepDead Preserve (data (storage old)) (data (storage new))) (\<lambda>es.
      let all = head_list (map_option Metaentry (metadata_for v LiveList)) @ es
      in Inr ((pack all)\<lparr>level_zero := SharedWithStorage (metadata_prefix all)\<rparr>))"
    by (rule merge_in_memory_result [OF mem(1) sorted(1) _ mem(2) sorted(2)]) auto
  then show "merge_in_memory old new v = map_sum id (\<lambda>b. b\<lparr>level_zero := SharedWithStorage (metadata_prefix (storage b))\<rparr>)
        (merge_buckets old new ?opts)"
    unfolding run build by (simp add: map_sum_bindE Let_def)
qed

section \<open>Sample buckets\<close>

definition sample_entry :: "nat \<Rightarrow> nat \<Rightarrow> (nat, nat) ledger_entry" where
  "sample_entry k x = \<lparr>entry_to_key = k, entry_data = x\<rparr>"

definition sample_old :: "(nat, nat) bucket" where
  "sample_old = pack [Metaentry \<lparr>ledger_version = 24, meta_ext = MetaV1 LiveList\<rparr>,
     Initentry (sample_entry 1 10), Liveentry (sample_entry 2 20), Deadentry 3, Initentry (sample_entry 5 50)]"

definition sample_new :: "(nat, nat) bucket" where
  "sample_new = pack [Metaentry \<lparr>ledger_version = 25, meta_ext = MetaV1 LiveList\<rparr>,
     Deadentry 1, Liveentry (sample_entry 2 21), Initentry (sample_entry 3 30), Initentry (sample_entry 4 40)]"

definition sample_options :: "(nat, nat) merge_options" where
  "sample_options = \<lparr>keep_dead_entries = KeepDead, max_protocol_version = 25, normalize_init_entries = Preserve,
     shadow_buckets = [], opt_metadata_policy = InputDerived\<rparr>"

definition sample_merged :: "(nat, nat) bucket" where
  "sample_merged = pack [Metaentry \<lparr>ledger_version = 25, meta_ext = MetaV1 LiveList\<rparr>,
     Liveentry (sample_entry 2 21), Liveentry (sample_entry 3 30), Initentry (sample_entry 4 40), Initentry (sample_entry 5 50)]"

lemma sample_wf: "bucket_wf sample_old" "bucket_wf sample_new"
  unfolding sample_old_def sample_new_def by (intro pack_wf; simp add: sample_entry_def)+

lemma sample_merge: "merge_buckets sample_old sample_new sample_options = Inr sample_merged"
proof -
  have "\<not> is_empty_bucket sample_new" by (simp add: is_empty_bucket_def sample_new_def pack_def)
  moreover have "merged KeepDead Preserve (data (storage sample_old)) (data (storage sample_new)) =
      Inr [Liveentry (sample_entry 2 21), Liveentry (sample_entry 3 30), Initentry (sample_entry 4 40), Initentry (sample_entry 5 50)]"
    by (simp add: sample_old_def sample_new_def sample_entry_def maybe_normalize_entry_def)
  moreover have "extract_metadata (storage sample_old) = Some \<lparr>ledger_version = 24, meta_ext = MetaV1 LiveList\<rparr>"
    "extract_metadata (storage sample_new) = Some \<lparr>ledger_version = 25, meta_ext = MetaV1 LiveList\<rparr>"
    by (simp_all add: extract_metadata_def sample_old_def sample_new_def)
  ultimately show ?thesis
    by (simp add: merge_buckets_result [OF sample_wf] sample_options_def sample_merged_def
        build_output_metadata_def metadata_for_def Let_def max_def)
qed

theorem merge_buckets_well_formed_witness: "bucket_wf sample_merged"
  using merge_buckets_well_formed [OF sample_wf, of sample_options] by (simp add: sample_merge)

theorem merge_buckets_compose_witness:
  "bucket_get 2 sample_merged = Some (Liveentry (sample_entry 2 21)) \<and>
   apply_bucket sample_merged Map.empty 3 = apply_bucket sample_new (apply_bucket sample_old Map.empty) 3"
proof -
  have sh: "shadow_buckets sample_options = [] \<or> max_protocol_version sample_options \<ge> 12" by (simp add: sample_options_def)
  from merge_buckets_compose [OF sample_wf sh sample_merge, of 2]
  have "bucket_get 2 sample_merged = cap_0020_entry KeepDead Preserve (bucket_get 2 sample_old) (bucket_get 2 sample_new)"
    "apply_bucket sample_merged Map.empty = apply_bucket sample_new (apply_bucket sample_old Map.empty)"
    by (simp_all add: sample_options_def)
  then show ?thesis
    by (simp add: bucket_get_raw sample_wf) (simp add: sample_old_def sample_new_def sample_entry_def)
qed

theorem merge_implementations_agree_witness:
  "merge_buckets_to_file sample_old sample_new sample_options = Inr (storage sample_merged)"
  using merge_implementations_agree [OF sample_wf, of sample_options KeepDead 25] sample_merge
  by (simp add: sample_options_def)

end
