(* ===== verification/Bucket_List.thy ===== *)
theory Bucket_List
  imports Bucket_Merge
begin

text \<open>
  The bucket list (\<open>crates/bucket/src/bucket_list.rs\<close>): eleven levels of two buckets each, the merges
  pending between them, and the batch of each closed ledger that enters at level 0.

  A merge in the background is a value from the moment it is started: its result, which \<open>commit\<close> waits for. A
  panic in its thread reaches \<open>commit\<close> as an error. The merge map, which lets two levels share
  one running merge, hands out the result of the same inputs and is left out, as are persistence of buckets, hashes of levels,
  counters and tracing.
\<close>

unbundle bit_operations_syntax

section \<open>Spill arithmetic\<close>

definition bucket_list_levels :: nat where
  "bucket_list_levels = 11"

definition bl_round_down :: "u32 \<Rightarrow> u32 \<Rightarrow> u32" where
  "bl_round_down value modulus = (if modulus = 0 then 0 else value AND NOT (modulus - 1))"

definition bl_level_half :: "nat \<Rightarrow> u32" where
  "bl_level_half level = push_bit (2 * level + 1) 1"

definition bl_level_size :: "nat \<Rightarrow> u32" where
  "bl_level_size level = push_bit (2 * (level + 1)) 1"

definition bl_level_should_spill :: "u32 \<Rightarrow> nat \<Rightarrow> nat \<Rightarrow> bool" where
  "bl_level_should_spill ledger_seq level num_levels =
     (if level = num_levels - 1 then False
      else ledger_seq mod bl_level_half level = 0 \<or> ledger_seq mod bl_level_size level = 0)"

definition bl_keep_tombstone_entries :: "nat \<Rightarrow> nat \<Rightarrow> bool" where
  "bl_keep_tombstone_entries level num_levels \<longleftrightarrow> level < num_levels - 1"

definition bl_should_merge_with_empty_curr :: "u32 \<Rightarrow> nat \<Rightarrow> nat \<Rightarrow> bool" where
  "bl_should_merge_with_empty_curr ledger_seq level num_levels =
     (if level = 0 then False
      else
        let merge_start_ledger = bl_round_down ledger_seq (bl_level_half (level - 1));
            next_change_ledger = merge_start_ledger + bl_level_half (level - 1)
        in bl_level_should_spill next_change_ledger level num_levels)"

definition level_should_spill :: "u32 \<Rightarrow> nat \<Rightarrow> bool" where
  "level_should_spill ledger_seq level = bl_level_should_spill ledger_seq level bucket_list_levels"

definition keep_tombstone_entries :: "nat \<Rightarrow> dead_entry_policy" where
  "keep_tombstone_entries level =
     (if bl_keep_tombstone_entries level bucket_list_levels then KeepDead else RemoveDead)"

definition should_merge_with_empty_curr :: "u32 \<Rightarrow> nat \<Rightarrow> bool" where
  "should_merge_with_empty_curr ledger_seq level = bl_should_merge_with_empty_curr ledger_seq level bucket_list_levels"

section \<open>Levels\<close>

datatype ('k, 'v) pending_merge =
  InMemory "('k, 'v) bucket"
| Async "bucket_error + ('k, 'v) bucket"

record ('k, 'v) bucket_level =
  lv_curr :: "('k, 'v) bucket"
  lv_snap :: "('k, 'v) bucket"
  lv_next :: "('k, 'v) pending_merge option"
  lv_number :: nat

definition new_level :: "nat \<Rightarrow> ('k, 'v) bucket_level" where
  "new_level n = \<lparr>lv_curr = bucket_empty, lv_snap = bucket_empty, lv_next = None, lv_number = n\<rparr>"

definition commit :: "('k, 'v) bucket_level \<Rightarrow> bucket_error + ('k, 'v) bucket_level" where
  "commit lv =
     (case lv_next lv of
        None \<Rightarrow> Inr lv
      | Some (InMemory b) \<Rightarrow> Inr (lv\<lparr>lv_next := None, lv_curr := b\<rparr>)
      | Some (Async result) \<Rightarrow> bindE result (\<lambda>b. Inr (lv\<lparr>lv_next := None, lv_curr := b\<rparr>)))"

definition level_snapped :: "('k, 'v) bucket_level \<Rightarrow> ('k, 'v) bucket \<times> ('k, 'v) bucket_level" where
  "level_snapped lv = (lv_curr lv, lv\<lparr>lv_curr := bucket_empty, lv_snap := lv_curr lv\<rparr>)"

record merge_context =
  ctx_keep_dead_entries :: dead_entry_policy
  ctx_normalize_init :: init_entry_policy
  ctx_use_empty_curr :: bool
  ctx_has_bucket_dir :: bool

text \<open>The bucket that is loaded from the file a merge has written.\<close>

definition promote_to_canonical :: "('k :: linorder, 'v) bucket_entry list \<Rightarrow> bucket_error + ('k, 'v) bucket" where
  "promote_to_canonical es =
     bindE (validate_all es new_validator) (\<lambda>_.
       Inr \<lparr>hash_is_zero = False, storage = es, key_index = index_from 0 es Map.empty, level_zero = NoEntries\<rparr>)"

definition start_merge ::
  "('k :: linorder, 'v) bucket \<Rightarrow> ('k, 'v) bucket \<Rightarrow> u32 \<Rightarrow> ('k, 'v) bucket list \<Rightarrow> merge_context
    \<Rightarrow> bucket_error + ('k, 'v) bucket" where
  "start_merge input_curr input_snap protocol_version shadows ctx =
     (let opts = \<lparr>keep_dead_entries = ctx_keep_dead_entries ctx, max_protocol_version = protocol_version,
            normalize_init_entries = ctx_normalize_init ctx, shadow_buckets = [], opt_metadata_policy = InputDerived\<rparr>;
          result =
            (if ctx_has_bucket_dir ctx
             then bindE (merge_buckets_to_file input_curr input_snap opts)
                    (\<lambda>es. if es = [] then Inr bucket_empty else promote_to_canonical es)
             else merge_buckets input_curr input_snap (opts\<lparr>shadow_buckets := shadows\<rparr>))
      in (case result of Inl BucketPanic \<Rightarrow> Inl BucketMerge | _ \<Rightarrow> result))"

definition prepare_merge ::
  "u32 \<Rightarrow> ('k :: linorder, 'v) bucket \<Rightarrow> ('k, 'v) bucket \<Rightarrow> ('k, 'v) bucket list \<Rightarrow> merge_context
    \<Rightarrow> ('k, 'v) bucket_level \<Rightarrow> bucket_error + ('k, 'v) bucket_level" where
  "prepare_merge protocol_version curr_for_merge incoming shadows ctx lv =
     (if lv_number lv \<ge> 1
      then Inr (lv\<lparr>lv_next := Some (Async (start_merge curr_for_merge incoming protocol_version shadows ctx))\<rparr>)
      else bindE (merge_buckets curr_for_merge incoming
             \<lparr>keep_dead_entries = ctx_keep_dead_entries ctx, max_protocol_version = protocol_version,
              normalize_init_entries = ctx_normalize_init ctx, shadow_buckets = shadows,
              opt_metadata_policy = CurrentProtocol\<rparr>)
             (\<lambda>b. Inr (lv\<lparr>lv_next := Some (InMemory b)\<rparr>)))"

definition prepare_with_normalization ::
  "u32 \<Rightarrow> ('k :: linorder, 'v) bucket \<Rightarrow> ('k, 'v) bucket list \<Rightarrow> merge_context \<Rightarrow> ('k, 'v) bucket_level
    \<Rightarrow> bucket_error + ('k, 'v) bucket_level" where
  "prepare_with_normalization protocol_version incoming shadows ctx lv =
     (if lv_next lv \<noteq> None then Inl BucketMerge
      else
        let curr_for_merge = (if ctx_use_empty_curr ctx then bucket_empty else lv_curr lv)
        in prepare_merge protocol_version curr_for_merge incoming shadows ctx lv)"

definition prepare_first_level ::
  "u32 \<Rightarrow> ('k :: linorder, 'v) bucket \<Rightarrow> ('k, 'v) bucket_level \<Rightarrow> bucket_error + ('k, 'v) bucket_level" where
  "prepare_first_level protocol_version incoming lv =
     (if lv_number lv \<noteq> 0 then Inl BucketMerge
      else if lv_next lv \<noteq> None then Inl BucketMerge
      else
        bindE (if has_in_memory_entries (lv_curr lv) \<and> has_in_memory_entries incoming
               then merge_in_memory (lv_curr lv) incoming protocol_version
               else merge_buckets (lv_curr lv) incoming
                      \<lparr>keep_dead_entries = KeepDead, max_protocol_version = protocol_version,
                       normalize_init_entries = Preserve, shadow_buckets = [], opt_metadata_policy = CurrentProtocol\<rparr>)
          (\<lambda>merged.
        bindE (if \<not> has_in_memory_entries merged then from_sorted_entries_with_in_memory (storage merged) else Inr merged)
          (\<lambda>merged. Inr (lv\<lparr>lv_next := Some (InMemory merged)\<rparr>))))"

section \<open>The list\<close>

record ('k, 'v) bucket_list =
  levels :: "('k, 'v) bucket_level list"
  bl_ledger_seq :: u32
  has_bucket_dir :: bool

definition new_bucket_list :: "('k, 'v) bucket_list" where
  "new_bucket_list = \<lparr>levels = map new_level [0..<bucket_list_levels], bl_ledger_seq = 0, has_bucket_dir = False\<rparr>"

definition set_bucket_dir :: "('k, 'v) bucket_list \<Rightarrow> ('k, 'v) bucket_list" where
  "set_bucket_dir bl = bl\<lparr>has_bucket_dir := True\<rparr>"

text \<open>The search from the newest bucket to the oldest; metadata goes on with the next level.\<close>

fun get_in_levels :: "'k \<Rightarrow> ('k, 'v) bucket_level list \<Rightarrow> ('k, 'v) ledger_entry option" where
  "get_in_levels k [] = None"
| "get_in_levels k (lv # lvs) =
     (case bucket_get k (lv_curr lv) of
        Some (Liveentry e) \<Rightarrow> Some e
      | Some (Initentry e) \<Rightarrow> Some e
      | Some (Deadentry _) \<Rightarrow> None
      | Some (Metaentry _) \<Rightarrow> get_in_levels k lvs
      | None \<Rightarrow>
          (case bucket_get k (lv_snap lv) of
             Some (Liveentry e) \<Rightarrow> Some e
           | Some (Initentry e) \<Rightarrow> Some e
           | Some (Deadentry _) \<Rightarrow> None
           | Some (Metaentry _) \<Rightarrow> get_in_levels k lvs
           | None \<Rightarrow> get_in_levels k lvs))"

definition bucket_list_get :: "'k \<Rightarrow> ('k, 'v) bucket_list \<Rightarrow> ('k, 'v) ledger_entry option" where
  "bucket_list_get k bl = get_in_levels k (levels bl)"

definition bucket_list_contains :: "'k \<Rightarrow> ('k, 'v) bucket_list \<Rightarrow> bool" where
  "bucket_list_contains k bl \<longleftrightarrow> bucket_list_get k bl \<noteq> None"

definition find_all_occurrences :: "'k \<Rightarrow> ('k, 'v) bucket_list \<Rightarrow> ('k, 'v) bucket_entry list" where
  "find_all_occurrences k bl =
     concat (map (\<lambda>lv. (case bucket_get k (lv_curr lv) of Some e \<Rightarrow> [e] | None \<Rightarrow> []) @
                      (case bucket_get k (lv_snap lv) of Some e \<Rightarrow> [e] | None \<Rightarrow> [])) (levels bl))"

section \<open>Adding a batch\<close>

text \<open>Level \<open>i - 1\<close> spills into level \<open>i\<close>: the body of the loop of \<open>add_batch_internal\<close>.\<close>

definition snap_level :: "nat \<Rightarrow> ('k, 'v) bucket_level list \<Rightarrow> ('k, 'v) bucket \<times> ('k, 'v) bucket_level list" where
  "snap_level i lvs =
     (case level_snapped (lvs ! i) of (spilling, lv) \<Rightarrow>
        if i = 0
        then (clear_in_memory_entries spilling, lvs[0 := lv\<lparr>lv_snap := clear_in_memory_entries (lv_snap lv)\<rparr>])
        else (spilling, lvs[i := lv]))"

definition shadows_above :: "u32 \<Rightarrow> nat \<Rightarrow> ('k, 'v) bucket_level list \<Rightarrow> ('k, 'v) bucket list" where
  "shadows_above protocol_version n lvs =
     (if protocol_version < 12 then concat (map (\<lambda>lv. [lv_curr lv, lv_snap lv]) (take n lvs)) else [])"

definition spill_into ::
  "u32 \<Rightarrow> u32 \<Rightarrow> nat \<Rightarrow> ('k :: linorder, 'v) bucket_list \<Rightarrow> bucket_error + ('k, 'v) bucket_list" where
  "spill_into ledger_seq protocol_version i bl =
     (if \<not> level_should_spill ledger_seq (i - 1) then Inr bl
      else
        case snap_level (i - 1) (levels bl) of (spilling_snap, lvs) \<Rightarrow>
          bindE (commit (lvs ! i)) (\<lambda>lv.
            let lvs' = lvs[i := lv];
                ctx = \<lparr>ctx_keep_dead_entries = keep_tombstone_entries i, ctx_normalize_init = Preserve,
                       ctx_use_empty_curr = should_merge_with_empty_curr ledger_seq i,
                       ctx_has_bucket_dir = has_bucket_dir bl\<rparr>
            in bindE (prepare_with_normalization protocol_version spilling_snap
                        (shadows_above protocol_version (i - 1) lvs') ctx lv)
                 (\<lambda>lv'. Inr (bl\<lparr>levels := lvs'[i := lv']\<rparr>))))"

fun spill_levels ::
  "u32 \<Rightarrow> u32 \<Rightarrow> nat list \<Rightarrow> ('k :: linorder, 'v) bucket_list \<Rightarrow> bucket_error + ('k, 'v) bucket_list" where
  "spill_levels ledger_seq protocol_version [] bl = Inr bl"
| "spill_levels ledger_seq protocol_version (i # is) bl =
     bindE (spill_into ledger_seq protocol_version i bl) (spill_levels ledger_seq protocol_version is)"

definition add_batch_internal ::
  "u32 \<Rightarrow> u32 \<Rightarrow> ('k :: linorder, 'v) bucket \<Rightarrow> ('k, 'v) bucket_list \<Rightarrow> bucket_error + ('k, 'v) bucket_list" where
  "add_batch_internal ledger_seq protocol_version new_bucket bl =
     (if ledger_seq = 0 then Inl BucketMerge
      else
        bindE (spill_levels ledger_seq protocol_version (rev [1..<bucket_list_levels]) bl) (\<lambda>bl1.
        bindE (prepare_first_level protocol_version new_bucket (levels bl1 ! 0)) (\<lambda>lv.
        bindE (commit lv) (\<lambda>lv'. Inr (bl1\<lparr>levels := (levels bl1)[0 := lv']\<rparr>)))))"

text \<open>The two passes of \<open>deduplicate_entries\<close>: the last position of each key, then the entries there.\<close>

fun last_positions :: "nat \<Rightarrow> ('k, 'v) ledger_entry list \<Rightarrow> ('k \<rightharpoonup> nat) \<Rightarrow> ('k \<rightharpoonup> nat)" where
  "last_positions idx [] m = m"
| "last_positions idx (e # es) m = last_positions (Suc idx) es (m(entry_to_key e \<mapsto> idx))"

definition deduplicate_entries :: "('k, 'v) ledger_entry list \<Rightarrow> ('k, 'v) ledger_entry list" where
  "deduplicate_entries es =
     (let key_positions = last_positions 0 es Map.empty;
          positions = (\<lambda>e. key_positions (entry_to_key e)) ` set es
      in map snd (filter (\<lambda>(idx, e). Some idx \<in> positions) (zip [0..<length es] es)))"

text \<open>The filter of dead keys: a key is kept when it was not seen yet.\<close>

fun unseen_keys :: "'k set \<Rightarrow> 'k list \<Rightarrow> 'k list" where
  "unseen_keys seen [] = []"
| "unseen_keys seen (k # ks) = (if k \<in> seen then unseen_keys seen ks else k # unseen_keys (insert k seen) ks)"

definition batch_metadata :: "u32 \<Rightarrow> bucket_list_type \<Rightarrow> ('k, 'v) bucket_entry list" where
  "batch_metadata protocol_version ty =
     (case metadata_for protocol_version ty of Some m \<Rightarrow> [Metaentry m] | None \<Rightarrow> [])"

definition batch_entries ::
  "u32 \<Rightarrow> bucket_list_type \<Rightarrow> ('k, 'v) ledger_entry list \<Rightarrow> ('k, 'v) ledger_entry list \<Rightarrow> 'k list \<Rightarrow> bool
    \<Rightarrow> ('k, 'v) bucket_entry list" where
  "batch_entries protocol_version ty init live dead skip_dedup =
     (let as_init = (if protocol_version \<ge> 11 then Initentry else Liveentry) in
      batch_metadata protocol_version ty @
      (if skip_dedup
       then map as_init init @ map Liveentry live @ map Deadentry dead
       else map as_init (deduplicate_entries init) @ map Liveentry (deduplicate_entries live)
              @ map Deadentry (unseen_keys {} dead)))"

definition add_batch_impl ::
  "u32 \<Rightarrow> u32 \<Rightarrow> bucket_list_type \<Rightarrow> ('k :: linorder, 'v) ledger_entry list \<Rightarrow> ('k, 'v) ledger_entry list \<Rightarrow> 'k list
    \<Rightarrow> bool \<Rightarrow> ('k, 'v) bucket_list \<Rightarrow> bucket_error + ('k, 'v) bucket_list" where
  "add_batch_impl ledger_seq protocol_version ty init live dead skip_dedup bl =
     bindE (fresh_in_memory_only (sort_key entry_key (batch_entries protocol_version ty init live dead skip_dedup)))
       (\<lambda>new_bucket.
     bindE (add_batch_internal ledger_seq protocol_version new_bucket bl)
       (\<lambda>bl'. Inr (bl'\<lparr>bl_ledger_seq := ledger_seq\<rparr>)))"

definition add_batch ::
  "u32 \<Rightarrow> u32 \<Rightarrow> bucket_list_type \<Rightarrow> ('k :: linorder, 'v) ledger_entry list \<Rightarrow> ('k, 'v) ledger_entry list \<Rightarrow> 'k list
    \<Rightarrow> ('k, 'v) bucket_list \<Rightarrow> bucket_error + ('k, 'v) bucket_list" where
  "add_batch ledger_seq protocol_version ty init live dead bl =
     add_batch_impl ledger_seq protocol_version ty init live dead False bl"

definition add_batch_unique ::
  "u32 \<Rightarrow> u32 \<Rightarrow> bucket_list_type \<Rightarrow> ('k :: linorder, 'v) ledger_entry list \<Rightarrow> ('k, 'v) ledger_entry list \<Rightarrow> 'k list
    \<Rightarrow> ('k, 'v) bucket_list \<Rightarrow> bucket_error + ('k, 'v) bucket_list" where
  "add_batch_unique ledger_seq protocol_version ty init live dead bl =
     add_batch_impl ledger_seq protocol_version ty init live dead True bl"

text \<open>The loop over the empty ledgers in between.\<close>

fun add_empty_batches ::
  "u32 list \<Rightarrow> u32 \<Rightarrow> bucket_list_type \<Rightarrow> ('k :: linorder, 'v) bucket_list \<Rightarrow> bucket_error + ('k, 'v) bucket_list" where
  "add_empty_batches [] protocol_version ty bl = Inr bl"
| "add_empty_batches (seq # seqs) protocol_version ty bl =
     bindE (add_batch seq protocol_version ty [] [] [] bl) (add_empty_batches seqs protocol_version ty)"

definition advance_to_ledger ::
  "u32 \<Rightarrow> u32 \<Rightarrow> bucket_list_type \<Rightarrow> ('k :: linorder, 'v) bucket_list \<Rightarrow> bucket_error + ('k, 'v) bucket_list" where
  "advance_to_ledger target protocol_version ty bl =
     (let current = bl_ledger_seq bl in
      if target \<le> current then Inr bl
      else add_empty_batches (map of_nat [unat current + 1..<unat target]) protocol_version ty bl)"

section \<open>Restarting merges\<close>

fun restart_from ::
  "nat list \<Rightarrow> u32 \<Rightarrow> u32 \<Rightarrow> ('k :: linorder, 'v) bucket_list \<Rightarrow> bucket_error + ('k, 'v) bucket_list" where
  "restart_from [] ledger protocol_version bl = Inr bl"
| "restart_from (i # is) ledger protocol_version bl =
     (if lv_next (levels bl ! i) \<noteq> None then restart_from is ledger protocol_version bl
      else
        let prev_snap = lv_snap (levels bl ! (i - 1)) in
        if is_empty_bucket prev_snap then Inr bl
        else
          let merge_start_ledger = bl_round_down ledger (bl_level_half (i - 1));
              version = (case bucket_protocol_version prev_snap of Some v \<Rightarrow> v | None \<Rightarrow> protocol_version);
              ctx = \<lparr>ctx_keep_dead_entries = keep_tombstone_entries i, ctx_normalize_init = Preserve,
                     ctx_use_empty_curr = should_merge_with_empty_curr merge_start_ledger i,
                     ctx_has_bucket_dir = has_bucket_dir bl\<rparr>
          in bindE (prepare_with_normalization version prev_snap [] ctx (levels bl ! i))
               (\<lambda>lv. restart_from is ledger protocol_version (bl\<lparr>levels := (levels bl)[i := lv]\<rparr>)))"

definition restart_merges ::
  "u32 \<Rightarrow> u32 \<Rightarrow> ('k :: linorder, 'v) bucket_list \<Rightarrow> bucket_error + ('k, 'v) bucket_list" where
  "restart_merges ledger protocol_version bl =
     bindE (restart_from [1..<bucket_list_levels] ledger protocol_version bl)
       (\<lambda>bl'. Inr (bl'\<lparr>bl_ledger_seq := ledger\<rparr>))"

end
