(* ===== verification/Bucket_List_Correct.thy ===== *)
theory Bucket_List_Correct
  imports Bucket_Merge_Props Bucket_List
begin

text \<open>
  What the operations on the bucket list rest on: the arithmetic of spills, the stack of a key's entries from
  the newest bucket to the oldest and how a merge of two neighbours acts on it, and the result of a
  background merge.
\<close>

section \<open>When levels spill\<close>

text \<open>Level \<open>i\<close> spills every \<open>half i\<close> ledgers, four times as rarely as the level above.\<close>

definition half :: "nat \<Rightarrow> nat" where
  "half i = 2 ^ (2 * i + 1)"

definition spills :: "nat \<Rightarrow> nat \<Rightarrow> bool" where
  "spills n i \<longleftrightarrow> i < 10 \<and> half i dvd n"

lemma half_Suc: "half (Suc i) = 4 * half i"
  by (simp add: half_def)

lemma half_pos [simp]: "0 < half i"
  by (simp add: half_def)

lemma half_dvd_Suc: "half i dvd half (Suc i)"
  by (simp add: half_Suc)

lemma half_dvd_word: "i \<le> 10 \<Longrightarrow> half i dvd 4294967296"
proof -
  assume "i \<le> 10"
  then have "half i dvd 2 ^ 32" unfolding half_def by (intro le_imp_power_dvd) simp
  then show ?thesis by simp
qed

lemma unat_push_bit_one: "n < 32 \<Longrightarrow> unat (push_bit n 1 :: u32) = 2 ^ n"
proof -
  assume n: "n < 32"
  then have "(2::nat) ^ n < 2 ^ 32" by (rule power_strict_increasing) simp
  then show ?thesis by (subst unsigned_push_bit_eq) (use n in \<open>simp add: take_bit_nat_eq_self push_bit_eq_mult\<close>)
qed

lemma unat_level_half: "i \<le> 10 \<Longrightarrow> unat (bl_level_half i) = half i"
  unfolding bl_level_half_def half_def by (rule unat_push_bit_one) simp

lemma unat_level_size: "i \<le> 10 \<Longrightarrow> unat (bl_level_size i) = 2 * half i"
  unfolding bl_level_size_def half_def by (subst unat_push_bit_one) simp_all

lemma word_mod_zero: "(x :: u32) mod y = 0 \<longleftrightarrow> unat y dvd unat x"
  by (metis dvd_eq_mod_eq_0 unat_eq_zero unat_mod)

lemma level_should_spill_iff: "i \<le> 10 \<Longrightarrow> level_should_spill l i = spills (unat l) i"
proof -
  assume i: "i \<le> 10"
  have "2 * half i dvd unat l \<Longrightarrow> half i dvd unat l" by (metis dvd_mult_right)
  with i show ?thesis
    by (auto simp: level_should_spill_def bl_level_should_spill_def bucket_list_levels_def spills_def word_mod_zero
        unat_level_half unat_level_size)
qed

lemma spills_above: "spills n (Suc i) \<Longrightarrow> spills n i"
  using half_dvd_Suc dvd_trans by (fastforce simp: spills_def)

lemma and_not_mask: "(x :: u32) AND NOT (mask n) = push_bit n (drop_bit n x)"
  by (rule bit_eqI) (auto simp: bit_simps)

lemma unat_round_down:
  assumes "i \<le> 10"
  shows "unat (bl_round_down l (bl_level_half i)) = unat l div half i * half i"
proof -
  define n where "n = 2 * i + 1"
  have pos: "bl_level_half i \<noteq> 0" using unat_level_half [OF assms] by (metis half_pos less_irrefl unat_0)
  have "bl_level_half i - 1 = mask n" by (simp only: bl_level_half_def mask_eq_exp_minus_1 push_bit_eq_mult n_def) simp
  then have eq: "bl_round_down l (bl_level_half i) = push_bit n (drop_bit n l)"
    using pos by (simp add: bl_round_down_def and_not_mask)
  have drop: "unat (drop_bit n l) = unat l div half i"
    unfolding unat_drop_bit_eq by (simp add: drop_bit_eq_div half_def n_def)
  have "unat l div half i * half i < 2 ^ 32"
    by (rule le_less_trans [OF div_times_less_eq_dividend]) (use unat_u32_bound [of l] in simp)
  then show ?thesis
    unfolding eq unsigned_push_bit_eq drop by (simp add: take_bit_nat_eq_self push_bit_eq_mult half_def n_def)
qed

text \<open>Whether the next spill into level \<open>i\<close> coincides with one out of it: constant between two spills into \<open>i\<close>.\<close>

definition empties :: "nat \<Rightarrow> nat \<Rightarrow> bool" where
  "empties n i \<longleftrightarrow> spills (n div half (i - 1) * half (i - 1) + half (i - 1)) i"

lemma should_merge_with_empty_curr_iff:
  assumes "1 \<le> i" "i \<le> 10"
  shows "should_merge_with_empty_curr l i = empties (unat l) i"
proof -
  have i: "i - 1 \<le> 10" using assms by simp
  let ?x = "bl_round_down l (bl_level_half (i - 1)) + bl_level_half (i - 1)"
  have "unat ?x = (unat l div half (i - 1) * half (i - 1) + half (i - 1)) mod 4294967296"
    using unat_round_down [OF i, of l] unat_level_half [OF i] by (simp add: unat_word_ariths)
  then have "half i dvd unat ?x \<longleftrightarrow> half i dvd unat l div half (i - 1) * half (i - 1) + half (i - 1)"
    using half_dvd_word [OF assms(2)] by (simp add: dvd_mod_iff)
  then have "spills (unat ?x) i \<longleftrightarrow> empties (unat l) i" by (simp add: empties_def spills_def)
  with assms level_should_spill_iff [OF assms(2), of ?x] show ?thesis
    by (simp add: should_merge_with_empty_curr_def bl_should_merge_with_empty_curr_def level_should_spill_def Let_def)
qed

lemma empties_at_spill:
  assumes "1 \<le> i" "i \<le> 10" "spills (Suc n) (i - 1)"
  shows "empties n i = spills (Suc n) i"
proof -
  let ?h = "half (i - 1)"
  from assms(3) obtain q where q: "Suc n = ?h * q" by (auto simp: spills_def)
  then obtain r where r: "q = Suc r" by (cases q) simp_all
  obtain h where h: "?h = Suc h" using half_pos [of "i - 1"] gr0_conv_Suc by auto
  have "Suc n = Suc h * Suc r" by (simp only: q r h)
  then have "n = h + Suc h * r" by simp
  then have "n div ?h = r" by (simp only: h div_mult_self2) simp
  then have "n div ?h * ?h + ?h = Suc n" using q r by (simp add: algebra_simps)
  then show ?thesis by (simp add: empties_def)
qed

lemma empties_between:
  assumes "1 \<le> i" "i \<le> 10" "\<not> spills (Suc n) (i - 1)"
  shows "empties (Suc n) i = empties n i"
proof -
  have "\<not> half (i - 1) dvd Suc n" using assms by (auto simp: spills_def)
  then have "Suc n div half (i - 1) = n div half (i - 1)" by (simp add: div_Suc dvd_eq_mod_eq_0)
  then show ?thesis by (simp add: empties_def)
qed

section \<open>The entries of a key, newest first\<close>

abbreviation opt :: "'a option \<Rightarrow> 'a list" where
  "opt x \<equiv> (case x of Some y \<Rightarrow> [y] | None \<Rightarrow> [])"

definition level_entries :: "'k \<Rightarrow> ('k, 'v) bucket_level \<Rightarrow> ('k, 'v) bucket_entry list" where
  "level_entries k lv = opt (bucket_get k (lv_curr lv)) @ opt (bucket_get k (lv_snap lv))"

definition stack :: "'k \<Rightarrow> ('k, 'v) bucket_level list \<Rightarrow> ('k, 'v) bucket_entry list" where
  "stack k lvs = concat (map (level_entries k) lvs)"

text \<open>An entry is created only over a deleted one, or where there is none.\<close>

definition chain_ok :: "('k, 'v) bucket_entry list \<Rightarrow> bool" where
  "chain_ok rs \<longleftrightarrow> successively (\<lambda>x y. is_init x \<longrightarrow> is_dead y) rs \<and> (\<forall>e\<in>set rs. \<not> is_metadata e)"

definition view :: "('k, 'v) bucket_entry list \<Rightarrow> ('k, 'v) ledger_entry option" where
  "view rs = (case rs of [] \<Rightarrow> None | e # _ \<Rightarrow> apply_entry (Some e) None)"

lemma find_all_occurrences_stack: "find_all_occurrences k bl = stack k (levels bl)"
  by (simp add: find_all_occurrences_def stack_def level_entries_def [abs_def])

lemma get_in_levels_view: "chain_ok (stack k lvs) \<Longrightarrow> get_in_levels k lvs = view (stack k lvs)"
proof (induction lvs)
  case (Cons lv lvs)
  then have "chain_ok (stack k lvs)" by (auto simp: stack_def chain_ok_def successively_append_iff)
  with Cons show ?case
    by (auto simp: stack_def level_entries_def view_def apply_entry_def chain_ok_def split: option.splits bucket_entry.splits)
qed (simp add: stack_def view_def)

lemma view_simps: "view [] = None" "view (e # rs) = apply_entry (Some e) None"
  by (simp_all add: view_def)

lemma view_append: "view (xs @ ys) = (if xs = [] then view ys else view xs)"
  by (cases xs) (simp_all add: view_def)

lemma chain_ok_legal:
  assumes "chain_ok (xs @ opt y @ opt x @ ys)"
  shows "\<not> init_over_live x y"
  using assms by (auto simp: init_over_live_def chain_ok_def successively_append_iff)

text \<open>Two neighbours may be replaced by what they merge to; at the bottom, tombstones may go.\<close>

lemma merge_in_stack:
  assumes ok: "chain_ok (xs @ opt y @ opt x @ ys)" and bottom: "keep = RemoveDead \<Longrightarrow> ys = []"
  shows "chain_ok (xs @ opt (merged_at keep Preserve x y) @ ys) \<and>
    view (xs @ opt (merged_at keep Preserve x y) @ ys) = view (xs @ opt y @ opt x @ ys)"
proof -
  note defs = chain_ok_def successively_append_iff successively_Cons merged_at_def maybe_normalize_entry_def view_append view_simps
  show ?thesis
  proof (cases x)
    case None
    then show ?thesis
    proof (cases y)
      case (Some f)
      with None ok bottom show ?thesis
        by (cases f; cases keep) (auto simp: defs apply_entry_def neq_Nil_conv)
    qed (use None ok in \<open>simp add: merged_at_def\<close>)
  next
    case x: (Some e)
    show ?thesis
    proof (cases y)
      case None
      with x ok bottom show ?thesis
        by (cases e; cases keep) (auto simp: defs apply_entry_def neq_Nil_conv)
    next
      case (Some f)
      with x ok bottom show ?thesis
        by (cases e; cases f; cases keep; cases ys) (auto simp: defs apply_entry_def neq_Nil_conv split: bucket_entry.splits)
    qed
  qed
qed

section \<open>Background merges\<close>

definition ver :: "('k, 'v) bucket \<Rightarrow> u32" where
  "ver b = (case extract_metadata (storage b) of Some m \<Rightarrow> ledger_version m | None \<Rightarrow> 0)"

text \<open>A bucket of the list: well formed, of a protocol with metadata, lifecycle entries and no shadows.\<close>

definition bucket_ok :: "u32 \<Rightarrow> ('k :: linorder, 'v) bucket \<Rightarrow> bool" where
  "bucket_ok p b \<longleftrightarrow> bucket_wf b \<and> ver b \<le> p \<and> (storage b \<noteq> [] \<longrightarrow> 12 \<le> ver b)"

definition merge_list ::
  "dead_entry_policy \<Rightarrow> ('k :: linorder, 'v) bucket \<Rightarrow> ('k, 'v) bucket \<Rightarrow> ('k, 'v) bucket_entry list" where
  "merge_list keep C S = projr (merged keep Preserve (data (storage C)) (data (storage S)))"

definition merge_result ::
  "dead_entry_policy \<Rightarrow> ('k :: linorder, 'v) bucket \<Rightarrow> ('k, 'v) bucket \<Rightarrow> ('k, 'v) bucket" where
  "merge_result keep C S =
     pack (head_list (map_option Metaentry (metadata_for (max (ver C) (ver S)) LiveList)) @ merge_list keep C S)"

abbreviation legal :: "('k, 'v) bucket \<Rightarrow> ('k, 'v) bucket \<Rightarrow> bool" where
  "legal C S \<equiv> \<forall>k. \<not> init_over_live (bucket_get k C) (bucket_get k S)"

lemma bucket_ok_empty [simp]: "bucket_ok p bucket_empty"
  by (simp add: bucket_ok_def ver_def extract_metadata_def) (simp add: bucket_empty_def)

lemma bucket_ok_mono: "bucket_ok p b \<Longrightarrow> p \<le> p' \<Longrightarrow> bucket_ok p' b"
  by (auto simp: bucket_ok_def)

lemma bucket_okD:
  assumes "bucket_ok p b"
  shows "bucket_wf b" "sorted_entries (storage b)" "is_empty_bucket b \<longleftrightarrow> storage b = []"
    "storage b = [] \<longleftrightarrow> ver b = 0" "ver b \<le> p" "storage b \<noteq> [] \<Longrightarrow> 12 \<le> ver b"
  using assms by (auto simp: bucket_ok_def bucket_wf_def is_empty_bucket_def ver_def extract_metadata_def)

lemma data_no_metadata: "\<forall>e\<in>set (data es) \<union> set (data fs). \<not> is_metadata e"
  by auto

lemma merged_legal_Inr:
  assumes "bucket_wf C" "bucket_wf S" "legal C S"
  shows "merged keep Preserve (data (storage C)) (data (storage S)) = Inr (merge_list keep C S)"
proof (cases "merged keep Preserve (data (storage C)) (data (storage S))")
  case (Inl e)
  have "sorted_entries (storage C)" "sorted_entries (storage S)" using assms(1,2) by (simp_all add: bucket_wf_def)
  note srt = this [THEN sorted_data]
  obtain k where "init_over_live (raw (data (storage C)) k) (raw (data (storage S)) k)"
    using merged_fails [OF Inl srt data_no_metadata] by blast
  then have "init_over_live (bucket_get k C) (bucket_get k S)"
    by (simp only: raw_data bucket_get_raw [OF assms(1)] bucket_get_raw [OF assms(2)])
  with assms(3) show ?thesis by simp
qed (simp add: merge_list_def)

lemma at_least_11: "12 \<le> (v :: u32) \<Longrightarrow> 11 \<le> v"
  by (rule order_trans [of 11 12]) simp_all

lemma ver_pack_metadata:
  "12 \<le> v \<Longrightarrow> ver (pack (head_list (map_option Metaentry (metadata_for v ty)) @ es)) = v"
  using at_least_11 [of v] by (simp add: ver_def metadata_for_def extract_metadata_def)

lemma merge_result_facts:
  assumes ok: "bucket_ok p C" "bucket_ok p S" and "legal C S"
  shows "bucket_ok p (merge_result keep C S)" "ver (merge_result keep C S) = max (ver C) (ver S)"
    "storage (merge_result keep C S) = [] \<longleftrightarrow> storage C = [] \<and> storage S = []"
    "bucket_get k (merge_result keep C S) = merged_at keep Preserve (bucket_get k C) (bucket_get k S)"
proof -
  note wf = bucket_okD(1) [OF ok(1)] bucket_okD(1) [OF ok(2)]
  note sorted = bucket_okD(2) [OF ok(1)] bucket_okD(2) [OF ok(2)]
  note m = merged_legal_Inr [OF wf assms(3), of keep]
  let ?v = "max (ver C) (ver S)"
  let ?h = "head_list (map_option Metaentry (metadata_for ?v LiveList)) :: ('a, 'b) bucket_entry list"
  have meta: "(\<forall>e\<in>set ?h. is_metadata e) \<and> length ?h \<le> 1" by (simp add: metadata_for_def)
  have data: "\<forall>e\<in>set (merge_list keep C S). \<not> is_metadata e" by (rule merged_data [OF m data_no_metadata])
  have "sorted_entries (merge_list keep C S)"
    by (rule merged_sorted [OF m sorted_data [OF sorted(1)] sorted_data [OF sorted(2)]])
  with meta data have srt: "sorted_entries (?h @ merge_list keep C S)" by (intro sorted_metadata_first) simp_all
  then have mwf: "bucket_wf (merge_result keep C S)" unfolding merge_result_def by (rule pack_wf)
  have empty: "storage C = [] \<and> storage S = [] \<longleftrightarrow> ?v = 0"
    using bucket_okD(4) [OF ok(1)] bucket_okD(4) [OF ok(2)] by (auto simp: max_def)
  have big: "?v \<noteq> 0 \<Longrightarrow> 12 \<le> ?v"
    using bucket_okD(4,6) [OF ok(1)] bucket_okD(4,6) [OF ok(2)] by (auto simp: max_def)
  have nil: "?v = 0 \<Longrightarrow> merge_result keep C S = bucket_empty"
    using m empty by (simp add: merge_result_def metadata_for_def pack_def)
  show v: "ver (merge_result keep C S) = ?v"
  proof (cases "?v = 0")
    case True
    then show ?thesis by (simp add: nil ver_def extract_metadata_def) (simp add: bucket_empty_def)
  next
    case False
    show ?thesis unfolding merge_result_def by (rule ver_pack_metadata [OF big [OF False]])
  qed
  show ne: "storage (merge_result keep C S) = [] \<longleftrightarrow> storage C = [] \<and> storage S = []"
  proof (cases "?v = 0")
    case True
    then have "storage (merge_result keep C S) = []" by (simp add: nil bucket_empty_def)
    with True empty show ?thesis by blast
  next
    case False
    with big have "11 \<le> ?v" by (blast intro: at_least_11)
    then have "?h \<noteq> []" by (simp add: metadata_for_def)
    with False empty show ?thesis by (simp add: merge_result_def)
  qed
  have "?v \<le> p" using bucket_okD(5) [OF ok(1)] bucket_okD(5) [OF ok(2)] by simp
  with mwf v ne empty big show "bucket_ok p (merge_result keep C S)" by (auto simp: bucket_ok_def)
  have "raw (storage (merge_result keep C S)) k = raw (merge_list keep C S) k"
    using meta by (simp add: merge_result_def raw_prefix)
  also have "\<dots> = merged_at keep Preserve (raw (storage C) k) (raw (storage S) k)"
    using raw_merged [OF m sorted_data [OF sorted(1)] sorted_data [OF sorted(2)] data_no_metadata, of k]
    by (simp only: raw_data)
  finally show "bucket_get k (merge_result keep C S) = merged_at keep Preserve (bucket_get k C) (bucket_get k S)"
    by (simp add: bucket_get_raw mwf wf)
qed

lemma validated: "sorted_entries es \<Longrightarrow> es \<noteq> [] \<Longrightarrow> promote_to_canonical es = Inr (pack es)"
  using validate_all_new [of es] by (auto simp: promote_to_canonical_def pack_def)

lemma pack_nothing: "storage (pack es) = [] \<Longrightarrow> pack es = bucket_empty"
  unfolding pack_storage by (simp add: pack_def)

text \<open>A background merge of two buckets of the list returns their merge, with or without files.\<close>

lemma start_merge_eq:
  assumes ok: "bucket_ok p C" "bucket_ok p S" and "legal C S" "ver C \<le> pv" "ver S \<le> pv"
    and "sh = [] \<or> 12 \<le> pv" "ctx_normalize_init ctx = Preserve"
  shows "start_merge C S pv sh ctx = Inr (merge_result (ctx_keep_dead_entries ctx) C S)"
proof -
  let ?keep = "ctx_keep_dead_entries ctx"
  let ?opts = "\<lambda>sh. \<lparr>keep_dead_entries = ?keep, max_protocol_version = pv,
            normalize_init_entries = Preserve, shadow_buckets = sh, opt_metadata_policy = InputDerived\<rparr>"
  note wf = bucket_okD(1) [OF ok(1)] bucket_okD(1) [OF ok(2)]
  note m = merged_legal_Inr [OF wf assms(3), of ?keep]
  let ?v = "max (ver C) (ver S)"
  let ?all = "head_list (map_option Metaentry (metadata_for ?v LiveList)) @ merge_list ?keep C S"
  have "\<not> pv < ?v" using assms(4,5) by (simp add: not_less)
  then have build: "build_output_metadata (extract_metadata (storage C)) (extract_metadata (storage S)) pv InputDerived
      = Inr (?v, map_option Metaentry (metadata_for ?v LiveList))"
    by (simp only: build_output_metadata_def Let_def metadata_policy.case ver_def [symmetric]) simp
  have srt: "sorted_entries ?all"
    using merge_result_facts(1) [OF ok assms(3), of ?keep] by (simp add: bucket_ok_def bucket_wf_def merge_result_def)
  have none: "storage C = [] \<and> storage S = [] \<Longrightarrow> merge_result ?keep C S = bucket_empty"
    using merge_result_facts(3) [OF ok assms(3), of ?keep] unfolding merge_result_def
    by (intro pack_nothing) blast
  show ?thesis
  proof (cases "is_empty_bucket S \<and> is_empty_bucket C")
    case True
    then have "storage C = [] \<and> storage S = []" using bucket_okD(3) ok by blast
    with True show ?thesis
      by (simp add: start_merge_def Let_def merge_to_file_result [OF wf] merge_buckets_result [OF wf] assms(6,7) none)
  next
    case False
    have to_file: "merge_buckets_to_file C S (?opts []) = Inr ?all"
      unfolding merge_to_file_result [OF wf] if_not_P [OF False] by (simp add: build m)
    have in_mem: "merge_buckets C S (?opts sh) = Inr (pack ?all)"
      by (subst merge_buckets_result [OF wf], use assms(6) in simp, unfold if_not_P [OF False]) (simp add: build m)
    define all where "all = ?all"
    note folded = to_file [folded all_def] in_mem [folded all_def] validated [OF srt [folded all_def]]
    have "start_merge C S pv sh ctx = Inr (pack all)"
      using folded by (cases "all = []") (simp_all add: start_merge_def Let_def assms(7) pack_def)
    then show ?thesis by (simp only: merge_result_def all_def)
  qed
qed

end
