(* ===== verification/Bucket_List_Steps.thy ===== *)
theory Bucket_List_Steps
  imports Bucket_List_Correct
begin

text \<open>
  The invariant of the levels of a bucket list between two ledgers, and what the spills of one ledger make of
  them: level by level in closed form, from the deepest level to the first.
\<close>

section \<open>The invariant\<close>

text \<open>Which buckets are in use after \<open>n\<close> ledgers.\<close>

definition curr_used :: "nat \<Rightarrow> nat \<Rightarrow> bool" where
  "curr_used n m \<longleftrightarrow> (if m = 0 then 1 \<le> n else 2 * half (m - 1) \<le> n)"

definition snap_used :: "nat \<Rightarrow> nat \<Rightarrow> bool" where
  "snap_used n m \<longleftrightarrow> m < 10 \<and> half m \<le> n"

text \<open>The merge pending for level \<open>m\<close>: its next \<open>curr\<close>, known since the last spill into it.\<close>

definition pending :: "nat \<Rightarrow> nat \<Rightarrow> ('k :: linorder, 'v) bucket \<Rightarrow> ('k, 'v) bucket \<Rightarrow> ('k, 'v) pending_merge option" where
  "pending n m C S =
     (if storage S = [] then None
      else Some (Async (Inr (merge_result (keep_tombstone_entries m) (if empties n m then bucket_empty else C) S))))"

definition level_inv :: "nat \<Rightarrow> u32 \<Rightarrow> ('k :: linorder, 'v) bucket_level list \<Rightarrow> nat \<Rightarrow> bool" where
  "level_inv n p lvs m \<longleftrightarrow>
     lv_number (lvs ! m) = m \<and> bucket_ok p (lv_curr (lvs ! m)) \<and> bucket_ok p (lv_snap (lvs ! m)) \<and>
     (storage (lv_curr (lvs ! m)) \<noteq> [] \<longleftrightarrow> curr_used n m) \<and> (storage (lv_snap (lvs ! m)) \<noteq> [] \<longleftrightarrow> snap_used n m) \<and>
     ver (lv_snap (lvs ! m)) \<le> ver (lv_curr (lvs ! m)) \<and>
     (if m = 0 then lv_next (lvs ! m) = None \<and> has_in_memory_entries (lv_curr (lvs ! m))
      else ver (lv_curr (lvs ! m)) \<le> ver (lv_snap (lvs ! (m - 1))) \<and>
        lv_next (lvs ! m) = pending n m (lv_curr (lvs ! m)) (lv_snap (lvs ! (m - 1))))"

definition levels_inv :: "nat \<Rightarrow> u32 \<Rightarrow> ('k :: linorder, 'v) bucket_level list \<Rightarrow> bool" where
  "levels_inv n p lvs \<longleftrightarrow>
     length lvs = 11 \<and> (\<forall>m<11. level_inv n p lvs m) \<and> (\<forall>k. chain_ok (stack k lvs))"

section \<open>One ledger, level by level\<close>

text \<open>Level \<open>m\<close> after it was snapped, if it spills.\<close>

definition snapped :: "nat \<Rightarrow> nat \<Rightarrow> ('k, 'v) bucket_level \<Rightarrow> ('k, 'v) bucket_level" where
  "snapped N m lv =
     (if spills N m
      then lv\<lparr>lv_curr := bucket_empty, lv_snap := (if m = 0 then clear_in_memory_entries (lv_curr lv) else lv_curr lv)\<rparr>
      else lv)"

text \<open>The bucket that is committed at level \<open>m\<close>, and the level once the next merge was started.\<close>

definition committed :: "nat \<Rightarrow> nat \<Rightarrow> ('k :: linorder, 'v) bucket_level list \<Rightarrow> ('k, 'v) bucket" where
  "committed N m lvs =
     (if storage (lv_snap (lvs ! (m - 1))) = [] then lv_curr (snapped N m (lvs ! m))
      else merge_result (keep_tombstone_entries m) (lv_curr (snapped N m (lvs ! m))) (lv_snap (lvs ! (m - 1))))"

definition refreshed :: "nat \<Rightarrow> nat \<Rightarrow> ('k :: linorder, 'v) bucket_level list \<Rightarrow> ('k, 'v) bucket_level" where
  "refreshed N m lvs =
     (if spills N (m - 1)
      then (snapped N m (lvs ! m))\<lparr>lv_curr := committed N m lvs,
             lv_next := pending N m (committed N m lvs) (lv_snap (snapped N (m - 1) (lvs ! (m - 1))))\<rparr>
      else lvs ! m)"

text \<open>The levels when those below \<open>j\<close> have been refreshed.\<close>

definition spilled :: "nat \<Rightarrow> nat \<Rightarrow> ('k :: linorder, 'v) bucket_level list \<Rightarrow> ('k, 'v) bucket_level list" where
  "spilled N j lvs = take j lvs @ snapped N j (lvs ! j) # map (\<lambda>m. refreshed N m lvs) [Suc j..<11]"

lemma spilled_all: "length lvs = 11 \<Longrightarrow> spilled N 10 lvs = lvs"
  by (simp add: spilled_def snapped_def spills_def take_Suc_conv_app_nth [of 10, symmetric])

lemma spilled_split:
  assumes "length lvs = 11" "1 \<le> i" "i \<le> 10"
  shows "spilled N i lvs = take (i - 1) lvs @ lvs ! (i - 1) # snapped N i (lvs ! i) # map (\<lambda>m. refreshed N m lvs) [Suc i..<11]"
    "spilled N (i - 1) lvs = take (i - 1) lvs @ snapped N (i - 1) (lvs ! (i - 1)) # refreshed N i lvs # map (\<lambda>m. refreshed N m lvs) [Suc i..<11]"
proof -
  obtain j where j: "i = Suc j" using assms by (cases i) auto
  show "spilled N i lvs = take (i - 1) lvs @ lvs ! (i - 1) # snapped N i (lvs ! i) # map (\<lambda>m. refreshed N m lvs) [Suc i..<11]"
    using assms by (simp add: spilled_def j take_Suc_conv_app_nth)
  show "spilled N (i - 1) lvs = take (i - 1) lvs @ snapped N (i - 1) (lvs ! (i - 1)) # refreshed N i lvs # map (\<lambda>m. refreshed N m lvs) [Suc i..<11]"
    using assms by (simp add: spilled_def j upt_conv_Cons)
qed

section \<open>Arithmetic of used buckets\<close>

lemma spill_uses_curr: "spills (Suc n) m \<Longrightarrow> curr_used n m"
proof -
  assume s: "spills (Suc n) m"
  then have h: "half m \<le> Suc n" by (auto simp: spills_def dest: dvd_imp_le)
  show ?thesis
  proof (cases m)
    case 0
    with h show ?thesis by (simp add: curr_used_def half_def)
  next
    case (Suc j)
    with h half_pos [of j] show ?thesis by (simp add: curr_used_def half_Suc)
  qed
qed

lemma used_without_spill:
  assumes "\<not> spills (Suc n) m" "m < 10"
  shows "snap_used (Suc n) m = snap_used n m" "curr_used (Suc n) (Suc m) = curr_used n (Suc m)"
proof -
  have nd: "\<not> half m dvd Suc n" using assms by (simp add: spills_def)
  then have "Suc n \<noteq> half m" "Suc n \<noteq> 2 * half m" by (auto simp del: mult_Suc)
  then show "snap_used (Suc n) m = snap_used n m" "curr_used (Suc n) (Suc m) = curr_used n (Suc m)"
    using assms(2) by (auto simp: snap_used_def curr_used_def)
qed

lemma used_at_spill:
  assumes "spills (Suc n) m"
  shows "snap_used (Suc n) m" "curr_used (Suc n) (Suc m) \<longleftrightarrow> snap_used n m"
proof -
  obtain q where q: "Suc n = half m * q" and m: "m < 10" using assms by (auto simp: spills_def)
  then have "1 \<le> q" by (cases q) simp_all
  then have "half m \<le> Suc n" using q by simp
  with m show "snap_used (Suc n) m" by (simp add: snap_used_def)
  have "2 * half m \<le> Suc n \<longleftrightarrow> half m \<le> n"
  proof
    assume "half m \<le> n"
    then have "half m * 1 < half m * q" using q by linarith
    then have "1 < q" by (simp only: nat_mult_less_cancel1 [OF half_pos])
    then show "2 * half m \<le> Suc n" using q by simp
  qed (use half_pos [of m] in linarith)
  with m show "curr_used (Suc n) (Suc m) \<longleftrightarrow> snap_used n m" by (simp add: curr_used_def snap_used_def)
qed

section \<open>The buckets of one ledger's spills\<close>

lemma keep_at: "keep_tombstone_entries m = RemoveDead \<longleftrightarrow> 10 \<le> m"
  by (simp add: keep_tombstone_entries_def bl_keep_tombstone_entries_def bucket_list_levels_def)

lemma clear_simps [simp]:
  "storage (clear_in_memory_entries b) = storage b" "bucket_get k (clear_in_memory_entries b) = bucket_get k b"
  "ver (clear_in_memory_entries b) = ver b"
  by (simp_all add: clear_in_memory_entries_def bucket_get_def ver_def split: option.splits)

lemma clear_ok: "bucket_ok p b \<Longrightarrow> bucket_ok p (clear_in_memory_entries b)"
  by (simp add: bucket_ok_def bucket_wf_def) (simp add: clear_in_memory_entries_def)

lemma empty_simps [simp]: "storage bucket_empty = []" "bucket_get k bucket_empty = None" "ver bucket_empty = 0"
  by (simp_all add: bucket_empty_def bucket_get_def ver_def extract_metadata_def)

lemma merge_result_get:
  assumes "bucket_ok p C" "bucket_ok p S" "legal C S"
  shows "bucket_get k (merge_result keep C S) = merged_at keep Preserve (bucket_get k C) (bucket_get k S)"
  by (rule merge_result_facts(4) [OF assms])

lemma snapped_fields [simp]:
  "lv_number (snapped N m lv) = lv_number lv" "lv_next (snapped N m lv) = lv_next lv"
  by (simp_all add: snapped_def)

lemma snapped_entries: "level_entries k (snapped N m lv) =
    (if spills N m then opt (bucket_get k (lv_curr lv)) else level_entries k lv)"
  by (simp add: snapped_def level_entries_def)

lemma stack_append [simp]: "stack k (xs @ ys) = stack k xs @ stack k ys"
  by (simp add: stack_def)

lemma stack_Cons [simp]: "stack k (lv # lvs) = level_entries k lv @ stack k lvs"
  by (simp add: stack_def)

lemma stack_Nil [simp]: "stack k [] = []"
  by (simp add: stack_def)

lemma bucket_get_no_storage: "storage b = [] \<Longrightarrow> bucket_get k b = None"
  by (simp add: bucket_get_def split: option.splits)

lemma level_invD:
  assumes "levels_inv n p lvs" "m \<le> 10"
  shows "lv_number (lvs ! m) = m" "bucket_ok p (lv_curr (lvs ! m))" "bucket_ok p (lv_snap (lvs ! m))"
    "storage (lv_curr (lvs ! m)) \<noteq> [] \<longleftrightarrow> curr_used n m" "storage (lv_snap (lvs ! m)) \<noteq> [] \<longleftrightarrow> snap_used n m"
    "ver (lv_snap (lvs ! m)) \<le> ver (lv_curr (lvs ! m))" "length lvs = 11" "chain_ok (stack k lvs)"
    "1 \<le> m \<Longrightarrow> ver (lv_curr (lvs ! m)) \<le> ver (lv_snap (lvs ! (m - 1)))"
    "1 \<le> m \<Longrightarrow> lv_next (lvs ! m) = pending n m (lv_curr (lvs ! m)) (lv_snap (lvs ! (m - 1)))"
proof -
  have "level_inv n p lvs m" using assms by (simp add: levels_inv_def)
  then show "lv_number (lvs ! m) = m" "bucket_ok p (lv_curr (lvs ! m))" "bucket_ok p (lv_snap (lvs ! m))"
    "storage (lv_curr (lvs ! m)) \<noteq> [] \<longleftrightarrow> curr_used n m" "storage (lv_snap (lvs ! m)) \<noteq> [] \<longleftrightarrow> snap_used n m"
    "ver (lv_snap (lvs ! m)) \<le> ver (lv_curr (lvs ! m))"
    "1 \<le> m \<Longrightarrow> ver (lv_curr (lvs ! m)) \<le> ver (lv_snap (lvs ! (m - 1)))"
    "1 \<le> m \<Longrightarrow> lv_next (lvs ! m) = pending n m (lv_curr (lvs ! m)) (lv_snap (lvs ! (m - 1)))"
    by (simp_all add: level_inv_def)
qed (use assms in \<open>simp_all add: levels_inv_def\<close>)

text \<open>
  A step of the loop: the stack of a key's entries before and after differ in that the old snapshot above
  level \<open>i\<close> was merged into it. The merges are legal.
\<close>

lemma committed_step:
  assumes inv: "levels_inv n p lvs" and i: "1 \<le> i" "i \<le> 10" and spill: "spills N (i - 1)"
    and chain: "\<And>k. chain_ok (stack k (spilled N i lvs))"
  shows "bucket_ok p (committed N i lvs)"
    "ver (committed N i lvs) = max (ver (lv_curr (snapped N i (lvs ! i)))) (ver (lv_snap (lvs ! (i - 1))))"
    "storage (committed N i lvs) = [] \<longleftrightarrow> storage (lv_curr (snapped N i (lvs ! i))) = [] \<and> storage (lv_snap (lvs ! (i - 1))) = []"
    "chain_ok (stack k (spilled N (i - 1) lvs))" "view (stack k (spilled N (i - 1) lvs)) = view (stack k (spilled N i lvs))"
proof -
  have len: "length lvs = 11" and i': "i - 1 \<le> 10" using level_invD(7) [OF inv, of 0] i by simp_all
  let ?C = "lv_curr (snapped N i (lvs ! i))" and ?S = "lv_snap (lvs ! (i - 1))"
  have C: "bucket_ok p ?C" using level_invD(2) [OF inv i(2)] by (simp add: snapped_def)
  have S: "bucket_ok p ?S" by (rule level_invD(3) [OF inv i'])
  note split = spilled_split [OF len i, of N]
  let ?above = "\<lambda>k. stack k (take (i - 1) lvs) @ opt (bucket_get k (lv_curr (lvs ! (i - 1))))"
  let ?below = "\<lambda>k. opt (bucket_get k (lv_snap (snapped N i (lvs ! i)))) @ stack k (map (\<lambda>m. refreshed N m lvs) [Suc i..<11])"
  have before: "stack k (spilled N i lvs) = ?above k @ opt (bucket_get k ?S) @ opt (bucket_get k ?C) @ ?below k" for k
    unfolding split(1) by (simp add: level_entries_def)
  have legal: "legal ?C ?S"
    using chain before by (metis chain_ok_legal)
  note facts = merge_result_facts [OF C S legal, where keep = "keep_tombstone_entries i"]
  have zero: "storage ?S = [] \<Longrightarrow> ver ?S = 0" using bucket_okD(4) [OF S] by simp
  show "bucket_ok p (committed N i lvs)" using C facts(1) by (simp add: committed_def)
  show "ver (committed N i lvs) = max (ver ?C) (ver ?S)" using facts(2) zero by (simp add: committed_def)
  show "storage (committed N i lvs) = [] \<longleftrightarrow> storage ?C = [] \<and> storage ?S = []" using facts(3) by (simp add: committed_def)
  have get: "bucket_get k (committed N i lvs) = merged_at (keep_tombstone_entries i) Preserve (bucket_get k ?C) (bucket_get k ?S)
      \<or> bucket_get k (committed N i lvs) = bucket_get k ?C \<and> bucket_get k ?S = None" for k
    using facts(4) by (simp add: committed_def bucket_get_no_storage)
  have after: "stack k (spilled N (i - 1) lvs) = ?above k @ opt (bucket_get k (committed N i lvs)) @ ?below k"
    unfolding split(2) stack_append stack_Cons snapped_entries using spill
    by (simp add: refreshed_def level_entries_def)
  have bottom: "keep_tombstone_entries i = RemoveDead \<Longrightarrow> ?below k = []"
  proof -
    assume "keep_tombstone_entries i = RemoveDead"
    with i have "i = 10" by (simp add: keep_at)
    moreover have "storage (lv_snap (lvs ! 10)) = []" using level_invD(5) [OF inv, of 10] by (simp add: snap_used_def)
    ultimately show ?thesis by (simp add: snapped_def spills_def bucket_get_no_storage)
  qed
  have "chain_ok (stack k (spilled N (i - 1) lvs)) \<and> view (stack k (spilled N (i - 1) lvs)) = view (stack k (spilled N i lvs))"
    using get [of k]
  proof
    assume g: "bucket_get k (committed N i lvs) = merged_at (keep_tombstone_entries i) Preserve (bucket_get k ?C) (bucket_get k ?S)"
    show ?thesis unfolding after before g
      by (rule merge_in_stack [OF _ bottom]) (use chain [of k] in \<open>simp only: before\<close>)
  next
    assume "bucket_get k (committed N i lvs) = bucket_get k ?C \<and> bucket_get k ?S = None"
    then show ?thesis using chain [of k] unfolding after before by simp
  qed
  then show "chain_ok (stack k (spilled N (i - 1) lvs))" "view (stack k (spilled N (i - 1) lvs)) = view (stack k (spilled N i lvs))"
    by blast+
qed

text \<open>No spill changes what a key looks like from above.\<close>

lemma not_spilled:
  assumes "length lvs = 11" "j < 10" "\<not> spills N j"
  shows "spilled N (Suc j) lvs = spilled N j lvs"
proof -
  have "\<not> spills N (Suc j)" using assms(3) spills_above by blast
  then show ?thesis
    using spilled_split [OF assms(1), of "Suc j" N] assms(2,3) by (simp add: snapped_def refreshed_def)
qed

lemma chain_spilled:
  assumes inv: "levels_inv n p lvs" and "j \<le> 10"
  shows "chain_ok (stack k (spilled N j lvs)) \<and> view (stack k (spilled N j lvs)) = view (stack k lvs)"
proof -
  have len: "length lvs = 11" using level_invD(7) [OF inv, of 0] by simp
  have "\<forall>k. chain_ok (stack k (spilled N j lvs)) \<and> view (stack k (spilled N j lvs)) = view (stack k lvs)"
    using assms(2)
  proof (induction rule: inc_induct)
    case base
    then show ?case using level_invD(8) [OF inv, of 0] by (simp add: spilled_all len)
  next
    case (step j)
    have i: "1 \<le> Suc j" "Suc j \<le> 10" using step.hyps by simp_all
    show ?case
    proof (cases "spills N j")
      case True
      have "chain_ok (stack k (spilled N (Suc j) lvs))" for k using step.IH by blast
      from committed_step(4,5) [OF inv i, unfolded diff_Suc_1, OF True this] step.IH show ?thesis by simp
    next
      case False
      with not_spilled [OF len _ False] step show ?thesis by simp
    qed
  qed
  then show ?thesis by blast
qed

text \<open>The loop body computes the next closed form.\<close>

lemma snap_level_snapped:
  "spills N j \<Longrightarrow> j < length L \<Longrightarrow>
   snap_level j L = (lv_snap (snapped N j (L ! j)), L[j := snapped N j (L ! j)])"
  by (simp add: snap_level_def level_snapped_def snapped_def)

lemma commit_pending:
  assumes inv: "levels_inv n p lvs" and j: "j < 10" and spill: "spills (Suc n) j"
  shows "commit (snapped (Suc n) (Suc j) (lvs ! Suc j)) =
    Inr ((snapped (Suc n) (Suc j) (lvs ! Suc j))\<lparr>lv_next := None, lv_curr := committed (Suc n) (Suc j) lvs\<rparr>)"
proof -
  have "lv_next (lvs ! Suc j) = pending n (Suc j) (lv_curr (lvs ! Suc j)) (lv_snap (lvs ! j))"
    using level_invD(10) [OF inv, of "Suc j"] j by simp
  moreover have "empties n (Suc j) = spills (Suc n) (Suc j)" using empties_at_spill [of "Suc j" n] j spill by simp
  ultimately show ?thesis by (simp add: commit_def pending_def committed_def snapped_def)
qed

lemma spill_into_step:
  assumes inv: "levels_inv n p lvs" and j: "j < 10" and N: "unat l = Suc n" and p: "p \<le> p'" "12 \<le> p'"
  shows "spill_into l p' (Suc j) (bl\<lparr>levels := spilled (Suc n) (Suc j) lvs\<rparr>) = Inr (bl\<lparr>levels := spilled (Suc n) j lvs\<rparr>)"
proof -
  let ?N = "Suc n" and ?i = "Suc j"
  have len: "length lvs = 11" using level_invD(7) [OF inv, of 0] by simp
  have i: "1 \<le> ?i" "?i \<le> 10" using j by simp_all
  note split = spilled_split [OF len i, of ?N, unfolded diff_Suc_1]
  have should: "level_should_spill l j = spills ?N j" using level_should_spill_iff [of j l] j N by simp
  show ?thesis
  proof (cases "spills ?N j")
    case False
    with should not_spilled [OF len j False] show ?thesis by (simp add: spill_into_def)
  next
    case True
    note step = committed_step [OF inv i, unfolded diff_Suc_1, OF True conjunct1 [OF chain_spilled [OF inv i(2)]]]
    let ?X = "take j lvs" and ?Y = "map (\<lambda>m. refreshed ?N m lvs) [Suc ?i..<11]"
    let ?A = "snapped ?N j (lvs ! j)" and ?B = "(snapped ?N ?i (lvs ! ?i))\<lparr>lv_next := None, lv_curr := committed ?N ?i lvs\<rparr>"
    have lX: "length lvs = 11" "min 11 j = j" using len j by simp_all
    have snap: "snap_level j (spilled ?N ?i lvs) = (lv_snap ?A, ?X @ ?A # snapped ?N ?i (lvs ! ?i) # ?Y)"
      unfolding split(1) by (subst snap_level_snapped [OF True]) (use j in \<open>simp_all add: lX nth_append list_update_append\<close>)
    have used: "storage (lv_snap ?A) \<noteq> []"
      using level_invD(4) [OF inv, of j] j spill_uses_curr [OF True] True by (auto simp: snapped_def)
    have S: "bucket_ok p (lv_snap ?A)"
      using level_invD(2) [OF inv, of j] j True by (auto simp: snapped_def clear_ok)
    let ?C = "if empties ?N ?i then bucket_empty else committed ?N ?i lvs"
    have C: "bucket_ok p ?C" using step(1) by simp
    have "\<not> init_over_live (bucket_get k (committed ?N ?i lvs)) (bucket_get k (lv_snap ?A))" for k
    proof (rule chain_ok_legal)
      have "opt (bucket_get k (lv_curr ?A)) = []" using True by (simp add: snapped_def)
      with step(4) [of k] True
      show "chain_ok (stack k ?X @ opt (bucket_get k (lv_snap ?A)) @ opt (bucket_get k (committed ?N ?i lvs)) @
          (opt (bucket_get k (lv_snap (snapped ?N ?i (lvs ! ?i)))) @ stack k ?Y))"
        unfolding split(2) by (simp add: level_entries_def refreshed_def)
    qed
    then have legal: "legal ?C (lv_snap ?A)" by (simp add: init_over_live_def)
    let ?ctx = "\<lparr>ctx_keep_dead_entries = keep_tombstone_entries ?i, ctx_normalize_init = Preserve,
                       ctx_use_empty_curr = empties ?N ?i, ctx_has_bucket_dir = has_bucket_dir bl\<rparr>"
    have "ver ?C \<le> p'" "ver (lv_snap ?A) \<le> p'"
      using order_trans [OF bucket_okD(5) [OF C] p(1)] order_trans [OF bucket_okD(5) [OF S] p(1)] .
    then have merge: "start_merge ?C (lv_snap ?A) p' [] ?ctx = Inr (merge_result (keep_tombstone_entries ?i) ?C (lv_snap ?A))"
      using start_merge_eq [OF C S legal, of p' "[]" ?ctx] by simp
    have num: "lv_number ?B = ?i" using level_invD(1) [OF inv i(2)] by simp
    have prep: "prepare_with_normalization p' (lv_snap ?A) [] ?ctx ?B = Inr (refreshed ?N ?i lvs)"
      using num merge used True
      by (cases "empties ?N ?i") (simp_all add: prepare_with_normalization_def prepare_merge_def refreshed_def pending_def)
    have empt: "should_merge_with_empty_curr l ?i = empties ?N ?i"
      using should_merge_with_empty_curr_iff [OF i, of l] N by simp
    have "\<not> p' < 12" using p(2) by simp
    then show ?thesis
      unfolding spill_into_def
      using True should snap commit_pending [OF inv j True] prep empt
      by (simp add: lX nth_append list_update_append shadows_above_def split(2) Let_def)
  qed
qed

lemma spill_levels_run:
  assumes inv: "levels_inv n p (levels bl)" and N: "unat l = Suc n" and p: "p \<le> p'" "12 \<le> p'"
  shows "spill_levels l p' (rev [1..<bucket_list_levels]) bl = Inr (bl\<lparr>levels := spilled (Suc n) 0 (levels bl)\<rparr>)"
proof -
  have "j \<le> 10 \<Longrightarrow> spill_levels l p' (rev [1..<Suc j]) (bl\<lparr>levels := spilled (Suc n) j (levels bl)\<rparr>)
      = Inr (bl\<lparr>levels := spilled (Suc n) 0 (levels bl)\<rparr>)" for j
    by (induction j) (use spill_into_step [OF inv _ N p] in simp_all)
  from this [of 10] show ?thesis
    using spilled_all [of "levels bl"] level_invD(7) [OF inv, of 0]
    by (simp add: bucket_list_levels_def del: upt_Suc)
qed

end
