(* ===== verification/Bucket_List_Batch.thy ===== *)
theory Bucket_List_Batch
  imports Bucket_List_Steps
begin

text \<open>
  The batch of a ledger: what removing duplicates and sorting make of it, how it is merged into level 0, and that
  the levels satisfy their invariant again.
\<close>

section \<open>Entries of a batch\<close>

text \<open>The last entry of each key, as a map and as a list.\<close>

definition last_of :: "('k, 'v) ledger_entry list \<Rightarrow> 'k \<Rightarrow> ('k, 'v) ledger_entry option" where
  "last_of es = map_of (rev (map (\<lambda>e. (entry_to_key e, e)) es))"

fun keep_last :: "('k, 'v) ledger_entry list \<Rightarrow> ('k, 'v) ledger_entry list" where
  "keep_last [] = []"
| "keep_last (e # es) = (if entry_to_key e \<in> entry_to_key ` set es then keep_last es else e # keep_last es)"

lemma last_of_Cons: "last_of (e # es) k =
    (case last_of es k of Some x \<Rightarrow> Some x | None \<Rightarrow> if entry_to_key e = k then Some e else None)"
  by (simp add: last_of_def map_add_def split: option.splits)

lemma last_of_Nil [simp]: "last_of [] k = None"
  by (simp add: last_of_def)

lemma last_of_None: "last_of es k = None \<longleftrightarrow> k \<notin> entry_to_key ` set es"
  by (induction es) (auto simp: last_of_Cons split: option.splits)

lemma last_of_key: "last_of es k = Some e \<Longrightarrow> entry_to_key e = k"
  by (induction es) (auto simp: last_of_Cons split: option.splits if_splits)

lemma keep_last_keys [simp]: "entry_to_key ` set (keep_last es) = entry_to_key ` set es"
  by (induction es) auto

lemma keep_last_distinct: "distinct (map entry_to_key (keep_last es))"
  by (induction es) auto

lemma keep_last_set: "e \<in> set (keep_last es) \<longleftrightarrow> last_of es (entry_to_key e) = Some e"
proof (induction es)
  case (Cons x es)
  have key: "e \<in> set (keep_last es) \<Longrightarrow> entry_to_key e \<in> entry_to_key ` set es" for e using keep_last_keys [of es] by blast
  show ?case
  proof (cases "entry_to_key x \<in> entry_to_key ` set es")
    case True
    then have "last_of (x # es) k = last_of es k" for k
      using last_of_None [of es "entry_to_key x"] by (auto simp: last_of_Cons split: option.splits)
    with True Cons.IH show ?thesis by simp
  next
    case False
    then have "last_of (x # es) k = (if k = entry_to_key x then Some x else last_of es k)" for k
      using last_of_None [of es "entry_to_key x"] by (auto simp: last_of_Cons split: option.splits)
    with False Cons.IH key [of e] show ?thesis by auto
  qed
qed simp

lemma keep_last_id: "distinct (map entry_to_key es) \<Longrightarrow> keep_last es = es"
  by (induction es) auto

lemma last_positions_other: "k \<notin> entry_to_key ` set es \<Longrightarrow> last_positions n es M k = M k"
  by (induction n es M rule: last_positions.induct) auto

lemma last_positions_range: "k \<in> entry_to_key ` set es \<Longrightarrow>
   \<exists>i<length es. last_positions n es M k = Some (n + i) \<and> entry_to_key (es ! i) = k"
proof (induction n es M rule: last_positions.induct)
  case (2 n e es M)
  show ?case
  proof (cases "k \<in> entry_to_key ` set es")
    case True
    with 2 obtain i where "i < length es" "last_positions (Suc n) es (M(entry_to_key e \<mapsto> n)) k = Some (Suc n + i)"
      "entry_to_key (es ! i) = k" by blast
    then show ?thesis by (intro exI [of _ "Suc i"]) simp
  next
    case False
    with 2(2) show ?thesis by (intro exI [of _ 0]) (auto simp: last_positions_other)
  qed
qed simp

lemma filter_positions:
  "map snd (filter (\<lambda>(i, e). last_positions n es M (entry_to_key e) = Some i) (zip [n..<n + length es] es)) = keep_last es"
proof (induction n es M rule: last_positions.induct)
  case (2 n e es M)
  have "last_positions (Suc n) es (M(entry_to_key e \<mapsto> n)) (entry_to_key e) = Some n \<longleftrightarrow> entry_to_key e \<notin> entry_to_key ` set es"
    using last_positions_range [of "entry_to_key e" es "Suc n" "M(entry_to_key e \<mapsto> n)"]
    by (cases "entry_to_key e \<in> entry_to_key ` set es") (auto simp: last_positions_other)
  note here = this
  have "zip [n..<n + length (e # es)] (e # es) = (n, e) # zip [Suc n..<Suc n + length es] es"
    by (simp add: upt_conv_Cons del: upt_Suc)
  then show ?case
    by (simp only: filter.simps prod.case last_positions.simps here keep_last.simps if_distrib [of "map snd"]
        list.map snd_conv 2 if_not_P) simp
qed simp

text \<open>Removing duplicates keeps the last entry of each key, in order.\<close>

lemma deduplicate_keep_last: "deduplicate_entries es = keep_last es"
proof -
  let ?kp = "last_positions 0 es Map.empty"
  have "Some i \<in> (\<lambda>e. ?kp (entry_to_key e)) ` set es \<longleftrightarrow> ?kp (entry_to_key e) = Some i"
    if "(i, e) \<in> set (zip [0..<length es] es)" for i e
  proof
    assume "Some i \<in> (\<lambda>e. ?kp (entry_to_key e)) ` set es"
    then obtain x where x: "x \<in> set es" "?kp (entry_to_key x) = Some i" by force
    from x last_positions_range [of "entry_to_key x" es 0 Map.empty] have "entry_to_key (es ! i) = entry_to_key x" by auto
    moreover have "e = es ! i" using that by (auto simp: set_zip)
    ultimately show "?kp (entry_to_key e) = Some i" using x by simp
  next
    assume "?kp (entry_to_key e) = Some i"
    then show "Some i \<in> (\<lambda>e. ?kp (entry_to_key e)) ` set es" using that by (force dest: set_zip_rightD)
  qed
  then have "filter (\<lambda>(i, e). Some i \<in> (\<lambda>e. ?kp (entry_to_key e)) ` set es) (zip [0..<length es] es) =
      filter (\<lambda>(i, e). ?kp (entry_to_key e) = Some i) (zip [0..<length es] es)"
    by (intro filter_cong) auto
  then show ?thesis using filter_positions [of 0 es Map.empty] by (simp add: deduplicate_entries_def Let_def)
qed

lemma unseen_keys_set: "set (unseen_keys seen ks) = set ks - seen" "distinct (unseen_keys seen ks)"
proof -
  have "set (unseen_keys seen ks) = set ks - seen \<and> distinct (unseen_keys seen ks)"
    by (induction seen ks rule: unseen_keys.induct) auto
  then show "set (unseen_keys seen ks) = set ks - seen" "distinct (unseen_keys seen ks)" by blast+
qed

section \<open>Ledgers as maps\<close>

text \<open>What closing a ledger does to the entries in existence, and which batches are legal.\<close>

definition close_ledger ::
  "('k, 'v) ledger_entry list \<Rightarrow> ('k, 'v) ledger_entry list \<Rightarrow> 'k list \<Rightarrow> ('k \<rightharpoonup> ('k, 'v) ledger_entry) \<Rightarrow> ('k \<rightharpoonup> ('k, 'v) ledger_entry)" where
  "close_ledger init live dead m =
     (\<lambda>k. if k \<in> set dead then None else case last_of (init @ live) k of Some e \<Rightarrow> Some e | None \<Rightarrow> m k)"

definition legal_batch ::
  "bool \<Rightarrow> ('k, 'v) ledger_entry list \<Rightarrow> ('k, 'v) ledger_entry list \<Rightarrow> 'k list \<Rightarrow> ('k \<rightharpoonup> ('k, 'v) ledger_entry) \<Rightarrow> bool" where
  "legal_batch skip_dedup init live dead m \<longleftrightarrow>
     entry_to_key ` set init \<inter> entry_to_key ` set live = {} \<and>
     (entry_to_key ` set init \<union> entry_to_key ` set live) \<inter> set dead = {} \<and>
     (\<forall>e\<in>set init. m (entry_to_key e) = None) \<and>
     (skip_dedup \<longrightarrow> distinct (map entry_to_key init) \<and> distinct (map entry_to_key live) \<and> distinct dead)"

definition batch_at ::
  "('k, 'v) ledger_entry list \<Rightarrow> ('k, 'v) ledger_entry list \<Rightarrow> 'k list \<Rightarrow> 'k \<Rightarrow> ('k, 'v) bucket_entry option" where
  "batch_at init live dead k =
     (if k \<in> set dead then Some (Deadentry k)
      else case last_of live k of Some e \<Rightarrow> Some (Liveentry e) | None \<Rightarrow> map_option Initentry (last_of init k))"

lemma apply_batch_at:
  "legal_batch skip init live dead m \<Longrightarrow> apply_entry (batch_at init live dead k) (m k) = close_ledger init live dead m k"
  by (auto simp: batch_at_def close_ledger_def apply_entry_def last_of_def map_add_def split: option.splits)

lemma raw_distinct:
  "distinct (map entry_key es) \<Longrightarrow> raw es k = Some e \<longleftrightarrow> e \<in> set es \<and> entry_key e = Some k"
  by (induction es) (auto simp: image_iff)

lemma sorted_batch:
  assumes "distinct (map entry_key es)"
  shows "sorted_entries (sort_key entry_key es)" "raw (sort_key entry_key es) k = raw es k"
proof -
  have d: "distinct (map entry_key (sort_key entry_key es))"
    using assms by (simp add: distinct_map)
  have "sorted_wrt (<) (map entry_key (sort_key entry_key es))"
    using d by (simp add: strict_sorted_iff)
  then show "sorted_entries (sort_key entry_key es)" by (simp add: sorted_wrt_map)
  have "raw (sort_key entry_key es) k = Some e \<longleftrightarrow> raw es k = Some e" for e
    using raw_distinct [OF d] raw_distinct [OF assms] by simp
  then show "raw (sort_key entry_key es) k = raw es k" by (metis option.exhaust)
qed

text \<open>The sorted entries of a legal batch: one for each key.\<close>

lemma batch_entries_alt:
  assumes "legal_batch skip init live dead m" "12 \<le> p"
  obtains ds where "batch_entries p ty init live dead skip =
      batch_metadata p ty @ map Initentry (keep_last init) @ map Liveentry (keep_last live) @ map Deadentry ds"
    "distinct ds" "set ds = set dead"
proof -
  have "11 \<le> p" using assms(2) by (rule at_least_11)
  then have "batch_entries p ty init live dead skip =
      batch_metadata p ty @ map Initentry (keep_last init) @ map Liveentry (keep_last live) @
        map Deadentry (if skip then dead else unseen_keys {} dead)"
    using assms(1) by (simp add: batch_entries_def Let_def deduplicate_keep_last keep_last_id legal_batch_def)
  then show thesis
    by (rule that) (use assms(1) in \<open>simp_all add: unseen_keys_set legal_batch_def\<close>)
qed

lemma batch_result:
  assumes legal: "legal_batch skip init live dead m" and p: "12 \<le> p"
  shows "sorted_entries (sort_key entry_key (batch_entries p ty init live dead skip))"
    "raw (sort_key entry_key (batch_entries p ty init live dead skip)) k = batch_at init live dead k"
proof -
  obtain ds where es: "batch_entries p ty init live dead skip =
      batch_metadata p ty @ map Initentry (keep_last init) @ map Liveentry (keep_last live) @ map Deadentry ds"
    and ds: "distinct ds" "set ds = set dead" using batch_entries_alt [OF legal p] .
  let ?es = "batch_entries p ty init live dead skip"
  have keys: "map entry_key ?es = map entry_key (batch_metadata p ty :: ('a, 'b) bucket_entry list) @
      map Some (map entry_to_key (keep_last init) @ map entry_to_key (keep_last live) @ ds)"
    by (simp add: es)
  obtain x where meta: "(batch_metadata p ty :: ('a, 'b) bucket_entry list) = [Metaentry x]"
    using at_least_11 [OF p] by (simp add: batch_metadata_def metadata_for_def)
  have "distinct (map entry_to_key (keep_last init) @ map entry_to_key (keep_last live) @ ds)"
    using legal ds keep_last_keys [of init] keep_last_keys [of live]
    by (simp add: keep_last_distinct legal_batch_def del: keep_last_keys) blast
  then have d: "distinct (map entry_key ?es)"
    using meta by (auto simp: keys distinct_map simp del: map_append)
  show "sorted_entries (sort_key entry_key ?es)" by (rule sorted_batch(1) [OF d])
  have mem: "x \<in> set ?es \<longleftrightarrow> is_metadata x \<and> x \<in> set (batch_metadata p ty) \<or>
      (\<exists>e. x = Initentry e \<and> last_of init (entry_to_key e) = Some e) \<or>
      (\<exists>e. x = Liveentry e \<and> last_of live (entry_to_key e) = Some e) \<or> (\<exists>k\<in>set dead. x = Deadentry k)" for x
    using meta by (auto simp: es ds keep_last_set image_iff)
  have sep: "k \<in> set dead \<Longrightarrow> last_of live k = None \<and> last_of init k = None"
    "last_of live k = None \<or> last_of init k = None"
    using legal by (auto simp: last_of_None legal_batch_def)
  have "raw ?es k = Some x \<longleftrightarrow> batch_at init live dead k = Some x" for x
    unfolding raw_distinct [OF d] mem batch_at_def using sep
    by (cases x) (auto dest: last_of_key split: option.splits)
  then show "raw (sort_key entry_key ?es) k = batch_at init live dead k"
    unfolding sorted_batch(2) [OF d] by (metis option.exhaust)
qed

section \<open>Level 0\<close>

lemma merge_first:
  assumes C: "bucket_ok p C" "has_in_memory_entries C" and es: "sorted_entries es" and p: "12 \<le> p'"
    and legal: "\<And>k. \<not> init_over_live (bucket_get k C) (raw es k)" and new: "fresh_in_memory_only es = Inr new"
  obtains B where "merge_in_memory C new p' = Inr B" "bucket_ok p' B" "ver B = p'" "storage B \<noteq> []"
    "has_in_memory_entries B" "\<And>k. bucket_get k B = merged_at KeepDead Preserve (bucket_get k C) (raw es k)"
    "has_in_memory_entries new"
proof -
  note wf = bucket_okD(1) [OF C(1)] and srt = bucket_okD(2) [OF C(1)]
  have new': "storage new = es" "level_zero new = SharedWithStorage (metadata_prefix es)"
    using new es by (auto simp: fresh_in_memory_only_def assert_sorted_iff)
  have memC: "get_in_memory_entries C = Inr (Some (data (storage C)))"
    using C(2) wf by (intro in_memory_data) (auto simp: bucket_wf_def has_in_memory_entries_def)
  have memN: "get_in_memory_entries new = Inr (Some (data es))"
    using in_memory_data [of new] new' es by simp
  have noC: "\<forall>e\<in>set (data (storage C)). \<not> is_metadata e" and noN: "\<forall>e\<in>set (data es). \<not> is_metadata e" by simp_all
  note sd = sorted_data [OF srt] sorted_data [OF es]
  obtain ms where ms: "merged KeepDead Preserve (data (storage C)) (data es) = Inr ms"
  proof (cases "merged KeepDead Preserve (data (storage C)) (data es)")
    case (Inl e)
    obtain k where "init_over_live (raw (data (storage C)) k) (raw (data es) k)"
      using merged_fails [OF Inl sd data_no_metadata] by blast
    then have "init_over_live (bucket_get k C) (raw es k)"
      by (simp only: raw_data bucket_get_raw [OF wf])
    with legal show thesis by blast
  qed
  let ?h = "head_list (map_option Metaentry (metadata_for p' LiveList)) :: ('a, 'b) bucket_entry list"
  define all where "all = ?h @ ms"
  define B where "B = (pack all)\<lparr>level_zero := SharedWithStorage (metadata_prefix all)\<rparr>"
  have run: "merge_in_memory C new p' = Inr B"
    unfolding merge_in_memory_result [OF memC sd(1) noC memN sd(2) noN] ms B_def all_def by (simp add: Let_def)
  have meta: "(\<forall>e\<in>set ?h. is_metadata e) \<and> length ?h \<le> 1" by (simp add: metadata_for_def)
  have nodata: "\<forall>e\<in>set ms. \<not> is_metadata e" by (rule merged_data [OF ms data_no_metadata])
  have "sorted_entries ms" by (rule merged_sorted [OF ms sd])
  then have sorted_all: "sorted_entries all" unfolding all_def using meta nodata by (intro sorted_metadata_first) simp_all
  have "?h \<noteq> []" using at_least_11 [OF p] by (simp add: metadata_for_def)
  then have ne: "all \<noteq> []" by (simp add: all_def)
  have st: "storage B = all" by (simp add: B_def)
  have wfB: "bucket_wf B" using pack_wf [OF sorted_all] ne by (simp add: bucket_wf_def B_def pack_def)
  have "ver B = ver (pack all)" by (simp add: ver_def st)
  also have "\<dots> = p'" unfolding all_def by (rule ver_pack_metadata [OF p])
  finally have v: "ver B = p'" .
  have "raw all k = merged_at KeepDead Preserve (raw (storage C) k) (raw es k)" for k
    using raw_merged [OF ms sd data_no_metadata, of k] meta by (simp add: all_def raw_prefix raw_data)
  then have "bucket_get k B = merged_at KeepDead Preserve (bucket_get k C) (raw es k)" for k
    by (simp add: bucket_get_raw wfB wf st)
  moreover have "has_in_memory_entries new" "has_in_memory_entries B" by (simp_all add: has_in_memory_entries_def new' B_def)
  ultimately show thesis using that [OF run] wfB v ne p st by (simp add: bucket_ok_def)
qed

section \<open>The invariant after a ledger\<close>

definition after_ledger :: "nat \<Rightarrow> ('k :: linorder, 'v) bucket \<Rightarrow> ('k, 'v) bucket_level list \<Rightarrow> ('k, 'v) bucket_level list" where
  "after_ledger N B lvs = (snapped N 0 (lvs ! 0))\<lparr>lv_curr := B\<rparr> # map (\<lambda>m. refreshed N m lvs) [1..<11]"

lemma after_ledger_nth:
  "after_ledger N B lvs ! 0 = (snapped N 0 (lvs ! 0))\<lparr>lv_curr := B\<rparr>"
  "1 \<le> m \<Longrightarrow> m \<le> 10 \<Longrightarrow> after_ledger N B lvs ! m = refreshed N m lvs"
  by (simp_all add: after_ledger_def nth_Cons' del: upt_Suc)

lemma after_ledger_snap:
  "m \<le> 10 \<Longrightarrow> lv_snap (after_ledger N B lvs ! m) = lv_snap (snapped N m (lvs ! m))"
proof (cases m)
  case (Suc j)
  assume "m \<le> 10"
  moreover have "\<not> spills N j \<Longrightarrow> \<not> spills N (Suc j)" using spills_above by blast
  ultimately show ?thesis by (simp add: Suc after_ledger_nth refreshed_def snapped_def)
qed (simp add: after_ledger_nth)

lemma committed_facts:
  assumes inv: "levels_inv n p lvs" and j: "j < 10" and spill: "spills (Suc n) j"
  shows "bucket_ok p (committed (Suc n) (Suc j) lvs)"
    "ver (committed (Suc n) (Suc j) lvs) = max (ver (lv_curr (snapped (Suc n) (Suc j) (lvs ! Suc j)))) (ver (lv_snap (lvs ! j)))"
    "storage (committed (Suc n) (Suc j) lvs) \<noteq> [] \<longleftrightarrow> curr_used (Suc n) (Suc j)"
proof -
  have i: "1 \<le> Suc j" "Suc j \<le> 10" using j by simp_all
  note step = committed_step [OF inv i, unfolded diff_Suc_1, OF spill conjunct1 [OF chain_spilled [OF inv i(2)]]]
  show "bucket_ok p (committed (Suc n) (Suc j) lvs)"
    "ver (committed (Suc n) (Suc j) lvs) = max (ver (lv_curr (snapped (Suc n) (Suc j) (lvs ! Suc j)))) (ver (lv_snap (lvs ! j)))"
    using step(1,2) .
  have "storage (lv_curr (snapped (Suc n) (Suc j) (lvs ! Suc j))) \<noteq> [] \<Longrightarrow> curr_used n (Suc j)"
    using level_invD(4) [OF inv i(2)] by (auto simp: snapped_def split: if_splits)
  moreover have "curr_used n (Suc j) \<Longrightarrow> snap_used n j" using j by (simp add: curr_used_def snap_used_def)
  ultimately have "storage (committed (Suc n) (Suc j) lvs) \<noteq> [] \<longleftrightarrow> snap_used n j"
    using step(3) level_invD(5) [OF inv, of j] j by auto
  then show "storage (committed (Suc n) (Suc j) lvs) \<noteq> [] \<longleftrightarrow> curr_used (Suc n) (Suc j)"
    using used_at_spill(2) [OF spill] by simp
qed

lemma level_after:
  assumes inv: "levels_inv n p lvs" and j: "j < 10" and p: "p \<le> p'"
  shows "level_inv (Suc n) p' (after_ledger (Suc n) B lvs) (Suc j)"
proof -
  have jS: "Suc j \<le> 10" "j \<le> 10" using j by simp_all
  note above = level_invD [OF inv jS(2)] and here = level_invD [OF inv jS(1), unfolded diff_Suc_1]
  have at: "after_ledger (Suc n) B lvs ! Suc j = refreshed (Suc n) (Suc j) lvs" using j by (simp add: after_ledger_nth)
  have snap_above: "lv_snap (after_ledger (Suc n) B lvs ! j) = lv_snap (snapped (Suc n) j (lvs ! j))"
    using jS(2) by (rule after_ledger_snap)
  have snap: "lv_snap (after_ledger (Suc n) B lvs ! Suc j) = lv_snap (snapped (Suc n) (Suc j) (lvs ! Suc j))"
    using jS(1) by (rule after_ledger_snap)
  have snap_ok: "bucket_ok p' (lv_snap (snapped (Suc n) (Suc j) (lvs ! Suc j)))"
    using here(2,3) p by (auto simp: snapped_def intro: bucket_ok_mono)
  have snap_use: "storage (lv_snap (snapped (Suc n) (Suc j) (lvs ! Suc j))) \<noteq> [] \<longleftrightarrow> snap_used (Suc n) (Suc j)"
  proof (cases "spills (Suc n) (Suc j)")
    case True
    then show ?thesis using here(4) spill_uses_curr [OF True] used_at_spill(1) [OF True] by (simp add: snapped_def)
  next
    case False
    then have "snap_used (Suc n) (Suc j) = snap_used n (Suc j)"
      using used_without_spill(1) [OF False] by (cases "Suc j < 10") (auto simp: snap_used_def)
    with False here(5) show ?thesis by (simp add: snapped_def)
  qed
  show ?thesis
  proof (cases "spills (Suc n) j")
    case True
    note c = committed_facts [OF inv j True]
    have "ver (lv_curr (snapped (Suc n) (Suc j) (lvs ! Suc j))) \<le> ver (lv_snap (lvs ! j))"
      using here(9) by (simp add: snapped_def)
    then have vc: "ver (committed (Suc n) (Suc j) lvs) = ver (lv_snap (lvs ! j))" using c(2) by (simp add: max_def)
    have vs: "ver (lv_snap (snapped (Suc n) (Suc j) (lvs ! Suc j))) \<le> ver (lv_snap (lvs ! j))"
      using here(6,9) by (auto simp: snapped_def)
    have va: "ver (lv_snap (lvs ! j)) \<le> ver (lv_snap (snapped (Suc n) j (lvs ! j)))"
      using above(6) True by (auto simp: snapped_def)
    show ?thesis
      unfolding level_inv_def at snap [unfolded at] diff_Suc_1 snap_above
      using here(1) c(1,3) snap_ok snap_use vc vs va p True by (simp add: refreshed_def bucket_ok_mono)
  next
    case False
    then have no: "\<not> spills (Suc n) (Suc j)" using spills_above by blast
    have "empties (Suc n) (Suc j) = empties n (Suc j)" using False by (intro empties_between) (use jS in simp_all)
    then have pend: "pending (Suc n) (Suc j) C S = pending n (Suc j) C S" for C S :: "('a, 'b) bucket"
      by (simp add: pending_def)
    show ?thesis
      unfolding level_inv_def at snap [unfolded at] diff_Suc_1 snap_above
      using here(1,4,9,10) snap_ok snap_use no False p used_without_spill(2) [OF False j] here(2,6) pend
      by (simp add: refreshed_def snapped_def bucket_ok_mono)
  qed
qed

lemma level_zero_after:
  assumes inv: "levels_inv n p lvs" and p: "p \<le> p'"
    and B: "bucket_ok p' B" "ver B = p'" "storage B \<noteq> []" "has_in_memory_entries B"
  shows "level_inv (Suc n) p' (after_ledger (Suc n) B lvs) 0"
proof -
  note here = level_invD [OF inv, of 0]
  let ?L = "snapped (Suc n) 0 (lvs ! 0)"
  have "storage (lv_snap ?L) \<noteq> [] \<longleftrightarrow> snap_used (Suc n) 0"
  proof (cases "spills (Suc n) 0")
    case True
    then show ?thesis using here(4) spill_uses_curr [OF True] used_at_spill(1) [OF True] by (simp add: snapped_def)
  next
    case False
    then show ?thesis using here(5) used_without_spill(1) [OF False] by (simp add: snapped_def)
  qed
  moreover have snap_ok: "bucket_ok p' (lv_snap ?L)"
    using here(2,3) p by (auto simp: snapped_def intro: bucket_ok_mono clear_ok)
  moreover have "ver (lv_snap ?L) \<le> ver B" using bucket_okD(5) [OF snap_ok] B(2) by simp
  moreover have "curr_used (Suc n) 0" by (simp add: curr_used_def)
  moreover have "lv_next (lvs ! 0) = None" using inv by (simp add: levels_inv_def level_inv_def)
  ultimately show ?thesis using here(1) B by (simp add: level_inv_def after_ledger_nth)
qed

lemma levels_after:
  assumes inv: "levels_inv n p lvs" and p: "p \<le> p'"
    and B: "bucket_ok p' B" "ver B = p'" "storage B \<noteq> []" "has_in_memory_entries B"
    and get: "\<And>k. bucket_get k B = merged_at KeepDead Preserve (bucket_get k (lv_curr (snapped (Suc n) 0 (lvs ! 0)))) (b k)"
    and new: "\<And>k x. b k = Some x \<Longrightarrow> \<not> is_metadata x"
      "\<And>k x. b k = Some x \<Longrightarrow> is_init x \<Longrightarrow> view (stack k lvs) = None"
  shows "levels_inv (Suc n) p' (after_ledger (Suc n) B lvs)"
    "view (stack k (after_ledger (Suc n) B lvs)) = apply_entry (b k) (view (stack k lvs))"
proof -
  let ?L = "after_ledger (Suc n) B lvs" and ?S = "spilled (Suc n) 0 lvs"
  let ?below = "\<lambda>k. opt (bucket_get k (lv_snap (snapped (Suc n) 0 (lvs ! 0)))) @ stack k (map (\<lambda>m. refreshed (Suc n) m lvs) [1..<11])"
  have before: "stack k ?S = opt (bucket_get k (lv_curr (snapped (Suc n) 0 (lvs ! 0)))) @ ?below k" for k
    by (simp add: spilled_def level_entries_def)
  have after: "stack k ?L = opt (bucket_get k B) @ ?below k" for k
    by (simp add: after_ledger_def level_entries_def)
  have ok: "chain_ok ([] @ opt (b k) @ stack k ?S)" for k
  proof (cases "b k")
    case (Some x)
    have c: "chain_ok (stack k ?S)" and v: "view (stack k ?S) = view (stack k lvs)"
      using chain_spilled [OF inv, of 0 k "Suc n"] by simp_all
    have "is_init x \<Longrightarrow> stack k ?S = y # ys \<Longrightarrow> is_dead y" for y ys
      using new [OF Some] c v by (cases y) (simp_all add: view_simps apply_entry_def chain_ok_def)
    with c new(1) [OF Some] Some show ?thesis
      by (cases "stack k ?S") (auto simp: chain_ok_def)
  qed (use chain_spilled [OF inv, of 0 k "Suc n"] in simp)
  have step: "chain_ok (stack k ?L) \<and> view (stack k ?L) = view (opt (b k) @ stack k ?S)" for k
    unfolding after get before
  proof (rule merge_in_stack [of "[]", unfolded append_Nil])
    show "chain_ok (opt (b k) @ opt (bucket_get k (lv_curr (snapped (Suc n) 0 (lvs ! 0)))) @ ?below k)"
      using ok [of k] by (simp only: before append_Nil)
  qed simp
  have "view (opt (b k) @ stack k ?S) = apply_entry (b k) (view (stack k ?S))"
    using new(1) [of k] by (cases "b k"; cases "the (b k)") (auto simp: view_simps apply_entry_def)
  then show "view (stack k ?L) = apply_entry (b k) (view (stack k lvs))"
    using step [of k] chain_spilled [OF inv, of 0 k "Suc n"] by simp
  have "level_inv (Suc n) p' ?L m" if "m < 11" for m
    using level_zero_after [OF inv p B] level_after [OF inv _ p] that by (cases m) simp_all
  moreover have "length ?L = 11" by (simp add: after_ledger_def)
  ultimately show "levels_inv (Suc n) p' ?L" using step by (simp add: levels_inv_def)
qed

text \<open>A ledger with a legal batch, run from levels in order.\<close>

lemma add_batch_run:
  assumes inv: "levels_inv n p (levels bl)" and N: "unat l = Suc n" and p: "p \<le> p'" "12 \<le> p'"
    and legal: "legal_batch skip init live dead m" and m: "\<And>k. view (stack k (levels bl)) = m k"
  obtains B where "add_batch_impl l p' ty init live dead skip bl = Inr (bl\<lparr>levels := after_ledger (Suc n) B (levels bl), bl_ledger_seq := l\<rparr>)"
    "levels_inv (Suc n) p' (after_ledger (Suc n) B (levels bl))"
    "\<And>k. view (stack k (after_ledger (Suc n) B (levels bl))) = close_ledger init live dead m k"
proof -
  let ?es = "sort_key entry_key (batch_entries p' ty init live dead skip)"
  let ?lvs = "levels bl" and ?b = "batch_at init live dead"
  let ?L = "snapped (Suc n) 0 (levels bl ! 0)"
  note batch = batch_result [OF legal p(2), of ty]
  obtain new where new: "fresh_in_memory_only ?es = Inr new"
    using batch(1) by (auto simp: fresh_in_memory_only_def assert_sorted_iff)
  have here: "lv_next (?lvs ! 0) = None" "has_in_memory_entries (lv_curr (?lvs ! 0))" "lv_number (?lvs ! 0) = 0"
    using inv by (simp_all add: levels_inv_def level_inv_def)
  have C: "bucket_ok p (lv_curr ?L)" "has_in_memory_entries (lv_curr ?L)"
    using level_invD(2) [OF inv, of 0] here(2) by (simp_all add: snapped_def) (simp add: has_in_memory_entries_def bucket_empty_def)
  have created: "last_of init k = Some e \<Longrightarrow> m k = None" for k e
    using legal last_of_None [of init k] by (auto simp: legal_batch_def)
  have b: "?b k = Some x \<Longrightarrow> \<not> is_metadata x \<and> (is_init x \<longrightarrow> m k = None)" for k x
    using created by (auto simp: batch_at_def split: if_splits option.splits)
  have legal0: "\<not> init_over_live (bucket_get k (lv_curr ?L)) (raw ?es k)" for k
  proof
    assume "init_over_live (bucket_get k (lv_curr ?L)) (raw ?es k)"
    then obtain x y where xy: "bucket_get k (lv_curr ?L) = Some x" "?b k = Some y" "is_init y" "\<not> is_dead x"
      by (auto simp: init_over_live_def batch(2))
    have c: "chain_ok (stack k (spilled (Suc n) 0 ?lvs))" and v: "view (stack k (spilled (Suc n) 0 ?lvs)) = m k"
      using chain_spilled [OF inv, of 0 k "Suc n"] m by simp_all
    have "stack k (spilled (Suc n) 0 ?lvs) = x # (opt (bucket_get k (lv_snap ?L)) @ stack k (map (\<lambda>m. refreshed (Suc n) m ?lvs) [1..<11]))"
      using xy(1) by (simp add: spilled_def level_entries_def)
    with c v xy(3,4) b [OF xy(2)] show False by (cases x) (auto simp: chain_ok_def view_simps apply_entry_def)
  qed
  from merge_first [OF C batch(1) p(2) legal0 new] obtain B where B: "merge_in_memory (lv_curr ?L) new p' = Inr B"
    "bucket_ok p' B" "ver B = p'" "storage B \<noteq> []" "has_in_memory_entries B"
    "\<And>k. bucket_get k B = merged_at KeepDead Preserve (bucket_get k (lv_curr ?L)) (raw ?es k)" "has_in_memory_entries new" by blast
  have "levels_inv (Suc n) p' (after_ledger (Suc n) B ?lvs)"
    "view (stack k (after_ledger (Suc n) B ?lvs)) = apply_entry (?b k) (view (stack k ?lvs))" for k
    using levels_after [OF inv p(1) B(2-5), of ?b] B(6) b by (simp_all add: batch(2) m)
  moreover have "apply_entry (?b k) (view (stack k ?lvs)) = close_ledger init live dead m k" for k
    using apply_batch_at [OF legal] by (simp add: m)
  moreover have "add_batch_impl l p' ty init live dead skip bl = Inr (bl\<lparr>levels := after_ledger (Suc n) B ?lvs, bl_ledger_seq := l\<rparr>)"
  proof -
    have l: "l \<noteq> 0" using N by auto
    have "spilled (Suc n) 0 ?lvs ! 0 = ?L" by (simp add: spilled_def)
    moreover have "prepare_first_level p' new ?L = Inr (?L\<lparr>lv_next := Some (InMemory B)\<rparr>)"
      using here B(1,5,7) C(2) by (simp add: prepare_first_level_def)
    moreover have "?L\<lparr>lv_next := None, lv_curr := B\<rparr> = ?L\<lparr>lv_curr := B\<rparr>"
      by (rule bucket_level.equality) (simp_all add: here(1))
    moreover note spill_levels_run [OF inv N p, unfolded One_nat_def]
    ultimately show ?thesis
      using l by (simp add: add_batch_impl_def new add_batch_internal_def commit_def spilled_def after_ledger_def)
  qed
  ultimately show thesis using that by simp
qed

end
