(* ===== verification/Bucket_List_Refinement.thy ===== *)
theory Bucket_List_Refinement
  imports Bucket_List_Batch
begin

text \<open>
  The bucket list implements a map from keys to entries: the histories of a list with the map they leave, and
  the properties C38 to C40.
\<close>

section \<open>Histories\<close>

text \<open>
  A list that was created empty and has since been given the batch of every ledger, under protocols from 12 on that
  never go back, with the entries that are then in existence.
\<close>

inductive history :: "('k :: linorder, 'v) bucket_list \<Rightarrow> u32 \<Rightarrow> ('k \<rightharpoonup> ('k, 'v) ledger_entry) \<Rightarrow> bool" where
  created: "history new_bucket_list 0 Map.empty"
| directory: "history bl p m \<Longrightarrow> history (set_bucket_dir bl) p m"
| batch: "history bl p m \<Longrightarrow> p \<le> p' \<Longrightarrow> 12 \<le> p' \<Longrightarrow> bl_ledger_seq bl < - 1 \<Longrightarrow> legal_batch False init live dead m \<Longrightarrow>
    add_batch (bl_ledger_seq bl + 1) p' ty init live dead bl = Inr bl' \<Longrightarrow> history bl' p' (close_ledger init live dead m)"
| unique_batch: "history bl p m \<Longrightarrow> p \<le> p' \<Longrightarrow> 12 \<le> p' \<Longrightarrow> bl_ledger_seq bl < - 1 \<Longrightarrow> legal_batch True init live dead m \<Longrightarrow>
    add_batch_unique (bl_ledger_seq bl + 1) p' ty init live dead bl = Inr bl' \<Longrightarrow> history bl' p' (close_ledger init live dead m)"

lemma next_seq: "(l :: u32) < - 1 \<Longrightarrow> unat (l + 1) = Suc (unat l)"
proof -
  assume "l < - 1"
  then have "unat l < unat (- 1 :: u32)" by (simp only: word_less_nat_alt)
  then have "unat l + 1 < 2 ^ 32" by (simp add: unsigned_minus_1_eq_mask mask_eq_exp_minus_1)
  then show ?thesis by (simp add: unat_word_ariths)
qed

lemma of_nat_unat_u32: "of_nat (unat (l :: u32)) = l"
  by simp

lemma new_stack: "stack k (levels new_bucket_list) = []"
  by (simp add: new_bucket_list_def stack_def level_entries_def [abs_def] new_level_def)

lemma new_seq: "bl_ledger_seq new_bucket_list = 0"
  by (simp add: new_bucket_list_def)

lemma new_levels_inv: "levels_inv 0 0 (levels new_bucket_list)"
proof -
  let ?lvs = "levels new_bucket_list :: ('a, 'b) bucket_level list"
  have len: "length ?lvs = 11" by (simp add: new_bucket_list_def bucket_list_levels_def)
  have nth: "?lvs ! m = new_level m" if "m < 11" for m
    using that by (simp add: new_bucket_list_def bucket_list_levels_def del: upt_Suc)
  have "level_inv 0 0 ?lvs m" if "m < 11" for m
    using that by (auto simp: level_inv_def nth new_level_def curr_used_def snap_used_def pending_def has_in_memory_entries_def)
      (simp_all add: bucket_empty_def)
  then show ?thesis using len by (simp add: levels_inv_def new_stack chain_ok_def)
qed

abbreviation represents :: "('k :: linorder, 'v) bucket_list \<Rightarrow> u32 \<Rightarrow> ('k \<rightharpoonup> ('k, 'v) ledger_entry) \<Rightarrow> bool" where
  "represents bl p m \<equiv> levels_inv (unat (bl_ledger_seq bl)) p (levels bl) \<and> (\<forall>k. view (stack k (levels bl)) = m k)"

lemma represents_next:
  assumes "represents bl p m" "p \<le> p'" "12 \<le> p'" "bl_ledger_seq bl < - 1" "legal_batch skip init live dead m"
  shows "\<exists>bl'. add_batch_impl (bl_ledger_seq bl + 1) p' ty init live dead skip bl = Inr bl' \<and>
    bl_ledger_seq bl' = bl_ledger_seq bl + 1 \<and> represents bl' p' (close_ledger init live dead m)"
proof -
  from assms(1) have inv: "levels_inv (unat (bl_ledger_seq bl)) p (levels bl)" and m: "\<And>k. view (stack k (levels bl)) = m k"
    by blast+
  obtain B where B: "add_batch_impl (bl_ledger_seq bl + 1) p' ty init live dead skip bl =
      Inr (bl\<lparr>levels := after_ledger (Suc (unat (bl_ledger_seq bl))) B (levels bl), bl_ledger_seq := bl_ledger_seq bl + 1\<rparr>)"
    "levels_inv (Suc (unat (bl_ledger_seq bl))) p' (after_ledger (Suc (unat (bl_ledger_seq bl))) B (levels bl))"
    "\<And>k. view (stack k (after_ledger (Suc (unat (bl_ledger_seq bl))) B (levels bl))) = close_ledger init live dead m k"
    using add_batch_run [OF inv next_seq [OF assms(4)] assms(2,3,5) m, of ty] by metis
  then show ?thesis by (simp add: next_seq [OF assms(4)])
qed

lemma history_inv: "history bl p m \<Longrightarrow> represents bl p m"
proof (induction rule: history.induct)
  case created
  show ?case using new_levels_inv by (simp add: new_seq new_stack view_simps)
next
  case (directory bl p m)
  then show ?case by (simp add: set_bucket_dir_def)
next
  case (batch bl p m p' init live dead ty bl')
  from represents_next [OF batch.IH batch.hyps(2-5), of ty] batch.hyps(6) show ?case by (auto simp: add_batch_def)
next
  case (unique_batch bl p m p' init live dead ty bl')
  from represents_next [OF unique_batch.IH unique_batch.hyps(2-5), of ty] unique_batch.hyps(6)
  show ?case by (auto simp: add_batch_unique_def)
qed

lemma history_next:
  assumes "history bl p m" "p \<le> p'" "12 \<le> p'" "bl_ledger_seq bl < - 1" "legal_batch skip init live dead m"
  shows "\<exists>bl'. add_batch_impl (bl_ledger_seq bl + 1) p' ty init live dead skip bl = Inr bl' \<and>
    bl_ledger_seq bl' = bl_ledger_seq bl + 1 \<and> history bl' p' (close_ledger init live dead m)"
proof -
  obtain bl' where bl': "add_batch_impl (bl_ledger_seq bl + 1) p' ty init live dead skip bl = Inr bl'"
    "bl_ledger_seq bl' = bl_ledger_seq bl + 1"
    using represents_next [OF history_inv [OF assms(1)] assms(2-5), of ty] by blast
  then have "history bl' p' (close_ledger init live dead m)"
    using assms history.batch [OF assms(1-4)] history.unique_batch [OF assms(1-4)]
    by (cases skip) (simp_all add: add_batch_def add_batch_unique_def)
  with bl' show ?thesis by blast
qed

section \<open>Empty ledgers\<close>

lemma close_nothing [simp]: "close_ledger [] [] [] m = m"
  by (auto simp: close_ledger_def)

lemma add_empty_batches_run:
  assumes "12 \<le> p'"
  shows "history bl p m \<Longrightarrow> p \<le> p' \<Longrightarrow> unat (bl_ledger_seq bl) = n \<Longrightarrow> n + d < 2 ^ 32 \<Longrightarrow>
    \<exists>bl' q. add_empty_batches (map of_nat [Suc n..<Suc (n + d)]) p' ty bl = Inr bl' \<and> unat (bl_ledger_seq bl') = n + d \<and>
      q \<in> {p, p'} \<and> history bl' q m"
proof (induction d arbitrary: bl p n)
  case 0
  then show ?case by auto
next
  case (Suc d)
  have lt: "bl_ledger_seq bl < - 1"
  proof -
    have "bl_ledger_seq bl \<noteq> - 1" using Suc.prems(3,4) by (auto simp: unsigned_minus_1_eq_mask mask_eq_exp_minus_1)
    then show ?thesis by (simp add: word_order.not_eq_extremum [symmetric])
  qed
  have "legal_batch False [] [] [] m" by (simp add: legal_batch_def)
  from history_next [OF Suc.prems(1,2) assms lt this, of ty]
  obtain bl1 where bl1: "add_batch (bl_ledger_seq bl + 1) p' ty [] [] [] bl = Inr bl1"
    "bl_ledger_seq bl1 = bl_ledger_seq bl + 1" "history bl1 p' m" by (auto simp: add_batch_def)
  have n1: "unat (bl_ledger_seq bl1) = Suc n" using bl1(2) next_seq [OF lt] Suc.prems(3) by simp
  have w: "(of_nat (Suc n) :: u32) = bl_ledger_seq bl + 1" by (metis bl1(2) n1 of_nat_unat_u32)
  from Suc.IH [OF bl1(3) order.refl n1] Suc.prems(4) obtain bl' where
    "add_empty_batches (map of_nat [Suc (Suc n)..<Suc (Suc n + d)]) p' ty bl1 = Inr bl'" "unat (bl_ledger_seq bl') = Suc n + d"
    "history bl' p' m" by auto
  then show ?case using bl1(1) w by (auto simp: upt_conv_Cons simp del: upt_Suc of_nat_Suc)
qed

lemma advance_run:
  assumes "history bl p m" "p \<le> p'" "12 \<le> p'"
  shows "\<exists>bl' q. advance_to_ledger target p' ty bl = Inr bl' \<and>
    bl_ledger_seq bl' = (if target \<le> bl_ledger_seq bl then bl_ledger_seq bl else target - 1) \<and> q \<in> {p, p'} \<and> history bl' q m"
proof (cases "target \<le> bl_ledger_seq bl")
  case True
  with assms(1) show ?thesis by (auto simp: advance_to_ledger_def)
next
  case False
  let ?n = "unat (bl_ledger_seq bl)"
  define d where "d = unat target - Suc ?n"
  have lt: "?n < unat target" using False by (simp add: word_le_nat_alt not_le)
  then have range: "Suc (?n + d) = unat target" by (simp add: d_def)
  then have "?n + d < 2 ^ 32" using unat_u32_bound [of target] by simp
  from add_empty_batches_run [OF assms(3,1,2) refl this] obtain bl' q where bl':
    "add_empty_batches (map of_nat [Suc ?n..<unat target]) p' ty bl = Inr bl'" "unat (bl_ledger_seq bl') = ?n + d"
    "q \<in> {p, p'}" "history bl' q m" unfolding range by blast
  have "unat (bl_ledger_seq bl' + 1) = unat target"
    using range bl'(2) unat_u32_bound [of target] by (simp add: unat_word_ariths)
  then have "bl_ledger_seq bl' + 1 = target" by (simp only: word_eq_iff_unsigned [where ?'a = nat])
  then have "bl_ledger_seq bl' = target - 1" by auto
  with bl' False show ?thesis by (auto simp: advance_to_ledger_def Let_def)
qed

section \<open>Properties\<close>

text \<open>
  C38. A bucket list never gets stuck. The next ledger with a legal batch is always added: no merge is found still in
  progress, no background merge has failed or panicked on an INIT over a live entry, nothing is out of order.
  Likewise the list is advanced through empty ledgers up to the one before a target that is ahead of it. For a
  target that is not, \<open>advance_to_ledger\<close> succeeds and leaves the list as it is, where its documentation
  promises an error.
\<close>

theorem next_ledger_is_added:
  assumes "history bl p m" "p \<le> p'" "12 \<le> p'"
  shows "(bl_ledger_seq bl < - 1 \<and> legal_batch False init live dead m \<longrightarrow>
      (\<exists>bl'. add_batch (bl_ledger_seq bl + 1) p' ty init live dead bl = Inr bl')) \<and>
    (bl_ledger_seq bl < - 1 \<and> legal_batch True init live dead m \<longrightarrow>
      (\<exists>bl'. add_batch_unique (bl_ledger_seq bl + 1) p' ty init live dead bl = Inr bl')) \<and>
    (bl_ledger_seq bl < target \<longrightarrow> (\<exists>bl' q. advance_to_ledger target p' ty bl = Inr bl' \<and>
      bl_ledger_seq bl' = target - 1 \<and> q \<in> {p, p'} \<and> history bl' q m)) \<and>
    (target \<le> bl_ledger_seq bl \<longrightarrow> advance_to_ledger target p' ty bl = Inr bl)"
proof (intro conjI impI)
  show "\<exists>bl'. add_batch (bl_ledger_seq bl + 1) p' ty init live dead bl = Inr bl'"
    if "bl_ledger_seq bl < - 1 \<and> legal_batch False init live dead m"
    using history_next [OF assms conjunct1 [OF that] conjunct2 [OF that], of ty] by (auto simp: add_batch_def)
  show "\<exists>bl'. add_batch_unique (bl_ledger_seq bl + 1) p' ty init live dead bl = Inr bl'"
    if "bl_ledger_seq bl < - 1 \<and> legal_batch True init live dead m"
    using history_next [OF assms conjunct1 [OF that] conjunct2 [OF that], of ty] by (auto simp: add_batch_unique_def)
  show "\<exists>bl' q. advance_to_ledger target p' ty bl = Inr bl' \<and> bl_ledger_seq bl' = target - 1 \<and> q \<in> {p, p'} \<and> history bl' q m"
    if "bl_ledger_seq bl < target"
    using advance_run [OF assms, of target ty] that by (simp add: not_le [symmetric])
  show "advance_to_ledger target p' ty bl = Inr bl" if "target \<le> bl_ledger_seq bl"
    using that by (simp add: advance_to_ledger_def)
qed

text \<open>
  C39. The bucket list implements a map. After any sequence of batches, a lookup finds the entry of a key
  exactly as if each batch had been applied to a map: removed when dead, else the last entry given for it. The
  newest occurrence of the key in any bucket tells the same, however entries have been merged on their way down.
\<close>

theorem bucket_list_implements_map:
  assumes "history bl p m"
  shows "bucket_list_get k bl = m k \<and> (bucket_list_contains k bl \<longleftrightarrow> k \<in> dom m) \<and>
    (case find_all_occurrences k bl of [] \<Rightarrow> m k = None | e # _ \<Rightarrow> apply_entry (Some e) None = m k)"
proof -
  from history_inv [OF assms] have inv: "levels_inv (unat (bl_ledger_seq bl)) p (levels bl)"
    and m: "view (stack k (levels bl)) = m k" by blast+
  have "bucket_list_get k bl = m k"
    using get_in_levels_view [OF level_invD(8) [OF inv, of 0]] m by (simp add: bucket_list_get_def)
  then show ?thesis using m
    by (auto simp: bucket_list_contains_def find_all_occurrences_stack view_def split: list.splits)
qed

section \<open>Restarting merges\<close>

text \<open>A list as it is restored: the buckets of every level, and no merges.\<close>

definition forget :: "('k, 'v) bucket_level \<Rightarrow> ('k, 'v) bucket_level" where
  "forget lv = lv\<lparr>lv_next := None\<rparr>"

definition forget_merges :: "('k, 'v) bucket_list \<Rightarrow> ('k, 'v) bucket_list" where
  "forget_merges bl = bl\<lparr>levels := map forget (levels bl)\<rparr>"

lemma forget_fields [simp]: "lv_curr (forget lv) = lv_curr lv" "lv_snap (forget lv) = lv_snap lv"
  "lv_number (forget lv) = lv_number lv" "lv_next (forget lv) = None"
  by (simp_all add: forget_def)

lemma forget_id: "lv_next lv = None \<Longrightarrow> forget lv = lv"
  by (simp add: forget_def)

lemma bucket_version:
  assumes "bucket_ok p b" "storage b \<noteq> []"
  shows "bucket_protocol_version b = Some (ver b)"
proof -
  have "ver b \<noteq> 0" using bucket_okD(4) [OF assms(1)] assms(2) by simp
  then show ?thesis using bucket_okD(3) [OF assms(1)] assms(2)
    by (auto simp: bucket_protocol_version_def ver_def extract_metadata_def split: option.splits bucket_entry.splits)
qed

lemma split_two: "Suc j < length xs \<Longrightarrow> xs = take j xs @ xs ! j # xs ! Suc j # drop (Suc (Suc j)) xs"
  using id_take_nth_drop [of j xs] Cons_nth_drop_Suc [of "Suc j" xs] by simp

lemma neighbours_legal:
  assumes inv: "levels_inv n p lvs" and j: "j < 10"
  shows "legal (lv_curr (lvs ! Suc j)) (lv_snap (lvs ! j))"
proof
  fix k
  have len: "length lvs = 11" using level_invD(7) [OF inv, of 0] by simp
  have "chain_ok (stack k (take j lvs @ lvs ! j # lvs ! Suc j # drop (Suc (Suc j)) lvs))"
    using level_invD(8) [OF inv, of 0] split_two [of j lvs] len j by simp
  then have "chain_ok ((stack k (take j lvs) @ opt (bucket_get k (lv_curr (lvs ! j)))) @
      opt (bucket_get k (lv_snap (lvs ! j))) @ opt (bucket_get k (lv_curr (lvs ! Suc j))) @
      (opt (bucket_get k (lv_snap (lvs ! Suc j))) @ stack k (drop (Suc (Suc j)) lvs)))"
    by (simp add: level_entries_def)
  then show "\<not> init_over_live (bucket_get k (lv_curr (lvs ! Suc j))) (bucket_get k (lv_snap (lvs ! j)))"
    by (rule chain_ok_legal)
qed

lemma restarted_merge:
  assumes inv: "levels_inv n p lvs" and n: "unat l = n" and j: "j < 10" and used: "storage (lv_snap (lvs ! j)) \<noteq> []"
  shows "(case bucket_protocol_version (lv_snap (lvs ! j)) of Some v \<Rightarrow> v | None \<Rightarrow> q) = ver (lv_snap (lvs ! j))"
    "prepare_with_normalization (ver (lv_snap (lvs ! j))) (lv_snap (lvs ! j)) []
       \<lparr>ctx_keep_dead_entries = keep_tombstone_entries (Suc j), ctx_normalize_init = Preserve,
        ctx_use_empty_curr = should_merge_with_empty_curr (bl_round_down l (bl_level_half j)) (Suc j),
        ctx_has_bucket_dir = d\<rparr> (forget (lvs ! Suc j)) = Inr (lvs ! Suc j)"
proof -
  have jS: "1 \<le> Suc j" "Suc j \<le> 10" "j \<le> 10" using j by simp_all
  note here = level_invD [OF inv jS(2), unfolded diff_Suc_1]
  let ?C = "lv_curr (lvs ! Suc j)" and ?S = "lv_snap (lvs ! j)"
  have S: "bucket_ok p ?S" by (rule level_invD(3) [OF inv jS(3)])
  show "(case bucket_protocol_version ?S of Some v \<Rightarrow> v | None \<Rightarrow> q) = ver ?S"
    by (simp add: bucket_version [OF S used])
  have "empties (unat (bl_round_down l (bl_level_half j))) (Suc j) = empties n (Suc j)"
    by (simp add: unat_round_down [OF jS(3)] n empties_def)
  then have e: "should_merge_with_empty_curr (bl_round_down l (bl_level_half j)) (Suc j) = empties n (Suc j)"
    by (simp add: should_merge_with_empty_curr_iff [OF jS(1,2)])
  let ?I = "if empties n (Suc j) then bucket_empty else ?C"
  have I: "bucket_ok p ?I" "legal ?I ?S" "ver ?I \<le> ver ?S"
    using here(2,9) neighbours_legal [OF inv j] by (auto simp: init_over_live_def)
  have "start_merge ?I ?S (ver ?S) [] ctx = Inr (merge_result (ctx_keep_dead_entries ctx) ?I ?S)"
    if "ctx_normalize_init ctx = Preserve" for ctx
    using start_merge_eq [OF I(1) S I(2) I(3) order.refl, of "[]" ctx] that by simp
  moreover have "lv_next (lvs ! Suc j) = Some (Async (Inr (merge_result (keep_tombstone_entries (Suc j)) ?I ?S)))"
    using here(10) used by (simp add: pending_def)
  ultimately show "prepare_with_normalization (ver ?S) ?S []
       \<lparr>ctx_keep_dead_entries = keep_tombstone_entries (Suc j), ctx_normalize_init = Preserve,
        ctx_use_empty_curr = should_merge_with_empty_curr (bl_round_down l (bl_level_half j)) (Suc j),
        ctx_has_bucket_dir = d\<rparr> (forget (lvs ! Suc j)) = Inr (lvs ! Suc j)"
    unfolding e using here(1)
    by (cases "empties n (Suc j)") (auto simp: prepare_with_normalization_def prepare_merge_def forget_def intro!: bucket_level.equality)
qed

lemma restart_from_run:
  assumes inv: "levels_inv n p (levels bl)" and n: "unat l = n"
  shows "j \<le> 10 \<Longrightarrow> restart_from [Suc j..<11] l q (bl\<lparr>levels := take (Suc j) (levels bl) @ map forget (drop (Suc j) (levels bl))\<rparr>) = Inr bl"
proof (induction rule: inc_induct)
  case base
  then show ?case using level_invD(7) [OF inv, of 0] by simp
next
  case (step j)
  have len: "length (levels bl) = 11" using level_invD(7) [OF inv, of 0] by simp
  let ?lvs = "levels bl"
  let ?L = "take (Suc j) ?lvs @ map forget (drop (Suc j) ?lvs)"
  have j: "j < 10" using step.hyps by simp
  have nth: "?L ! j = ?lvs ! j" "?L ! Suc j = forget (?lvs ! Suc j)" using j len by (simp_all add: nth_append)
  have S: "bucket_ok p (lv_snap (?lvs ! j))" using level_invD(3) [OF inv, of j] j by simp
  have upt: "[Suc j..<11] = Suc j # [Suc (Suc j)..<11]" using j by (simp add: upt_conv_Cons del: upt_Suc)
  show ?case
  proof (cases "storage (lv_snap (?lvs ! j)) = []")
    case True
    have none: "lv_next (?lvs ! i) = None" if "Suc j \<le> i" "i < 11" for i
    proof -
      have "\<not> snap_used n j" using True level_invD(5) [OF inv, of j] j by simp
      then have "n < half j" using j by (simp add: snap_used_def)
      moreover have "half j \<le> half (i - 1)" using that(1) by (simp add: half_def)
      ultimately have "\<not> snap_used n (i - 1)" by (simp add: snap_used_def)
      then have "storage (lv_snap (?lvs ! (i - 1))) = []" using level_invD(5) [OF inv, of "i - 1"] that by auto
      then show ?thesis using level_invD(10) [OF inv, of i] that by (simp add: pending_def)
    qed
    have "map forget (drop (Suc j) ?lvs) = drop (Suc j) ?lvs"
      by (rule nth_equalityI) (use none len in \<open>simp_all add: forget_id\<close>)
    then have "bl\<lparr>levels := ?L\<rparr> = bl" by simp
    then show ?thesis using True bucket_okD(3) [OF S] nth none [of "Suc j"] j by (simp add: upt)
  next
    case False
    note run = restarted_merge [OF inv n j False]
    have upd: "?L[Suc j := ?lvs ! Suc j] = take (Suc (Suc j)) ?lvs @ map forget (drop (Suc (Suc j)) ?lvs)"
      using j len Cons_nth_drop_Suc [of "Suc j" ?lvs]
      by (simp add: list_update_append take_Suc_conv_app_nth flip: Cons_nth_drop_Suc)
    have "restart_from [Suc j..<11] l q (bl\<lparr>levels := ?L\<rparr>) =
        restart_from [Suc (Suc j)..<11] l q (bl\<lparr>levels := ?L[Suc j := ?lvs ! Suc j]\<rparr>)"
      unfolding upt using False bucket_okD(3) [OF S] run(2) by (simp add: nth run(1) Let_def)
    also have "\<dots> = Inr bl" unfolding upd by (rule step.IH)
    finally show ?thesis .
  qed
qed

text \<open>
  C40. Restarting from the buckets alone restores the list exactly. When the pending merges of a list are lost, as
  they are over a restart, \<open>restart_merges\<close> starts the same merges again, with the same inputs, tombstones,
  protocol and thus the same results, at every level that had one, whatever protocol the caller passes.
\<close>

theorem restart_restores_merges:
  assumes "history bl p m"
  shows "restart_merges (bl_ledger_seq bl) q (forget_merges bl) = Inr bl"
proof -
  from history_inv [OF assms] have inv: "levels_inv (unat (bl_ledger_seq bl)) p (levels bl)" by blast
  have len: "length (levels bl) = 11" and zero: "lv_next (levels bl ! 0) = None"
    using inv by (simp_all add: levels_inv_def level_inv_def)
  have "map forget (levels bl) = take (Suc 0) (levels bl) @ map forget (drop (Suc 0) (levels bl))"
    using len zero by (cases "levels bl") (simp_all add: forget_id)
  then show ?thesis
    using restart_from_run [OF inv refl, of 0 q] by (simp add: restart_merges_def forget_merges_def bucket_list_levels_def)
qed

section \<open>A sample history\<close>

text \<open>Three ledgers, with files: two entries created, one updated and the other deleted, the latter created again.\<close>

definition sample_1 :: "(nat, nat) bucket_list" where
  "sample_1 = projr (add_batch 1 25 LiveList [sample_entry 1 10, sample_entry 2 20] [] [] (set_bucket_dir new_bucket_list))"

definition sample_2 :: "(nat, nat) bucket_list" where
  "sample_2 = projr (add_batch 2 25 LiveList [] [sample_entry 1 11] [2] sample_1)"

definition sample_3 :: "(nat, nat) bucket_list" where
  "sample_3 = projr (add_batch_unique 3 26 LiveList [sample_entry 2 22] [] [] sample_2)"

definition sample_map :: "nat \<rightharpoonup> (nat, nat) ledger_entry" where
  "sample_map = close_ledger [sample_entry 2 22] [] [] (close_ledger [] [sample_entry 1 11] [2]
     (close_ledger [sample_entry 1 10, sample_entry 2 20] [] [] Map.empty))"

lemma sample_map_at: "sample_map 1 = Some (sample_entry 1 11)" "sample_map 2 = Some (sample_entry 2 22)" "sample_map 3 = None"
  by (simp_all add: sample_map_def close_ledger_def last_of_def sample_entry_def)

lemma sample_seq: "(0 :: u32) < - 1" "(1 :: u32) < - 1" "(2 :: u32) < - 1" "(3 :: u32) < - 1"
  by (simp_all add: word_less_nat_alt unsigned_minus_1_eq_mask mask_eq_exp_minus_1)

lemma sample_history: "history sample_3 26 sample_map" "bl_ledger_seq sample_3 = 3"
proof -
  let ?m1 = "close_ledger [sample_entry 1 10, sample_entry 2 20] [] [] Map.empty"
  let ?m2 = "close_ledger [] [sample_entry 1 11] [2] ?m1"
  have h0: "history (set_bucket_dir new_bucket_list :: (nat, nat) bucket_list) 0 Map.empty"
    by (intro history.directory history.created)
  have s0: "bl_ledger_seq (set_bucket_dir new_bucket_list :: (nat, nat) bucket_list) = 0" by (simp add: set_bucket_dir_def new_seq)
  have "legal_batch False [sample_entry 1 10, sample_entry 2 20] [] [] Map.empty" by (simp add: legal_batch_def)
  from history_next [OF h0 _ _ _ this, of 25 LiveList] s0
  have h1: "history sample_1 25 ?m1" "bl_ledger_seq sample_1 = 1" by (auto simp: sample_1_def add_batch_def sample_seq)
  have "legal_batch False [] [sample_entry 1 11] [2] ?m1" by (simp add: legal_batch_def sample_entry_def)
  from history_next [OF h1(1) _ _ _ this, of 25 LiveList] h1(2)
  have h2: "history sample_2 25 ?m2" "bl_ledger_seq sample_2 = 2" by (auto simp: sample_2_def add_batch_def sample_seq)
  have "legal_batch True [sample_entry 2 22] [] [] ?m2" by (simp add: legal_batch_def close_ledger_def last_of_def sample_entry_def)
  from history_next [OF h2(1) _ _ _ this, of 26 LiveList] h2(2)
  show "history sample_3 26 sample_map" "bl_ledger_seq sample_3 = 3"
    by (auto simp: sample_3_def sample_map_def add_batch_unique_def sample_seq)
qed

theorem next_ledger_is_added_witness:
  "\<exists>bl'. add_batch 4 26 LiveList [] [sample_entry 1 12] [2] sample_3 = Inr bl'"
proof -
  have "legal_batch False [] [sample_entry 1 12] [2] sample_map" by (simp add: legal_batch_def sample_entry_def)
  with next_ledger_is_added [OF sample_history(1), of 26 "[]" "[sample_entry 1 12]" "[2]" LiveList 0] sample_history(2)
  show ?thesis by (simp add: sample_seq)
qed

theorem bucket_list_implements_map_witness:
  "bucket_list_get 1 sample_3 = Some (sample_entry 1 11) \<and> bucket_list_get 2 sample_3 = Some (sample_entry 2 22) \<and>
   bucket_list_get 3 sample_3 = None"
  using bucket_list_implements_map [OF sample_history(1)] by (simp add: sample_map_at sample_map_at(1) [unfolded One_nat_def])

theorem restart_restores_merges_witness: "restart_merges 3 0 (forget_merges sample_3) = Inr sample_3"
  using restart_restores_merges [OF sample_history(1), of 0] sample_history(2) by simp

end
