(* ===== verification/Envelopes.thy ===== *)
theory Envelopes
  imports Amounts
begin

text \<open>
  Transaction envelopes as the herder reads them (\<open>crates/tx/src/envelope_utils.rs\<close>, \<open>fees.rs\<close>,
  \<open>frame.rs\<close>, \<open>crates/herder/src/tx_set_utils.rs\<close>).

  The XDR types come from a third-party crate. An envelope carries the fields these functions read: the
  kinds of its operations, its fee, sequence number, source account and Soroban data, and as a field the
  length of its XDR encoding. A ledger key is its type with its XDR encoding, a hashed transaction its
  envelope with the SHA-256 hash that was computed of it.
\<close>

section \<open>Panics\<close>

text \<open>How a computation of the herder panics: a failed assertion, \<open>expect\<close> on nothing, an index out of range.\<close>

datatype panic = AssertFailed | ExpectFailed | IndexOutOfBounds

definition assert :: "bool \<Rightarrow> panic + unit" where
  "assert b = (if b then Inr () else Inl AssertFailed)"

definition expect :: "'a option \<Rightarrow> panic + 'a" where
  "expect v = (case v of Some x \<Rightarrow> Inr x | None \<Rightarrow> Inl ExpectFailed)"

text \<open>Indexing a vector, and assigning to an index.\<close>

definition index :: "'a list \<Rightarrow> nat \<Rightarrow> panic + 'a" where
  "index xs i = (if i < length xs then Inr (xs ! i) else Inl IndexOutOfBounds)"

lemma assert_Inr [simp]: "assert b = Inr u \<longleftrightarrow> b"
  by (simp add: assert_def)

lemma assert_True [simp]: "assert True = Inr ()"
  by (simp add: assert_def)

lemma expect_simps [simp]: "expect (Some x) = Inr x" "expect v = Inr x \<longleftrightarrow> v = Some x"
  by (simp_all add: expect_def split: option.splits)

lemma index_Inr [simp]: "index xs i = Inr x \<longleftrightarrow> i < length xs \<and> x = xs ! i"
  by (auto simp: index_def)

lemma index_lt [simp]: "i < length xs \<Longrightarrow> index xs i = Inr (xs ! i)"
  by (simp add: index_def)

text \<open>A loop whose body may panic, threading its state; checked arithmetic on \<open>u64\<close>.\<close>

fun foldE :: "('a \<Rightarrow> 's \<Rightarrow> 'e + 's) \<Rightarrow> 'a list \<Rightarrow> 's \<Rightarrow> 'e + 's" where
  "foldE f [] s = Inr s"
| "foldE f (x # xs) s = bindE (f x s) (foldE f xs)"

definition u64_checked_add :: "u64 \<Rightarrow> u64 \<Rightarrow> u64 option" where
  "u64_checked_add a b = (if unat a + unat b < 2 ^ 64 then Some (a + b) else None)"

definition u64_checked_sub :: "u64 \<Rightarrow> u64 \<Rightarrow> u64 option" where
  "u64_checked_sub a b = (if b \<le> a then Some (a - b) else None)"

definition u64_checked_mul :: "u64 \<Rightarrow> u64 \<Rightarrow> u64 option" where
  "u64_checked_mul a b = (if unat a * unat b < 2 ^ 64 then Some (a * b) else None)"

lemma unat_u64_bound: "unat (x :: u64) < 2 ^ 64"
  using unsigned_less [of x, where ?'a = nat] by simp

lemma u64_checked_add_Some: "u64_checked_add a b = Some c \<longleftrightarrow> unat a + unat b < 2 ^ 64 \<and> c = a + b"
  by (auto simp: u64_checked_add_def)

lemma u64_checked_sub_Some: "u64_checked_sub a b = Some c \<longleftrightarrow> b \<le> a \<and> c = a - b"
  by (auto simp: u64_checked_sub_def)

lemma u64_checked_mul_Some: "u64_checked_mul a b = Some c \<longleftrightarrow> unat a * unat b < 2 ^ 64 \<and> c = a * b"
  by (auto simp: u64_checked_mul_def)

lemma unat_add_u64: "unat a + unat b < 2 ^ 64 \<Longrightarrow> unat (a + b :: u64) = unat a + unat b"
  by (simp add: unat_word_ariths)

lemma unat_mul_u64: "unat a * unat b < 2 ^ 64 \<Longrightarrow> unat (a * b :: u64) = unat a * unat b"
  by (simp add: unat_word_ariths)

text \<open>A loop from a state to another keeps what each of its steps keeps.\<close>

lemma foldE_inv:
  assumes "foldE f xs s = Inr s'" "P s"
    and "\<And>x s s'. x \<in> set xs \<Longrightarrow> P s \<Longrightarrow> f x s = Inr s' \<Longrightarrow> P s'"
  shows "P s'"
  using assms by (induction xs arbitrary: s) auto

lemma foldE_total:
  assumes "P s" and "\<And>x s. x \<in> set xs \<Longrightarrow> P s \<Longrightarrow> \<exists>s'. f x s = Inr s' \<and> P s'"
  shows "\<exists>s'. foldE f xs s = Inr s' \<and> P s'"
  using assms
proof (induction xs arbitrary: s)
  case (Cons x xs)
  from Cons.prems(2) [of x s] Cons.prems(1) obtain s' where "f x s = Inr s'" "P s'" by auto
  with Cons.IH [of s'] Cons.prems(2) show ?case by auto
qed simp

lemma foldE_append: "foldE f (xs @ ys) s = bindE (foldE f xs s) (foldE f ys)"
  by (induction xs arbitrary: s) (auto simp: bindE_def split: sum.splits)

text \<open>\<open>sort_by\<close> of a slice, a stable sort, with a comparator.\<close>

fun insert_by :: "('a \<Rightarrow> 'a \<Rightarrow> ordering) \<Rightarrow> 'a \<Rightarrow> 'a list \<Rightarrow> 'a list" where
  "insert_by f x [] = [x]"
| "insert_by f x (y # ys) = (if f x y = Greater then y # insert_by f x ys else x # y # ys)"

definition sort_by :: "('a \<Rightarrow> 'a \<Rightarrow> ordering) \<Rightarrow> 'a list \<Rightarrow> 'a list" where
  "sort_by f xs = foldr (insert_by f) xs []"

lemma set_insert_by [simp]: "set (insert_by f x xs) = insert x (set xs)"
  by (induction xs) auto

lemma distinct_insert_by [simp]: "distinct (insert_by f x xs) \<longleftrightarrow> x \<notin> set xs \<and> distinct xs"
  by (induction xs) auto

lemma set_sort_by [simp]: "set (sort_by f xs) = set xs"
  by (induction xs) (auto simp: sort_by_def)

lemma distinct_sort_by [simp]: "distinct (sort_by f xs) \<longleftrightarrow> distinct xs"
proof (induction xs)
  case (Cons x xs)
  have "sort_by f (x # xs) = insert_by f x (sort_by f xs)" by (simp add: sort_by_def)
  with Cons show ?case by simp
qed (simp add: sort_by_def)

section \<open>Fee rates\<close>

record fee_rate =
  inclusion_fee :: i64
  op_count :: u32

text \<open>The products are \<open>i128\<close>; a product of an \<open>i64\<close> and a \<open>u32\<close> does not leave its range.\<close>

definition cmp_rate :: "fee_rate \<Rightarrow> fee_rate \<Rightarrow> panic + ordering" where
  "cmp_rate a b =
     bindE (assert (0 \<le> inclusion_fee a)) (\<lambda>_.
     bindE (assert (0 \<le> inclusion_fee b)) (\<lambda>_.
       Inr (cmp (inclusion_fee a * int (unat (op_count b))) (inclusion_fee b * int (unat (op_count a))))))"

definition saturating_sub_resource :: "i64 \<Rightarrow> i64 \<Rightarrow> i64" where
  "saturating_sub_resource total_fee resource_fee = i64_saturating (total_fee - resource_fee)"

section \<open>Envelopes\<close>

datatype ledger_entry_type =
  Account | Trustline | Offer | Data | ClaimableBalance | LiquidityPool
| ContractData | ContractCode | ConfigSetting | Ttl

record ledger_key =
  key_type :: ledger_entry_type
  key_xdr :: bytes

definition is_soroban_key :: "ledger_key \<Rightarrow> bool" where
  "is_soroban_key key \<longleftrightarrow> (case key_type key of ContractData \<Rightarrow> True | ContractCode \<Rightarrow> True | _ \<Rightarrow> False)"

record soroban_resources =
  read_only :: "ledger_key list"
  read_write :: "ledger_key list"
  instructions :: u32
  disk_read_bytes :: u32
  write_bytes :: u32

datatype soroban_tx_data_ext = DataV0 | DataV1 (archived_soroban_entries: "u32 list")

record soroban_data =
  data_ext :: soroban_tx_data_ext
  resources :: soroban_resources
  resource_fee :: i64

datatype transaction_ext = ExtV0 | ExtV1 soroban_data

datatype operation_body =
  CreateAccount | Payment | PathPaymentStrictReceive | ManageSellOffer | CreatePassiveSellOffer
| SetOptions | ChangeTrust | AllowTrust | AccountMerge | Inflation | ManageData | BumpSequence
| ManageBuyOffer | PathPaymentStrictSend | CreateClaimableBalance | ClaimClaimableBalance
| BeginSponsoringFutureReserves | EndSponsoringFutureReserves | RevokeSponsorship | Clawback
| ClawbackClaimableBalance | SetTrustLineFlags | LiquidityPoolDeposit | LiquidityPoolWithdraw
| InvokeHostFunction | ExtendFootprintTtl | RestoreFootprint

datatype muxed_account = Ed25519 bytes | MuxedEd25519 u64 bytes

record tx_v0 =
  v0_source :: bytes
  v0_fee :: u32
  v0_seq_num :: i64
  v0_operations :: "operation_body list"
  v0_xdr_len :: u32

record tx_v1 =
  v1_source :: muxed_account
  v1_fee :: u32
  v1_seq_num :: i64
  v1_operations :: "operation_body list"
  v1_ext :: transaction_ext
  v1_xdr_len :: u32

record fee_bump =
  fee_source :: muxed_account
  bump_fee :: i64
  inner_tx :: tx_v1

datatype transaction_envelope = TxV0 tx_v0 | Tx tx_v1 | TxFeeBump fee_bump

record hashed_tx =
  htx_hash :: bytes
  htx_envelope :: transaction_envelope

section \<open>Reading envelopes\<close>

fun envelope_operations :: "transaction_envelope \<Rightarrow> operation_body list" where
  "envelope_operations (TxV0 e) = v0_operations e"
| "envelope_operations (Tx e) = v1_operations e"
| "envelope_operations (TxFeeBump e) = v1_operations (inner_tx e)"

definition is_soroban_envelope :: "transaction_envelope \<Rightarrow> bool" where
  "is_soroban_envelope env \<longleftrightarrow>
     list_ex (\<lambda>op. op \<in> {InvokeHostFunction, ExtendFootprintTtl, RestoreFootprint}) (envelope_operations env)"

definition has_dex_operations_envelope :: "transaction_envelope \<Rightarrow> bool" where
  "has_dex_operations_envelope env \<longleftrightarrow>
     list_ex (\<lambda>op. op \<in> {ManageSellOffer, ManageBuyOffer, CreatePassiveSellOffer,
                         PathPaymentStrictSend, PathPaymentStrictReceive}) (envelope_operations env)"

fun is_fee_bump_envelope :: "transaction_envelope \<Rightarrow> bool" where
  "is_fee_bump_envelope (TxFeeBump e) = True"
| "is_fee_bump_envelope _ = False"

fun ext_soroban_data :: "transaction_ext \<Rightarrow> soroban_data option" where
  "ext_soroban_data (ExtV1 data) = Some data"
| "ext_soroban_data ExtV0 = None"

fun envelope_soroban_data :: "transaction_envelope \<Rightarrow> soroban_data option" where
  "envelope_soroban_data (TxV0 e) = None"
| "envelope_soroban_data (Tx e) = ext_soroban_data (v1_ext e)"
| "envelope_soroban_data (TxFeeBump e) = ext_soroban_data (v1_ext (inner_tx e))"

text \<open>A \<open>usize\<close>: an envelope has at most 100 operations.\<close>

definition envelope_operation_count :: "transaction_envelope \<Rightarrow> nat" where
  "envelope_operation_count env =
     (let ops = length (envelope_operations env) in if is_fee_bump_envelope env then ops + 1 else ops)"

fun envelope_tx_size_bytes :: "transaction_envelope \<Rightarrow> u32" where
  "envelope_tx_size_bytes (TxFeeBump e) = v1_xdr_len (inner_tx e)"
| "envelope_tx_size_bytes (Tx e) = v1_xdr_len e"
| "envelope_tx_size_bytes (TxV0 e) = v0_xdr_len e"

fun envelope_fee :: "transaction_envelope \<Rightarrow> i64" where
  "envelope_fee (TxV0 e) = int (unat (v0_fee e))"
| "envelope_fee (Tx e) = int (unat (v1_fee e))"
| "envelope_fee (TxFeeBump e) = bump_fee e"

definition envelope_inclusion_fee :: "transaction_envelope \<Rightarrow> i64" where
  "envelope_inclusion_fee env =
     (let fee = (case env of
                   TxV0 e \<Rightarrow> 0
                 | Tx e \<Rightarrow> (case v1_ext e of ExtV0 \<Rightarrow> 0 | ExtV1 data \<Rightarrow> resource_fee data)
                 | TxFeeBump e \<Rightarrow> (case v1_ext (inner_tx e) of ExtV0 \<Rightarrow> 0 | ExtV1 data \<Rightarrow> resource_fee data))
      in saturating_sub_resource (envelope_fee env) fee)"

fun envelope_sequence_number :: "transaction_envelope \<Rightarrow> i64" where
  "envelope_sequence_number (TxV0 e) = v0_seq_num e"
| "envelope_sequence_number (Tx e) = v1_seq_num e"
| "envelope_sequence_number (TxFeeBump e) = v1_seq_num (inner_tx e)"

fun source_account_from_envelope :: "transaction_envelope \<Rightarrow> muxed_account" where
  "source_account_from_envelope (TxV0 e) = Ed25519 (v0_source e)"
| "source_account_from_envelope (Tx e) = v1_source e"
| "source_account_from_envelope (TxFeeBump e) = v1_source (inner_tx e)"

fun muxed_to_account_id :: "muxed_account \<Rightarrow> bytes" where
  "muxed_to_account_id (Ed25519 key) = key"
| "muxed_to_account_id (MuxedEd25519 i key) = key"

text \<open>The XDR encoding of an account id is the discriminant of its only case and the key.\<close>

definition account_key :: "transaction_envelope \<Rightarrow> bytes" where
  "account_key env = replicate 4 0 @ muxed_to_account_id (source_account_from_envelope env)"

section \<open>Resources of an envelope\<close>

definition protocol_v23 :: u32 where
  "protocol_v23 = 23"

definition soroban_disk_read_entries ::
  "soroban_resources \<Rightarrow> soroban_tx_data_ext option \<Rightarrow> bool \<Rightarrow> u32 \<Rightarrow> i64" where
  "soroban_disk_read_entries res ext is_restore_footprint version =
     (if is_restore_footprint then int (length (read_write res))
      else if version < protocol_v23 then int (length (read_only res) + length (read_write res))
      else let count = int (length (filter (\<lambda>key. \<not> is_soroban_key key) (read_only res)))
                     + int (length (filter (\<lambda>key. \<not> is_soroban_key key) (read_write res)))
           in if protocol_v23 \<le> version
              then (case ext of Some (DataV1 archived) \<Rightarrow> count + int (length archived) | _ \<Rightarrow> count)
              else count)"

end
