(* ===== verification/Resource.thy ===== *)
theory Resource
  imports Envelopes
begin

text \<open>
  Resource vectors (\<open>crates/common/src/resource.rs\<close>) and the resources of an envelope
  (\<open>resources_from_envelope\<close> in \<open>crates/tx/src/envelope_utils.rs\<close>). A vector has one dimension (operations),
  two (operations, bytes) or seven (Soroban). Operations on vectors of different dimensions panic.
\<close>

section \<open>The type and its operations\<close>

type_synonym resource = "i64 list"

datatype resource_error = SizeMismatch nat nat | Overflow nat | Underflow nat

datatype resource_type =
  Operations | Instructions | TxByteSize | DiskReadBytes | WriteBytes | ReadLedgerEntries | WriteLedgerEntries

fun dimension :: "resource_type \<Rightarrow> nat" where
  "dimension Operations = 0"
| "dimension Instructions = 1"
| "dimension TxByteSize = 2"
| "dimension DiskReadBytes = 3"
| "dimension WriteBytes = 4"
| "dimension ReadLedgerEntries = 5"
| "dimension WriteLedgerEntries = 6"

definition resource_new :: "i64 list \<Rightarrow> panic + resource" where
  "resource_new values = bindE (assert (length values = 1 \<or> length values = 2 \<or> length values = 7)) (\<lambda>_. Inr values)"

definition make_empty :: "nat \<Rightarrow> panic + resource" where
  "make_empty count = resource_new (replicate count 0)"

definition is_zero :: "resource \<Rightarrow> bool" where
  "is_zero r = list_all (\<lambda>v. v = 0) r"

definition any_positive :: "resource \<Rightarrow> bool" where
  "any_positive r = list_ex (\<lambda>v. 0 < v) r"

definition try_get_val :: "resource_type \<Rightarrow> resource \<Rightarrow> i64 option" where
  "try_get_val ty r = (if dimension ty < length r then Some (r ! dimension ty) else None)"

definition get_val :: "resource_type \<Rightarrow> resource \<Rightarrow> panic + i64" where
  "get_val ty r = index r (dimension ty)"

definition set_val :: "resource_type \<Rightarrow> i64 \<Rightarrow> resource \<Rightarrow> panic + resource" where
  "set_val ty v r = bindE (index r (dimension ty)) (\<lambda>_. Inr (r[dimension ty := v]))"

definition soroban_ledger_limits :: "i64 \<Rightarrow> i64 \<Rightarrow> i64 \<Rightarrow> i64 \<Rightarrow> i64 \<Rightarrow> i64 \<Rightarrow> i64 \<Rightarrow> panic + resource" where
  "soroban_ledger_limits tx_count insns tx_size_bytes read_bytes wr_bytes read_entries write_entries =
     bindE (make_empty 7) (\<lambda>r.
     bindE (set_val Operations tx_count r) (\<lambda>r.
     bindE (set_val Instructions insns r) (\<lambda>r.
     bindE (set_val TxByteSize tx_size_bytes r) (\<lambda>r.
     bindE (set_val DiskReadBytes read_bytes r) (\<lambda>r.
     bindE (set_val WriteBytes wr_bytes r) (\<lambda>r.
     bindE (set_val ReadLedgerEntries read_entries r) (set_val WriteLedgerEntries write_entries)))))))"

definition can_add :: "resource \<Rightarrow> resource \<Rightarrow> panic + bool" where
  "can_add r other = bindE (assert (length r = length other)) (\<lambda>_.
     Inr (list_all (\<lambda>(a, b). i64_checked (a + b) \<noteq> None) (zip r other)))"

definition leq :: "resource \<Rightarrow> resource \<Rightarrow> panic + bool" where
  "leq r other = bindE (assert (length r = length other)) (\<lambda>_. Inr (list_all (\<lambda>(a, b). a \<le> b) (zip r other)))"

text \<open>The loops of the checked operations, at dimension \<open>i\<close>.\<close>

fun checked_add_from :: "nat \<Rightarrow> (i64 \<times> i64) list \<Rightarrow> resource_error + resource" where
  "checked_add_from i [] = Inr []"
| "checked_add_from i ((a, b) # ps) =
     (case i64_checked (a + b) of
        None \<Rightarrow> Inl (Overflow i)
      | Some v \<Rightarrow> bindE (checked_add_from (Suc i) ps) (\<lambda>vs. Inr (v # vs)))"

definition checked_add :: "resource \<Rightarrow> resource \<Rightarrow> resource_error + resource" where
  "checked_add r other =
     (if length r \<noteq> length other then Inl (SizeMismatch (length r) (length other))
      else checked_add_from 0 (zip r other))"

fun checked_sub_from :: "nat \<Rightarrow> (i64 \<times> i64) list \<Rightarrow> resource_error + resource" where
  "checked_sub_from i [] = Inr []"
| "checked_sub_from i ((a, b) # ps) =
     (if a < b then Inl (Underflow i) else bindE (checked_sub_from (Suc i) ps) (\<lambda>vs. Inr (as_i64 (a - b) # vs)))"

definition checked_sub :: "resource \<Rightarrow> resource \<Rightarrow> resource_error + resource" where
  "checked_sub r other =
     (if length r \<noteq> length other then Inl (SizeMismatch (length r) (length other))
      else checked_sub_from 0 (zip r other))"

text \<open>\<open>+=\<close> (and \<open>+\<close>, which calls it), \<open>-=\<close> (and \<open>-\<close>) with the assertion inside its loop.\<close>

definition add_assign :: "resource \<Rightarrow> resource \<Rightarrow> panic + resource" where
  "add_assign r other = bindE (can_add r other) (\<lambda>fits. bindE (assert fits) (\<lambda>_.
     Inr (map (\<lambda>(a, b). as_i64 (a + b)) (zip r other))))"

fun sub_from :: "(i64 \<times> i64) list \<Rightarrow> panic + resource" where
  "sub_from [] = Inr []"
| "sub_from ((a, b) # ps) = bindE (assert (b \<le> a)) (\<lambda>_. bindE (sub_from ps) (\<lambda>vs. Inr (as_i64 (a - b) # vs)))"

definition sub_assign :: "resource \<Rightarrow> resource \<Rightarrow> panic + resource" where
  "sub_assign r other = bindE (assert (length r = length other)) (\<lambda>_. sub_from (zip r other))"

definition partial_cmp :: "resource \<Rightarrow> resource \<Rightarrow> panic + ordering option" where
  "partial_cmp r other =
     (if length r \<noteq> length other then Inr None
      else bindE (leq r other) (\<lambda>all_le. bindE (leq other r) (\<lambda>all_ge.
             Inr (if all_le \<and> all_ge then Some Equal
                  else if all_le then Some Less
                  else if all_ge then Some Greater
                  else None))))"

definition any_greater :: "resource \<Rightarrow> resource \<Rightarrow> panic + bool" where
  "any_greater lhs rhs =
     bindE (assert (length lhs = length rhs)) (\<lambda>_. Inr (list_ex (\<lambda>(a, b). b < a) (zip lhs rhs)))"

definition subtract_non_negative :: "resource \<Rightarrow> resource \<Rightarrow> panic + resource" where
  "subtract_non_negative lhs rhs =
     bindE (assert (length lhs = length rhs)) (\<lambda>_.
       resource_new (map (\<lambda>(a, b). max (as_i64 (a - b)) 0) (zip lhs rhs)))"

section \<open>Resources of an envelope\<close>

definition resources_from_envelope :: "transaction_envelope \<Rightarrow> bool \<Rightarrow> u32 \<Rightarrow> panic + resource" where
  "resources_from_envelope env use_byte_limit_in_classic version =
     (let tx_size = int (unat (envelope_tx_size_bytes env)) in
      if is_soroban_envelope env
      then let data = envelope_soroban_data env;
               res = (case data of
                        Some d \<Rightarrow> resources d
                      | None \<Rightarrow> \<lparr>read_only = [], read_write = [], instructions = 0,
                                 disk_read_bytes = 0, write_bytes = 0\<rparr>);
               ops = (if is_fee_bump_envelope env then int (envelope_operation_count env) else 1);
               is_restore = list_ex (\<lambda>op. op = RestoreFootprint) (envelope_operations env);
               disk_read_entries =
                 soroban_disk_read_entries res (map_option data_ext data) is_restore version;
               write_entries = int (length (read_write res))
           in resource_new [ops, int (unat (instructions res)), tx_size, int (unat (disk_read_bytes res)),
                            int (unat (write_bytes res)), disk_read_entries, write_entries]
      else if use_byte_limit_in_classic
      then resource_new [int (envelope_operation_count env), tx_size]
      else resource_new [int (envelope_operation_count env)])"

section \<open>Vectors of amounts\<close>

text \<open>A proper vector: one of the three dimensions, amounts in every component.\<close>

definition proper :: "resource \<Rightarrow> bool" where
  "proper r \<longleftrightarrow> (length r = 1 \<or> length r = 2 \<or> length r = 7) \<and> list_all in_amount r"

text \<open>The partial order, the sum and the difference of vectors, as used in statements.\<close>

abbreviation res_le :: "resource \<Rightarrow> resource \<Rightarrow> bool" where
  "res_le \<equiv> list_all2 (\<le>)"

definition res_add :: "resource \<Rightarrow> resource \<Rightarrow> resource" where
  "res_add = map2 (+)"

definition res_sub :: "resource \<Rightarrow> resource \<Rightarrow> resource" where
  "res_sub = map2 (-)"

definition res_sum :: "nat \<Rightarrow> resource list \<Rightarrow> resource" where
  "res_sum n rs = foldl res_add (replicate n 0) rs"

end
