(* ===== verification/Parallel_Builder.thy ===== *)
theory Parallel_Builder
  imports Resource
begin

text \<open>
  The parallel Soroban phase of a transaction set (\<open>crates/herder/src/parallel_tx_set_builder.rs\<close>):
  conflicts between footprints, clusters of conflicting transactions, packing of clusters into the
  bins of a stage, and the choice among several numbers of stages.

  A key of a footprint is compared through its XDR encoding. The conflict maps are association lists; the
  code iterates over hash maps, whose order does not reach the bit sets it builds.
\<close>

section \<open>Bit sets\<close>

type_synonym bit_set = "u64 list"

definition with_capacity :: "nat \<Rightarrow> bit_set" where
  "with_capacity bits = replicate ((bits + 63) div 64) 0"

text \<open>\<open>Vec::resize\<close> with zeros to a greater length.\<close>

definition grow :: "nat \<Rightarrow> bit_set \<Rightarrow> bit_set" where
  "grow n ws = ws @ replicate (n - length ws) 0"

definition bs_set :: "nat \<Rightarrow> bit_set \<Rightarrow> bit_set" where
  "bs_set idx ws =
     (let w = idx div 64; ws = (if length ws \<le> w then grow (w + 1) ws else ws)
      in ws[w := or (ws ! w) (push_bit (idx mod 64) 1)])"

definition bs_get :: "bit_set \<Rightarrow> nat \<Rightarrow> bool" where
  "bs_get ws idx =
     (let w = idx div 64
      in if length ws \<le> w then False else and (ws ! w) (push_bit (idx mod 64) 1) \<noteq> 0)"

definition intersects :: "bit_set \<Rightarrow> bit_set \<Rightarrow> bool" where
  "intersects ws other =
     (let len = min (length ws) (length other)
      in list_ex (\<lambda>(a, b). and a b \<noteq> 0) (zip (take len ws) (take len other)))"

definition union_with :: "bit_set \<Rightarrow> bit_set \<Rightarrow> bit_set" where
  "union_with other ws =
     (let ws = (if length ws < length other then grow (length other) ws else ws)
      in map (\<lambda>(w, b). or w b) (zip ws other) @ drop (length other) ws)"

definition difference_with :: "bit_set \<Rightarrow> bit_set \<Rightarrow> bit_set" where
  "difference_with other ws =
     (let len = min (length ws) (length other)
      in map (\<lambda>(w, b). and w (not b)) (zip (take len ws) (take len other)) @ drop len ws)"

definition iter_ones :: "bit_set \<Rightarrow> nat list" where
  "iter_ones ws =
     concat (map (\<lambda>(word_idx, w).
                    map (\<lambda>k. word_idx * 64 + k) (filter (\<lambda>k. and w (push_bit k 1) \<noteq> 0) [0..<64]))
                 (enumerate 0 ws))"

section \<open>Builder transactions and clusters\<close>

record builder_tx =
  bt_id :: nat
  bt_instructions :: u32
  bt_conflicts :: bit_set

record cluster =
  cl_instructions :: u64
  cl_conflicts :: bit_set
  cl_tx_ids :: bit_set

definition from_tx :: "builder_tx \<Rightarrow> cluster" where
  "from_tx tx = \<lparr>cl_instructions = ucast (bt_instructions tx), cl_conflicts = bt_conflicts tx,
                 cl_tx_ids = bs_set (bt_id tx) []\<rparr>"

definition merge_cluster :: "cluster \<Rightarrow> cluster \<Rightarrow> panic + cluster" where
  "merge_cluster other c =
     bindE (expect (u64_checked_add (cl_instructions c) (cl_instructions other))) (\<lambda>insns.
       Inr \<lparr>cl_instructions = insns, cl_conflicts = union_with (cl_conflicts other) (cl_conflicts c),
            cl_tx_ids = union_with (cl_tx_ids other) (cl_tx_ids c)\<rparr>)"

record partition_config =
  clusters_per_stage :: u32
  instructions_per_cluster :: u64

definition partition_config_new :: "u32 \<Rightarrow> i64 \<Rightarrow> u32 \<Rightarrow> panic + partition_config" where
  "partition_config_new stage_count ledger_max_instructions ledger_max_clusters =
     bindE (assert (0 \<le> ledger_max_instructions)) (\<lambda>_.
       let max_insns = word_of_int ledger_max_instructions;
           per_cluster = (if stage_count > 0 then max_insns div ucast stage_count else max_insns)
       in Inr \<lparr>clusters_per_stage = ledger_max_clusters, instructions_per_cluster = per_cluster\<rparr>)"

definition instructions_per_stage :: "partition_config \<Rightarrow> panic + u64" where
  "instructions_per_stage cfg =
     expect (u64_checked_mul (instructions_per_cluster cfg) (ucast (clusters_per_stage cfg)))"

section \<open>Stages\<close>

record stage =
  clusters :: "cluster list"
  bin_packing :: "bit_set list"
  bin_instructions :: "u64 list"
  total_instructions :: u64
  config :: partition_config
  tried_compacting :: bool

definition stage_new :: "partition_config \<Rightarrow> stage" where
  "stage_new cfg =
     (let n = unat (clusters_per_stage cfg)
      in \<lparr>clusters = [], bin_packing = replicate n [], bin_instructions = replicate n 0,
          total_instructions = 0, config = cfg, tried_compacting = False\<rparr>)"

text \<open>The loop over the bins, the same in both packings: the first bin with room takes the cluster.\<close>

fun first_fit ::
  "u64 \<Rightarrow> cluster \<Rightarrow> nat list \<Rightarrow> bit_set list \<times> u64 list \<Rightarrow> panic + (bit_set list \<times> u64 list) option" where
  "first_fit limit c [] (bins, insns) = Inr None"
| "first_fit limit c (b # bs) (bins, insns) =
     bindE (index insns b) (\<lambda>used.
       case u64_checked_add used (cl_instructions c) of
         Some filled \<Rightarrow>
           if filled \<le> limit
           then bindE (index bins b) (\<lambda>bin.
                  Inr (Some (bins[b := union_with (cl_tx_ids c) bin], insns[b := filled])))
           else first_fit limit c bs (bins, insns)
       | None \<Rightarrow> first_fit limit c bs (bins, insns))"

text \<open>The loop over the clusters sorted by their instructions; \<open>None\<close> when one fits no bin.\<close>

fun pack_sorted ::
  "u64 \<Rightarrow> nat \<Rightarrow> cluster list \<Rightarrow> bit_set list \<times> u64 list \<Rightarrow> panic + (bit_set list \<times> u64 list) option" where
  "pack_sorted limit n_bins [] st = Inr (Some st)"
| "pack_sorted limit n_bins (c # cs) st =
     bindE (first_fit limit c [0..<n_bins] st) (\<lambda>packed.
       case packed of None \<Rightarrow> Inr None | Some st' \<Rightarrow> pack_sorted limit n_bins cs st')"

definition bin_pack_clusters ::
  "cluster list \<Rightarrow> u32 \<Rightarrow> u64 \<Rightarrow> u64 list \<Rightarrow> panic + (bit_set list \<times> u64 list) option" where
  "bin_pack_clusters cs max_bins limit insns =
     pack_sorted limit (unat max_bins) (sort_key (\<lambda>c. - int (unat (cl_instructions c))) cs)
       (replicate (unat max_bins) [], insns)"

definition conflicting_indices :: "builder_tx \<Rightarrow> cluster list \<Rightarrow> nat list" where
  "conflicting_indices tx cs =
     map fst (filter (\<lambda>(i, c). bs_get (cl_conflicts c) (bt_id tx)) (enumerate 0 cs))"

definition create_new_clusters :: "builder_tx \<Rightarrow> nat list \<Rightarrow> stage \<Rightarrow> panic + cluster list option" where
  "create_new_clusters tx conflicting s =
     bindE (foldE (\<lambda>i m. bindE (index (clusters s) i) (\<lambda>c. merge_cluster c m)) conflicting (from_tx tx)) (\<lambda>merged.
       if cl_instructions merged > instructions_per_cluster (config s) then Inr None
       else Inr (Some (map snd (filter (\<lambda>(i, c). i \<notin> set conflicting) (enumerate 0 (clusters s))) @ [merged])))"

text \<open>Taking a conflicting cluster out of its bin, with what is needed to put it back.\<close>

type_synonym removal = "nat \<times> u64 \<times> bit_set"

definition remove_cluster ::
  "cluster list \<Rightarrow> nat \<Rightarrow> removal list \<times> bit_set list \<times> u64 list \<Rightarrow> panic + removal list \<times> bit_set list \<times> u64 list" where
  "remove_cluster cs idx = (\<lambda>(removed, bins, insns).
     bindE (index cs idx) (\<lambda>c.
       let matching = map fst (filter (\<lambda>(i, bin). intersects bin (cl_tx_ids c)) (enumerate 0 bins))
       in bindE (assert (length matching = 1)) (\<lambda>_.
          let b = hd matching
          in bindE (index insns b) (\<lambda>used.
             bindE (expect (u64_checked_sub used (cl_instructions c))) (\<lambda>left.
               Inr (removed @ [(b, cl_instructions c, cl_tx_ids c)],
                    bins[b := difference_with (cl_tx_ids c) (bins ! b)], insns[b := left]))))))"

definition revert_removal :: "removal \<Rightarrow> bit_set list \<times> u64 list \<Rightarrow> panic + bit_set list \<times> u64 list" where
  "revert_removal = (\<lambda>(b, n, ids) (bins, insns).
     bindE (index insns b) (\<lambda>used.
     bindE (expect (u64_checked_add used n)) (\<lambda>filled.
     bindE (index bins b) (\<lambda>bin.
       Inr (bins[b := union_with ids bin], insns[b := filled])))))"

definition try_in_place_bin_packing :: "cluster \<Rightarrow> nat list \<Rightarrow> stage \<Rightarrow> panic + bool \<times> stage" where
  "try_in_place_bin_packing new_cluster conflicting s =
     bindE (foldE (remove_cluster (clusters s)) conflicting ([], bin_packing s, bin_instructions s))
       (\<lambda>(removed, bins, insns).
     bindE (first_fit (instructions_per_cluster (config s)) new_cluster
              [0..<unat (clusters_per_stage (config s))] (bins, insns)) (\<lambda>placed.
       case placed of
         Some (bins', insns') \<Rightarrow> Inr (True, s\<lparr>bin_packing := bins', bin_instructions := insns'\<rparr>)
       | None \<Rightarrow>
           bindE (foldE revert_removal removed (bins, insns)) (\<lambda>(bins', insns').
             Inr (False, s\<lparr>bin_packing := bins', bin_instructions := insns'\<rparr>))))"

definition try_add :: "builder_tx \<Rightarrow> stage \<Rightarrow> panic + bool \<times> stage" where
  "try_add tx s =
     (case u64_checked_add (total_instructions s) (ucast (bt_instructions tx)) of
        None \<Rightarrow> Inr (False, s)
      | Some filled \<Rightarrow>
          bindE (instructions_per_stage (config s)) (\<lambda>limit.
          if filled > limit then Inr (False, s)
          else
            let conflicting = conflicting_indices tx (clusters s) in
            bindE (create_new_clusters tx conflicting s) (\<lambda>created.
            case created of
              None \<Rightarrow> Inr (False, s)
            | Some new_clusters \<Rightarrow>
                bindE (try_in_place_bin_packing (last new_clusters) conflicting s) (\<lambda>(fits, s).
                if fits then Inr (True, s\<lparr>clusters := new_clusters, total_instructions := filled\<rparr>)
                else if conflicting = [] \<and> tried_compacting s then Inr (False, s)
                else
                  bindE (bin_pack_clusters new_clusters (clusters_per_stage (config s))
                           (instructions_per_cluster (config s))
                           (replicate (unat (clusters_per_stage (config s))) 0)) (\<lambda>packed.
                  case packed of
                    Some (packing, insns) \<Rightarrow>
                      Inr (True, s\<lparr>clusters := new_clusters, bin_packing := packing,
                                   bin_instructions := insns, total_instructions := filled\<rparr>)
                  | None \<Rightarrow>
                      Inr (False, if conflicting = [] then s\<lparr>tried_compacting := True\<rparr> else s))))))"

section \<open>Conflict detection\<close>

definition ledger_key_bytes :: "ledger_key \<Rightarrow> bytes" where
  "ledger_key_bytes key = key_xdr key"

type_synonym key_txs = "(bytes \<times> nat list) list"

text \<open>\<open>entry(kb).or_default().push(tx_id)\<close>.\<close>

definition push_tx :: "nat \<Rightarrow> bytes \<Rightarrow> key_txs \<Rightarrow> key_txs" where
  "push_tx tx_id kb m = AList.update kb ((case map_of m kb of Some ids \<Rightarrow> ids | None \<Rightarrow> []) @ [tx_id]) m"

definition collect_keys :: "hashed_tx list \<Rightarrow> key_txs \<times> key_txs" where
  "collect_keys txs =
     fold (\<lambda>(tx_id, htx) (ro, rw).
             case envelope_soroban_data (htx_envelope htx) of
               Some data \<Rightarrow>
                 (fold (\<lambda>key. push_tx tx_id (ledger_key_bytes key)) (read_only (resources data)) ro,
                  fold (\<lambda>key. push_tx tx_id (ledger_key_bytes key)) (read_write (resources data)) rw)
             | None \<Rightarrow> (ro, rw))
       (enumerate 0 txs) ([], [])"

definition mark :: "nat \<Rightarrow> nat \<Rightarrow> bit_set list \<Rightarrow> bit_set list" where
  "mark a b cs =
     (let cs = cs[a := bs_set b (cs ! a)] in cs[b := bs_set a (cs ! b)])"

text \<open>All pairs of positions \<open>i < j\<close> of a list of transactions that write the same key.\<close>

fun mark_pairs :: "nat list \<Rightarrow> bit_set list \<Rightarrow> bit_set list" where
  "mark_pairs [] cs = cs"
| "mark_pairs (a # ids) cs = mark_pairs ids (fold (mark a) ids cs)"

definition mark_read_write :: "nat list \<Rightarrow> nat list \<Rightarrow> bit_set list \<Rightarrow> bit_set list" where
  "mark_read_write ro_txs rw_txs =
     fold (\<lambda>ro_tx. fold (\<lambda>rw_tx cs. if ro_tx \<noteq> rw_tx then mark ro_tx rw_tx cs else cs) rw_txs) ro_txs"

definition detect_conflicts :: "hashed_tx list \<Rightarrow> bit_set list" where
  "detect_conflicts txs =
     (let n = length txs; (ro, rw) = collect_keys txs;
          conflicts = replicate n (with_capacity n);
          conflicts = fold (\<lambda>(key, rw_txs). mark_pairs rw_txs) rw conflicts
      in fold (\<lambda>(key, rw_txs) cs.
                 case map_of ro key of Some ro_txs \<Rightarrow> mark_read_write ro_txs rw_txs cs | None \<Rightarrow> cs)
           rw conflicts)"

section \<open>Building for a number of stages\<close>

definition tx_inclusion_fee :: "transaction_envelope \<Rightarrow> i64" where
  "tx_inclusion_fee env = envelope_inclusion_fee env"

definition builder_txs :: "hashed_tx list \<Rightarrow> bit_set list \<Rightarrow> builder_tx list" where
  "builder_txs txs conflicts =
     map (\<lambda>i. \<lparr>bt_id = i,
               bt_instructions =
                 (case envelope_soroban_data (htx_envelope (txs ! i)) of
                    Some d \<Rightarrow> instructions (resources d) | None \<Rightarrow> 0),
               bt_conflicts = conflicts ! i\<rparr>)
         [0..<length txs]"

definition builder_rate :: "hashed_tx \<Rightarrow> fee_rate" where
  "builder_rate htx =
     \<lparr>inclusion_fee = tx_inclusion_fee (htx_envelope htx),
      op_count = max (word_of_nat (envelope_operation_count (htx_envelope htx))) 1\<rparr>"

text \<open>
  The comparator: descending fee rate, then ascending hash. A comparison asserts that both fees are
  not negative; sorting two or more transactions compares each of them.
\<close>

definition by_fee_rate :: "hashed_tx list \<Rightarrow> nat \<Rightarrow> nat \<Rightarrow> ordering" where
  "by_fee_rate txs a b =
     (case cmp_rate (builder_rate (txs ! b)) (builder_rate (txs ! a)) of
        Inr Equal \<Rightarrow> cmp (htx_hash (txs ! a)) (htx_hash (txs ! b))
      | Inr other \<Rightarrow> other
      | Inl _ \<Rightarrow> Equal)"

definition sorted_ids :: "hashed_tx list \<Rightarrow> panic + nat list" where
  "sorted_ids txs =
     bindE (assert (length txs < 2 \<or> list_all (\<lambda>htx. 0 \<le> tx_inclusion_fee (htx_envelope htx)) txs)) (\<lambda>_.
       Inr (sort_by (by_fee_rate txs) [0..<length txs]))"

text \<open>The loop over the stages: the first one that takes the transaction.\<close>

fun add_to_stages :: "builder_tx \<Rightarrow> stage list \<Rightarrow> panic + bool \<times> stage list" where
  "add_to_stages tx [] = Inr (False, [])"
| "add_to_stages tx (s # ss) =
     bindE (try_add tx s) (\<lambda>(added, s').
       if added then Inr (True, s' # ss)
       else bindE (add_to_stages tx ss) (\<lambda>(added, ss'). Inr (added, s' # ss')))"

definition assign_tx ::
  "hashed_tx list \<Rightarrow> builder_tx list \<Rightarrow> nat \<Rightarrow> stage list \<times> i64 \<Rightarrow> panic + stage list \<times> i64" where
  "assign_tx txs bts i = (\<lambda>(stages, fees).
     bindE (add_to_stages (bts ! i) stages) (\<lambda>(added, stages).
       Inr (stages, if added then i64_saturating (fees + tx_inclusion_fee (htx_envelope (txs ! i))) else fees)))"

text \<open>The transactions of each bin (one execution thread), without empty bins and stages.\<close>

definition stage_ids :: "stage list \<Rightarrow> nat list list list" where
  "stage_ids stages =
     filter (\<lambda>bins. bins \<noteq> []) (map (\<lambda>s. filter (\<lambda>ids. ids \<noteq> []) (map iter_ones (bin_packing s))) stages)"

definition build_with_stage_count ::
  "hashed_tx list \<Rightarrow> i64 \<Rightarrow> u32 \<Rightarrow> u32 \<Rightarrow> panic + nat list list list \<times> i64" where
  "build_with_stage_count txs ledger_max_instructions ledger_max_clusters stage_count =
     (let bts = builder_txs txs (detect_conflicts txs) in
      bindE (sorted_ids txs) (\<lambda>ids.
      bindE (if stage_count = 0 then Inr []
             else bindE (partition_config_new stage_count ledger_max_instructions ledger_max_clusters) (\<lambda>cfg.
                    Inr (replicate (unat stage_count) (stage_new cfg)))) (\<lambda>stages.
      bindE (foldE (assign_tx txs bts) ids (stages, 0)) (\<lambda>(stages, fees).
        Inr (stage_ids stages, fees)))))"

section \<open>Choosing the number of stages\<close>

text \<open>
  \<open>(max_fee as f64 * 0.999) as i64\<close>: rounding to 53 significant bits, ties to even, of the conversion
  and of the product with the double nearest to 0.999, which is 8998192055486251 divided by 2 to the 53rd.
\<close>

fun bit_len :: "nat \<Rightarrow> nat" where
  "bit_len n = (if n = 0 then 0 else Suc (bit_len (n div 2)))"

definition round_f64 :: "nat \<Rightarrow> nat" where
  "round_f64 n =
     (let s = bit_len n - 53; q = n div 2 ^ s; r = n mod 2 ^ s in
      if s = 0 then n
      else if 2 ^ s < 2 * r \<or> (2 * r = 2 ^ s \<and> odd q) then (q + 1) * 2 ^ s
      else q * 2 ^ s)"

definition fee_threshold :: "i64 \<Rightarrow> i64" where
  "fee_threshold max_fee =
     sgn max_fee * int (round_f64 (round_f64 (nat \<bar>max_fee\<bar>) * 8998192055486251) div 2 ^ 53)"

fun best_stages :: "i64 \<Rightarrow> (nat list list list \<times> i64) list \<Rightarrow> nat list list list option \<Rightarrow> nat list list list option" where
  "best_stages threshold [] best = best"
| "best_stages threshold ((stages, fee) # results) best =
     best_stages threshold results
       (if threshold \<le> fee \<and> (case best of None \<Rightarrow> True | Some b \<Rightarrow> length stages < length b)
        then Some stages else best)"

text \<open>\<open>slots[id].take().expect(...)\<close>, for the ids of a cluster, the clusters of a stage, the stages.\<close>

definition take_slot :: "nat \<Rightarrow> hashed_tx list \<times> hashed_tx option list \<Rightarrow> panic + hashed_tx list \<times> hashed_tx option list" where
  "take_slot i = (\<lambda>(taken, slots).
     bindE (index slots i) (\<lambda>slot. bindE (expect slot) (\<lambda>htx. Inr (taken @ [htx], slots[i := None]))))"

definition take_cluster ::
  "nat list \<Rightarrow> hashed_tx list list \<times> hashed_tx option list \<Rightarrow> panic + hashed_tx list list \<times> hashed_tx option list" where
  "take_cluster ids = (\<lambda>(cs, slots).
     bindE (foldE take_slot ids ([], slots)) (\<lambda>(taken, slots). Inr (cs @ [taken], slots)))"

definition take_stage ::
  "nat list list \<Rightarrow> hashed_tx list list list \<times> hashed_tx option list \<Rightarrow> panic + hashed_tx list list list \<times> hashed_tx option list" where
  "take_stage cluster_ids = (\<lambda>(ss, slots).
     bindE (foldE take_cluster cluster_ids ([], slots)) (\<lambda>(cs, slots). Inr (ss @ [cs], slots)))"

definition build_parallel_soroban_phase ::
  "hashed_tx list \<Rightarrow> i64 \<Rightarrow> u32 \<Rightarrow> u32 \<Rightarrow> u32 \<Rightarrow> panic + hashed_tx list list list \<times> bool" where
  "build_parallel_soroban_phase txs ledger_max_instructions ledger_max_clusters min_stage_count max_stage_count =
     (if txs = [] then Inr ([], False)
      else if ledger_max_clusters = 0 then Inr ([[txs]], False)
      else
        bindE (foldE (\<lambda>sc results.
                 bindE (build_with_stage_count txs ledger_max_instructions ledger_max_clusters (word_of_nat sc)) (\<lambda>result.
                   Inr (results @ [result])))
                 [unat min_stage_count..<Suc (unat max_stage_count)] []) (\<lambda>results.
        let max_fee = (if results = [] then 0 else Max (set (map snd results)));
            best_ids = (case best_stages (fee_threshold max_fee) results None of Some ids \<Rightarrow> ids | None \<Rightarrow> []);
            surviving_count = sum_list (map length (concat best_ids))
        in bindE (foldE take_stage best_ids ([], map Some txs)) (\<lambda>(stages, slots).
             Inr (stages, surviving_count < length txs))))"

end
