(* ===== verification/Parallel_Bits.thy ===== *)
theory Parallel_Bits
  imports Parallel_Builder
begin

text \<open>
  Bit sets represent finite sets of numbers: an interface of such representations, the facts its clients use,
  and the instance for the bit sets of the parallel builder. From it, what the conflict bit
  sets of transactions mean.
\<close>

declare bit_len.simps [simp del]

section \<open>Representations of finite sets\<close>

locale finite_set_rep =
  fixes ones :: "'s \<Rightarrow> nat set"
    and put :: "nat \<Rightarrow> 's \<Rightarrow> 's"
    and has :: "'s \<Rightarrow> nat \<Rightarrow> bool"
    and meets :: "'s \<Rightarrow> 's \<Rightarrow> bool"
    and join :: "'s \<Rightarrow> 's \<Rightarrow> 's"
    and minus :: "'s \<Rightarrow> 's \<Rightarrow> 's"
    and elems :: "'s \<Rightarrow> nat list"
  assumes ones_put: "ones (put i s) = insert i (ones s)"
    and has_iff: "has s i \<longleftrightarrow> i \<in> ones s"
    and meets_iff: "meets s t \<longleftrightarrow> ones s \<inter> ones t \<noteq> {}"
    and ones_join: "ones (join t s) = ones s \<union> ones t"
    and ones_minus: "ones (minus t s) = ones s - ones t"
    and set_elems: "set (elems s) = ones s"
    and distinct_elems: "distinct (elems s)"
begin

lemma finite_ones: "finite (ones s)"
  using set_elems [of s, symmetric] by simp

lemma elems_Nil: "elems s = [] \<longleftrightarrow> ones s = {}"
  using set_elems [of s] by (cases "elems s") auto

text \<open>Putting many elements, as the marking loops do.\<close>

lemma ones_fold_put: "ones (fold put is s) = ones s \<union> set is"
  by (induction "is" arbitrary: s) (auto simp: ones_put)

lemma join_minus: "ones t \<subseteq> ones s \<Longrightarrow> ones (join t (minus t s)) = ones s"
  by (auto simp: ones_join ones_minus)

lemma sum_elems: "sum_list (map f (elems s)) = sum f (ones s)" for f :: "nat \<Rightarrow> nat"
  by (metis distinct_elems set_elems sum_list_distinct_conv_sum_set)

end

section \<open>The bit sets of the builder\<close>

definition ones :: "bit_set \<Rightarrow> nat set" where
  "ones ws = {i. i div 64 < length ws \<and> bit (ws ! (i div 64)) (i mod 64)}"

lemma and_nonzero: "and a b \<noteq> (0 :: u64) \<longleftrightarrow> (\<exists>k < 64. bit a k \<and> bit b k)"
proof
  assume "and a b \<noteq> 0"
  then obtain k where "bit (and a b) k" by (metis bit_eqI bit_0_eq bot_apply bot_bool_def)
  then show "\<exists>k < 64. bit a k \<and> bit b k" using bit_imp_le_length by (fastforce simp: bit_and_iff)
next
  assume "\<exists>k < 64. bit a k \<and> bit b k"
  then obtain k where "bit (and a b) k" by (auto simp: bit_and_iff)
  then show "and a b \<noteq> 0" by (metis bit_0_eq bot_apply bot_bool_def)
qed

lemma split64: "(k :: nat) < 64 \<Longrightarrow> (w * 64 + k) div 64 = w" "(k :: nat) < 64 \<Longrightarrow> (w * 64 + k) mod 64 = k"
  by simp_all

lemma length_grow [simp]: "length (grow n ws) = max (length ws) n"
  by (simp add: grow_def)

lemma ones_grow [simp]: "ones (grow n ws) = ones ws"
proof -
  have "bit (grow n ws ! j) k \<longleftrightarrow> j < length ws \<and> bit (ws ! j) k" if "j < max (length ws) n" for j k
    using that by (auto simp: grow_def nth_append)
  then show ?thesis by (auto simp: ones_def)
qed

lemma ones_set_word:
  assumes "i div 64 < length ws"
  shows "ones (ws[i div 64 := or (ws ! (i div 64)) (push_bit (i mod 64) 1)]) = insert i (ones ws)"
proof -
  have same: "j div 64 = i div 64 \<Longrightarrow> j mod 64 = i mod 64 \<Longrightarrow> j = i" for j :: nat
    by (metis div_mult_mod_eq)
  have pushed: "bit (2 ^ k :: u64) l \<longleftrightarrow> l = k" if "k < 64" for k l
    using that by (auto simp: bit_exp_iff)
  show ?thesis
  proof (intro set_eqI)
    fix j
    show "j \<in> ones (ws[i div 64 := or (ws ! (i div 64)) (push_bit (i mod 64) 1)]) \<longleftrightarrow> j \<in> insert i (ones ws)"
    proof (cases "j div 64 = i div 64")
      case True
      with assms same [of j] show ?thesis by (auto simp: ones_def bit_or_iff pushed)
    next
      case False
      then show ?thesis by (auto simp: ones_def)
    qed
  qed
qed

lemma ones_bs_set: "ones (bs_set i ws) = insert i (ones ws)"
proof (cases "length ws \<le> i div 64")
  case True
  have "ones (bs_set i ws) = ones ((grow (i div 64 + 1) ws)[i div 64 := or (grow (i div 64 + 1) ws ! (i div 64)) (push_bit (i mod 64) 1)])"
    using True by (simp add: bs_set_def Let_def)
  also have "\<dots> = insert i (ones ws)" by (subst ones_set_word) simp_all
  finally show ?thesis .
next
  case False
  then show ?thesis using ones_set_word [of i ws] by (simp add: bs_set_def Let_def)
qed

lemma bs_get_iff: "bs_get ws i \<longleftrightarrow> i \<in> ones ws"
  by (auto simp: bs_get_def ones_def Let_def bit_iff_and_push_bit_not_eq_0)

lemma intersects_iff: "intersects ws vs \<longleftrightarrow> ones ws \<inter> ones vs \<noteq> {}"
proof -
  have "intersects ws vs \<longleftrightarrow> (\<exists>j < min (length ws) (length vs). and (ws ! j) (vs ! j) \<noteq> 0)"
    unfolding intersects_def Let_def list_ex_length by (intro ex_cong1) auto
  also have "\<dots> \<longleftrightarrow> (\<exists>j < min (length ws) (length vs). \<exists>k < 64. bit (ws ! j) k \<and> bit (vs ! j) k)"
    by (simp add: and_nonzero)
  also have "\<dots> \<longleftrightarrow> (\<exists>i. i \<in> ones ws \<and> i \<in> ones vs)"
  proof
    assume "\<exists>j < min (length ws) (length vs). \<exists>k < 64. bit (ws ! j) k \<and> bit (vs ! j) k"
    then obtain j k where "j < length ws" "j < length vs" "k < 64" "bit (ws ! j) k" "bit (vs ! j) k" by auto
    then show "\<exists>i. i \<in> ones ws \<and> i \<in> ones vs" by (intro exI [of _ "j * 64 + k"]) (simp add: ones_def split64)
  next
    assume "\<exists>i. i \<in> ones ws \<and> i \<in> ones vs"
    then obtain i where "i \<in> ones ws" "i \<in> ones vs" by auto
    then show "\<exists>j < min (length ws) (length vs). \<exists>k < 64. bit (ws ! j) k \<and> bit (vs ! j) k"
      by (intro exI [of _ "i div 64"]) (auto simp: ones_def intro!: exI [of _ "i mod 64"])
  qed
  finally show ?thesis by auto
qed

lemma ones_union_long:
  assumes "length vs \<le> length ws"
  shows "ones (map (\<lambda>(w, b). or w b) (zip ws vs) @ drop (length vs) ws) = ones ws \<union> ones vs"
  using assms by (auto simp: ones_def nth_append bit_or_iff)

lemma ones_union_with: "ones (union_with vs ws) = ones ws \<union> ones vs"
  using ones_union_long [of vs "grow (length vs) ws"] ones_union_long [of vs ws]
  by (cases "length ws < length vs") (simp_all add: union_with_def Let_def)

lemma ones_difference_with: "ones (difference_with vs ws) = ones ws - ones vs"
  by (auto simp: ones_def difference_with_def Let_def nth_append bit_and_iff bit_not_iff)

lemma set_iter_ones: "set (iter_ones ws) = ones ws"
proof -
  have "set (iter_ones ws) = {j * 64 + k | j k. j < length ws \<and> k < 64 \<and> bit (ws ! j) k}"
    by (fastforce simp: iter_ones_def in_set_enumerate_eq bit_iff_and_push_bit_not_eq_0)
  also have "\<dots> = ones ws"
  proof (intro set_eqI iffI)
    fix i assume "i \<in> {j * 64 + k | j k. j < length ws \<and> k < 64 \<and> bit (ws ! j) k}"
    then show "i \<in> ones ws" by (auto simp: ones_def split64)
  next
    fix i assume "i \<in> ones ws"
    moreover have "i = i div 64 * 64 + i mod 64" "i mod 64 < 64" by simp_all
    ultimately show "i \<in> {j * 64 + k | j k. j < length ws \<and> k < 64 \<and> bit (ws ! j) k}"
      unfolding ones_def by blast
  qed
  finally show ?thesis .
qed

lemma distinct_iter_ones: "distinct (iter_ones ws)"
proof -
  define row where "row = (\<lambda>(j, w :: u64). map (\<lambda>k. j * 64 + k) (filter (\<lambda>k. and w (push_bit k 1) \<noteq> 0) [0..<64 :: nat]))"
  have "sorted_wrt (<) (concat (map row (enumerate n ws)))" for n
  proof (induction ws arbitrary: n)
    case (Cons w ws)
    have "sorted_wrt (<) (row (n, w))"
      by (auto simp: row_def sorted_wrt_map intro!: sorted_wrt_filter)
    moreover have "\<forall>i \<in> set (row (n, w)). i < (n + 1) * 64" by (auto simp: row_def)
    moreover have "\<forall>i \<in> set (concat (map row (enumerate (Suc n) ws))). (n + 1) * 64 \<le> i"
      by (fastforce simp: row_def in_set_enumerate_eq)
    ultimately show ?case using Cons.IH [of "Suc n"] by (force simp: sorted_wrt_append)
  qed simp
  then have "sorted_wrt (<) (iter_ones ws)" by (simp add: iter_ones_def row_def)
  then show ?thesis by (simp add: strict_sorted_iff)
qed

lemma ones_Nil [simp]: "ones [] = {}"
  by (simp add: ones_def)

lemma ones_with_capacity [simp]: "ones (with_capacity n) = {}"
  by (auto simp: ones_def with_capacity_def)

interpretation bs: finite_set_rep ones bs_set bs_get intersects union_with difference_with iter_ones
  by unfold_locales
    (simp_all add: ones_bs_set bs_get_iff intersects_iff ones_union_with ones_difference_with
      set_iter_ones distinct_iter_ones)

section \<open>What the conflict bit sets mean\<close>

definition read_keys :: "hashed_tx \<Rightarrow> bytes set" where
  "read_keys htx = (case envelope_soroban_data (htx_envelope htx) of
     Some data \<Rightarrow> ledger_key_bytes ` set (read_only (resources data)) | None \<Rightarrow> {})"

definition written_keys :: "hashed_tx \<Rightarrow> bytes set" where
  "written_keys htx = (case envelope_soroban_data (htx_envelope htx) of
     Some data \<Rightarrow> ledger_key_bytes ` set (read_write (resources data)) | None \<Rightarrow> {})"

text \<open>Two transactions conflict when one of them writes a key that the other reads or writes.\<close>

definition conflicting :: "hashed_tx \<Rightarrow> hashed_tx \<Rightarrow> bool" where
  "conflicting a b \<longleftrightarrow>
     written_keys a \<inter> (read_keys b \<union> written_keys b) \<noteq> {} \<or> read_keys a \<inter> written_keys b \<noteq> {}"

definition ids_of :: "key_txs \<Rightarrow> bytes \<Rightarrow> nat set" where
  "ids_of m k = (case map_of m k of Some ids \<Rightarrow> set ids | None \<Rightarrow> {})"

lemma ids_of_push: "ids_of (push_tx i kb m) k = ids_of m k \<union> (if k = kb then {i} else {})"
  by (auto simp: ids_of_def push_tx_def update_conv split: option.split)

lemma ids_of_push_all:
  "ids_of (fold (\<lambda>key. push_tx i (g key)) keys m) k = ids_of m k \<union> (if k \<in> g ` set keys then {i} else {})"
  by (induction keys arbitrary: m) (auto simp: ids_of_push)

lemma distinct_push: "distinct (map fst m) \<Longrightarrow> distinct (map fst (push_tx i kb m))"
  by (simp add: push_tx_def distinct_update)

lemma distinct_push_all: "distinct (map fst m) \<Longrightarrow> distinct (map fst (fold (\<lambda>key. push_tx i (g key)) keys m))"
  by (induction keys arbitrary: m) (simp_all add: distinct_push)

lemma collect_keys_ids:
  assumes "collect_keys txs = (ro, rw)"
  shows "ids_of ro k = {i. i < length txs \<and> k \<in> read_keys (txs ! i)}"
    and "ids_of rw k = {i. i < length txs \<and> k \<in> written_keys (txs ! i)}"
    and "distinct (map fst ro)" "distinct (map fst rw)"
proof -
  define step where "step = (\<lambda>(tx_id :: nat, htx :: hashed_tx) (ro, rw).
             case envelope_soroban_data (htx_envelope htx) of
               Some data \<Rightarrow>
                 (fold (\<lambda>key. push_tx tx_id (ledger_key_bytes key)) (read_only (resources data)) ro,
                  fold (\<lambda>key. push_tx tx_id (ledger_key_bytes key)) (read_write (resources data)) rw)
             | None \<Rightarrow> (ro, rw))"
  have one: "ids_of (fst (step (i, htx) m)) k = ids_of (fst m) k \<union> {j. j = i \<and> k \<in> read_keys htx}"
    "ids_of (snd (step (i, htx) m)) k = ids_of (snd m) k \<union> {j. j = i \<and> k \<in> written_keys htx}"
    "distinct (map fst (fst m)) \<Longrightarrow> distinct (map fst (fst (step (i, htx) m)))"
    "distinct (map fst (snd m)) \<Longrightarrow> distinct (map fst (snd (step (i, htx) m)))" for i htx m k
    by (cases m; auto simp: step_def read_keys_def written_keys_def ids_of_push_all distinct_push_all
        split: option.split)+
  have all: "ids_of (fst (fold step ps m)) k = ids_of (fst m) k \<union> {i. \<exists>htx. (i, htx) \<in> set ps \<and> k \<in> read_keys htx}"
    "ids_of (snd (fold step ps m)) k = ids_of (snd m) k \<union> {i. \<exists>htx. (i, htx) \<in> set ps \<and> k \<in> written_keys htx}"
    for ps m k
    by (induction ps arbitrary: m) (auto simp: one)
  have dist1: "distinct (map fst (fst m)) \<Longrightarrow> distinct (map fst (fst (fold step ps m)))" for ps m
  proof (induction ps arbitrary: m)
    case (Cons p ps)
    then show ?case using one(3) [of m "fst p" "snd p"] by simp
  qed simp
  have dist2: "distinct (map fst (snd m)) \<Longrightarrow> distinct (map fst (snd (fold step ps m)))" for ps m
  proof (induction ps arbitrary: m)
    case (Cons p ps)
    then show ?case using one(4) [of m "fst p" "snd p"] by simp
  qed simp
  have run: "fold step (enumerate 0 txs) ([], []) = (ro, rw)"
    using assms by (simp add: collect_keys_def step_def)
  from all(1) [of "enumerate 0 txs" "([], [])" k] show "ids_of ro k = {i. i < length txs \<and> k \<in> read_keys (txs ! i)}"
    by (auto simp: run ids_of_def in_set_enumerate_eq)
  from all(2) [of "enumerate 0 txs" "([], [])" k] show "ids_of rw k = {i. i < length txs \<and> k \<in> written_keys (txs ! i)}"
    by (auto simp: run ids_of_def in_set_enumerate_eq)
  from dist1 [of "([], [])" "enumerate 0 txs"] dist2 [of "([], [])" "enumerate 0 txs"] show "distinct (map fst ro)" "distinct (map fst rw)"
    by (simp_all add: run)
qed

text \<open>The relation a vector of bit sets holds between different numbers.\<close>

definition related :: "bit_set list \<Rightarrow> (nat \<times> nat) set" where
  "related cs = {(a, b). a < length cs \<and> a \<noteq> b \<and> b \<in> ones (cs ! a)}"

definition pairs :: "nat set \<Rightarrow> nat set \<Rightarrow> (nat \<times> nat) set" where
  "pairs A B = {(a, b). a \<noteq> b \<and> (a \<in> A \<and> b \<in> B \<or> b \<in> A \<and> a \<in> B)}"

lemma length_mark [simp]: "length (mark a b cs) = length cs"
  by (simp add: mark_def Let_def)

lemma related_mark: "a < length cs \<Longrightarrow> b < length cs \<Longrightarrow> related (mark a b cs) = related cs \<union> pairs {a} {b}"
  by (auto simp: related_def mark_def pairs_def Let_def nth_list_update ones_bs_set split: if_splits)

text \<open>A loop of marking steps marks what its steps mark.\<close>

lemma related_fold:
  assumes "\<And>x cs. x \<in> set xs \<Longrightarrow> length cs = n \<Longrightarrow> length (f x cs) = n \<and> related (f x cs) = related cs \<union> G x"
    and "length cs = n"
  shows "length (fold f xs cs) = n \<and> related (fold f xs cs) = related cs \<union> (\<Union>x \<in> set xs. G x)"
  using assms by (induction xs arbitrary: cs) auto

lemma related_mark_pairs:
  "set ids \<subseteq> {..<length cs} \<Longrightarrow>
     length (mark_pairs ids cs) = length cs \<and> related (mark_pairs ids cs) = related cs \<union> pairs (set ids) (set ids)"
proof (induction ids arbitrary: cs)
  case (Cons a ids)
  have step: "length (fold (mark a) ids cs) = length cs \<and>
      related (fold (mark a) ids cs) = related cs \<union> (\<Union>b \<in> set ids. pairs {a} {b})"
    using Cons.prems by (intro related_fold) (auto simp: related_mark)
  with Cons.IH [of "fold (mark a) ids cs"] Cons.prems show ?case by (auto simp: pairs_def)
qed (simp add: pairs_def)

lemma related_mark_read_write:
  assumes "set ros \<subseteq> {..<length cs}" "set rws \<subseteq> {..<length cs}"
  shows "length (mark_read_write ros rws cs) = length cs \<and>
         related (mark_read_write ros rws cs) = related cs \<union> pairs (set ros) (set rws)"
proof -
  let ?inner = "\<lambda>r. fold (\<lambda>w cs. if r \<noteq> w then mark r w cs else cs) rws"
  have inner: "length (?inner r cs') = length cs \<and>
      related (?inner r cs') = related cs' \<union> (\<Union>w \<in> set rws. pairs {r} {w})"
    if r: "r \<in> set ros" and len: "length cs' = length cs" for r cs'
  proof (rule related_fold)
    fix w and ds :: "bit_set list" assume w: "w \<in> set rws" and ds: "length ds = length cs"
    from assms r w ds have "r < length ds" "w < length ds" by auto
    then show "length (if r \<noteq> w then mark r w ds else ds) = length cs \<and>
        related (if r \<noteq> w then mark r w ds else ds) = related ds \<union> pairs {r} {w}"
      using ds by (auto simp: related_mark) (auto simp: pairs_def)
  qed (rule len)
  have "length (mark_read_write ros rws cs) = length cs \<and>
        related (mark_read_write ros rws cs) = related cs \<union> (\<Union>r \<in> set ros. \<Union>w \<in> set rws. pairs {r} {w})"
    unfolding mark_read_write_def by (rule related_fold) (simp_all add: inner)
  then show ?thesis by (auto simp: pairs_def)
qed

lemma detect_conflicts_spec:
  "length (detect_conflicts txs) = length txs"
  "a < length txs \<Longrightarrow> b < length txs \<Longrightarrow> a \<noteq> b \<Longrightarrow>
     b \<in> ones (detect_conflicts txs ! a) \<longleftrightarrow> conflicting (txs ! a) (txs ! b)"
proof -
  let ?n = "length txs"
  obtain ro rw where maps: "collect_keys txs = (ro, rw)" by fastforce
  note ids = collect_keys_ids [OF maps]
  have in_rw: "set is \<subseteq> {..<?n}" if "(k, is) \<in> set rw" for k "is"
    using ids(2) [of k] ids(4) that by (auto simp: ids_of_def)
  have in_ro: "set is \<subseteq> {..<?n}" if "map_of ro k = Some is" for k "is"
    using ids(1) [of k] that by (auto simp: ids_of_def)
  let ?start = "replicate ?n (with_capacity ?n)"
  let ?mid = "fold (\<lambda>(key, rw_txs). mark_pairs rw_txs) rw ?start"
  have mid: "length ?mid = ?n \<and> related ?mid = related ?start \<union> (\<Union>(k, is) \<in> set rw. pairs (set is) (set is))"
    by (rule related_fold) (use in_rw related_mark_pairs in \<open>auto split: prod.splits\<close>)
  let ?step = "\<lambda>(key, rw_txs) cs. case map_of ro key of Some ro_txs \<Rightarrow> mark_read_write ro_txs rw_txs cs | None \<Rightarrow> cs"
  have last: "length (fold ?step rw ?mid) = ?n \<and>
      related (fold ?step rw ?mid) = related ?mid \<union> (\<Union>(k, is) \<in> set rw. pairs (ids_of ro k) (set is))"
  proof (rule related_fold)
    fix x and cs :: "bit_set list" assume x: "x \<in> set rw" and len: "length cs = ?n"
    obtain k "is" where k: "x = (k, is)" by fastforce
    show "length (?step x cs) = ?n \<and>
        related (?step x cs) = related cs \<union> (case x of (k, is) \<Rightarrow> pairs (ids_of ro k) (set is))"
      using in_ro [of k] in_rw [of k "is"] related_mark_read_write [of _ cs "is"] len x
      by (auto simp: k ids_of_def pairs_def split: option.split)
  qed (simp add: mid)
  have detect: "detect_conflicts txs = fold ?step rw ?mid"
    by (simp add: detect_conflicts_def maps Let_def)
  from last show "length (detect_conflicts txs) = ?n" by (simp add: detect)
  assume "a < ?n" "b < ?n" "a \<noteq> b"
  have rw_ids: "(k, is) \<in> set rw \<Longrightarrow> set is = ids_of rw k" for k "is"
    using ids(4) by (auto simp: ids_of_def)
  have some: "i \<in> ids_of rw k \<Longrightarrow> \<exists>is. (k, is) \<in> set rw" for i k
    by (auto simp: ids_of_def dest: map_of_SomeD split: option.splits)
  have "related ?start = {}" by (auto simp: related_def)
  with mid last have rel: "related (detect_conflicts txs) =
      (\<Union>(k, is) \<in> set rw. pairs (ids_of rw k) (ids_of rw k) \<union> pairs (ids_of ro k) (ids_of rw k))"
    by (auto simp: detect rw_ids)
  have "(a, b) \<in> related (detect_conflicts txs) \<longleftrightarrow>
      (\<exists>k. a \<in> ids_of rw k \<and> b \<in> ids_of rw k \<or> a \<in> ids_of ro k \<and> b \<in> ids_of rw k \<or> b \<in> ids_of ro k \<and> a \<in> ids_of rw k)"
    unfolding rel using \<open>a \<noteq> b\<close> some by (fastforce simp: pairs_def)
  also have "\<dots> \<longleftrightarrow> conflicting (txs ! a) (txs ! b)"
    using \<open>a < ?n\<close> \<open>b < ?n\<close> by (auto simp: ids conflicting_def)
  finally show "b \<in> ones (detect_conflicts txs ! a) \<longleftrightarrow> conflicting (txs ! a) (txs ! b)"
    using \<open>a < ?n\<close> \<open>a \<noteq> b\<close> last by (auto simp: related_def detect)
qed

end
