(* ===== verification/Parallel_Stages.thy ===== *)
theory Parallel_Stages
  imports Parallel_Bits
begin

text \<open>
  The stages of the parallel builder. A contract for the conflicts and instructions of transactions (a
  symmetric graph with weights), the invariant of a stage under it, and what adding a transaction does.
\<close>

section \<open>Packed bins\<close>

abbreviation tx_ids :: "cluster \<Rightarrow> nat set" where
  "tx_ids c \<equiv> ones (cl_tx_ids c)"

abbreviation insns_of :: "cluster \<Rightarrow> nat" where
  "insns_of c \<equiv> unat (cl_instructions c)"

text \<open>The bins hold the clusters \<open>C\<close>, each in the bin \<open>asg\<close> says, within the limit.\<close>

definition packed ::
  "nat \<Rightarrow> u64 \<Rightarrow> cluster set \<Rightarrow> (cluster \<Rightarrow> nat) \<Rightarrow> bit_set list \<Rightarrow> u64 list \<Rightarrow> bool" where
  "packed n limit C asg bins insns \<longleftrightarrow>
     finite C \<and> length bins = n \<and> length insns = n \<and> (\<forall>c \<in> C. asg c < n) \<and>
     (\<forall>b < n. ones (bins ! b) = (\<Union>c \<in> {c \<in> C. asg c = b}. tx_ids c) \<and>
              unat (insns ! b) = (\<Sum>c \<in> {c \<in> C. asg c = b}. insns_of c) \<and> insns ! b \<le> limit)"

lemma packed_empty: "packed n limit {} asg (replicate n []) (replicate n 0)"
  by (simp add: packed_def)

lemma packed_put:
  assumes "packed n limit C asg bins insns" "c \<notin> C" "b < n"
    and "unat (insns ! b) + insns_of c < 2 ^ 64" "insns ! b + cl_instructions c \<le> limit"
  shows "packed n limit (insert c C) (asg(c := b))
           (bins[b := union_with (cl_tx_ids c) (bins ! b)]) (insns[b := insns ! b + cl_instructions c])"
proof -
  have same: "{d \<in> insert c C. (asg(c := b)) d = b'} =
      (if b' = b then insert c {d \<in> C. asg d = b} else {d \<in> C. asg d = b'})" for b'
    using assms(2) by auto
  have "unat (insns ! b + cl_instructions c) = insns_of c + (\<Sum>d \<in> {d \<in> C. asg d = b}. insns_of d)"
    using assms by (simp add: packed_def unat_add_u64)
  moreover have "(\<Sum>d \<in> insert c {d \<in> C. asg d = b}. insns_of d) = insns_of c + (\<Sum>d \<in> {d \<in> C. asg d = b}. insns_of d)"
    using assms(1,2) by (subst sum.insert) (auto simp: packed_def)
  ultimately show ?thesis
    using assms unfolding packed_def same by (auto simp: nth_list_update ones_union_with)
qed

lemma packed_take:
  assumes "packed n limit C asg bins insns" "c \<in> C"
    and "\<And>d. d \<in> C \<Longrightarrow> d \<noteq> c \<Longrightarrow> tx_ids d \<inter> tx_ids c = {}"
  shows "asg c < n" "cl_instructions c \<le> insns ! asg c"
    and "packed n limit (C - {c}) asg (bins[asg c := difference_with (cl_tx_ids c) (bins ! asg c)])
           (insns[asg c := insns ! asg c - cl_instructions c])"
proof -
  let ?b = "asg c"
  show b: "?b < n" using assms(1,2) by (auto simp: packed_def)
  have fin: "finite C" using assms(1) by (simp add: packed_def)
  have split: "(\<Sum>d \<in> {d \<in> C. asg d = ?b}. insns_of d) = insns_of c + (\<Sum>d \<in> {d \<in> C - {c}. asg d = ?b}. insns_of d)"
    using assms(2) fin by (subst sum.remove [of _ c]) (auto intro: sum.cong)
  have total: "unat (insns ! ?b) = (\<Sum>d \<in> {d \<in> C. asg d = ?b}. insns_of d)"
    using assms(1) b by (auto simp: packed_def)
  show le: "cl_instructions c \<le> insns ! ?b" using split total by (simp add: word_le_nat_alt)
  have other: "?b \<noteq> b' \<Longrightarrow> {d \<in> C. d \<noteq> c \<and> asg d = b'} = {d \<in> C. asg d = b'}" for b' by auto
  have "unat (insns ! ?b - cl_instructions c) = (\<Sum>d \<in> {d \<in> C - {c}. asg d = ?b}. insns_of d)"
    using le split total by (simp add: unat_sub)
  moreover have "insns ! ?b - cl_instructions c \<le> limit"
  proof -
    have "insns ! ?b \<le> limit" using assms(1) b by (simp add: packed_def)
    then show ?thesis using le by (simp add: word_le_nat_alt unat_sub)
  qed
  moreover have "ones (bins ! ?b) - tx_ids c = (\<Union>d \<in> {d \<in> C - {c}. asg d = ?b}. tx_ids d)"
    using assms b by (auto simp: packed_def)
  ultimately show "packed n limit (C - {c}) asg (bins[?b := difference_with (cl_tx_ids c) (bins ! ?b)])
      (insns[?b := insns ! ?b - cl_instructions c])"
    using assms(1) b unfolding packed_def
    by (auto simp: nth_list_update ones_difference_with other)
qed

section \<open>The packing loops\<close>

lemma first_fit_packed:
  assumes "packed n limit C asg bins insns" "c \<notin> C" "set bs \<subseteq> {..<n}"
  shows "\<exists>r. first_fit limit c bs (bins, insns) = Inr r \<and>
    (\<forall>bins' insns'. r = Some (bins', insns') \<longrightarrow> (\<exists>b. packed n limit (insert c C) (asg(c := b)) bins' insns'))"
  using assms(3)
proof (induction bs)
  case (Cons b bs)
  have b: "b < n" "length insns = n" "length bins = n" using Cons.prems assms(1) by (auto simp: packed_def)
  show ?case
  proof (cases "unat (insns ! b) + insns_of c < 2 ^ 64 \<and> insns ! b + cl_instructions c \<le> limit")
    case True
    then have eq: "first_fit limit c (b # bs) (bins, insns) =
        Inr (Some (bins[b := union_with (cl_tx_ids c) (bins ! b)], insns[b := insns ! b + cl_instructions c]))"
      using b by (simp add: u64_checked_add_def)
    from packed_put [OF assms(1,2) b(1)] True
    have "packed n limit (insert c C) (asg(c := b)) (bins[b := union_with (cl_tx_ids c) (bins ! b)])
        (insns[b := insns ! b + cl_instructions c])" by simp
    with eq show ?thesis by blast
  next
    case False
    then have "first_fit limit c (b # bs) (bins, insns) = first_fit limit c bs (bins, insns)"
      using b by (auto simp: u64_checked_add_def)
    with Cons show ?thesis by simp
  qed
qed simp

lemma pack_sorted_packed:
  assumes "packed n limit C asg bins insns" "distinct cs" "set cs \<inter> C = {}"
  shows "\<exists>r. pack_sorted limit n cs (bins, insns) = Inr r \<and>
    (\<forall>bins' insns'. r = Some (bins', insns') \<longrightarrow> (\<exists>asg'. packed n limit (C \<union> set cs) asg' bins' insns'))"
  using assms
proof (induction cs arbitrary: C asg bins insns)
  case (Cons c cs)
  have "set [0..<n] \<subseteq> {..<n}" "c \<notin> C" using Cons.prems(3) by auto
  from first_fit_packed [OF Cons.prems(1) this(2,1)] obtain r where r: "first_fit limit c [0..<n] (bins, insns) = Inr r"
    "\<And>bins' insns'. r = Some (bins', insns') \<Longrightarrow> \<exists>b. packed n limit (insert c C) (asg(c := b)) bins' insns'"
    by auto
  show ?case
  proof (cases r)
    case (Some st)
    obtain bins' insns' where st: "st = (bins', insns')" by fastforce
    from r(2) [of bins' insns'] Some st obtain b
      where p: "packed n limit (insert c C) (asg(c := b)) bins' insns'" by auto
    have "set cs \<inter> insert c C = {}" "distinct cs" using Cons.prems by auto
    from Cons.IH [OF p this(2,1)] show ?thesis by (simp add: r(1) Some st)
  qed (simp add: r(1))
qed auto

lemma bin_pack_clusters_packed:
  assumes "distinct cs"
  shows "\<exists>r. bin_pack_clusters cs max_bins limit (replicate (unat max_bins) 0) = Inr r \<and>
    (\<forall>bins insns. r = Some (bins, insns) \<longrightarrow> (\<exists>asg. packed (unat max_bins) limit (set cs) asg bins insns))"
  using pack_sorted_packed [OF packed_empty [of "unat max_bins" limit undefined],
      of "sort_key (\<lambda>c. - int (insns_of c)) cs"] assms
  by (simp add: bin_pack_clusters_def)

section \<open>Taking clusters out and putting them back\<close>

definition disjoint_clusters :: "cluster set \<Rightarrow> bool" where
  "disjoint_clusters C \<longleftrightarrow> (\<forall>c \<in> C. tx_ids c \<noteq> {} \<and> (\<forall>d \<in> C. d \<noteq> c \<longrightarrow> tx_ids d \<inter> tx_ids c = {}))"

definition removal_of :: "(cluster \<Rightarrow> nat) \<Rightarrow> cluster \<Rightarrow> removal" where
  "removal_of asg c = (asg c, cl_instructions c, cl_tx_ids c)"

lemma filter_upt_eq: "k < n \<Longrightarrow> filter (\<lambda>i. i = k) [0..<n] = [k]"
  by (induction n) (auto simp: less_Suc_eq filter_empty_conv)

lemma matching_bin:
  assumes "packed n limit C asg bins insns" "c \<in> C" "disjoint_clusters C"
  shows "map fst (filter (\<lambda>(i, bin). intersects bin (cl_tx_ids c)) (enumerate 0 bins)) = [asg c]"
proof -
  have len: "length bins = n" "asg c < n" using assms by (auto simp: packed_def)
  have "intersects (bins ! b) (cl_tx_ids c) \<longleftrightarrow> b = asg c" if "b < n" for b
  proof -
    have "ones (bins ! b) = (\<Union>d \<in> {d \<in> C. asg d = b}. tx_ids d)" using assms(1) that by (simp add: packed_def)
    moreover have "tx_ids c \<noteq> {}" using assms(2,3) by (simp add: disjoint_clusters_def)
    moreover have "tx_ids d \<inter> tx_ids c = {}" if "d \<in> C" "asg d \<noteq> asg c" for d
      using assms(2,3) that unfolding disjoint_clusters_def by metis
    ultimately show ?thesis using assms(2) by (auto simp: intersects_iff)
  qed
  then have "filter (\<lambda>(i, bin). intersects bin (cl_tx_ids c)) (enumerate 0 bins) =
      filter (\<lambda>(i, bin). i = asg c) (enumerate 0 bins)"
    by (intro filter_cong) (auto simp: in_set_enumerate_eq len)
  also have "map fst \<dots> = filter (\<lambda>i. i = asg c) (map fst (enumerate 0 bins))"
    unfolding filter_map by (simp add: comp_def split_def)
  also have "\<dots> = [asg c]"
    using len by (simp add: filter_upt_eq)
  finally show ?thesis .
qed


lemma remove_cluster_packed:
  assumes "packed n limit C asg bins insns" "disjoint_clusters C" "i < length cs" "cs ! i \<in> C"
  shows "\<exists>bins' insns'. remove_cluster cs i (removed, bins, insns) =
           Inr (removed @ [removal_of asg (cs ! i)], bins', insns') \<and>
         packed n limit (C - {cs ! i}) asg bins' insns'"
proof -
  have dis: "d \<in> C \<Longrightarrow> d \<noteq> cs ! i \<Longrightarrow> tx_ids d \<inter> tx_ids (cs ! i) = {}" for d
    using assms(2,4) by (auto simp: disjoint_clusters_def)
  note out = packed_take [OF assms(1,4) dis]
  have "length insns = n" using assms(1) by (simp add: packed_def)
  then show ?thesis
    using out assms(3) matching_bin [OF assms(1,4,2)]
    by (auto simp: remove_cluster_def u64_checked_sub_def removal_of_def Let_def)
qed

lemma remove_clusters_packed:
  assumes "packed n limit C asg bins insns" "disjoint_clusters C"
    and "distinct (map ((!) cs) is)" "set is \<subseteq> {..<length cs}" "(!) cs ` set is \<subseteq> C"
  shows "\<exists>bins' insns'. foldE (remove_cluster cs) is (removed, bins, insns) =
           Inr (removed @ map (\<lambda>i. removal_of asg (cs ! i)) is, bins', insns') \<and>
         packed n limit (C - (!) cs ` set is) asg bins' insns'"
  using assms
proof (induction "is" arbitrary: C bins insns removed)
  case (Cons i "is")
  from remove_cluster_packed [OF Cons.prems(1,2), of i cs removed] Cons.prems(4,5)
  obtain bins' insns' where step: "remove_cluster cs i (removed, bins, insns) =
      Inr (removed @ [removal_of asg (cs ! i)], bins', insns')" "packed n limit (C - {cs ! i}) asg bins' insns'"
    by auto
  have "disjoint_clusters (C - {cs ! i})" using Cons.prems(2) by (auto simp: disjoint_clusters_def)
  moreover have "(!) cs ` set is \<subseteq> C - {cs ! i}" "distinct (map ((!) cs) is)" "set is \<subseteq> {..<length cs}"
    using Cons.prems(3-5) by auto (metis imageI)
  ultimately obtain bins'' insns'' where
    "foldE (remove_cluster cs) is (removed @ [removal_of asg (cs ! i)], bins', insns') =
       Inr ((removed @ [removal_of asg (cs ! i)]) @ map (\<lambda>i. removal_of asg (cs ! i)) is, bins'', insns'')"
    "packed n limit (C - {cs ! i} - (!) cs ` set is) asg bins'' insns''"
    using Cons.IH [OF step(2)] by blast
  moreover have "C - {cs ! i} - (!) cs ` set is = C - (!) cs ` set (i # is)" by auto
  ultimately show ?case by (simp add: step(1))
qed simp

lemma revert_packed:
  assumes "packed n limit D asg bins insns" "distinct ds" "set ds \<inter> D = {}" "finite D"
    and "\<And>c. c \<in> set ds \<Longrightarrow> asg c < n"
    and "\<And>b. b < n \<Longrightarrow> (\<Sum>c \<in> {c \<in> D \<union> set ds. asg c = b}. insns_of c) \<le> unat limit"
  shows "\<exists>bins' insns'. foldE revert_removal (map (removal_of asg) ds) (bins, insns) = Inr (bins', insns') \<and>
         packed n limit (D \<union> set ds) asg bins' insns'"
  using assms
proof (induction ds arbitrary: D bins insns)
  case (Cons c ds)
  let ?b = "asg c"
  have b: "?b < n" "length insns = n" "length bins = n" using Cons.prems(1,5) by (auto simp: packed_def)
  have used: "unat (insns ! ?b) = (\<Sum>d \<in> {d \<in> D. asg d = ?b}. insns_of d)"
    using Cons.prems(1) b by (simp add: packed_def)
  have "(\<Sum>d \<in> insert c {d \<in> D. asg d = ?b}. insns_of d) \<le> (\<Sum>d \<in> {d \<in> D \<union> set (c # ds). asg d = ?b}. insns_of d)"
    using Cons.prems(4) by (intro sum_mono2) auto
  also have "\<dots> \<le> unat limit" using Cons.prems(6) b(1) by blast
  finally have le: "unat (insns ! ?b) + insns_of c \<le> unat limit"
    using used Cons.prems(3,4) by (subst (asm) sum.insert) auto
  have fits: "unat (insns ! ?b) + insns_of c < 2 ^ 64" using le unat_u64_bound [of limit] by linarith
  have "insns ! ?b + cl_instructions c \<le> limit" using le fits by (simp add: word_le_nat_alt unat_add_u64)
  moreover have "asg(c := ?b) = asg" by simp
  moreover have "c \<notin> D" using Cons.prems(3) by simp
  ultimately have put: "packed n limit (insert c D) asg (bins[?b := union_with (cl_tx_ids c) (bins ! ?b)])
      (insns[?b := insns ! ?b + cl_instructions c])"
    using packed_put [OF Cons.prems(1) _ b(1) fits] by metis
  have step: "revert_removal (removal_of asg c) (bins, insns) =
      Inr (bins[?b := union_with (cl_tx_ids c) (bins ! ?b)], insns[?b := insns ! ?b + cl_instructions c])"
    using b fits by (simp add: revert_removal_def removal_of_def u64_checked_add_def)
  have all: "insert c D \<union> set ds = D \<union> set (c # ds)" by auto
  have "set ds \<inter> insert c D = {}" "distinct ds" "finite (insert c D)" using Cons.prems(2-4) by auto
  from Cons.IH [OF put this(2,1,3)] Cons.prems(5,6) show ?case
    unfolding all by (simp add: step)
qed auto

end
