(* ===== verification/Parallel_Safety.thy ===== *)
theory Parallel_Safety
  imports Parallel_Stages
begin

text \<open>
  Correctness of the parallel phase: the contract of conflicts and instructions, the invariant of
  stages under it, its instance for the transactions of a set, and the properties of the phase that is built.
\<close>

lemma ex_bool [simp]: "\<exists>b. b" "\<exists>b. \<not> b"
  by (rule exI [of _ True], simp) (rule exI [of _ False], simp)

section \<open>Conflicts and instructions as a contract\<close>

definition stage_txs :: "stage \<Rightarrow> nat set" where
  "stage_txs s = (\<Union>c \<in> set (clusters s). tx_ids c)"

definition assigned :: "stage list \<Rightarrow> nat set" where
  "assigned ss = (\<Union>s \<in> set ss. stage_txs s)"

text \<open>What one stage contributes to the phase: the lists of transactions of its bins.\<close>

definition bin_lists :: "stage \<Rightarrow> nat list list" where
  "bin_lists s = filter (\<lambda>ids. ids \<noteq> []) (map iter_ones (bin_packing s))"

locale conflict_graph =
  fixes V :: "nat set" and K :: "nat \<Rightarrow> nat set" and I :: "nat \<Rightarrow> nat"
  assumes K_sym: "a \<in> V \<Longrightarrow> b \<in> V \<Longrightarrow> a \<noteq> b \<Longrightarrow> b \<in> K a \<longleftrightarrow> a \<in> K b"
begin

definition good :: "cluster \<Rightarrow> bool" where
  "good c \<longleftrightarrow> tx_ids c \<noteq> {} \<and> tx_ids c \<subseteq> V \<and> ones (cl_conflicts c) = (\<Union>a \<in> tx_ids c. K a) \<and>
     insns_of c = sum I (tx_ids c)"

definition apart :: "cluster set \<Rightarrow> bool" where
  "apart C \<longleftrightarrow> (\<forall>c \<in> C. \<forall>d \<in> C. c \<noteq> d \<longrightarrow> tx_ids c \<inter> tx_ids d = {} \<and> (\<forall>a \<in> tx_ids c. K a \<inter> tx_ids d = {}))"

definition stage_ok :: "stage \<Rightarrow> bool" where
  "stage_ok s \<longleftrightarrow> distinct (clusters s) \<and> (\<forall>c \<in> set (clusters s). good c) \<and> apart (set (clusters s)) \<and>
     unat (total_instructions s) = sum insns_of (set (clusters s)) \<and>
     (\<exists>asg. packed (unat (clusters_per_stage (config s))) (instructions_per_cluster (config s))
              (set (clusters s)) asg (bin_packing s) (bin_instructions s))"

definition builder_ok :: "builder_tx \<Rightarrow> bool" where
  "builder_ok tx \<longleftrightarrow> bt_id tx \<in> V \<and> ones (bt_conflicts tx) = K (bt_id tx) \<and> unat (bt_instructions tx) = I (bt_id tx)"

lemma apart_mono: "apart C \<Longrightarrow> D \<subseteq> C \<Longrightarrow> apart D"
  unfolding apart_def by blast

lemma stage_new_ok: "stage_ok (stage_new cfg)"
  by (auto simp: stage_ok_def stage_new_def apart_def packed_empty Let_def)

lemma stage_disjoint: "stage_ok s \<Longrightarrow> disjoint_clusters (set (clusters s))"
  by (auto simp: stage_ok_def disjoint_clusters_def good_def apart_def)

lemma good_from_tx: "builder_ok tx \<Longrightarrow> good (from_tx tx) \<and> tx_ids (from_tx tx) = {bt_id tx}"
  using unat_u32_bound [of "bt_instructions tx"]
  by (simp add: builder_ok_def good_def from_tx_def ones_bs_set unsigned_ucast_eq take_bit_nat_eq_self_iff)

lemma merge_good:
  assumes "good c" "good d" "tx_ids c \<inter> tx_ids d = {}" "insns_of c + insns_of d < 2 ^ 64"
  shows "\<exists>m. merge_cluster d c = Inr m \<and> good m \<and> tx_ids m = tx_ids c \<union> tx_ids d"
proof -
  have "sum I (tx_ids c \<union> tx_ids d) = sum I (tx_ids c) + sum I (tx_ids d)"
    using assms(3) by (simp add: sum.union_disjoint bs.finite_ones)
  with assms show ?thesis
    by (auto simp: merge_cluster_def u64_checked_add_def good_def ones_union_with unat_add_u64)
qed

lemma merge_all_good:
  assumes "good m" "\<forall>d \<in> set ds. good d" "apart (set ds)" "distinct ds"
    and "\<forall>d \<in> set ds. tx_ids m \<inter> tx_ids d = {}" "insns_of m + sum insns_of (set ds) < 2 ^ 64"
  shows "\<exists>m'. foldE merge_cluster ds m = Inr m' \<and> good m' \<and> tx_ids m' = tx_ids m \<union> (\<Union>d \<in> set ds. tx_ids d)"
  using assms
proof (induction ds arbitrary: m)
  case (Cons d ds)
  have total: "insns_of m + insns_of d + sum insns_of (set ds) < 2 ^ 64" using Cons.prems(4,6) by simp
  then obtain m1 where m1: "merge_cluster d m = Inr m1" "good m1" "tx_ids m1 = tx_ids m \<union> tx_ids d"
    using merge_good [of m d] Cons.prems(1,2,5) by auto
  have ap: "apart (set ds)" using Cons.prems(3) by (simp add: apart_def)
  have out: "\<forall>e \<in> set ds. tx_ids m1 \<inter> tx_ids e = {}"
  proof
    fix e assume e: "e \<in> set ds"
    then have "d \<noteq> e" using Cons.prems(4) by auto
    then have "tx_ids d \<inter> tx_ids e = {}" using Cons.prems(3) e by (simp add: apart_def)
    then show "tx_ids m1 \<inter> tx_ids e = {}" using Cons.prems(5) e m1(3) by auto
  qed
  have "insns_of m1 = insns_of m + insns_of d"
    using m1(1) total by (auto simp: merge_cluster_def u64_checked_add_Some unat_add_u64)
  then have "insns_of m1 + sum insns_of (set ds) < 2 ^ 64" using total by simp
  from Cons.IH [OF m1(2) _ ap _ out this] Cons.prems(2,4) m1 show ?case by auto
qed simp

section \<open>The clusters after a transaction\<close>

lemma conflicting_clusters:
  "map ((!) cs) (conflicting_indices tx cs) = filter (\<lambda>c. bs_get (cl_conflicts c) (bt_id tx)) cs"
  "map snd (filter (\<lambda>(i, c). i \<notin> set (conflicting_indices tx cs)) (enumerate 0 cs)) =
     filter (\<lambda>c. \<not> bs_get (cl_conflicts c) (bt_id tx)) cs"
  "set (conflicting_indices tx cs) \<subseteq> {..<length cs}"
proof -
  have snd_filter: "map snd (filter (\<lambda>(i, c). P c) (enumerate n cs)) = filter P cs" for P n
    by (induction cs arbitrary: n) auto
  have "map ((!) cs) (conflicting_indices tx cs) =
      map snd (filter (\<lambda>(i, c). bs_get (cl_conflicts c) (bt_id tx)) (enumerate 0 cs))"
    by (auto simp: conflicting_indices_def in_set_enumerate_eq)
  then show "map ((!) cs) (conflicting_indices tx cs) = filter (\<lambda>c. bs_get (cl_conflicts c) (bt_id tx)) cs"
    by (simp add: snd_filter)
  have in_conf: "i \<in> set (conflicting_indices tx cs) \<longleftrightarrow> i < length cs \<and> bs_get (cl_conflicts (cs ! i)) (bt_id tx)" for i
    by (force simp: conflicting_indices_def in_set_enumerate_eq)
  have "filter (\<lambda>(i, c). i \<notin> set (conflicting_indices tx cs)) (enumerate 0 cs) =
      filter (\<lambda>(i, c). \<not> bs_get (cl_conflicts c) (bt_id tx)) (enumerate 0 cs)"
    by (intro filter_cong) (auto simp: in_conf in_set_enumerate_eq)
  then show "map snd (filter (\<lambda>(i, c). i \<notin> set (conflicting_indices tx cs)) (enumerate 0 cs)) =
      filter (\<lambda>c. \<not> bs_get (cl_conflicts c) (bt_id tx)) cs"
    by (simp add: snd_filter)
  show "set (conflicting_indices tx cs) \<subseteq> {..<length cs}"
    by (auto simp: in_conf)
qed

lemma merge_indices:
  "set is \<subseteq> {..<length cs} \<Longrightarrow>
     foldE (\<lambda>i m. bindE (index cs i) (\<lambda>c. merge_cluster c m)) is m = foldE merge_cluster (map ((!) cs) is) m"
  by (induction "is" arbitrary: m) (simp_all add: bindE_def split: sum.split)

lemma create_new_clusters_ok:
  assumes "stage_ok s" "builder_ok tx" "bt_id tx \<notin> stage_txs s"
    and "unat (total_instructions s) + I (bt_id tx) < 2 ^ 64"
  defines "rest \<equiv> filter (\<lambda>c. \<not> bs_get (cl_conflicts c) (bt_id tx)) (clusters s)"
  defines "hit \<equiv> filter (\<lambda>c. bs_get (cl_conflicts c) (bt_id tx)) (clusters s)"
  shows "\<exists>m. create_new_clusters tx (conflicting_indices tx (clusters s)) s =
             Inr (if cl_instructions m > instructions_per_cluster (config s) then None else Some (rest @ [m])) \<and>
           good m \<and> m \<notin> set (clusters s) \<and> apart (set (rest @ [m])) \<and> bt_id tx \<in> tx_ids m \<and>
           (\<Union>c \<in> set (rest @ [m]). tx_ids c) = insert (bt_id tx) (stage_txs s)"
proof -
  let ?t = "bt_id tx"
  have ok: "distinct (clusters s)" "\<forall>c \<in> set (clusters s). good c" "apart (set (clusters s))"
    "unat (total_instructions s) = sum insns_of (set (clusters s))"
    using assms(1) by (auto simp: stage_ok_def)
  have t: "good (from_tx tx)" "tx_ids (from_tx tx) = {?t}" using good_from_tx [OF assms(2)] by auto
  have hit: "set hit \<subseteq> set (clusters s)" "distinct hit" using ok(1) by (auto simp: hit_def)
  have new: "c \<in> set (clusters s) \<Longrightarrow> ?t \<notin> tx_ids c" for c using assms(3) by (auto simp: stage_txs_def)
  have "sum insns_of (set hit) \<le> sum insns_of (set (clusters s))" using hit(1) by (simp add: sum_mono2)
  then have total: "insns_of (from_tx tx) + sum insns_of (set hit) < 2 ^ 64"
    using assms(4) ok(4) t by (simp add: good_def)
  obtain m where m: "foldE merge_cluster hit (from_tx tx) = Inr m" "good m"
      "tx_ids m = {?t} \<union> (\<Union>d \<in> set hit. tx_ids d)"
    using merge_all_good [OF t(1) _ apart_mono [OF ok(3) hit(1)] hit(2) _ total] hit(1) ok(2) new t(2) by auto
  have created: "create_new_clusters tx (conflicting_indices tx (clusters s)) s =
      Inr (if cl_instructions m > instructions_per_cluster (config s) then None else Some (rest @ [m]))"
    by (simp add: create_new_clusters_def merge_indices [OF conflicting_clusters(3)]
        conflicting_clusters(1,2) m(1) [unfolded hit_def] rest_def)
  have "m \<notin> set (clusters s)" using m(3) new by auto
  moreover have "apart (set (rest @ [m]))"
  proof -
    have away: "tx_ids c \<inter> tx_ids m = {} \<and> (\<forall>a \<in> tx_ids c. K a \<inter> tx_ids m = {})" if c: "c \<in> set rest" for c
    proof -
      from c have cs: "c \<in> set (clusters s)" "?t \<notin> ones (cl_conflicts c)" by (auto simp: rest_def bs_get_iff)
      have "d \<in> set hit \<Longrightarrow> c \<noteq> d \<and> d \<in> set (clusters s)" for d using c by (auto simp: hit_def rest_def)
      then have "\<forall>d \<in> set hit. tx_ids c \<inter> tx_ids d = {} \<and> (\<forall>a \<in> tx_ids c. K a \<inter> tx_ids d = {})"
        using ok(3) cs(1) by (simp add: apart_def)
      moreover have "\<forall>a \<in> tx_ids c. ?t \<notin> K a" using cs ok(2) by (auto simp: good_def)
      ultimately show ?thesis using new [OF cs(1)] by (auto simp: m(3))
    qed
    have into: "\<forall>a \<in> tx_ids m. K a \<inter> tx_ids c = {}" if c: "c \<in> set rest" for c
    proof -
      have "tx_ids c \<subseteq> V" "tx_ids m \<subseteq> V" using m(2) c ok(2) by (auto simp: good_def rest_def)
      then show ?thesis using away [OF c] K_sym by (auto simp: disjoint_iff) (metis subsetD)
    qed
    have "apart (set rest)" by (rule apart_mono [OF ok(3)]) (auto simp: rest_def)
    then show ?thesis using away into by (simp add: apart_def Int_commute)
  qed
  moreover have "(\<Union>c \<in> set (rest @ [m]). tx_ids c) = insert ?t (stage_txs s)"
    by (auto simp: m(3) rest_def hit_def stage_txs_def)
  moreover have "?t \<in> tx_ids m" by (simp add: m(3))
  ultimately show ?thesis using created m(2) by blast
qed

section \<open>Adding a transaction to a stage\<close>

text \<open>A packing of the clusters of a stage in its bins.\<close>

abbreviation (input) stage_packed :: "stage \<Rightarrow> cluster set \<Rightarrow> bool" where
  "stage_packed s C \<equiv> \<exists>asg. packed (unat (clusters_per_stage (config s))) (instructions_per_cluster (config s))
     C asg (bin_packing s) (bin_instructions s)"

lemma try_in_place_ok:
  assumes "stage_ok s" "m \<notin> set (clusters s)"
  shows "\<exists>fits bins insns. let s' = s\<lparr>bin_packing := bins, bin_instructions := insns\<rparr> in
     try_in_place_bin_packing m (conflicting_indices tx (clusters s)) s = Inr (fits, s') \<and>
     (if fits then stage_packed s' (set (filter (\<lambda>c. \<not> bs_get (cl_conflicts c) (bt_id tx)) (clusters s) @ [m]))
      else stage_packed s' (set (clusters s)))"
proof -
  define n where "n = unat (clusters_per_stage (config s))"
  define limit where "limit = instructions_per_cluster (config s)"
  define js where "js = conflicting_indices tx (clusters s)"
  define hit where "hit = filter (\<lambda>c. bs_get (cl_conflicts c) (bt_id tx)) (clusters s)"
  define rest where "rest = filter (\<lambda>c. \<not> bs_get (cl_conflicts c) (bt_id tx)) (clusters s)"
  have hits: "map ((!) (clusters s)) js = hit" "set js \<subseteq> {..<length (clusters s)}"
    using conflicting_clusters [where cs = "clusters s" and tx = tx] by (simp_all add: js_def hit_def)
  have ok: "distinct (clusters s)" using assms(1) by (simp add: stage_ok_def)
  obtain asg where asg: "packed n limit (set (clusters s)) asg (bin_packing s) (bin_instructions s)"
    using assms(1) by (auto simp: stage_ok_def n_def limit_def)
  have "distinct (map ((!) (clusters s)) js)" using ok by (simp add: hits(1) hit_def)
  moreover have image: "(!) (clusters s) ` set js = set hit" using hits(1) by (metis set_map)
  moreover have "set hit \<subseteq> set (clusters s)" by (auto simp: hit_def)
  moreover have "map (\<lambda>i. removal_of asg (clusters s ! i)) js = map (removal_of asg) hit"
    by (simp flip: hits(1) add: comp_def)
  ultimately obtain bins insns where
    removed: "foldE (remove_cluster (clusters s)) js ([], bin_packing s, bin_instructions s) =
        Inr (map (removal_of asg) hit, bins, insns)"
      "packed n limit (set (clusters s) - set hit) asg bins insns"
    using remove_clusters_packed [OF asg stage_disjoint [OF assms(1)] _ hits(2), of "[]"] by auto
  have diff: "set (clusters s) - set hit = set rest" by (auto simp: hit_def rest_def)
  have "m \<notin> set rest" using assms(2) by (simp add: rest_def)
  from first_fit_packed [OF removed(2) [unfolded diff] this, of "[0..<n]"]
  obtain r where r: "first_fit limit m [0..<n] (bins, insns) = Inr r"
    "\<And>bins' insns'. r = Some (bins', insns') \<Longrightarrow> \<exists>b. packed n limit (insert m (set rest)) (asg(m := b)) bins' insns'"
    by (auto simp: atLeast0LessThan)
  show ?thesis
  proof (cases r)
    case (Some st)
    obtain bins' insns' where st: "st = (bins', insns')" by fastforce
    from r(2) [of bins' insns'] Some st
    have "\<exists>asg. packed n limit (insert m (set rest)) asg bins' insns'" by auto
    then show ?thesis
      using removed(1) r(1) Some st
      by (intro exI [of _ True] exI [of _ bins'] exI [of _ insns'])
        (simp add: try_in_place_bin_packing_def Let_def n_def limit_def js_def rest_def)
  next
    case None
    have total: "(\<Sum>c \<in> {c \<in> set rest \<union> set hit. asg c = b}. insns_of c) \<le> unat limit" if "b < n" for b
    proof -
      have "set rest \<union> set hit = set (clusters s)" by (auto simp: rest_def hit_def)
      moreover have "(\<Sum>c \<in> {c \<in> set (clusters s). asg c = b}. insns_of c) \<le> unat limit"
      proof -
        have "unat (bin_instructions s ! b) = (\<Sum>c \<in> {c \<in> set (clusters s). asg c = b}. insns_of c)"
          "bin_instructions s ! b \<le> limit"
          using asg that unfolding packed_def by blast+
        then show ?thesis by (simp add: word_le_nat_alt)
      qed
      ultimately show ?thesis by simp
    qed
    have "set hit \<inter> set rest = {}" "distinct hit" "\<And>c. c \<in> set hit \<Longrightarrow> asg c < n"
      using asg ok by (auto simp: hit_def rest_def packed_def)
    from revert_packed [OF removed(2) [unfolded diff] this(2,1) _ this(3) total]
    obtain bins' insns' where back_in: "foldE revert_removal (map (removal_of asg) hit) (bins, insns) = Inr (bins', insns')"
      "packed n limit (set rest \<union> set hit) asg bins' insns'" by auto
    have "set rest \<union> set hit = set (clusters s)" by (auto simp: rest_def hit_def)
    with back_in(2) have "\<exists>asg. packed n limit (set (clusters s)) asg bins' insns'" by metis
    then show ?thesis
      using removed(1) r(1) None back_in(1)
      by (intro exI [of _ False] exI [of _ bins'] exI [of _ insns'])
        (simp add: try_in_place_bin_packing_def Let_def n_def limit_def js_def)
  qed
qed

lemma cluster_instructions:
  assumes "\<forall>c \<in> C. good c" "apart C" "finite C"
  shows "sum insns_of C = sum I (\<Union>c \<in> C. tx_ids c)"
proof -
  have "sum I (\<Union>c \<in> C. tx_ids c) = (\<Sum>c \<in> C. sum I (tx_ids c))"
    using assms by (intro sum.UNION_disjoint) (auto simp: bs.finite_ones apart_def)
  then show ?thesis using assms(1) by (simp add: good_def)
qed

lemma stage_total: "stage_ok s \<Longrightarrow> unat (total_instructions s) = sum I (stage_txs s)"
  by (simp add: stage_ok_def stage_txs_def cluster_instructions)

text \<open>The state of a stage that took a transaction.\<close>

lemma stage_ok_extended:
  assumes "stage_ok s" "set cs \<subseteq> set (clusters s)" "distinct cs" "good m" "m \<notin> set (clusters s)" "apart (set (cs @ [m]))"
    and "(\<Union>c \<in> set (cs @ [m]). tx_ids c) = insert t (stage_txs s)" "t \<notin> stage_txs s"
    and "unat (total_instructions s) + unat n < 2 ^ 64" "unat n = I t"
    and "stage_packed s' (set (cs @ [m]))" "clusters s' = cs @ [m]" "total_instructions s' = total_instructions s + n"
  shows "stage_ok s' \<and> stage_txs s' = insert t (stage_txs s)"
proof -
  have good: "\<forall>c \<in> set (cs @ [m]). good c" using assms(1,2,4) by (auto simp: stage_ok_def)
  have fin: "finite (stage_txs s)" by (simp add: stage_txs_def bs.finite_ones)
  have "unat (total_instructions s + n) = sum I (insert t (stage_txs s))"
    using assms(8-10) stage_total [OF assms(1)] fin by (simp add: unat_add_u64)
  then have "unat (total_instructions s') = sum insns_of (set (cs @ [m]))"
    using cluster_instructions [OF good assms(6)] assms(7,13) by simp
  moreover have "distinct (cs @ [m])" using assms(2,3,5) by auto
  ultimately show ?thesis using good assms(6,7,11,12) by (simp add: stage_ok_def stage_txs_def)
qed

lemma try_add_ok:
  assumes "stage_ok s" "builder_ok tx" "bt_id tx \<notin> stage_txs s"
    and "unat (instructions_per_cluster (config s)) * unat (clusters_per_stage (config s)) < 2 ^ 64"
  shows "\<exists>added s'. try_add tx s = Inr (added, s') \<and> stage_ok s' \<and> config s' = config s \<and>
     stage_txs s' = (if added then insert (bt_id tx) (stage_txs s) else stage_txs s)"
proof -
  let ?n = "ucast (bt_instructions tx) :: u64"
  let ?js = "conflicting_indices tx (clusters s)"
  define rest where "rest = filter (\<lambda>c. \<not> bs_get (cl_conflicts c) (bt_id tx)) (clusters s)"
  have n: "unat ?n = I (bt_id tx)"
    using assms(2) unat_u32_bound [of "bt_instructions tx"]
    by (simp add: builder_ok_def unsigned_ucast_eq take_bit_nat_eq_self_iff)
  have unchanged: "stage_ok s \<and> config s = config s \<and> stage_txs s = stage_txs s" using assms(1) by simp
  have "unat (ucast (clusters_per_stage (config s)) :: u64) = unat (clusters_per_stage (config s))"
    using unat_u32_bound [of "clusters_per_stage (config s)"]
    by (simp add: unsigned_ucast_eq take_bit_nat_eq_self_iff)
  then obtain limit where limit: "instructions_per_stage (config s) = Inr limit"
    using assms(4) by (auto simp: instructions_per_stage_def u64_checked_mul_def)
  show ?thesis
  proof (cases "unat (total_instructions s) + unat ?n < 2 ^ 64 \<and> total_instructions s + ?n \<le> limit")
    case False
    then have "try_add tx s = Inr (False, s)"
      by (auto simp: try_add_def u64_checked_add_def limit)
    with unchanged show ?thesis by auto
  next
    case True
    have room: "unat (total_instructions s) + I (bt_id tx) < 2 ^ 64" using True n by simp
    from create_new_clusters_ok [OF assms(1-3) room] obtain m where m:
      "create_new_clusters tx ?js s =
         Inr (if cl_instructions m > instructions_per_cluster (config s) then None else Some (rest @ [m]))"
      "good m" "m \<notin> set (clusters s)" "apart (set (rest @ [m]))"
      "(\<Union>c \<in> set (rest @ [m]). tx_ids c) = insert (bt_id tx) (stage_txs s)"
      unfolding rest_def [symmetric] by blast
    have sum: "u64_checked_add (total_instructions s) ?n = Some (total_instructions s + ?n)"
      "\<not> limit < total_instructions s + ?n"
      using True by (simp_all add: u64_checked_add_def not_less)
    have rest: "set rest \<subseteq> set (clusters s)" "distinct rest"
      using assms(1) by (auto simp: rest_def stage_ok_def)
    note extended = stage_ok_extended [OF assms(1) rest m(2-5) assms(3) conjunct1 [OF True] n]
    show ?thesis
    proof (cases "cl_instructions m > instructions_per_cluster (config s)")
      case True
      with m(1) sum limit have "try_add tx s = Inr (False, s)" by (simp add: try_add_def Let_def)
      with unchanged show ?thesis by auto
    next
      case fits_cluster: False
      from try_in_place_ok [OF assms(1) m(3), of tx] obtain fits bins insns
        where place: "try_in_place_bin_packing m ?js s = Inr (fits, s\<lparr>bin_packing := bins, bin_instructions := insns\<rparr>)"
          "if fits then stage_packed (s\<lparr>bin_packing := bins, bin_instructions := insns\<rparr>) (set (rest @ [m]))
           else stage_packed (s\<lparr>bin_packing := bins, bin_instructions := insns\<rparr>) (set (clusters s))"
        unfolding rest_def [symmetric] Let_def by blast
      let ?s = "s\<lparr>bin_packing := bins, bin_instructions := insns\<rparr>"
      show ?thesis
      proof (cases fits)
        case True
        let ?s' = "?s\<lparr>clusters := rest @ [m], total_instructions := total_instructions s + ?n\<rparr>"
        have "try_add tx s = Inr (True, ?s')"
          using m(1) sum limit fits_cluster place(1) True by (simp add: try_add_def Let_def)
        moreover have "stage_ok ?s' \<and> stage_txs ?s' = insert (bt_id tx) (stage_txs s)"
          by (rule extended) (use place(2) True in simp_all)
        ultimately show ?thesis by simp
      next
        case not_placed: False
        have kept: "stage_ok ?s" "stage_ok (?s\<lparr>tried_compacting := True\<rparr>)"
          using assms(1) place(2) not_placed by (simp_all add: stage_ok_def)
        have same: "stage_txs ?s = stage_txs s" "stage_txs (?s\<lparr>tried_compacting := True\<rparr>) = stage_txs s"
          by (simp_all add: stage_txs_def)
        have "distinct (rest @ [m])" using rest m(3) by auto
        from bin_pack_clusters_packed [OF this, of "clusters_per_stage (config s)" "instructions_per_cluster (config s)"]
        obtain r where r: "bin_pack_clusters (rest @ [m]) (clusters_per_stage (config s)) (instructions_per_cluster (config s))
             (replicate (unat (clusters_per_stage (config s))) 0) = Inr r"
          "\<And>bins insns. r = Some (bins, insns) \<Longrightarrow>
             \<exists>asg. packed (unat (clusters_per_stage (config s))) (instructions_per_cluster (config s)) (set (rest @ [m])) asg bins insns"
          by auto
        show ?thesis
        proof (cases "?js = [] \<and> tried_compacting s")
          case True
          then have "try_add tx s = Inr (False, ?s)"
            using m(1) sum limit fits_cluster place(1) not_placed by (simp add: try_add_def Let_def)
          with kept same show ?thesis by simp
        next
          case repack: False
          have run: "try_add tx s = (case r of
              Some (packing, ins) \<Rightarrow> Inr (True, s\<lparr>clusters := rest @ [m], bin_packing := packing,
                bin_instructions := ins, total_instructions := total_instructions s + ?n\<rparr>)
            | None \<Rightarrow> Inr (False, if ?js = [] then ?s\<lparr>tried_compacting := True\<rparr> else ?s))"
            using m(1) sum limit fits_cluster place(1) not_placed repack r(1)
            by (auto simp: try_add_def Let_def split: option.split)
          show ?thesis
          proof (cases r)
            case None
            with run kept same show ?thesis by simp
          next
            case (Some st)
            obtain packing ins where st: "st = (packing, ins)" by fastforce
            let ?s' = "s\<lparr>clusters := rest @ [m], bin_packing := packing,
                bin_instructions := ins, total_instructions := total_instructions s + ?n\<rparr>"
            have "stage_ok ?s' \<and> stage_txs ?s' = insert (bt_id tx) (stage_txs s)"
              by (rule extended) (use r(2) [of packing ins] Some st in simp_all)
            with run Some st show ?thesis by simp
          qed
        qed
      qed
    qed
  qed
qed

section \<open>The stages of a phase\<close>

definition stages_ok :: "partition_config \<Rightarrow> stage list \<Rightarrow> bool" where
  "stages_ok cfg ss \<longleftrightarrow> (\<forall>s \<in> set ss. stage_ok s \<and> config s = cfg) \<and>
     sorted_wrt (\<lambda>s s'. stage_txs s \<inter> stage_txs s' = {}) ss"

lemma stages_new_ok: "stages_ok cfg (replicate n (stage_new cfg)) \<and> assigned (replicate n (stage_new cfg)) = {}"
proof -
  have "stage_txs (stage_new cfg) = {}" by (simp add: stage_txs_def stage_new_def Let_def)
  then show ?thesis
    by (auto simp: stages_ok_def assigned_def stage_new_ok sorted_wrt_iff_nth_less) (simp add: stage_new_def Let_def)
qed

lemma add_to_stages_ok:
  assumes "stages_ok cfg ss" "builder_ok tx" "bt_id tx \<notin> assigned ss"
    and "unat (instructions_per_cluster cfg) * unat (clusters_per_stage cfg) < 2 ^ 64"
  shows "\<exists>added ss'. add_to_stages tx ss = Inr (added, ss') \<and> stages_ok cfg ss' \<and> length ss' = length ss \<and>
     assigned ss' = (if added then insert (bt_id tx) (assigned ss) else assigned ss)"
  using assms
proof (induction ss)
  case (Cons s ss)
  have s: "stage_ok s" "config s = cfg" "bt_id tx \<notin> stage_txs s" and ss: "stages_ok cfg ss" "bt_id tx \<notin> assigned ss"
    and dis: "\<forall>s' \<in> set ss. stage_txs s \<inter> stage_txs s' = {}"
    using Cons.prems by (auto simp: stages_ok_def assigned_def)
  obtain added s' where add: "try_add tx s = Inr (added, s')" "stage_ok s'" "config s' = cfg"
    "stage_txs s' = (if added then insert (bt_id tx) (stage_txs s) else stage_txs s)"
    using try_add_ok [OF s(1) Cons.prems(2) s(3)] Cons.prems(4) s(2) by auto
  show ?case
  proof (cases added)
    case True
    then have "stages_ok cfg (s' # ss)" using add ss dis by (auto simp: stages_ok_def assigned_def)
    moreover have "assigned (s' # ss) = insert (bt_id tx) (assigned (s # ss))"
      using True add(4) by (simp add: assigned_def)
    ultimately show ?thesis using add(1) True by auto
  next
    case False
    obtain added' ss' where rest: "add_to_stages tx ss = Inr (added', ss')" "stages_ok cfg ss'" "length ss' = length ss"
      "assigned ss' = (if added' then insert (bt_id tx) (assigned ss) else assigned ss)"
      using Cons.IH [OF ss(1) Cons.prems(2) ss(2) Cons.prems(4)] by auto
    have "stage_txs s \<inter> assigned ss' = {}"
      using dis s(3) rest(4) by (auto simp: assigned_def split: if_splits)
    then have "stages_ok cfg (s' # ss')" using add rest(2) False by (auto simp: stages_ok_def assigned_def)
    moreover have "assigned (s' # ss') = (if added' then insert (bt_id tx) (assigned (s # ss)) else assigned (s # ss))"
      using rest(4) add(4) False by (auto simp: assigned_def)
    ultimately show ?thesis using add(1) rest(1,3) False by auto
  qed
qed (simp add: stages_ok_def assigned_def)

section \<open>The bins of a stage\<close>

lemma bins_apart:
  assumes "stage_ok s" "i < length (bin_packing s)" "j < length (bin_packing s)" "i \<noteq> j"
  shows "ones (bin_packing s ! i) \<inter> ones (bin_packing s ! j) = {} \<and>
         (\<forall>a \<in> ones (bin_packing s ! i). K a \<inter> ones (bin_packing s ! j) = {})"
proof -
  obtain asg where asg: "packed (unat (clusters_per_stage (config s))) (instructions_per_cluster (config s))
      (set (clusters s)) asg (bin_packing s) (bin_instructions s)" and ap: "apart (set (clusters s))"
    using assms(1) by (auto simp: stage_ok_def)
  have bin: "ones (bin_packing s ! b) = (\<Union>c \<in> {c \<in> set (clusters s). asg c = b}. tx_ids c)"
    if "b < length (bin_packing s)" for b using asg that by (simp add: packed_def)
  have pair: "tx_ids c \<inter> tx_ids d = {} \<and> (\<forall>a \<in> tx_ids c. K a \<inter> tx_ids d = {})"
    if "c \<in> set (clusters s)" "d \<in> set (clusters s)" "asg c = i" "asg d = j" for c d
  proof -
    have "c \<noteq> d" using that assms(4) by auto
    then show ?thesis using ap that(1,2) by (simp add: apart_def)
  qed
  show ?thesis unfolding bin [OF assms(2)] bin [OF assms(3)] using pair by fastforce
qed

lemma bin_instructions_bound:
  assumes "stage_ok s" "i < length (bin_packing s)"
  shows "sum I (ones (bin_packing s ! i)) \<le> unat (instructions_per_cluster (config s))"
proof -
  obtain asg where asg: "packed (unat (clusters_per_stage (config s))) (instructions_per_cluster (config s))
      (set (clusters s)) asg (bin_packing s) (bin_instructions s)"
    using assms(1) by (auto simp: stage_ok_def)
  let ?C = "{c \<in> set (clusters s). asg c = i}"
  have "sum I (\<Union>c \<in> ?C. tx_ids c) = sum insns_of ?C"
    using assms(1) by (intro cluster_instructions [symmetric]) (auto simp: stage_ok_def intro: apart_mono)
  moreover have "ones (bin_packing s ! i) = (\<Union>c \<in> ?C. tx_ids c)"
    "unat (bin_instructions s ! i) = sum insns_of ?C" "bin_instructions s ! i \<le> instructions_per_cluster (config s)"
    using asg assms(2) by (simp_all add: packed_def)
  ultimately show ?thesis by (simp add: word_le_nat_alt)
qed

lemma bins_cover: "stage_ok s \<Longrightarrow> (\<Union>b \<in> set (bin_packing s). ones b) = stage_txs s"
  by (fastforce simp: stage_ok_def packed_def stage_txs_def set_conv_nth)

lemma bin_lists_spec:
  assumes "stage_ok s"
  shows "length (bin_lists s) \<le> unat (clusters_per_stage (config s))"
    and "distinct (concat (bin_lists s))" "set (concat (bin_lists s)) = stage_txs s"
    and "sorted_wrt (\<lambda>xs ys. \<forall>a \<in> set xs. \<forall>b \<in> set ys. b \<notin> K a) (bin_lists s)"
    and "\<forall>ids \<in> set (bin_lists s). ids \<noteq> [] \<and> sum_list (map I ids) \<le> unat (instructions_per_cluster (config s))"
proof -
  have "length (bin_packing s) = unat (clusters_per_stage (config s))"
    using assms by (auto simp: stage_ok_def packed_def)
  then show "length (bin_lists s) \<le> unat (clusters_per_stage (config s))"
    unfolding bin_lists_def by (metis length_filter_le length_map)
  have wrt: "sorted_wrt (\<lambda>xs ys. set xs \<inter> set ys = {} \<and> (\<forall>a \<in> set xs. \<forall>b \<in> set ys. b \<notin> K a)) (bin_lists s)"
    unfolding bin_lists_def
  proof (rule sorted_wrt_filter)
    have "set (iter_ones (bin_packing s ! i)) \<inter> set (iter_ones (bin_packing s ! j)) = {} \<and>
        (\<forall>a \<in> set (iter_ones (bin_packing s ! i)). \<forall>b \<in> set (iter_ones (bin_packing s ! j)). b \<notin> K a)"
      if "i < j" "j < length (bin_packing s)" for i j
      using bins_apart [OF assms, of i j] that by (auto simp: bs.set_elems)
    then show "sorted_wrt (\<lambda>xs ys. set xs \<inter> set ys = {} \<and> (\<forall>a \<in> set xs. \<forall>b \<in> set ys. b \<notin> K a))
        (map iter_ones (bin_packing s))"
      by (simp add: sorted_wrt_iff_nth_less)
  qed
  then show "sorted_wrt (\<lambda>xs ys. \<forall>a \<in> set xs. \<forall>b \<in> set ys. b \<notin> K a) (bin_lists s)"
    by (rule sorted_wrt_mono_rel [rotated]) simp
  have "concat (filter (\<lambda>ids. ids \<noteq> []) xss) = concat xss" for xss :: "nat list list"
    by (induction xss) auto
  then show "set (concat (bin_lists s)) = stage_txs s"
    using bins_cover [OF assms] by (auto simp: bin_lists_def bs.set_elems)
  have concat: "distinct (concat xss)"
    if "sorted_wrt (\<lambda>xs ys. set xs \<inter> set ys = {}) xss" "\<forall>xs \<in> set xss. distinct xs" for xss :: "nat list list"
    using that by (induction xss) auto
  have "sorted_wrt (\<lambda>xs ys. set xs \<inter> set ys = {}) (bin_lists s)"
    by (rule sorted_wrt_mono_rel [OF _ wrt]) simp
  then show "distinct (concat (bin_lists s))"
    by (rule concat) (auto simp: bin_lists_def bs.distinct_elems)
  show "\<forall>ids \<in> set (bin_lists s). ids \<noteq> [] \<and> sum_list (map I ids) \<le> unat (instructions_per_cluster (config s))"
    using bin_instructions_bound [OF assms] by (auto simp: bin_lists_def bs.sum_elems in_set_conv_nth)
qed

end

end
