(* ===== verification/Parallel_Phase.thy ===== *)
theory Parallel_Phase
  imports Parallel_Safety "HOL-Library.Multiset"
begin

text \<open>
  The properties of the parallel Soroban phase: the contract of conflicts holds for the transactions of a
  set, so the phase that is built runs conflicting transactions one after the other and stays within the
  instructions of the ledger.
\<close>

section \<open>The contract for a set of transactions\<close>

definition tx_instructions :: "hashed_tx \<Rightarrow> nat" where
  "tx_instructions htx = (case envelope_soroban_data (htx_envelope htx) of
     Some d \<Rightarrow> unat (instructions (resources d)) | None \<Rightarrow> 0)"

lemma conflicting_sym: "conflicting a b \<longleftrightarrow> conflicting b a"
  by (auto simp: conflicting_def)

interpretation graph: conflict_graph "{..<length txs}" "\<lambda>i. ones (detect_conflicts txs ! i)"
    "\<lambda>i. tx_instructions (txs ! i)" for txs
  by unfold_locales (auto simp: detect_conflicts_spec conflicting_sym)

lemma builder_txs_ok:
  "i < length txs \<Longrightarrow> graph.builder_ok txs (builder_txs txs (detect_conflicts txs) ! i) \<and>
     bt_id (builder_txs txs (detect_conflicts txs) ! i) = i"
  unfolding graph.builder_ok_def by (simp add: builder_txs_def tx_instructions_def split: option.split)

abbreviation fee_of :: "hashed_tx \<Rightarrow> i64" where
  "fee_of htx \<equiv> tx_inclusion_fee (htx_envelope htx)"

abbreviation fees_ok :: "hashed_tx list \<Rightarrow> bool" where
  "fees_ok txs \<equiv> list_all (\<lambda>htx. 0 \<le> fee_of htx) txs"

lemma fee_of_le: "fee_of htx \<le> i64_max"
  by (simp add: tx_inclusion_fee_def envelope_inclusion_fee_def saturating_sub_resource_def i64_saturating_def
      range_defs Let_def)

section \<open>One number of stages\<close>

definition phase_ids_ok :: "hashed_tx list \<Rightarrow> i64 \<Rightarrow> u32 \<Rightarrow> u32 \<Rightarrow> nat list list list \<Rightarrow> bool" where
  "phase_ids_ok txs max_insns max_clusters stage_count ss \<longleftrightarrow>
     distinct (concat (concat ss)) \<and> set (concat (concat ss)) \<subseteq> {..<length txs} \<and> length ss \<le> unat stage_count \<and>
     (\<forall>stage \<in> set ss. stage \<noteq> [] \<and> length stage \<le> unat max_clusters \<and>
        sorted_wrt (\<lambda>xs ys. \<forall>a \<in> set xs. \<forall>b \<in> set ys. \<not> conflicting (txs ! a) (txs ! b)) stage \<and>
        (\<forall>ids \<in> set stage. ids \<noteq> [] \<and>
           sum_list (map (\<lambda>i. tx_instructions (txs ! i)) ids) \<le> nat max_insns div unat stage_count))"

definition phase_fee :: "hashed_tx list \<Rightarrow> nat set \<Rightarrow> i64" where
  "phase_fee txs A = min i64_max (\<Sum>i \<in> A. fee_of (txs ! i))"

lemma phase_fee_insert:
  assumes "fees_ok txs" "i < length txs" "i \<notin> A" "A \<subseteq> {..<length txs}"
  shows "i64_saturating (phase_fee txs A + fee_of (txs ! i)) = phase_fee txs (insert i A)"
proof -
  have "0 \<le> (\<Sum>i \<in> A. fee_of (txs ! i))" using assms(1,4) by (intro sum_nonneg) (auto simp: list_all_length)
  moreover have "0 \<le> fee_of (txs ! i)" using assms(1,2) by (simp add: list_all_length)
  moreover have "finite A" using assms(4) finite_subset by blast
  ultimately show ?thesis using assms(3) by (simp add: phase_fee_def i64_saturating_def range_defs)
qed

text \<open>The loop over the transactions.\<close>

lemma assign_all_ok:
  assumes "distinct ids" "set ids \<subseteq> {..<length txs}" "fees_ok txs"
    and "graph.stages_ok txs cfg ss" "assigned ss \<subseteq> {..<length txs}" "set ids \<inter> assigned ss = {}"
    and "unat (instructions_per_cluster cfg) * unat (clusters_per_stage cfg) < 2 ^ 64"
  shows "\<exists>ss'. foldE (assign_tx txs (builder_txs txs (detect_conflicts txs))) ids (ss, phase_fee txs (assigned ss)) =
           Inr (ss', phase_fee txs (assigned ss')) \<and>
         graph.stages_ok txs cfg ss' \<and> length ss' = length ss \<and> assigned ss' \<subseteq> {..<length txs}"
  using assms
proof (induction ids arbitrary: ss)
  case (Cons i ids)
  have i: "i < length txs" "i \<notin> assigned ss" using Cons.prems(2,6) by auto
  let ?tx = "builder_txs txs (detect_conflicts txs) ! i"
  have tx: "graph.builder_ok txs ?tx" "bt_id ?tx = i" using builder_txs_ok [OF i(1)] by auto
  obtain added ss1 where step: "add_to_stages ?tx ss = Inr (added, ss1)" "graph.stages_ok txs cfg ss1"
    "length ss1 = length ss" "assigned ss1 = (if added then insert i (assigned ss) else assigned ss)"
    using graph.add_to_stages_ok [OF Cons.prems(4) tx(1) _ Cons.prems(7)] tx(2) i(2) by auto
  have "assign_tx txs (builder_txs txs (detect_conflicts txs)) i (ss, phase_fee txs (assigned ss)) =
      Inr (ss1, phase_fee txs (assigned ss1))"
    using step phase_fee_insert [OF Cons.prems(3) i(1,2) Cons.prems(5)] by (simp add: assign_tx_def)
  moreover have "distinct ids" "set ids \<subseteq> {..<length txs}" "assigned ss1 \<subseteq> {..<length txs}" "set ids \<inter> assigned ss1 = {}"
    using Cons.prems(1,2,5,6) i step(4) by auto
  ultimately show ?case
    using Cons.IH [of ss1] Cons.prems(3,7) step(2,3) by auto
qed auto

lemma stage_ids_eq: "stage_ids ss = filter (\<lambda>bins. bins \<noteq> []) (map bin_lists ss)"
  by (simp add: stage_ids_def bin_lists_def [abs_def])

lemma stage_ids_ok:
  assumes "graph.stages_ok txs cfg ss" "assigned ss \<subseteq> {..<length txs}"
    and "unat (clusters_per_stage cfg) \<le> unat max_clusters" "length ss \<le> unat stage_count"
    and "unat (instructions_per_cluster cfg) \<le> nat max_insns div unat stage_count"
  shows "phase_ids_ok txs max_insns max_clusters stage_count (stage_ids ss) \<and>
         set (concat (concat (stage_ids ss))) = assigned ss"
proof -
  have ok: "graph.stage_ok txs s" "config s = cfg" "stage_txs s \<subseteq> {..<length txs}" if "s \<in> set ss" for s
    using assms(1,2) that by (auto simp: graph.stages_ok_def assigned_def)
  have drop: "concat (filter (\<lambda>xs. xs \<noteq> []) xss) = concat xss" for xss :: "'a list list"
    by (induction xss) auto
  have flat: "concat (concat (stage_ids ss)) = concat (map (\<lambda>s. concat (bin_lists s)) ss)"
    unfolding stage_ids_eq drop by (induction ss) auto
  have set: "set (concat (concat (stage_ids ss))) = assigned ss"
    using graph.bin_lists_spec(3) [OF ok(1)] unfolding flat by (simp add: assigned_def)
  have "distinct (concat (map (\<lambda>s. concat (bin_lists s)) ss))"
    using assms(1)
  proof (induction ss)
    case (Cons s ss)
    then show ?case
      using graph.bin_lists_spec(2,3) [of txs s] graph.bin_lists_spec(3) [of txs]
      by (fastforce simp: graph.stages_ok_def)
  qed simp
  moreover have "length (stage_ids ss) \<le> unat stage_count"
    using assms(4) unfolding stage_ids_eq by (metis length_filter_le length_map le_trans)
  moreover have "stage \<noteq> [] \<and> length stage \<le> unat max_clusters \<and>
        sorted_wrt (\<lambda>xs ys. \<forall>a \<in> set xs. \<forall>b \<in> set ys. \<not> conflicting (txs ! a) (txs ! b)) stage \<and>
        (\<forall>ids \<in> set stage. ids \<noteq> [] \<and>
           sum_list (map (\<lambda>i. tx_instructions (txs ! i)) ids) \<le> nat max_insns div unat stage_count)"
    if "stage \<in> set (stage_ids ss)" for stage
  proof -
    from that obtain s where s: "s \<in> set ss" "stage = bin_lists s" "stage \<noteq> []" by (auto simp: stage_ids_eq)
    note spec = graph.bin_lists_spec [OF ok(1) [OF s(1)]]
    have sub: "set (concat stage) \<subseteq> {..<length txs}" using spec(3) ok(3) [OF s(1)] s(2) by simp
    have dist: "sorted_wrt (\<lambda>xs ys. set xs \<inter> set ys = {}) yss" if "distinct (concat yss)" for yss :: "nat list list"
      using that by (induction yss) auto
    have "sorted_wrt (\<lambda>xs ys. set xs \<inter> set ys = {}) stage" using dist spec(2) s(2) by simp
    then have disjoint: "\<And>i j. i < j \<Longrightarrow> j < length stage \<Longrightarrow> set (stage ! i) \<inter> set (stage ! j) = {}"
      by (simp add: sorted_wrt_iff_nth_less)
    have inside: "\<And>i a. i < length stage \<Longrightarrow> a \<in> set (stage ! i) \<Longrightarrow> a < length txs" using sub nth_mem by fastforce
    have "sorted_wrt (\<lambda>xs ys. \<forall>a \<in> set xs. \<forall>b \<in> set ys. \<not> conflicting (txs ! a) (txs ! b)) stage"
      unfolding sorted_wrt_iff_nth_less
    proof (intro allI impI ballI)
      fix i j a b assume ij: "i < j" "j < length stage" "a \<in> set (stage ! i)" "b \<in> set (stage ! j)"
      then have "b \<notin> ones (detect_conflicts txs ! a)" using spec(4) s(2) by (simp add: sorted_wrt_iff_nth_less)
      moreover have "a \<noteq> b" using disjoint [OF ij(1,2)] ij(3,4) by auto
      ultimately show "\<not> conflicting (txs ! a) (txs ! b)"
        using inside [of i a] inside [of j b] ij by (simp add: detect_conflicts_spec(2))
    qed
    then show ?thesis using spec(1,5) assms(3,5) ok(2) [OF s(1)] s(2,3) by fastforce
  qed
  ultimately show ?thesis using set assms(2) by (simp add: phase_ids_ok_def flat)
qed

lemma build_with_stage_count_ok:
  assumes "fees_ok txs" "0 \<le> max_insns" "max_insns \<le> i64_max" "nat max_insns * unat max_clusters < 2 ^ 64"
  shows "\<exists>ss. build_with_stage_count txs max_insns max_clusters stage_count =
             Inr (ss, phase_fee txs (set (concat (concat ss)))) \<and>
           phase_ids_ok txs max_insns max_clusters stage_count ss"
proof -
  let ?ids = "sort_by (by_fee_rate txs) [0..<length txs]"
  have ids: "sorted_ids txs = Inr ?ids" using assms(1) by (simp add: sorted_ids_def)
  define cfg where "cfg = \<lparr>clusters_per_stage = max_clusters,
    instructions_per_cluster = (word_of_int max_insns :: u64) div ucast stage_count\<rparr>"
  have count: "unat (ucast stage_count :: u64) = unat stage_count"
    using unat_u32_bound [of stage_count] by (simp add: unsigned_ucast_eq take_bit_nat_eq_self_iff)
  have insns: "unat (word_of_int max_insns :: u64) = nat max_insns"
    using assms(2,3) by (simp add: unsigned_of_int nat_take_bit_eq take_bit_nat_eq_self_iff nat_less_iff range_defs)
  have per_cluster: "unat (instructions_per_cluster cfg) = nat max_insns div unat stage_count"
    by (simp add: cfg_def unat_div count insns)
  define ss where "ss = replicate (unat stage_count) (stage_new cfg)"
  have start: "graph.stages_ok txs cfg ss" "assigned ss = {}" "length ss = unat stage_count"
    using graph.stages_new_ok by (auto simp: ss_def)
  have new: "(if stage_count = 0 then Inr []
      else bindE (partition_config_new stage_count max_insns max_clusters) (\<lambda>cfg.
             Inr (replicate (unat stage_count) (stage_new cfg)))) = (Inr ss :: panic + stage list)"
    using assms(2) by (simp add: ss_def partition_config_new_def cfg_def Let_def word_greater_zero_iff)
  have "unat (instructions_per_cluster cfg) * unat (clusters_per_stage cfg) \<le> nat max_insns * unat max_clusters"
    unfolding per_cluster by (simp add: cfg_def)
  then have product: "unat (instructions_per_cluster cfg) * unat (clusters_per_stage cfg) < 2 ^ 64"
    using assms(4) by linarith
  obtain ss' where run: "foldE (assign_tx txs (builder_txs txs (detect_conflicts txs))) ?ids (ss, phase_fee txs (assigned ss)) =
      Inr (ss', phase_fee txs (assigned ss'))"
    and after: "graph.stages_ok txs cfg ss'" "length ss' = length ss" "assigned ss' \<subseteq> {..<length txs}"
    using assign_all_ok [of ?ids txs cfg ss] start(1,2) product assms(1) by (auto simp: atLeast0LessThan)
  have "phase_fee txs {} = 0" by (simp add: phase_fee_def range_defs)
  then have "build_with_stage_count txs max_insns max_clusters stage_count = Inr (stage_ids ss', phase_fee txs (assigned ss'))"
    using run start(2) by (simp add: build_with_stage_count_def ids new Let_def)
  then show ?thesis
    using stage_ids_ok [OF after(1,3), of max_clusters stage_count max_insns] after(2) start(3) per_cluster
    by (auto simp: cfg_def)
qed

section \<open>Choosing among the numbers of stages\<close>

lemma bit_len_lower: "n \<noteq> 0 \<Longrightarrow> 2 ^ (bit_len n - 1) \<le> n"
proof (induction n rule: bit_len.induct)
  case (1 n)
  show ?case
  proof (cases "n div 2 = 0")
    case True
    then show ?thesis using 1(2) by (simp add: bit_len.simps [of n] bit_len.simps [of 0])
  next
    case False
    then have "0 < bit_len (n div 2)" by (subst bit_len.simps) simp
    then have "2 ^ (bit_len n - 1) = 2 * (2 :: nat) ^ (bit_len (n div 2) - 1)"
      using 1(2) by (subst bit_len.simps) (simp flip: power_Suc)
    with 1(1) [OF 1(2) False] show ?thesis by linarith
  qed
qed

lemma round_f64_error:
  "round_f64 n * 2 ^ 53 \<le> n * (2 ^ 53 + 1)" "n * (2 ^ 53 - 1) \<le> round_f64 n * 2 ^ 53"
proof -
  define s where "s = bit_len n - 53"
  have "round_f64 n \<le> n + 2 ^ s div 2 \<and> n \<le> round_f64 n + 2 ^ s div 2 \<and> (s = 0 \<longrightarrow> round_f64 n = n)"
  proof (cases "s = 0")
    case False
    then have even: "2 ^ s = 2 * (2 ^ s div 2 :: nat)" by (cases s) simp_all
    define q r where "q = n div 2 ^ s" and "r = n mod 2 ^ s"
    have split: "n = q * 2 ^ s + r" "r < 2 ^ s" by (simp_all only: q_def r_def div_mult_mod_eq) simp
    show ?thesis
    proof (cases "2 ^ s < 2 * r \<or> (2 * r = 2 ^ s \<and> odd q)")
      case True
      then have "round_f64 n = q * 2 ^ s + 2 ^ s"
        using False by (simp add: round_f64_def Let_def q_def r_def flip: s_def)
      moreover have "2 ^ s \<le> 2 * r" using True by auto
      ultimately show ?thesis using split even False by linarith
    next
      case down: False
      then have "round_f64 n = q * 2 ^ s"
        using False by (simp add: round_f64_def Let_def q_def r_def flip: s_def)
      moreover have "2 * r \<le> 2 ^ s" using down by auto
      ultimately show ?thesis using split even False by linarith
    qed
  qed (simp add: round_f64_def s_def Let_def)
  moreover have "2 ^ s div 2 * 2 ^ 53 \<le> n" if positive: "s \<noteq> 0"
  proof -
    obtain t where t: "s = Suc t" using positive by (cases s) auto
    then have len: "bit_len n - 1 = t + 53" by (simp add: s_def)
    have "2 ^ s div 2 * 2 ^ 53 = (2 :: nat) ^ (bit_len n - 1)"
      unfolding len by (simp add: t power_add)
    moreover have "n \<noteq> 0"
    proof
      assume "n = 0"
      then show False using positive by (simp add: s_def bit_len.simps [of 0])
    qed
    ultimately show ?thesis using bit_len_lower by simp
  qed
  ultimately show "round_f64 n * 2 ^ 53 \<le> n * (2 ^ 53 + 1)" "n * (2 ^ 53 - 1) \<le> round_f64 n * 2 ^ 53"
    by (cases "s = 0"; simp add: algebra_simps)+
qed

lemma round_f64_0: "round_f64 0 = 0"
  by (simp add: round_f64_def bit_len.simps [of 0])

text \<open>\<open>t\<close> is 99.9 percent of \<open>m\<close>, rounded down, up to a part in 2 to the 40th.\<close>

definition permille_999 :: "int \<Rightarrow> int \<Rightarrow> bool" where
  "permille_999 t m \<longleftrightarrow>
     1000 * 2 ^ 40 * t \<le> (999 * 2 ^ 40 + 1) * m \<and> (999 * 2 ^ 40 - 1) * m < 1000 * 2 ^ 40 * (t + 1)"

lemma fee_threshold_bounds:
  assumes "0 \<le> m"
  shows "fee_threshold m \<le> m" "permille_999 (fee_threshold m) m"
proof -
  define n where "n = nat m"
  define k :: nat where "k = 8998192055486251"
  define r1 where "r1 = round_f64 n"
  define r2 where "r2 = round_f64 (r1 * k)"
  define p where "p = r2 div 2 ^ 53"
  have p: "fee_threshold m = int p"
    using assms by (cases "m = 0") (simp_all add: fee_threshold_def p_def r2_def r1_def n_def k_def round_f64_0)
  have p_bounds: "p * 2 ^ 53 \<le> r2" "r2 < p * 2 ^ 53 + 2 ^ 53"
    unfolding p_def by (simp_all add: div_times_less_eq_dividend dividend_less_div_times)
  note e1 = round_f64_error [of n, folded r1_def] and e2 = round_f64_error [of "r1 * k", folded r2_def]
  have "p * 2 ^ 53 * 2 ^ 106 \<le> r2 * 2 ^ 53 * 2 ^ 53" using p_bounds(1) by simp
  also have "\<dots> \<le> r1 * 2 ^ 53 * (k * (2 ^ 53 + 1))" using e2(1) by (simp add: algebra_simps)
  also have "\<dots> \<le> n * (2 ^ 53 + 1) * (k * (2 ^ 53 + 1))" using e1(1) by (intro mult_right_mono) simp_all
  also have "\<dots> \<le> n * 2 ^ 159" by (simp add: k_def)
  finally have "p \<le> n" by simp
  then show "fee_threshold m \<le> m" using assms by (simp add: p n_def)
  have "p * 2 ^ 53 * 2 ^ 106 \<le> r2 * 2 ^ 53 * 2 ^ 53" using p_bounds(1) by simp
  also have "\<dots> \<le> r1 * 2 ^ 53 * (k * (2 ^ 53 + 1))" using e2(1) by (simp add: algebra_simps)
  also have "\<dots> \<le> n * (2 ^ 53 + 1) * (k * (2 ^ 53 + 1))" using e1(1) by (intro mult_right_mono) simp_all
  finally have "1000 * 2 ^ 40 * (p * 2 ^ 53 * 2 ^ 106) \<le> 1000 * 2 ^ 40 * (n * (2 ^ 53 + 1) * (k * (2 ^ 53 + 1)))"
    by (intro mult_left_mono) simp_all
  also have "\<dots> \<le> (999 * 2 ^ 40 + 1) * n * 2 ^ 159" by (simp add: k_def)
  finally have "1000 * 2 ^ 40 * p \<le> (999 * 2 ^ 40 + 1) * n" by simp
  moreover have "(999 * 2 ^ 40 - 1) * n < 1000 * 2 ^ 40 * (p + 1)"
  proof -
    have "(999 * 2 ^ 40 - 1) * n * 2 ^ 159 \<le> 1000 * 2 ^ 40 * (n * (2 ^ 53 - 1) * (k * (2 ^ 53 - 1)))" by (simp add: k_def)
    also have "\<dots> \<le> 1000 * 2 ^ 40 * (r1 * 2 ^ 53 * (k * (2 ^ 53 - 1)))"
      using e1(2) by (intro mult_left_mono mult_right_mono) simp_all
    also have "\<dots> \<le> 1000 * 2 ^ 40 * (r2 * 2 ^ 53 * 2 ^ 53)" using e2(2) by (simp add: algebra_simps)
    also have "\<dots> < 1000 * 2 ^ 40 * (p + 1) * 2 ^ 159" using p_bounds(2) by simp
    finally show ?thesis by simp
  qed
  ultimately have "int (1000 * 2 ^ 40 * p) \<le> int ((999 * 2 ^ 40 + 1) * n)"
    "int ((999 * 2 ^ 40 - 1) * n) < int (1000 * 2 ^ 40 * (p + 1))"
    unfolding of_nat_le_iff of_nat_less_iff by blast+
  then show "permille_999 (fee_threshold m) m" using assms by (simp add: p n_def permille_999_def)
qed

lemma best_stages_spec:
  "case best_stages threshold results best of
     None \<Rightarrow> best = None \<and> (\<forall>p \<in> set results. snd p < threshold)
   | Some b \<Rightarrow> (best = Some b \<or> (\<exists>fee. (b, fee) \<in> set results \<and> threshold \<le> fee)) \<and>
       (\<forall>b'. best = Some b' \<longrightarrow> length b \<le> length b') \<and>
       (\<forall>p \<in> set results. threshold \<le> snd p \<longrightarrow> length b \<le> length (fst p))"
proof (induction results arbitrary: best)
  case (Cons res results)
  obtain ss fee where res: "res = (ss, fee)" by fastforce
  show ?case
  proof (cases "threshold \<le> fee \<and> (case best of None \<Rightarrow> True | Some b \<Rightarrow> length ss < length b)")
    case True
    then have "best_stages threshold (res # results) best = best_stages threshold results (Some ss)" by (simp add: res)
    with Cons.IH [of "Some ss"] True show ?thesis by (fastforce simp: res split: option.splits)
  next
    case False
    then have "best_stages threshold (res # results) best = best_stages threshold results best" by (auto simp: res)
    with Cons.IH [of best] False show ?thesis
      by (cases "best_stages threshold results best") (fastforce simp: res split: option.splits)+
  qed
qed (auto split: option.splits)

section \<open>Taking the transactions out\<close>

definition available :: "hashed_tx list \<Rightarrow> hashed_tx option list \<Rightarrow> nat set \<Rightarrow> bool" where
  "available txs slots A \<longleftrightarrow> length slots = length txs \<and> A \<subseteq> {..<length txs} \<and> (\<forall>i \<in> A. slots ! i = Some (txs ! i))"

lemma take_slots_ok:
  assumes "available txs slots (set ids \<union> A)" "distinct ids" "set ids \<inter> A = {}"
  shows "\<exists>slots'. foldE take_slot ids (taken, slots) = Inr (taken @ map ((!) txs) ids, slots') \<and> available txs slots' A"
  using assms
proof (induction ids arbitrary: taken slots)
  case (Cons i ids)
  have i: "i < length slots" "slots ! i = Some (txs ! i)" using Cons.prems(1) by (auto simp: available_def)
  have step: "take_slot i (taken, slots) = Inr (taken @ [txs ! i], slots[i := None])"
    using i by (simp add: take_slot_def)
  have "available txs (slots[i := None]) (set ids \<union> A)"
    using Cons.prems by (auto simp: available_def nth_list_update)
  with Cons.IH [of "slots[i := None]" "taken @ [txs ! i]"] Cons.prems(2,3) show ?case by (auto simp: step)
qed simp

lemma take_clusters_ok:
  assumes "available txs slots (set (concat cs) \<union> A)" "distinct (concat cs)" "set (concat cs) \<inter> A = {}"
  shows "\<exists>slots'. foldE take_cluster cs (taken, slots) = Inr (taken @ map (map ((!) txs)) cs, slots') \<and> available txs slots' A"
  using assms
proof (induction cs arbitrary: taken slots)
  case (Cons c cs)
  have "available txs slots (set c \<union> (set (concat cs) \<union> A))" using Cons.prems(1) by (simp add: Un_assoc)
  moreover have "distinct c" "set c \<inter> (set (concat cs) \<union> A) = {}" using Cons.prems(2,3) by auto
  ultimately obtain slots1 where "foldE take_slot c ([], slots) = Inr (map ((!) txs) c, slots1)"
    and after: "available txs slots1 (set (concat cs) \<union> A)"
    using take_slots_ok [of txs slots c "set (concat cs) \<union> A" "[]"] by auto
  then have step: "take_cluster c (taken, slots) = Inr (taken @ [map ((!) txs) c], slots1)" by (simp add: take_cluster_def)
  show ?case
    using Cons.IH [OF after, of "taken @ [map ((!) txs) c]"] Cons.prems(2,3) by (auto simp: step)
qed simp

lemma take_stages_ok:
  assumes "available txs slots (set (concat (concat ss)) \<union> A)" "distinct (concat (concat ss))" "set (concat (concat ss)) \<inter> A = {}"
  shows "\<exists>slots'. foldE take_stage ss (taken, slots) = Inr (taken @ map (map (map ((!) txs))) ss, slots') \<and> available txs slots' A"
  using assms
proof (induction ss arbitrary: taken slots)
  case (Cons s ss)
  have "available txs slots (set (concat s) \<union> (set (concat (concat ss)) \<union> A))" using Cons.prems(1) by (simp add: Un_assoc)
  moreover have "distinct (concat s)" "set (concat s) \<inter> (set (concat (concat ss)) \<union> A) = {}" using Cons.prems(2,3) by auto
  ultimately obtain slots1 where "foldE take_cluster s ([], slots) = Inr (map (map ((!) txs)) s, slots1)"
    and after: "available txs slots1 (set (concat (concat ss)) \<union> A)"
    using take_clusters_ok [of txs slots s "set (concat (concat ss)) \<union> A" "[]"] by auto
  then have step: "take_stage s (taken, slots) = Inr (taken @ [map (map ((!) txs)) s], slots1)" by (simp add: take_stage_def)
  show ?case
    using Cons.IH [OF after, of "taken @ [map (map ((!) txs)) s]"] Cons.prems(2,3)
    by (simp add: step Int_Un_distrib2)
qed simp

lemma foldE_collect:
  "(\<And>x. x \<in> set xs \<Longrightarrow> f x = Inr (g x)) \<Longrightarrow>
     foldE (\<lambda>x acc. bindE (f x) (\<lambda>r. Inr (acc @ [r]))) xs acc = Inr (acc @ map g xs)"
  by (induction xs arbitrary: acc) simp_all

section \<open>The phase\<close>

text \<open>What each tried number of stages yields, and how the phase is chosen from it.\<close>

text \<open>
  The rule of the choice: of the numbers of stages tried, the phase reaches 99.9 percent of the greatest total
  fee, with the fewest stages of all that reach it.
\<close>

definition fewest_stages ::
  "hashed_tx list \<Rightarrow> i64 \<Rightarrow> u32 \<Rightarrow> u32 \<Rightarrow> u32 \<Rightarrow> nat list list list \<Rightarrow> i64 \<Rightarrow> bool" where
  "fewest_stages txs max_insns max_clusters min_stages max_stages ids fee \<longleftrightarrow>
     (\<exists>threshold max_fee. permille_999 threshold max_fee \<and> threshold \<le> fee \<and>
        (\<exists>sc \<in> {unat min_stages..unat max_stages}. \<exists>ids'.
           build_with_stage_count txs max_insns max_clusters (word_of_nat sc) = Inr (ids', max_fee)) \<and>
        (\<forall>sc \<in> {unat min_stages..unat max_stages}. \<forall>ids' fee'.
           build_with_stage_count txs max_insns max_clusters (word_of_nat sc) = Inr (ids', fee') \<longrightarrow>
           fee' \<le> max_fee \<and> (threshold \<le> fee' \<longrightarrow> length ids \<le> length ids')))"

lemma build_phase_result:
  assumes "fees_ok txs" "0 \<le> max_insns" "max_insns \<le> i64_max" "nat max_insns * unat max_clusters < 2 ^ 64"
    and "txs \<noteq> []" "max_clusters \<noteq> 0"
  shows "\<exists>ids. build_parallel_soroban_phase txs max_insns max_clusters min_stages max_stages =
       Inr (map (map (map ((!) txs))) ids, length (concat (concat ids)) < length txs) \<and>
    distinct (concat (concat ids)) \<and> set (concat (concat ids)) \<subseteq> {..<length txs} \<and>
    (if min_stages \<le> max_stages
     then \<exists>sc \<in> {unat min_stages..unat max_stages}. \<exists>fee.
            build_with_stage_count txs max_insns max_clusters (word_of_nat sc) = Inr (ids, fee) \<and>
            phase_ids_ok txs max_insns max_clusters (word_of_nat sc) ids \<and>
            fewest_stages txs max_insns max_clusters min_stages max_stages ids fee
     else ids = [])"
proof -
  define build where "build sc = build_with_stage_count txs max_insns max_clusters (word_of_nat sc)" for sc
  define found where "found sc = projr (build sc)" for sc
  define scs where "scs = [unat min_stages..<Suc (unat max_stages)]"
  have scs: "set scs = {unat min_stages..unat max_stages}" by (auto simp: scs_def)
  have ok: "build sc = Inr (found sc)" "snd (found sc) = phase_fee txs (set (concat (concat (fst (found sc)))))"
    "phase_ids_ok txs max_insns max_clusters (word_of_nat sc) (fst (found sc))" for sc
    using build_with_stage_count_ok [OF assms(1-4), of "word_of_nat sc"] by (auto simp: found_def build_def)
  have results: "foldE (\<lambda>sc results. bindE (build sc) (\<lambda>result. Inr (results @ [result]))) scs [] = Inr (map found scs)"
    using foldE_collect [of scs build found "[]"] ok(1) by simp
  have fee_nonneg: "0 \<le> snd (found sc)" for sc
  proof -
    have "set (concat (concat (fst (found sc)))) \<subseteq> {..<length txs}" using ok(3) [of sc] by (simp add: phase_ids_ok_def)
    then have "0 \<le> (\<Sum>i \<in> set (concat (concat (fst (found sc)))). fee_of (txs ! i))"
      using assms(1) by (intro sum_nonneg) (auto simp: list_all_length)
    then show ?thesis by (simp add: ok(2) phase_fee_def range_defs)
  qed
  define max_fee where "max_fee = (if map found scs = [] then 0 else Max (set (map snd (map found scs))))"
  define ids where "ids = (case best_stages (fee_threshold max_fee) (map found scs) None of Some ids \<Rightarrow> ids | None \<Rightarrow> [])"
  have chosen: "if min_stages \<le> max_stages
     then \<exists>sc \<in> set scs. ids = fst (found sc) \<and> fee_threshold max_fee \<le> snd (found sc) \<and>
            (\<forall>sc' \<in> set scs. snd (found sc') \<le> max_fee \<and>
              (fee_threshold max_fee \<le> snd (found sc') \<longrightarrow> length ids \<le> length (fst (found sc')))) \<and>
            (\<exists>sc' \<in> set scs. snd (found sc') = max_fee) \<and> 0 \<le> max_fee
     else ids = []"
  proof (cases "min_stages \<le> max_stages")
    case True
    then have le: "unat min_stages \<le> unat max_stages" by (simp add: word_le_nat_alt)
    then have "scs \<noteq> []" by (simp add: scs_def)
    then have max: "max_fee = Max (snd ` found ` set scs)" by (simp add: max_fee_def image_image)
    have fin: "finite (snd ` found ` set scs)" "snd ` found ` set scs \<noteq> {}" using le by (auto simp: scs)
    from Max_in [OF fin] obtain sc0 where sc0: "sc0 \<in> set scs" "snd (found sc0) = max_fee"
      unfolding max [symmetric] by auto
    have le_max: "snd (found sc') \<le> max_fee" if "sc' \<in> set scs" for sc'
      unfolding max using that fin by (intro Max_ge) auto
    have "0 \<le> max_fee" using fee_nonneg [of sc0] sc0(2) by simp
    note bounds = fee_threshold_bounds [OF this]
    show ?thesis
    proof (cases "best_stages (fee_threshold max_fee) (map found scs) None")
      case None
      with best_stages_spec [where threshold = "fee_threshold max_fee" and results = "map found scs" and best = None] sc0 bounds show ?thesis by force
    next
      case (Some b)
      with best_stages_spec [where threshold = "fee_threshold max_fee" and results = "map found scs" and best = None]
      obtain sc where "sc \<in> set scs" "b = fst (found sc)" "fee_threshold max_fee \<le> snd (found sc)"
        "\<forall>p \<in> set (map found scs). fee_threshold max_fee \<le> snd p \<longrightarrow> length b \<le> length (fst p)"
        by (auto simp: image_iff) (metis fst_conv snd_conv)
      with Some le_max sc0 \<open>0 \<le> max_fee\<close> True show ?thesis by (auto simp: ids_def)
    qed
  next
    case False
    then have "scs = []" by (simp add: scs_def word_le_nat_alt)
    then show ?thesis using False by (simp add: ids_def)
  qed
  have inside: "distinct (concat (concat ids)) \<and> set (concat (concat ids)) \<subseteq> {..<length txs}"
    using chosen ok(3) by (fastforce simp: phase_ids_ok_def split: if_splits)
  have "available txs (map Some txs) (set (concat (concat ids)) \<union> {})" 
  proof -
    have "i < length txs" if "i \<in> set (concat (concat ids))" for i using inside that by blast
    then show ?thesis by (auto simp: available_def)
  qed
  from take_stages_ok [OF this conjunct1 [OF inside] Int_empty_right, of "[]"] obtain slots
    where taken: "foldE take_stage ids ([], map Some txs) = Inr (map (map (map ((!) txs))) ids, slots)" by auto
  have run: "build_parallel_soroban_phase txs max_insns max_clusters min_stages max_stages =
      Inr (map (map (map ((!) txs))) ids, length (concat (concat ids)) < length txs)"
    unfolding build_parallel_soroban_phase_def build_def [symmetric] scs_def [symmetric]
    unfolding results bindE_simps Let_def
    unfolding max_fee_def [symmetric]
    unfolding ids_def [symmetric]
    using assms(5,6) by (simp add: taken length_concat)
  show ?thesis
  proof (intro exI [of _ ids] conjI run conjunct1 [OF inside] conjunct2 [OF inside])
    show "if min_stages \<le> max_stages
     then \<exists>sc \<in> {unat min_stages..unat max_stages}. \<exists>fee.
            build_with_stage_count txs max_insns max_clusters (word_of_nat sc) = Inr (ids, fee) \<and>
            phase_ids_ok txs max_insns max_clusters (word_of_nat sc) ids \<and>
            fewest_stages txs max_insns max_clusters min_stages max_stages ids fee
     else ids = []"
    proof (cases "min_stages \<le> max_stages")
      case True
      with chosen obtain sc top where sc: "sc \<in> set scs" "ids = fst (found sc)" "fee_threshold max_fee \<le> snd (found sc)"
        "0 \<le> max_fee" and top: "top \<in> set scs" "snd (found top) = max_fee"
        and best: "\<And>sc'. sc' \<in> set scs \<Longrightarrow> snd (found sc') \<le> max_fee \<and>
          (fee_threshold max_fee \<le> snd (found sc') \<longrightarrow> length ids \<le> length (fst (found sc')))" by auto
      have "fewest_stages txs max_insns max_clusters min_stages max_stages ids (snd (found sc))"
        unfolding fewest_stages_def build_def [symmetric] scs [symmetric]
      proof (rule exI [of _ "fee_threshold max_fee"], rule exI [of _ max_fee],
          intro conjI bexI [OF _ top(1)] ballI allI impI)
        show "\<exists>ids'. build top = Inr (ids', max_fee)" using ok(1) [of top] top(2) by (metis prod.collapse)
        show "fee' \<le> max_fee" "fee_threshold max_fee \<le> fee' \<Longrightarrow> length ids \<le> length ids'"
          if "sc' \<in> set scs" "build sc' = Inr (ids', fee')" for sc' ids' fee'
          using best [OF that(1)] that(2) by (auto simp: found_def)
      qed (use fee_threshold_bounds(2) [OF sc(4)] sc(3) in blast)+
      moreover have "build sc = Inr (ids, snd (found sc))" using ok(1) [of sc] sc(2) by simp
      moreover have "phase_ids_ok txs max_insns max_clusters (word_of_nat sc) ids" using ok(3) [of sc] sc(2) by simp
      ultimately show ?thesis
        unfolding if_P [OF True] build_def [symmetric] scs [symmetric] using sc(1) by blast
    qed (use chosen in simp)
  qed
qed

lemma phase_of_result_safe:
  assumes "fees_ok txs"
    and "0 \<le> max_insns" "max_insns \<le> i64_max" "nat max_insns * unat max_clusters < 2 ^ 64"
    and "max_clusters \<noteq> 0"
    and "build_parallel_soroban_phase txs max_insns max_clusters min_stages max_stages = Inr (stages, dropped)"
  shows "(\<forall>stage \<in> set stages. stage \<noteq> [] \<and> length stage \<le> unat max_clusters \<and>
            sorted_wrt (\<lambda>c d. \<forall>a \<in> set c. \<forall>b \<in> set d. \<not> conflicting a b) stage) \<and>
         length stages \<le> unat max_stages \<and>
         int (\<Sum>stage \<leftarrow> stages. Max (set (map (\<lambda>c. sum_list (map tx_instructions c)) stage))) \<le> max_insns"
proof (cases "txs = [] \<or> max_stages < min_stages")
  case True
  then have "stages = []"
  proof
    assume nonempty: "max_stages < min_stages"
    show "stages = []"
    proof (cases "txs = []")
      case False
      show ?thesis
        using build_phase_result [OF assms(1-4) False assms(5), of min_stages max_stages] assms(6) nonempty
        by (auto simp: not_le [symmetric])
    qed (use assms(6) in \<open>simp add: build_parallel_soroban_phase_def\<close>)
  qed (use assms(6) in \<open>simp add: build_parallel_soroban_phase_def\<close>)
  then show ?thesis using assms(2) by simp
next
  case False
  then have nonempty: "txs \<noteq> []" "min_stages \<le> max_stages" by (simp_all add: not_less)
  obtain ids sc where ids: "stages = map (map (map ((!) txs))) ids" "sc \<le> unat max_stages"
    "phase_ids_ok txs max_insns max_clusters (word_of_nat sc) ids"
    using build_phase_result [OF assms(1-4) nonempty(1) assms(5), of min_stages max_stages] assms(6) nonempty(2)
    by (simp only: if_True sum.inject prod.inject) auto
  have "sc < 2 ^ 32" using ids(2) unat_u32_bound [of max_stages] by simp
  then have sc: "unat (word_of_nat sc :: u32) = sc" by (simp add: unat_of_nat)
  note ok = ids(3) [unfolded phase_ids_ok_def sc]
  have cost: "Max (set (map (\<lambda>c. sum_list (map tx_instructions c)) stage)) \<le> nat max_insns div sc"
    if "stage \<in> set stages" for stage
  proof -
    from that ids(1) obtain st where st: "st \<in> set ids" "stage = map (map ((!) txs)) st" by auto
    then have "set (map (\<lambda>c. sum_list (map tx_instructions c)) stage) \<noteq> {}"
      "\<forall>n \<in> set (map (\<lambda>c. sum_list (map tx_instructions c)) stage). n \<le> nat max_insns div sc"
      using ok by (auto simp: comp_def)
    then show ?thesis by (simp add: Max_le_iff)
  qed
  have "(\<Sum>stage \<leftarrow> stages. Max (set (map (\<lambda>c. sum_list (map tx_instructions c)) stage)))
      \<le> (\<Sum>stage \<leftarrow> stages. nat max_insns div sc)"
    by (intro sum_list_mono cost)
  also have "\<dots> = length stages * (nat max_insns div sc)" by (simp add: sum_list_triv)
  also have "\<dots> \<le> sc * (nat max_insns div sc)" using ok ids(1) by simp
  also have "\<dots> \<le> nat max_insns" by simp
  finally have "int (\<Sum>stage \<leftarrow> stages. Max (set (map (\<lambda>c. sum_list (map tx_instructions c)) stage))) \<le> max_insns"
    using assms(2) by linarith
  moreover have "length stages \<le> unat max_stages" using ok ids(1,2) by simp
  moreover have "stage \<noteq> [] \<and> length stage \<le> unat max_clusters \<and>
      sorted_wrt (\<lambda>c d. \<forall>a \<in> set c. \<forall>b \<in> set d. \<not> conflicting a b) stage" if "stage \<in> set stages" for stage
    using that ok ids(1) by (auto simp: sorted_wrt_map)
  ultimately show ?thesis by blast
qed


lemma taken_transactions:
  assumes "distinct (concat (concat ids))" "set (concat (concat ids)) \<subseteq> {..<length txs}"
  defines "stages \<equiv> map (map (map ((!) txs))) ids"
  shows "mset (concat (concat stages)) \<subseteq># mset txs"
    and "length (concat (concat ids)) < length txs \<longleftrightarrow> mset (concat (concat stages)) \<noteq> mset txs"
proof -
  have flat: "concat (concat stages) = map ((!) txs) (concat (concat ids))"
    by (simp add: stages_def map_concat comp_def)
  have "mset (concat (concat ids)) \<subseteq># mset [0..<length txs]"
  proof (rule mset_subset_eqI)
    fix i
    show "count (mset (concat (concat ids))) i \<le> count (mset [0..<length txs]) i"
      using assms(1,2) distinct_count_atmost_1 [of "concat (concat ids)"] distinct_count_atmost_1 [of "[0..<length txs]"]
      by auto
  qed
  then show sub: "mset (concat (concat stages)) \<subseteq># mset txs"
    using image_mset_subseteq_mono [of _ _ "(!) txs"] by (metis flat map_nth mset_map)
  have size: "size (mset (concat (concat stages))) = length (concat (concat ids))" unfolding flat by simp
  show "length (concat (concat ids)) < length txs \<longleftrightarrow> mset (concat (concat stages)) \<noteq> mset txs"
    using size size_mset [of txs] sub mset_subset_size [of "mset (concat (concat stages))" "mset txs"]
    by (metis less_irrefl subset_mset.le_imp_less_or_eq)
qed

text \<open>
  C5. When no inclusion fee is negative and the instructions of a ledger times the clusters of a stage fit in
  64 bits, building the parallel phase never panics (no cluster is in two bins, no transaction is taken
  twice, nothing overflows). Without transactions the phase is empty, without clusters it is one cluster of
  all of them, and with an empty range of numbers of stages it is empty and tells that transactions were
  left out. Otherwise it consists of the given transactions, each at most once; the flag tells whether one
  was left out; and of the numbers of stages in the range, the one chosen reaches 99.9 percent of the
  greatest total inclusion fee (as a double rounds it) with the fewest stages of all that reach it.
\<close>

theorem parallel_phase_returns:
  assumes "list_all (\<lambda>htx. 0 \<le> tx_inclusion_fee (htx_envelope htx)) txs"
    and "0 \<le> max_insns" "max_insns \<le> i64_max" "nat max_insns * unat max_clusters < 2 ^ 64"
  shows "let phase = build_parallel_soroban_phase txs max_insns max_clusters min_stages max_stages in
    if txs = [] then phase = Inr ([], False)
    else if max_clusters = 0 then phase = Inr ([[txs]], False)
    else if max_stages < min_stages then phase = Inr ([], True)
    else \<exists>ids sc fee. let stages = map (map (map ((!) txs))) ids in
      phase = Inr (stages, mset (concat (concat stages)) \<noteq> mset txs) \<and>
      mset (concat (concat stages)) \<subseteq># mset txs \<and>
      unat min_stages \<le> sc \<and> sc \<le> unat max_stages \<and>
      build_with_stage_count txs max_insns max_clusters (word_of_nat sc) = Inr (ids, fee) \<and>
      fewest_stages txs max_insns max_clusters min_stages max_stages ids fee"
proof (cases "txs = [] \<or> max_clusters = 0")
  case True
  then show ?thesis by (auto simp: build_parallel_soroban_phase_def)
next
  case False
  then obtain ids where ids:
    "build_parallel_soroban_phase txs max_insns max_clusters min_stages max_stages =
       Inr (map (map (map ((!) txs))) ids, length (concat (concat ids)) < length txs)"
    "distinct (concat (concat ids))" "set (concat (concat ids)) \<subseteq> {..<length txs}"
    and best: "if min_stages \<le> max_stages
      then \<exists>sc \<in> {unat min_stages..unat max_stages}. \<exists>fee.
            build_with_stage_count txs max_insns max_clusters (word_of_nat sc) = Inr (ids, fee) \<and>
            phase_ids_ok txs max_insns max_clusters (word_of_nat sc) ids \<and>
            fewest_stages txs max_insns max_clusters min_stages max_stages ids fee
      else ids = []"
    using build_phase_result [OF assms, of min_stages max_stages] by blast
  have shown: "let stages = map (map (map ((!) txs))) ids in
      build_parallel_soroban_phase txs max_insns max_clusters min_stages max_stages =
        Inr (stages, mset (concat (concat stages)) \<noteq> mset txs) \<and>
      mset (concat (concat stages)) \<subseteq># mset txs"
    using ids(1) taken_transactions [OF ids(2,3)] by (simp only: Let_def)
  show ?thesis
  proof (cases "min_stages \<le> max_stages")
    case True
    with best obtain sc fee where "unat min_stages \<le> sc" "sc \<le> unat max_stages"
      "build_with_stage_count txs max_insns max_clusters (word_of_nat sc) = Inr (ids, fee)"
      "fewest_stages txs max_insns max_clusters min_stages max_stages ids fee" by auto
    with shown True False show ?thesis unfolding Let_def by (auto simp: not_less)
  next
    case empty: False
    with ids(1) best False show ?thesis by (simp add: Let_def not_le)
  qed
qed

text \<open>
  C15. In the parallel phase, transactions of different clusters of a stage never conflict: none writes a key that
  the other reads or writes, so that clusters may run at the same time. There are at most the allowed
  clusters in a stage, and running the stages one after the other, each as long as its longest cluster,
  stays within the instructions of the ledger.
\<close>

theorem parallel_phase_safe:
  assumes "list_all (\<lambda>htx. 0 \<le> tx_inclusion_fee (htx_envelope htx)) txs"
    and "0 \<le> max_insns" "max_insns \<le> i64_max" "nat max_insns * unat max_clusters < 2 ^ 64"
    and "max_clusters \<noteq> 0"
  shows "\<exists>stages dropped.
    build_parallel_soroban_phase txs max_insns max_clusters min_stages max_stages = Inr (stages, dropped) \<and>
    (\<forall>stage \<in> set stages. stage \<noteq> [] \<and> length stage \<le> unat max_clusters \<and>
       sorted_wrt (\<lambda>c d. \<forall>a \<in> set c. \<forall>b \<in> set d. \<not> conflicting a b) stage) \<and>
    length stages \<le> unat max_stages \<and>
    int (\<Sum>stage \<leftarrow> stages. Max (set (map (\<lambda>c. sum_list (map tx_instructions c)) stage))) \<le> max_insns"
proof -
  obtain stages dropped
    where "build_parallel_soroban_phase txs max_insns max_clusters min_stages max_stages = Inr (stages, dropped)"
  proof (cases "txs = []")
    case True
    with that [of "[]" False] show thesis by (simp add: build_parallel_soroban_phase_def)
  next
    case False
    from build_phase_result [OF assms(1-4) this assms(5), of min_stages max_stages] that show thesis by blast
  qed
  with phase_of_result_safe [OF assms this] show ?thesis by blast
qed

text \<open>A set of three transactions: the first writes a key that the second reads.\<close>

definition soroban_tx :: "bytes \<Rightarrow> ledger_key list \<Rightarrow> ledger_key list \<Rightarrow> hashed_tx" where
  "soroban_tx h ro rw = \<lparr>htx_hash = h, htx_envelope = Tx \<lparr>v1_source = Ed25519 [], v1_fee = 150, v1_seq_num = 1,
     v1_operations = [InvokeHostFunction],
     v1_ext = ExtV1 \<lparr>data_ext = DataV0, resources = \<lparr>read_only = ro, read_write = rw, instructions = 40,
       disk_read_bytes = 0, write_bytes = 0\<rparr>, resource_fee = 50\<rparr>, v1_xdr_len = 100\<rparr>\<rparr>"

definition three_txs :: "hashed_tx list" where
  "three_txs = [soroban_tx [1] [] [\<lparr>key_type = ContractData, key_xdr = [7]\<rparr>],
                soroban_tx [2] [\<lparr>key_type = ContractData, key_xdr = [7]\<rparr>] [],
                soroban_tx [3] [] [\<lparr>key_type = ContractData, key_xdr = [8]\<rparr>]]"

lemma three_txs_fees: "list_all (\<lambda>htx. 0 \<le> tx_inclusion_fee (htx_envelope htx)) three_txs"
  by (simp add: three_txs_def soroban_tx_def tx_inclusion_fee_def envelope_inclusion_fee_def
      saturating_sub_resource_def i64_saturating_def range_defs)

theorem parallel_phase_returns_witness:
  "\<exists>ids fee. let stages = map (map (map ((!) three_txs))) ids in
     build_parallel_soroban_phase three_txs 80 2 1 2 = Inr (stages, mset (concat (concat stages)) \<noteq> mset three_txs) \<and>
     mset (concat (concat stages)) \<subseteq># mset three_txs \<and>
     fewest_stages three_txs 80 2 1 2 ids fee"
proof -
  have "three_txs \<noteq> []" by (simp add: three_txs_def)
  with parallel_phase_returns [OF three_txs_fees, of 80 2 1 2] show ?thesis
    by (simp add: range_defs Let_def) blast
qed

theorem parallel_phase_safe_witness:
  "conflicting (three_txs ! 0) (three_txs ! 1) \<and>
   (\<exists>stages dropped. build_parallel_soroban_phase three_txs 80 2 1 2 = Inr (stages, dropped) \<and>
     length stages \<le> 2 \<and> (\<forall>stage \<in> set stages. length stage \<le> 2))"
proof -
  have "conflicting (three_txs ! 0) (three_txs ! 1)"
    by (simp add: three_txs_def soroban_tx_def conflicting_def read_keys_def written_keys_def ledger_key_bytes_def)
  moreover have "\<exists>stages dropped. build_parallel_soroban_phase three_txs 80 2 1 2 = Inr (stages, dropped) \<and>
     length stages \<le> 2 \<and> (\<forall>stage \<in> set stages. length stage \<le> 2)"
    using parallel_phase_safe [OF three_txs_fees, of 80 2 1 2] by (auto simp: range_defs)
  ultimately show ?thesis by blast
qed

end
