(* ===== verification/Spec2Isabelle.thy ===== *)
theory Spec2Isabelle
  imports Nomination_Leaders Slot_Safety Exchange_Correct Pool_Accounting Bucket_List_Refinement
    Parallel_Phase
begin

text \<open>
  A development of the consensus core of henyey, a Stellar validator in Rust.

  \<^bold>\<open>The program.\<close> A validator (\<open>crates/app\<close>) runs the Stellar Consensus Protocol (\<open>crates/scp\<close>) through
  the herder (\<open>crates/herder\<close>), applies the transaction sets on which it agrees (\<open>crates/tx\<close>,
  \<open>crates/ledger\<close>), keeps the ledger state in the bucket list (\<open>crates/bucket\<close>), and exchanges messages with
  its peers (\<open>crates/overlay\<close>). This development covers four parts of it: the consensus protocol, through which
  every decision a node takes about a slot goes; the selection of transactions for a set; of the execution of transactions, the arithmetic of the order book and
  of liquidity pools on the balances they move; and the bucket list, in which the state of every closed ledger is kept.

  \<^bold>\<open>Consensus\<close> (paths under \<open>src/crates/scp/src\<close>).

  \<^item> \<open>Quorum\<close>: \<open>quorum.rs\<close>. Quorum sets (a threshold, validators, inner sets), slices, v-blocking sets, the
    pruning loop \<open>is_quorum\<close>, the sanity check with its running state, normalisation and
    \<open>find_closest_v_blocking\<close>. \<open>Quorum_Correct\<close> relates each of them to its meaning (C1 to C4).
  \<^item> \<open>Statements\<close>: \<open>compare.rs\<close> and the statement helpers of \<open>ballot/statements.rs\<close> and \<open>slot.rs\<close>: ballots,
    pledges, the order of ballots and the freshness of statements (\<open>Freshness\<close>, C6).
  \<^item> \<open>Ballot\<close>: the state of \<open>BallotProtocol\<close> (\<open>ballot/mod.rs\<close>), its accessors and the statement side of
    \<open>ballot/statements.rs\<close>: sanity, validation, federated voting. \<open>Ballot_Machine\<close>: the transitions of
    \<open>ballot/state_machine.rs\<close>, the emission of \<open>ballot/envelope.rs\<close> and the entry points of
    \<open>ballot/mod.rs\<close>. The Rust code calls itself through emission: \<open>emit_current_state\<close> processes the node's own
    envelope, which calls \<open>advance_slot\<close>, which may emit again. The model ties this knot with a
    parameter \<open>emit\<close> of every transition and the instance \<open>emit_now\<close>.
  \<^item> \<open>Ballot_Steps\<close> cuts each entry point into the steps of the relation \<open>ballot_step\<close> (a rule for each
    of the accepted, confirmed and bumped transitions, and one for bookkeeping), so that a
    property of the steps holds of all entry points. An \<open>own_run\<close> is such a sequence that stores no
    envelope of a peer; \<open>flags_kept\<close> says what it may do to the validation flags. \<open>Ballot_Progress\<close>, \<open>Ballot_Safety\<close>,
    \<open>Ballot_Emission\<close>, \<open>Ballot_Total\<close>, \<open>Ballot_Agreement\<close> and \<open>Ballot_Recovery\<close> hold the properties C7 to C14.
  \<^item> \<open>Nomination\<close>: \<open>nomination.rs\<close> and the node weights of \<open>driver.rs\<close>; \<open>Nomination_Steps\<close> its step relation
    \<open>nom_step\<close>; \<open>Nomination_Safety\<close>, \<open>Nomination_Progress\<close> and \<open>Nomination_Leaders\<close> hold C16 to C22.
  \<^item> \<open>Slot\<close>: \<open>slot.rs\<close>. The slot routes envelopes and timeouts to its two protocols, hands the composite
    candidate of nomination to the ballot protocol, and keeps a record of its own of
    externalisation, validation and v-blocking; \<open>Slot_Safety\<close> holds C23 to C26.

  \<^bold>\<open>The states these properties speak of.\<close> \<open>ballot_reachable\<close> holds of the states a ballot protocol takes
  through its inputs (envelopes, bumps, timeouts, abandoned ballots, bumped states) and the setters of
  the slot. \<open>ballot_state\<close> adds the two ways around the inputs: \<open>force_externalize\<close>, with which catchup declares a slot
  externalised, and \<open>set_state_from_envelope\<close>, which restores a statement emitted before a restart; C8 and C9 hold of these, and
  C9 says what of it is lost by them. \<open>slot_reachable\<close> holds of the states of a slot under all its inputs, forced
  externalisation and restoring, where a restored nomination accepts only values it votes for.

  \<^bold>\<open>Transaction sets\<close> (paths under \<open>src/crates\<close>).

  \<^item> \<open>Envelopes\<close>: what the herder reads of a transaction envelope (\<open>tx/src/envelope_utils.rs\<close>, \<open>fees.rs\<close>,
    \<open>frame.rs\<close>, \<open>herder/src/tx_set_utils.rs\<close>), and panics as values. \<open>Resource\<close>: resource vectors
    (\<open>common/src/resource.rs\<close>) and the resources of an envelope.
  \<^item> \<open>Parallel_Builder\<close>: \<open>herder/src/parallel_tx_set_builder.rs\<close>, which distributes Soroban transactions over stages
    and clusters for parallel execution. \<open>Parallel_Bits\<close>: bit sets as finite sets (the locale \<open>finite_set_rep\<close>) and
    the meaning of the conflict sets. \<open>Parallel_Stages\<close>: the packing of clusters into bins.
    \<open>Parallel_Safety\<close>: the locale \<open>conflict_graph\<close> (symmetric conflicts and instructions), under which adding a
    transaction keeps the invariant of a stage. \<open>Parallel_Phase\<close> interprets it on the transactions of a set
    and holds C5 and C15.

  \<^bold>\<open>Exchange and liquidity pools\<close> (paths under \<open>src/crates/tx/src/operations/execute\<close>).

  \<^item> \<open>Amounts\<close>: the 64- and 128-bit integers of the arithmetic below, as integers with their ranges and casts.
  \<^item> \<open>Exchange\<close>: \<open>offer_exchange.rs\<close>, the exchange of an offer with a taker under the rounding rules of
    protocol 10. \<open>Exchange_Correct\<close> holds C27 to C29.
  \<^item> \<open>Ledger_State\<close>: accounts, trustlines and pools with their balances, liabilities and authorisation
    (\<open>checked_types.rs\<close> of \<open>crates/common\<close>, \<open>mod.rs\<close>, \<open>state/mod.rs\<close>), as far as the operations below
    read and write them.
  \<^item> \<open>Liquidity_Pool\<close>: \<open>liquidity_pool.rs\<close> (deposits and withdrawals) and the exchange of a path payment with a
    pool (\<open>path_payment.rs\<close>). \<open>Liquidity_Pool_Safety\<close> holds the arithmetic of pools (C30 to C32),
    \<open>Pool_Accounting\<close> what the operations do to the ledger (C33, C34).

  \<^bold>\<open>Buckets\<close> (paths under \<open>src/crates/bucket/src\<close>).

  \<^item> \<open>Bucket_Entries\<close>: \<open>entry.rs\<close> and \<open>bucket.rs\<close>, the entries of a bucket with their order, the
    check of sortedness, and a bucket in memory with its index.
  \<^item> \<open>Bucket_Merge\<close>: \<open>merge.rs\<close>, the merge of CAP-0020 in its four implementations. \<open>Bucket_Merge_Correct\<close>
    relates the merge loop to the reference function \<open>merged\<close>; \<open>Bucket_Merge_Props\<close> holds C35 to C37.
  \<^item> \<open>Bucket_List\<close>: \<open>bucket_list.rs\<close>, the eleven levels, when they spill, the merges pending between them,
    adding the batch of a ledger, lookup, advancing through empty ledgers and restarting merges.
  \<^item> \<open>Bucket_List_Correct\<close>: the arithmetic of spills, the entries of a key from the newest bucket to the oldest,
    and the result of a background merge. \<open>Bucket_List_Steps\<close>: the invariant of the levels and, in closed
    form, what the spills of a ledger make of them. \<open>Bucket_List_Batch\<close>: the batch and level 0.
    \<open>Bucket_List_Refinement\<close>: the histories of a list and C38 to C40.

  \<^bold>\<open>How state and operations correspond to the code.\<close> A Rust struct is a record with the fields of the struct
  (\<open>np_\<close> marks those of nomination, \<open>sl_\<close> those of the slot, since field names are global); a method
  with \<open>&mut self\<close> takes the record last and returns it updated. An enum is a datatype with the source's
  constructors. \<open>u32\<close> and \<open>u64\<close> are words of their width: \<open>+\<close> wraps as in a release build, and saturating
  operations are written out. A \<open>HashMap\<close> is an association list read by \<open>map_of\<close> and written by
  \<open>AList.update\<close>, a \<open>BTreeSet\<close> a strictly increasing list, a \<open>HashSet\<close> a set or a list where its order
  is not observable. Logging and \<open>debug_assert!\<close> have no effect in a release build and are left out. A panic
  (\<open>panic!\<close>, a failed \<open>unwrap\<close> or \<open>expect\<close>) is a value of a fault type (\<open>fault\<close>, \<open>nomination_fault\<close>,
  \<open>slot_fault\<close>), the left side of a sum.

  The driver (\<open>SCPDriver\<close>) is code outside the crate: its queries (validation, value combination and
  extraction, hashes, node weights, timeouts, quorum set lookup, signatures) are the fields of the record
  \<open>scp_driver\<close>, a parameter of the model through \<open>slot_context\<close>; its callbacks are appended to a log of
  the state (\<open>events\<close>, \<open>np_events\<close>, \<open>sl_events\<close>) in the order in which they are made, so that a property can
  speak of what is announced, sent and armed. The queries are functions: the driver answers the same question the
  same way at any time. A mutating closure (\<open>FnMut\<close>) threads an explicit state.

  An \<open>i64\<close> amount is an \<open>int\<close>; every operation of the source that may leave its range is written with its check,
  its wrap or its cast. The state of the ledger is a record of maps; a pool id, an XDR hash in the source, is
  given by a function that is a parameter, and the frozen keys of the configuration are a predicate. Ledger keys and the data of entries are type
  parameters of the bucket theories, the keys in a linear order; of the hash of a bucket only whether it is
  the zero hash matters to the code and is kept. A merge in the background is its result; waiting for it is reading it, and a panic of
  it, which a release build does not survive, is an error that C38 shows never to occur.

  \<^bold>\<open>Bounds and fuel.\<close> \<open>emit_fuel\<close> is 50, the nesting at which \<open>advance_slot\<close> of the source panics; C11 proves
  that the fuel never runs out before that limit. The leader election of nomination stops after 1000
  rounds as in the source. The self-emission of nomination has no limit in the source: it is a
  \<open>partial_function\<close> in the option monad, and C19 proves that it returns when the values the driver extracts
  are finitely many. All other loops are structural or have a measure.

  \<^bold>\<open>Groups of lemmas.\<close> Correctness of quorum operations against slices and quorums as sets; freshness as a
  strict order; the invariants of a reachable ballot, nomination and slot state, each by rule induction over
  the step relation; what a node has said (its emitted statements increase, one value is
  announced, at most one value is committed), from which the agreement of two nodes follows (C12); the
  return of every entry point (C11, C19, C26; the last two where the driver extracts finitely many values from
  finitely many); restoring from the last statement (C14). Bounds of exchanged
  amounts, the optimality of pool exchanges, reserves behind pool shares, and the accounts' side of
  pool operations. Well-formedness and meaning of merged buckets, the agreement of the merge implementations, and the
  refinement of a map from keys to entries by the bucket list, from which it follows that no ledger finds it stuck
  and that a restart restores it. These last hold from protocol 12 on, without shadows.

  \<^bold>\<open>Not modelled.\<close> XDR encoding, hashing and signing (parameters, or only the fields they fill in), the length
  limits of XDR vectors, memory exhaustion, the JSON reports (\<open>info.rs\<close>, \<open>get_info\<close>,
  \<open>get_json_quorum_info\<close>); of the ledger its snapshots, deltas and metadata, and all operations but those named above; of
  buckets their files, caches, statistics, the merge map, eviction and the hot archive; and the crates
  around these parts, which the manifest lists.
\<close>

end
